(* ===== verification/H2_Prelude.thy ===== *)
theory H2_Prelude
  imports Main "HOL-Library.Word"
begin

text \<open>
  The vocabulary every component shares: Go's machine integers as words, byte
  slices as lists of 8-bit words, Go strings as lists of characters with their
  conversion to and from bytes, the big-endian layout of \<^verbatim>\<open>encoding/binary\<close>, the
  sequencing of fallible calls, and the generic lemmas on lists, words and maps
  that the component proofs rest on.
\<close>

unbundle bit_operations_syntax

section \<open>Go's basic types\<close>

type_synonym byte = "8 word"
type_synonym u16 = "16 word"
type_synonym u32 = "32 word"
type_synonym u64 = "64 word"
type_synonym bytes = "byte list"

text \<open>Facts about single bits and masks of words.\<close>
named_theorems mask_simps
text \<open>Facts that evaluate readers on the output of the matching writers.\<close>
named_theorems wire_simps
text \<open>The conjuncts of the components' invariants and their preservation.\<close>
named_theorems inv_intros

section \<open>Strings and bytes\<close>

text \<open>\<^verbatim>\<open>[]byte(s)\<close> and \<^verbatim>\<open>string(b)\<close>: Go strings are byte sequences.\<close>

definition byte_of :: "char \<Rightarrow> byte" where
  "byte_of c = of_char c"

definition char_at :: "byte \<Rightarrow> char" where
  "char_at b = char_of (unat b)"

definition bytes_of :: "string \<Rightarrow> bytes" where
  "bytes_of s = map byte_of s"

definition string_of :: "bytes \<Rightarrow> string" where
  "string_of bs = map char_at bs"

section \<open>Fallible calls\<close>

text \<open>
  A Go call that returns \<^verbatim>\<open>(v, err)\<close> is a value of a sum type: \<open>Inl\<close> the
  error, \<open>Inr\<close> the value. \<open>and_then\<close> is \<^verbatim>\<open>if err != nil { return err }\<close>.
\<close>

fun and_then :: "'e + 'a \<Rightarrow> ('a \<Rightarrow> 'e + 'b) \<Rightarrow> 'e + 'b" where
  "and_then (Inl e) f = Inl e"
| "and_then (Inr x) f = f x"

section \<open>Byte order\<close>

text \<open>\<^verbatim>\<open>writeUint16\<close>, \<^verbatim>\<open>writeUint32\<close> and \<^verbatim>\<open>binary.BigEndian\<close>.\<close>

definition put_uint16 :: "u16 \<Rightarrow> bytes" where
  "put_uint16 v = [ucast (drop_bit 8 v), ucast v]"

definition put_uint32 :: "u32 \<Rightarrow> bytes" where
  "put_uint32 v =
     [ucast (drop_bit 24 v), ucast (drop_bit 16 v), ucast (drop_bit 8 v), ucast v]"

definition be_uint16 :: "byte \<Rightarrow> byte \<Rightarrow> u16" where
  "be_uint16 a b = push_bit 8 (ucast a) OR ucast b"

definition be_uint32 :: "byte \<Rightarrow> byte \<Rightarrow> byte \<Rightarrow> byte \<Rightarrow> u32" where
  "be_uint32 a b c d =
     push_bit 24 (ucast a) OR push_bit 16 (ucast b) OR push_bit 8 (ucast c) OR ucast d"

section \<open>Generic lemmas\<close>

subsection \<open>Strings\<close>

lemma unat_byte_of [simp]: "unat (byte_of c) = of_char c"
proof -
  have "(of_char c :: byte) = word_of_nat (of_char c)"
    by (simp only: of_nat_of_char)
  then show ?thesis
    by (simp add: byte_of_def unat_of_nat take_bit_eq_mod del: of_nat_of_char)
qed

lemma char_at_byte_of [simp]: "char_at (byte_of c) = c"
  by (simp add: char_at_def)

lemma byte_of_char_at [simp]: "byte_of (char_at b) = b"
proof -
  have "unat b < 256"
    using unsigned_less [of b] by simp
  then have "unat (byte_of (char_at b)) = unat b"
    by (simp add: char_at_def of_char_of)
  then show ?thesis by (simp only: word_unat_eq_iff)
qed

lemma string_of_bytes_of [simp]: "string_of (bytes_of s) = s"
  by (simp add: string_of_def bytes_of_def comp_def)

lemma bytes_of_string_of [simp]: "bytes_of (string_of bs) = bs"
  by (simp add: string_of_def bytes_of_def comp_def)

lemma length_bytes_of [simp]: "length (bytes_of s) = length s"
  by (simp add: bytes_of_def)

lemma length_string_of [simp]: "length (string_of s) = length s"
  by (simp add: string_of_def)

subsection \<open>Sums\<close>

lemma and_then_Inr_iff [simp]:
  "and_then r f = Inr y \<longleftrightarrow> (\<exists>x. r = Inr x \<and> f x = Inr y)"
  by (cases r) auto

lemma and_then_Inl_iff [simp]:
  "and_then r f = Inl e \<longleftrightarrow> r = Inl e \<or> (\<exists>x. r = Inr x \<and> f x = Inl e)"
  by (cases r) auto

subsection \<open>Words\<close>

lemma mask_numerals [mask_simps]:
  "(127 :: 'a::len word) = mask 7" "(63 :: 'a word) = mask 6" "(15 :: 'a word) = mask 4"
  "(255 :: 'a word) = mask 8" "(31 :: 'a word) = mask 5"
  by (simp_all add: mask_eq_exp_minus_1)

lemma bit_flag [mask_simps]:
  "bit (128 :: 'a::len word) n \<longleftrightarrow> n = 7 \<and> 7 < LENGTH('a)"
  "bit (64 :: 'a word) n \<longleftrightarrow> n = 6 \<and> 6 < LENGTH('a)"
  "bit (32 :: 'a word) n \<longleftrightarrow> n = 5 \<and> 5 < LENGTH('a)"
  "bit (16 :: 'a word) n \<longleftrightarrow> n = 4 \<and> 4 < LENGTH('a)"
  using bit_exp_iff [where ?'a = "'a word", of 7 n] bit_exp_iff [where ?'a = "'a word", of 6 n]
    bit_exp_iff [where ?'a = "'a word", of 5 n] bit_exp_iff [where ?'a = "'a word", of 4 n]
  by (auto simp: not_le)

lemma bit_flag_int [mask_simps]:
  "bit (128 :: int) n \<longleftrightarrow> n = 7" "bit (64 :: int) n \<longleftrightarrow> n = 6"
  "bit (32 :: int) n \<longleftrightarrow> n = 5" "bit (16 :: int) n \<longleftrightarrow> n = 4"
  using bit_exp_iff [where ?'a = int, of 7 n] bit_exp_iff [where ?'a = int, of 6 n]
    bit_exp_iff [where ?'a = int, of 5 n] bit_exp_iff [where ?'a = int, of 4 n]
  by auto

lemma take_bit_small: "unat w < 2 ^ n \<Longrightarrow> take_bit n w = w"
  by (simp only: word_unat_eq_iff unsigned_take_bit_eq) (simp add: take_bit_eq_mod)

lemma bit_small: "unat w < 2 ^ n \<Longrightarrow> bit w m \<Longrightarrow> m < n"
  using take_bit_small [of w n] bit_take_bit_iff [of n w m] by simp

lemma unat_drop_bit: "unat (drop_bit n w) = unat w div 2 ^ n"
  by (simp only: unat_drop_bit_eq) (simp only: drop_bit_eq_div)

lemma unat_push_bit:
  fixes w :: "'a::len word"
  assumes "unat w * 2 ^ n < 2 ^ LENGTH('a)"
  shows "unat (push_bit n w) = unat w * 2 ^ n"
  using assms
  by (simp only: unsigned_push_bit_eq) (simp add: push_bit_eq_mult take_bit_nat_eq_self)

lemma unat_add_small:
  fixes a b :: "'a::len word"
  assumes "unat a + unat b < 2 ^ LENGTH('a)"
  shows "unat (a + b) = unat a + unat b"
  using assms by (simp add: unat_word_ariths)

lemma unat_less: "unat (w :: 'a::len word) < 2 ^ LENGTH('a)"
  by (rule unsigned_less)

lemma unat_byte_less: "unat (b :: byte) < 256"
  using unat_less [of b] by simp

lemma unat_ucast_up:
  assumes "LENGTH('a) \<le> LENGTH('b)"
  shows "unat (ucast (w :: 'a::len word) :: 'b::len word) = unat w"
proof -
  have "unat w < 2 ^ LENGTH('b)"
    by (rule order_less_le_trans [OF unat_less power_increasing [OF assms]]) simp
  then show ?thesis
    by (simp only: unsigned_ucast_eq) (simp add: take_bit_nat_eq_self)
qed

lemma unat_take_bit: "unat (take_bit n w) = unat w mod 2 ^ n"
  by (simp only: unsigned_take_bit_eq) (simp only: take_bit_eq_mod)

lemma unat_mask:
  assumes "n \<le> LENGTH('a)"
  shows "unat (mask n :: 'a::len word) = 2 ^ n - 1"
proof -
  have "unat (word_of_nat (mask n) :: 'a word) = mask n"
    using assms by (simp only: unat_of_nat) (simp add: min_def flip: take_bit_eq_mod)
  then show ?thesis
    by (simp add: mask_eq_exp_minus_1)
qed

lemma mask_word: "(push_bit n 1 - 1 :: 'a::len word) = mask n"
  by (simp add: mask_eq_exp_minus_1 push_bit_eq_mult)

lemma be_uint16_put [wire_simps]:
  "be_uint16 (ucast (drop_bit 8 v)) (ucast v) = v"
  unfolding be_uint16_def
  by (rule bit_word_eqI) (auto simp: bit_simps)

lemma be_uint32_put [wire_simps]:
  "be_uint32 (ucast (drop_bit 24 v)) (ucast (drop_bit 16 v)) (ucast (drop_bit 8 v)) (ucast v) = v"
proof (rule bit_word_eqI)
  fix n
  assume "n < LENGTH(32)"
  then consider "n < 8" | "8 \<le> n \<and> n < 16" | "16 \<le> n \<and> n < 24" | "24 \<le> n \<and> n < 32"
    by fastforce
  then show "bit (be_uint32 (ucast (drop_bit 24 v)) (ucast (drop_bit 16 v))
      (ucast (drop_bit 8 v)) (ucast v)) n = bit v n"
    by cases (auto simp: be_uint32_def bit_simps)
qed

lemma length_put_uint [simp]: "length (put_uint16 v) = 2" "length (put_uint32 w) = 4"
  by (simp_all add: put_uint16_def put_uint32_def)

end
