(* ===== verification/Hpack_Varint.thy ===== *)
theory Hpack_Varint
  imports H2_Prelude
begin

text \<open>
  HPACK integers (\<^verbatim>\<open>h2/hpack/hpack.go\<close>, \<^verbatim>\<open>readVarInt\<close>; \<^verbatim>\<open>h2/hpack/encode.go\<close>,
  \<^verbatim>\<open>appendVarInt\<close>) and the error values of the package. The reader and the writer
  are inverse to each other on every integer the reader's overflow check accepts.
\<close>

section \<open>The errors of the package\<close>

text \<open>
  \<open>ErrNeedMore\<close> is the internal sentinel \<^verbatim>\<open>errNeedMore\<close>; \<open>DecodingError\<close>
  carries the reason of the Go error. A Go panic is the value \<open>Panic\<close>, which every
  caller passes on.
\<close>

datatype decode_reason =
    InvalidIndexError u64
  | TruncatedHeaders
  | InvalidEncoding
  | TableSizeUpdateNotFirst
  | TableSizeUpdateTooLarge
  | VarintOverflow

datatype hpack_error =
    ErrNeedMore
  | ErrStringLength
  | ErrInvalidHuffman
  | DecodingError decode_reason
  | Panic string

abbreviation errVarintOverflow :: hpack_error where
  "errVarintOverflow \<equiv> DecodingError VarintOverflow"

section \<open>Reading and writing integers\<close>

fun readVarIntLoop :: "u64 \<Rightarrow> nat \<Rightarrow> bytes \<Rightarrow> hpack_error + (u64 \<times> bytes)" where
  "readVarIntLoop i m [] = Inl ErrNeedMore"
| "readVarIntLoop i m (b # p) =
     (let i' = i + push_bit m (ucast (b AND 127)) in
      if b AND 128 = 0 then Inr (i', p)
      else if m + 7 \<ge> 63 then Inl errVarintOverflow
      else readVarIntLoop i' (m + 7) p)"

text \<open>
  \<^verbatim>\<open>readVarInt(n, p)\<close>. The value and the rest of the input; on an error the Go code
  also hands back the whole input, which no caller reads.
\<close>

definition readVarInt :: "nat \<Rightarrow> bytes \<Rightarrow> hpack_error + (u64 \<times> bytes)" where
  "readVarInt n p =
     (if n < 1 \<or> n > 8 then Inl (Panic ''bad n'')
      else case p of
        [] \<Rightarrow> Inl ErrNeedMore
      | b # p' \<Rightarrow>
          (let k = push_bit n 1 - 1;
               i = (if n < 8 then ucast b AND k else ucast b)
           in if i < k then Inr (i, p') else readVarIntLoop i 0 p'))"

function appendVarIntLoop :: "bytes \<Rightarrow> u64 \<Rightarrow> bytes" where
  "appendVarIntLoop dst i =
     (if i \<ge> 128 then appendVarIntLoop (dst @ [ucast (128 OR (i AND 127))]) (drop_bit 7 i)
      else dst @ [ucast i])"
  by pat_completeness auto
termination
proof (relation "measure (\<lambda>(dst, i). unat i)")
  fix dst :: bytes and i :: u64
  assume "128 \<le> i"
  then have "128 \<le> unat i"
    by (simp add: word_le_nat_alt)
  then have "unat (drop_bit 7 i) < unat i"
    by (simp only: unat_drop_bit) simp
  then show "((dst @ [ucast (128 OR (i AND 127))], drop_bit 7 i), (dst, i))
      \<in> measure (\<lambda>(dst, i). unat i)"
    by simp
qed simp

declare appendVarIntLoop.simps [simp del]

definition appendVarInt :: "bytes \<Rightarrow> nat \<Rightarrow> u64 \<Rightarrow> bytes" where
  "appendVarInt dst n i =
     (let k = push_bit n 1 - 1 in
      if i < k then dst @ [ucast i]
      else appendVarIntLoop (dst @ [ucast k]) (i - k))"

text \<open>\<^verbatim>\<open>dst[first] |= flag\<close>, as the encoder marks the first byte it appended.\<close>

definition orAt :: "nat \<Rightarrow> byte \<Rightarrow> bytes \<Rightarrow> bytes" where
  "orAt first flag dst = dst[first := dst ! first OR flag]"

section \<open>Reference: RFC 7541, section 5.1\<close>

text \<open>The decoding procedure of the RFC, on unbounded integers and without an overflow check.\<close>

fun rfcVarIntLoop :: "nat \<Rightarrow> nat \<Rightarrow> bytes \<Rightarrow> (nat \<times> bytes) option" where
  "rfcVarIntLoop i m [] = None"
| "rfcVarIntLoop i m (b # p) =
     (let i' = i + unat (b AND 127) * 2 ^ m in
      if b AND 128 = 0 then Some (i', p) else rfcVarIntLoop i' (m + 7) p)"

definition rfcVarInt :: "nat \<Rightarrow> bytes \<Rightarrow> (nat \<times> bytes) option" where
  "rfcVarInt n p =
     (case p of [] \<Rightarrow> None
      | b # p' \<Rightarrow>
          (let i = unat b mod 2 ^ n in
           if i < 2 ^ n - 1 then Some (i, p') else rfcVarIntLoop i 0 p'))"

section \<open>Lemmas\<close>

subsection \<open>Bytes of the encoding\<close>

lemma ucast_take_bit_u64 [simp]:
  "m \<le> 8 \<Longrightarrow> (ucast (ucast (take_bit m (i::u64)) :: byte) :: u64) = take_bit m i"
  by (rule bit_word_eqI) (auto simp: bit_simps)

lemma continuation_byte:
  fixes i :: u64
  shows "(ucast (128 OR (i AND 127)) :: byte) AND 127 = ucast (take_bit 7 i)"
    and "(ucast (128 OR (i AND 127)) :: byte) AND 128 \<noteq> 0"
proof -
  show "(ucast (128 OR (i AND 127)) :: byte) AND 127 = ucast (take_bit 7 i)"
    unfolding mask_numerals by (rule bit_word_eqI) (auto simp: bit_simps mask_simps)
  have "bit ((ucast (128 OR (i AND 127)) :: byte) AND 128) 7"
    by (auto simp: bit_simps mask_simps)
  then show "(ucast (128 OR (i AND 127)) :: byte) AND 128 \<noteq> 0"
    by auto
qed

lemma final_byte:
  fixes i :: u64
  assumes "i < 128"
  shows "(ucast i :: byte) AND 128 = 0"
    and "(ucast ((ucast i :: byte) AND 127) :: u64) = i"
proof -
  have "unat i < 2 ^ 7"
    using assms by (simp add: word_less_nat_alt)
  note bit_i = bit_small [OF this]
  show "(ucast i :: byte) AND 128 = 0"
    by (rule bit_word_eqI) (auto simp: bit_simps mask_simps dest: bit_i)
  show "(ucast ((ucast i :: byte) AND 127) :: u64) = i"
    by (rule bit_word_eqI) (auto simp: bit_simps mask_simps dest: bit_i)
qed

lemma appendVarIntLoop_append: "appendVarIntLoop (dst @ dst') i = dst @ appendVarIntLoop dst' i"
proof (induction dst' i rule: appendVarIntLoop.induct)
  case (1 dst' i)
  then show ?case
    by (simp add: appendVarIntLoop.simps [of "dst @ dst'" i] appendVarIntLoop.simps [of dst' i])
qed

lemmas appendVarIntLoop_Nil = appendVarIntLoop_append [of _ "[]", simplified]

lemma appendVarInt_append: "appendVarInt dst n i = dst @ appendVarInt [] n i"
  by (simp add: appendVarInt_def Let_def appendVarIntLoop_Nil [of "dst @ _"]
      appendVarIntLoop_Nil [of "[_]"])

lemma appendVarIntLoop_Cons:
  "appendVarIntLoop [] i =
     (if i \<ge> 128 then ucast (128 OR (i AND 127)) # appendVarIntLoop [] (drop_bit 7 i)
      else [ucast i])"
  using appendVarIntLoop_Nil [of "[ucast (128 OR (i AND 127))]" "drop_bit 7 i"]
  by (simp add: appendVarIntLoop.simps [of "[]" i])

subsection \<open>The round trip\<close>

lemma split_low_bits: "push_bit m (take_bit 7 j) + push_bit (m + 7) (drop_bit 7 j) = push_bit m j"
  for j :: u64
proof -
  have "take_bit 7 j + push_bit 7 (drop_bit 7 j) = j"
    using bits_ident [of 7 j] by (simp only: add.commute)
  then have "push_bit m (take_bit 7 j + push_bit 7 (drop_bit 7 j)) = push_bit m j"
    by (rule arg_cong)
  then show ?thesis
    by (simp only: push_bit_add push_bit_push_bit)
qed

lemma unat_drop7: "128 \<le> j \<Longrightarrow> unat (drop_bit 7 j) < unat j" for j :: u64
  by (simp only: unat_drop_bit) (simp add: word_le_nat_alt)

lemma readVarIntLoop_append:
  assumes "unat j < 2 ^ (63 - m)" and "m < 63"
  shows "readVarIntLoop i m (appendVarIntLoop [] j @ rest) = Inr (i + push_bit m j, rest)"
  using assms
proof (induction "unat j" arbitrary: i j m rule: less_induct)
  case less
  show ?case
  proof (cases "j \<ge> 128")
    case True
    then have ge: "2 ^ 7 \<le> unat j"
      by (simp add: word_le_nat_alt)
    with less.prems(1) have "(2::nat) ^ 7 < 2 ^ (63 - m)"
      by linarith
    then have m: "m < 56"
      by (simp only: power_strict_increasing_iff)
    have "unat (drop_bit 7 j) < 2 ^ (63 - (m + 7))"
    proof -
      have "(2::nat) ^ (63 - m) = 2 ^ (63 - (m + 7)) * 2 ^ 7"
        using m by (simp only: power_add [symmetric]) simp
      with less.prems(1) have "unat j div 2 ^ 7 < 2 ^ (63 - (m + 7))"
        by (simp only: less_mult_imp_div_less)
      then show ?thesis
        by (simp only: unat_drop_bit)
    qed
    with less.hyps [of "drop_bit 7 j" "m + 7"] m unat_drop7 [OF True] show ?thesis
      using m
      by (simp add: appendVarIntLoop_Cons [of j] True continuation_byte Let_def
          split_low_bits add.assoc del: One_nat_def)
  next
    case False
    then show ?thesis
      by (simp add: appendVarIntLoop_Cons [of j] final_byte)
  qed
qed

lemma readVarIntLoop_append_overflow:
  assumes "2 ^ (63 - m) \<le> unat j" and "m + 7 * k = 56"
  shows "readVarIntLoop i m (appendVarIntLoop [] j @ rest) = Inl errVarintOverflow"
  using assms
proof (induction k arbitrary: i j m)
  case 0
  then have "128 \<le> j"
    by (simp add: word_le_nat_alt)
  with 0 show ?case
    by (simp add: appendVarIntLoop_Cons [of j] continuation_byte Let_def)
next
  case (Suc k)
  then have m: "m + 7 \<le> 56" by simp
  have "(2::nat) ^ 7 \<le> 2 ^ (63 - m)"
    using m by (intro power_increasing) simp_all
  with Suc.prems have j: "128 \<le> j"
    by (simp add: word_le_nat_alt)
  have "(2::nat) ^ (63 - m) = 2 ^ (63 - (m + 7)) * 2 ^ 7"
    using m by (simp only: power_add [symmetric]) simp
  with Suc.prems(1) have "2 ^ (63 - (m + 7)) \<le> unat (drop_bit 7 j)"
    by (simp only: unat_drop_bit) (simp add: less_eq_div_iff_mult_less_eq)
  from Suc.IH [OF this] Suc.prems(2) m j show ?case
    by (simp add: appendVarIntLoop_Cons [of j] continuation_byte Let_def)
qed

lemma ucast_flag_low:
  fixes i :: u64
  assumes "flag AND mask n = 0" and "unat i \<le> 2 ^ n - 1" and "n \<le> 8"
  shows "n < 8 \<Longrightarrow> (ucast ((ucast i :: byte) OR flag) :: u64) AND mask n = i"
    and "n = 8 \<Longrightarrow> (ucast ((ucast i :: byte) OR flag) :: u64) = i"
proof -
  have "unat i < 2 ^ n"
    using assms(2) by (simp add: order_le_less_trans)
  note bit_i = bit_small [OF this]
  have flag: "\<not> bit flag b" if "b < n" for b
  proof -
    have "\<not> bit (flag AND mask n) b" by (simp add: assms(1))
    with that show ?thesis
      using assms(3) by (simp add: bit_simps)
  qed
  show "(ucast ((ucast i :: byte) OR flag) :: u64) AND mask n = i" if "n < 8"
    using assms(3) by (intro bit_word_eqI) (auto simp: bit_simps flag dest: bit_i)
  show "(ucast ((ucast i :: byte) OR flag) :: u64) = i" if "n = 8"
  proof -
    have "flag = 0"
      using flag that by (intro bit_word_eqI) auto
    with that show ?thesis
      by (intro bit_word_eqI) (auto simp: bit_simps dest: bit_i)
  qed
qed

lemma readVarInt_mask:
  "readVarInt n (b # p) =
     (if n < 1 \<or> n > 8 then Inl (Panic ''bad n'')
      else let i = (if n < 8 then ucast b AND mask n else ucast b) in
        if i < mask n then Inr (i, p) else readVarIntLoop i 0 p)"
  by (simp only: readVarInt_def mask_word) (simp add: Let_def)

lemma appendVarInt_mask:
  "appendVarInt [] n i =
     (if i < mask n then [ucast i]
      else ucast (mask n :: u64) # appendVarIntLoop [] (i - mask n))"
  using appendVarIntLoop_Nil [of "[ucast (mask n :: u64)]"]
  by (simp only: appendVarInt_def mask_word) (simp add: Let_def)

text \<open>
  Every integer comes back, with whatever flags the encoder put above the prefix and
  whatever input follows, up to exactly the size the overflow check refuses.
\<close>

lemma readVarInt_appendVarInt:
  assumes n: "1 \<le> n" "n \<le> 8" and flag: "flag AND mask n = 0"
  shows "readVarInt n (orAt 0 flag (appendVarInt [] n i) @ rest) =
    (if unat i < 2 ^ 63 + (2 ^ n - 1) then Inr (i, rest) else Inl errVarintOverflow)"
proof -
  have k: "unat (mask n :: u64) = 2 ^ n - 1"
    using n by (intro unat_mask) simp
  show ?thesis
  proof (cases "i < mask n")
    case True
    then have "unat i \<le> 2 ^ n - 1"
      using k by (simp add: word_less_nat_alt)
    moreover from True k have "unat i < 2 ^ 63 + (2 ^ n - 1)"
      by (simp add: word_less_nat_alt)
    ultimately show ?thesis
      using True n flag ucast_flag_low [OF flag _ n(2), of i]
      by (auto simp: readVarInt_mask appendVarInt_mask orAt_def Let_def)
  next
    case False
    then have i: "2 ^ n - 1 \<le> unat i"
      using k by (simp add: word_less_nat_alt)
    then have sub: "unat (i - mask n) = unat i - (2 ^ n - 1)"
      using k by (simp add: unat_sub word_le_nat_alt)
    have dec: "readVarInt n (orAt 0 flag (appendVarInt [] n i) @ rest) =
        readVarIntLoop (mask n) 0 (appendVarIntLoop [] (i - mask n) @ rest)"
      using n k False ucast_flag_low [OF flag _ n(2), of "mask n"]
      by (cases "n < 8") (simp_all add: readVarInt_mask appendVarInt_mask orAt_def Let_def)
    show ?thesis
    proof (cases "unat i < 2 ^ 63 + (2 ^ n - 1)")
      case True
      then have "unat (i - mask n) < 2 ^ (63 - 0)"
        using sub i by simp
      then show ?thesis
        using readVarIntLoop_append [of "i - mask n" 0 "mask n" rest] dec True by simp
    next
      case False
      then have "2 ^ (63 - 0) \<le> unat (i - mask n)"
        using sub i by simp
      then show ?thesis
        using readVarIntLoop_append_overflow [of 0 "i - mask n" 8 "mask n" rest] dec False by simp
    qed
  qed
qed

subsection \<open>What a successful read consumes\<close>

lemma readVarIntLoop_extend:
  "readVarIntLoop i m p = Inr (j, r) \<Longrightarrow>
     readVarIntLoop i m (p @ q) = Inr (j, r @ q) \<and> length r < length p"
  "readVarIntLoop i m p = Inl e \<Longrightarrow> e \<noteq> ErrNeedMore \<Longrightarrow> readVarIntLoop i m (p @ q) = Inl e"
  by (induction i m p rule: readVarIntLoop.induct)
    (auto simp: Let_def less_Suc_eq split: if_splits)

lemma readVarInt_extend:
  assumes "readVarInt n p = Inr (j, r)"
  shows "readVarInt n (p @ q) = Inr (j, r @ q) \<and> length r < length p"
proof (cases p)
  case Nil
  with assms show ?thesis by (simp add: readVarInt_def split: if_splits)
next
  case (Cons b p')
  with assms readVarIntLoop_extend(1) [of _ 0 p' j r q] show ?thesis
    by (fastforce simp: readVarInt_mask Let_def less_Suc_eq split: if_splits)
qed

lemma readVarInt_extend_error:
  assumes "readVarInt n p = Inl e" and "e \<noteq> ErrNeedMore"
  shows "readVarInt n (p @ q) = Inl e"
proof (cases p)
  case Nil
  with assms show ?thesis by (auto simp: readVarInt_def split: if_splits)
next
  case (Cons b p')
  with assms readVarIntLoop_extend(2) [of _ 0 p' e q] show ?thesis
    by (auto simp: readVarInt_mask Let_def split: if_splits)
qed

subsection \<open>No wrap-around\<close>

lemma unat_and_127: "unat (b AND 127 :: byte) < 128"
  by (simp only: mask_numerals flip: take_bit_eq_mask) (simp add: unat_take_bit)

lemma readVarIntLoop_rfc:
  assumes "readVarIntLoop i m p = Inr (j, r)" and "unat i < 2 ^ m + 255" and "7 dvd m" and "m < 63"
  shows "rfcVarIntLoop (unat i) m p = Some (unat j, r) \<and> unat j < 2 ^ 63 + 255"
  using assms
proof (induction i m p rule: readVarIntLoop.induct)
  case (2 i m b p)
  have m: "m \<le> 56"
    using 2(4,5) by presburger
  have b: "unat (b AND 127) \<le> 127"
    using unat_and_127 [of b] by simp
  have le: "unat (b AND 127) * 2 ^ m + 2 ^ m \<le> (2 :: nat) ^ (m + 7)"
    using mult_le_mono1 [OF b, of "2 ^ m"] by (simp add: power_add)
  have top: "(2 :: nat) ^ (m + 7) \<le> 2 ^ 63"
    using m by (intro power_increasing) simp_all
  let ?a = "push_bit m (ucast (b AND 127)) :: u64"
  have a: "unat ?a = unat (b AND 127) * 2 ^ m"
    using le top by (subst unat_push_bit) (simp_all add: unat_ucast_up)
  have sum: "unat (i + ?a) = unat i + unat (b AND 127) * 2 ^ m"
    using 2(3) le top a by (subst unat_add_small) simp_all
  then have bound: "unat (i + ?a) < 2 ^ (m + 7) + 255"
    using 2(3) le by linarith
  show ?case
  proof (cases "b AND 128 = 0")
    case True
    with 2(2) sum bound top show ?thesis
      by (auto simp: Let_def)
  next
    case False
    with 2(2) have "m + 7 < 63" and "readVarIntLoop (i + ?a) (m + 7) p = Inr (j, r)"
      by (auto simp: Let_def split: if_splits)
    with 2(1) [OF refl False] bound 2(4) show ?thesis
      using False by (simp add: Let_def sum)
  qed
qed simp

lemma readVarInt_rfc:
  assumes "readVarInt n p = Inr (j, r)"
  shows "rfcVarInt n p = Some (unat j, r) \<and> unat j < 2 ^ 63 + 255"
proof (cases p)
  case Nil
  with assms show ?thesis by (simp add: readVarInt_def split: if_splits)
next
  case (Cons b p')
  let ?i = "if n < 8 then ucast b AND mask n else ucast b :: u64"
  from assms Cons have n: "1 \<le> n" "n \<le> 8"
    by (auto simp: readVarInt_mask split: if_splits)
  have i: "unat ?i = unat b mod 2 ^ n"
  proof (cases "n < 8")
    case True
    then show ?thesis
      by (simp only: if_True flip: take_bit_eq_mask) (simp add: unat_take_bit unat_ucast_up)
  next
    case False
    with n have "n = 8" by simp
    then show ?thesis
      using unat_byte_less [of b] by (simp add: unat_ucast_up)
  qed
  have k: "unat (mask n :: u64) = 2 ^ n - 1"
    using n by (intro unat_mask) simp
  have "unat ?i < 2 ^ 0 + 255"
    using i n unat_byte_less [of b] order_le_less_trans [OF mod_less_eq_dividend] by simp
  with readVarIntLoop_rfc [of ?i 0 p' j r] assms Cons n i k show ?thesis
    by (auto simp: readVarInt_mask rfcVarInt_def Let_def word_less_nat_alt split: if_splits)
qed

section \<open>Properties\<close>

text \<open>
  \<^verbatim>\<open>appendVarInt\<close> followed by the encoder's \<^verbatim>\<open>dst[first] |= flag\<close> leaves what was in the
  buffer alone, and \<^verbatim>\<open>readVarInt\<close> reads the integer back from what was appended and stops
  where it ends, for every prefix size, every flag above the prefix and whatever follows. The
  integers it does not read back are exactly those from \<open>2 ^ 63\<close> plus the prefix mask on,
  which the reader refuses with \<^verbatim>\<open>errVarintOverflow\<close>.
\<close>

theorem varint_round_trip:
  assumes "1 \<le> n" and "n \<le> 8" and "flag AND mask n = 0"
  shows "take (length dst) (orAt (length dst) flag (appendVarInt dst n i)) = dst \<and>
    readVarInt n (drop (length dst) (orAt (length dst) flag (appendVarInt dst n i)) @ rest) =
      (if unat i < 2 ^ 63 + (2 ^ n - 1) then Inr (i, rest) else Inl errVarintOverflow)"
proof -
  have "orAt (length dst) flag (appendVarInt dst n i) = dst @ orAt 0 flag (appendVarInt [] n i)"
    by (subst appendVarInt_append) (simp add: orAt_def nth_append list_update_append)
  then show ?thesis
    by (simp add: readVarInt_appendVarInt [OF assms])
qed

theorem varint_round_trip_witness:
  "take 1 (orAt 1 128 (appendVarInt [7] 7 1337)) = [7] \<and>
   readVarInt 7 (drop 1 (orAt 1 128 (appendVarInt [7] 7 1337)) @ [42]) = Inr (1337, [42])"
proof -
  have "(128 :: byte) AND mask 7 = 0"
    by code_simp
  with varint_round_trip [of 7 128 "[7]" 1337 "[42]"] show ?thesis
    by simp
qed

text \<open>
  whenever \<^verbatim>\<open>readVarInt\<close> returns a value, that value is the one the decoding procedure of
  RFC 7541, section 5.1, computes on unbounded integers, with the same rest of the input: the
  64-bit additions and shifts never wrap around.
\<close>

theorem varint_no_wraparound:
  assumes "readVarInt n p = Inr (j, r)"
  shows "rfcVarInt n p = Some (unat j, r) \<and> unat j < 2 ^ 63 + 255"
  using assms by (rule readVarInt_rfc)

theorem varint_no_wraparound_witness:
  "rfcVarInt 5 [31, 154, 10, 9] = Some (1337, [9])"
proof -
  have "readVarInt 5 [31, 154, 10, 9] = Inr (1337, [9])"
    by code_simp
  from varint_no_wraparound [OF this] show ?thesis by simp
qed

end
