(* ===== verification/Hpack_Table.thy ===== *)
theory Hpack_Table
  imports Hpack_Varint
begin

text \<open>
  Header fields and the indexing tables of HPACK (\<^verbatim>\<open>h2/hpack/tables.go\<close>, and the dynamic table of
  \<^verbatim>\<open>h2/hpack/hpack.go\<close>): entries with unique ids, the maps from names and from name/value
  pairs to the id of the newest entry, and eviction by size.
\<close>

section \<open>Header fields\<close>

record HeaderField =
  Name :: string
  Value :: string
  Sensitive :: bool

abbreviation hf :: "string \<Rightarrow> string \<Rightarrow> HeaderField" where
  "hf n v \<equiv> \<lparr>Name = n, Value = v, Sensitive = False\<rparr>"

definition IsPseudo :: "HeaderField \<Rightarrow> bool" where
  "IsPseudo f \<longleftrightarrow> length (Name f) \<noteq> 0 \<and> Name f ! 0 = CHR '':''"

text \<open>\<^verbatim>\<open>uint32(len(hf.Name) + len(hf.Value) + 32)\<close>\<close>

definition Size :: "HeaderField \<Rightarrow> u32" where
  "Size f = word_of_nat (length (Name f) + length (Value f) + 32)"

section \<open>Tables\<close>

record headerFieldTable =
  ents :: "HeaderField list"
  evictCount :: u64
  byName :: "string \<rightharpoonup> u64"
  byNameValue :: "string \<times> string \<rightharpoonup> u64"

text \<open>Reading a Go map: the zero value where there is no entry.\<close>

definition mapGet :: "('k \<rightharpoonup> u64) \<Rightarrow> 'k \<Rightarrow> u64" where
  "mapGet m k = (case m k of None \<Rightarrow> 0 | Some i \<Rightarrow> i)"

definition init_table :: headerFieldTable where
  "init_table = \<lparr>ents = [], evictCount = 0, byName = Map.empty, byNameValue = Map.empty\<rparr>"

definition addEntry :: "headerFieldTable \<Rightarrow> HeaderField \<Rightarrow> headerFieldTable" where
  "addEntry t f =
     (let uid = word_of_nat (length (ents t)) + evictCount t + 1
      in t\<lparr>byName := (byName t)(Name f \<mapsto> uid),
           byNameValue := (byNameValue t)((Name f, Value f) \<mapsto> uid),
           ents := ents t @ [f]\<rparr>)"

text \<open>The loop of \<^verbatim>\<open>evictOldest\<close> that forgets the ids of the evicted entries.\<close>

fun forgetIds :: "headerFieldTable \<Rightarrow> nat \<Rightarrow> HeaderField list \<Rightarrow> headerFieldTable" where
  "forgetIds t k [] = t"
| "forgetIds t k (f # fs) =
     (let uid = evictCount t + word_of_nat k + 1;
          t1 = (if mapGet (byName t) (Name f) = uid
                then t\<lparr>byName := (byName t)(Name f := None)\<rparr> else t);
          t2 = (if mapGet (byNameValue t1) (Name f, Value f) = uid
                then t1\<lparr>byNameValue := (byNameValue t1)((Name f, Value f) := None)\<rparr> else t1)
      in forgetIds t2 (Suc k) fs)"

definition evictOldest :: "headerFieldTable \<Rightarrow> nat \<Rightarrow> hpack_error + headerFieldTable" where
  "evictOldest t n =
     (if n > length (ents t) then Inl (Panic ''evictOldest: too few entries'')
      else
        let t1 = forgetIds t 0 (take n (ents t));
            t2 = t1\<lparr>ents := drop n (ents t1)\<rparr>
        in if evictCount t2 + word_of_nat n < evictCount t2 then Inl (Panic ''evictCount overflow'')
           else Inr (t2\<lparr>evictCount := evictCount t2 + word_of_nat n\<rparr>))"

text \<open>
  Every table but the global \<^verbatim>\<open>staticTable\<close> is a dynamic one; \<open>static\<close> says which this is
  (\<^verbatim>\<open>t != staticTable\<close> compares pointers).
\<close>

definition idToIndex :: "bool \<Rightarrow> headerFieldTable \<Rightarrow> u64 \<Rightarrow> hpack_error + u64" where
  "idToIndex static t uid =
     (if uid \<le> evictCount t then Inl (Panic ''id <= evictCount'')
      else let k = uid - evictCount t - 1 in
        if \<not> static then Inr (word_of_nat (length (ents t)) - k) else Inr (k + 1))"

definition search :: "bool \<Rightarrow> headerFieldTable \<Rightarrow> HeaderField \<Rightarrow> hpack_error + (u64 \<times> bool)" where
  "search static t f =
     (if \<not> Sensitive f \<and> mapGet (byNameValue t) (Name f, Value f) \<noteq> 0
      then and_then (idToIndex static t (mapGet (byNameValue t) (Name f, Value f))) (\<lambda>i. Inr (i, True))
      else if mapGet (byName t) (Name f) \<noteq> 0
      then and_then (idToIndex static t (mapGet (byName t) (Name f))) (\<lambda>i. Inr (i, False))
      else Inr (0, False))"

section \<open>The static table\<close>

definition staticTableEntries :: "HeaderField list" where
  "staticTableEntries = [
     hf '':authority'' '''',
     hf '':method'' ''GET'',
     hf '':method'' ''POST'',
     hf '':path'' ''/'',
     hf '':path'' ''/index.html'',
     hf '':scheme'' ''http'',
     hf '':scheme'' ''https'',
     hf '':status'' ''200'',
     hf '':status'' ''204'',
     hf '':status'' ''206'',
     hf '':status'' ''304'',
     hf '':status'' ''400'',
     hf '':status'' ''404'',
     hf '':status'' ''500'',
     hf ''accept-charset'' '''',
     hf ''accept-encoding'' ''gzip, deflate'',
     hf ''accept-language'' '''',
     hf ''accept-ranges'' '''',
     hf ''accept'' '''',
     hf ''access-control-allow-origin'' '''',
     hf ''age'' '''',
     hf ''allow'' '''',
     hf ''authorization'' '''',
     hf ''cache-control'' '''',
     hf ''content-disposition'' '''',
     hf ''content-encoding'' '''',
     hf ''content-language'' '''',
     hf ''content-length'' '''',
     hf ''content-location'' '''',
     hf ''content-range'' '''',
     hf ''content-type'' '''',
     hf ''cookie'' '''',
     hf ''date'' '''',
     hf ''etag'' '''',
     hf ''expect'' '''',
     hf ''expires'' '''',
     hf ''from'' '''',
     hf ''host'' '''',
     hf ''if-match'' '''',
     hf ''if-modified-since'' '''',
     hf ''if-none-match'' '''',
     hf ''if-range'' '''',
     hf ''if-unmodified-since'' '''',
     hf ''last-modified'' '''',
     hf ''link'' '''',
     hf ''location'' '''',
     hf ''max-forwards'' '''',
     hf ''proxy-authenticate'' '''',
     hf ''proxy-authorization'' '''',
     hf ''range'' '''',
     hf ''referer'' '''',
     hf ''refresh'' '''',
     hf ''retry-after'' '''',
     hf ''server'' '''',
     hf ''set-cookie'' '''',
     hf ''strict-transport-security'' '''',
     hf ''transfer-encoding'' '''',
     hf ''user-agent'' '''',
     hf ''vary'' '''',
     hf ''via'' '''',
     hf ''www-authenticate'' '''']"

definition newStaticTable :: headerFieldTable where
  "newStaticTable = foldl addEntry init_table staticTableEntries"

definition staticTable :: headerFieldTable where
  "staticTable = newStaticTable"

section \<open>The dynamic table\<close>

record dynamicTable =
  table :: headerFieldTable
  dt_size :: u32
  maxSize :: u32
  allowedMaxSize :: u32

text \<open>The loop of \<^verbatim>\<open>evict\<close>: the size that is left and the number of entries to evict.\<close>

fun evictLoop :: "u32 \<Rightarrow> u32 \<Rightarrow> HeaderField list \<Rightarrow> u32 \<times> nat" where
  "evictLoop sz mx [] = (sz, 0)"
| "evictLoop sz mx (f # fs) =
     (if sz > mx then (let (sz', n) = evictLoop (sz - Size f) mx fs in (sz', Suc n)) else (sz, 0))"

definition evict :: "dynamicTable \<Rightarrow> hpack_error + dynamicTable" where
  "evict dt =
     (let (sz, n) = evictLoop (dt_size dt) (maxSize dt) (ents (table dt))
      in and_then (evictOldest (table dt) n) (\<lambda>t. Inr (dt\<lparr>dt_size := sz, table := t\<rparr>)))"

definition setMaxSize :: "dynamicTable \<Rightarrow> u32 \<Rightarrow> hpack_error + dynamicTable" where
  "setMaxSize dt v = evict (dt\<lparr>maxSize := v\<rparr>)"

definition dt_add :: "dynamicTable \<Rightarrow> HeaderField \<Rightarrow> hpack_error + dynamicTable" where
  "dt_add dt f = evict (dt\<lparr>table := addEntry (table dt) f, dt_size := dt_size dt + Size f\<rparr>)"

definition init_dynamicTable :: dynamicTable where
  "init_dynamicTable = \<lparr>table = init_table, dt_size = 0, maxSize = 0, allowedMaxSize = 0\<rparr>"

section \<open>The table invariant\<close>

text \<open>The position of the newest entry with a property, as the abstract meaning of the maps.\<close>

fun newest :: "(HeaderField \<Rightarrow> bool) \<Rightarrow> HeaderField list \<Rightarrow> nat option" where
  "newest P [] = None"
| "newest P (f # fs) =
     (case newest P fs of Some k \<Rightarrow> Some (Suc k) | None \<Rightarrow> if P f then Some 0 else None)"

lemma newest_append:
  "newest P (fs @ [f]) = (if P f then Some (length fs) else newest P fs)"
  by (induction fs) (auto split: option.splits)

lemma newest_drop:
  "newest P (drop n fs) =
     (case newest P fs of Some k \<Rightarrow> if n \<le> k then Some (k - n) else None | None \<Rightarrow> None)"
  by (induction fs arbitrary: n) (auto simp: drop_Cons' split: option.splits)

lemma newest_Some:
  "newest P fs = Some k \<Longrightarrow> k < length fs \<and> P (fs ! k) \<and> (\<forall>j. k < j \<and> j < length fs \<longrightarrow> \<not> P (fs ! j))"
proof (induction fs arbitrary: k)
  case (Cons f fs)
  show ?case
  proof (cases "newest P fs")
    case None
    moreover have "newest P fs = None \<Longrightarrow> \<forall>j < length fs. \<not> P (fs ! j)"
      by (induction fs) (auto simp: nth_Cons' split: option.splits if_splits)
    ultimately show ?thesis
      using Cons.prems by (auto simp: nth_Cons' split: if_splits)
  next
    case (Some j)
    with Cons.IH [OF Some] Cons.prems show ?thesis
      by (auto simp: nth_Cons split: nat.splits)
  qed
qed simp

lemma newest_None: "newest P fs = None \<longleftrightarrow> (\<forall>f \<in> set fs. \<not> P f)"
  by (induction fs) (auto split: option.splits)

definition uid :: "headerFieldTable \<Rightarrow> nat \<Rightarrow> u64" where
  "uid t k = evictCount t + word_of_nat k + 1"

definition added :: "headerFieldTable \<Rightarrow> nat" where
  "added t = unat (evictCount t) + length (ents t)"

definition table_ok :: "headerFieldTable \<Rightarrow> bool" where
  "table_ok t \<longleftrightarrow> added t < 2 ^ 64 - 1 \<and>
     (\<forall>n. byName t n = map_option (uid t) (newest (\<lambda>f. Name f = n) (ents t))) \<and>
     (\<forall>n v. byNameValue t (n, v) =
        map_option (uid t) (newest (\<lambda>f. Name f = n \<and> Value f = v) (ents t)))"

lemma unat_uid:
  assumes "added t < 2 ^ 64 - 1" and "k \<le> length (ents t)"
  shows "unat (uid t k) = unat (evictCount t) + k + 1"
proof -
  have k: "unat (word_of_nat k :: u64) = k"
    using assms by (simp add: added_def unat_of_nat)
  then have "unat (evictCount t + word_of_nat k) = unat (evictCount t) + k"
    using assms by (subst unat_add_small) (simp_all add: added_def)
  then show ?thesis
    using assms unfolding uid_def by (subst unat_add_small) (simp_all add: added_def)
qed

lemma uid_eq_iff:
  assumes "added t < 2 ^ 64 - 1" and "j \<le> length (ents t)" and "k \<le> length (ents t)"
  shows "uid t j = uid t k \<longleftrightarrow> j = k"
  using unat_uid [OF assms(1,2)] unat_uid [OF assms(1,3)] by (metis add_left_cancel add_right_cancel)

lemma uid_nonzero:
  assumes "added t < 2 ^ 64 - 1" and "k \<le> length (ents t)"
  shows "uid t k \<noteq> 0"
  using unat_uid [OF assms] by (metis add_is_0 one_neq_zero unat_0)

lemma init_table_ok: "table_ok init_table"
  by (simp add: table_ok_def init_table_def added_def)

lemma addEntry_simps [simp]:
  "ents (addEntry t f) = ents t @ [f]" "evictCount (addEntry t f) = evictCount t"
  "added (addEntry t f) = Suc (added t)"
  by (simp_all add: addEntry_def added_def Let_def)

lemma addEntry_ok:
  assumes "table_ok t" and "Suc (added t) < 2 ^ 64 - 1"
  shows "table_ok (addEntry t f)"
proof -
  have "uid (addEntry t f) = uid t"
    by (simp add: uid_def fun_eq_iff)
  then show ?thesis
    using assms
    by (auto simp: table_ok_def newest_append) (auto simp: addEntry_def Let_def uid_def ac_simps)
qed

section \<open>Eviction of the oldest entries\<close>

lemma forgetIds_simps [simp]:
  "ents (forgetIds t k fs) = ents t" "evictCount (forgetIds t k fs) = evictCount t"
  by (induction t k fs rule: forgetIds.induct) (simp_all add: Let_def)

lemma forgetIds_byName:
  "byName (forgetIds t k fs) n =
     (if \<exists>j < length fs. Name (fs ! j) = n \<and> mapGet (byName t) n = uid t (k + j) then None
      else byName t n)"
proof (induction t k fs rule: forgetIds.induct)
  case (2 t k f fs)
  have split: "(\<exists>j < Suc m. P j) \<longleftrightarrow> P 0 \<or> (\<exists>j < m. P (Suc j))" for m P
    by (auto simp: less_Suc_eq_0_disj)
  show ?case
    using 2 [OF refl refl refl]
    by (auto simp: Let_def split uid_def mapGet_def)
qed simp

lemma forgetIds_byNameValue:
  "byNameValue (forgetIds t k fs) (n, v) =
     (if \<exists>j < length fs. Name (fs ! j) = n \<and> Value (fs ! j) = v \<and>
        mapGet (byNameValue t) (n, v) = uid t (k + j) then None
      else byNameValue t (n, v))"
proof (induction t k fs rule: forgetIds.induct)
  case (2 t k f fs)
  have split: "(\<exists>j < Suc m. P j) \<longleftrightarrow> P 0 \<or> (\<exists>j < m. P (Suc j))" for m P
    by (auto simp: less_Suc_eq_0_disj)
  show ?case
    using 2 [OF refl refl refl]
    by (auto simp: Let_def split uid_def mapGet_def)
qed simp

lemma forgotten:
  assumes "added t < 2 ^ 64 - 1" and "n \<le> length (ents t)"
    and "m = map_option (uid t) (newest P (ents t))"
  shows "(if \<exists>j < n. P (ents t ! j) \<and> (case m of None \<Rightarrow> 0 | Some i \<Rightarrow> i) = uid t j then None else m) =
    map_option (\<lambda>k. uid t (k + n)) (newest P (drop n (ents t)))"
proof (cases "newest P (ents t)")
  case None
  with assms show ?thesis
    by (simp add: newest_drop)
next
  case (Some k)
  note k = newest_Some [OF this]
  have "uid t k = uid t j \<longleftrightarrow> k = j" if "j < n" for j
    using that k assms(2) by (intro uid_eq_iff [OF assms(1)]) simp_all
  then have "(\<exists>j < n. P (ents t ! j) \<and> uid t k = uid t j) \<longleftrightarrow> k < n"
    using k by auto
  with Some assms(3) show ?thesis
    by (auto simp: newest_drop)
qed

lemma evictOldest_ok:
  assumes ok: "table_ok t" and n: "n \<le> length (ents t)"
  shows "\<exists>t'. evictOldest t n = Inr t' \<and> ents t' = drop n (ents t) \<and> added t' = added t \<and> table_ok t'"
proof -
  let ?f = "forgetIds t 0 (take n (ents t))"
  let ?t = "?f\<lparr>ents := drop n (ents t), evictCount := evictCount t + word_of_nat n\<rparr>"
  have bound: "added t < 2 ^ 64 - 1"
    using ok by (simp add: table_ok_def)
  have n64: "unat (word_of_nat n :: u64) = n"
    using n bound by (simp add: added_def unat_of_nat)
  have count: "unat (evictCount t + word_of_nat n) = unat (evictCount t) + n"
    using n bound n64 by (subst unat_add_small) (simp_all add: added_def)
  then have ev: "evictOldest t n = Inr ?t"
    using n by (simp add: evictOldest_def Let_def word_less_nat_alt)
  have uid': "uid ?t = (\<lambda>k. uid t (k + n))"
    by (simp add: uid_def fun_eq_iff ac_simps)
  have added': "added ?t = added t"
    using n by (simp add: added_def count)
  have "byName ?t m = map_option (uid ?t) (newest (\<lambda>f. Name f = m) (ents ?t))" for m
    using forgotten [OF bound n, of "byName t m" "\<lambda>f. Name f = m"] ok n
    by (simp add: forgetIds_byName mapGet_def uid' table_ok_def cong: conj_cong)
  moreover have "byNameValue ?t (m, v) =
      map_option (uid ?t) (newest (\<lambda>f. Name f = m \<and> Value f = v) (ents ?t))" for m v
    using forgotten [OF bound n, of "byNameValue t (m, v)" "\<lambda>f. Name f = m \<and> Value f = v"] ok n
    by (simp add: forgetIds_byNameValue mapGet_def uid' table_ok_def cong: conj_cong)
  ultimately have "table_ok ?t"
    using added' bound by (simp add: table_ok_def)
  with ev added' show ?thesis by auto
qed

section \<open>Searching\<close>

text \<open>The entries in the order of their HPACK indices, from 1 on.\<close>

definition index_order :: "bool \<Rightarrow> headerFieldTable \<Rightarrow> HeaderField list" where
  "index_order static t = (if static then ents t else rev (ents t))"

text \<open>What the encoder relies on when it is told index \<open>i\<close> and whether the value matches too.\<close>

definition match_ok :: "HeaderField list \<Rightarrow> HeaderField \<Rightarrow> u64 \<Rightarrow> bool \<Rightarrow> bool" where
  "match_ok fs f i m \<longleftrightarrow>
     (if m then \<not> Sensitive f \<and> 1 \<le> unat i \<and> unat i \<le> length fs \<and>
        Name (fs ! (unat i - 1)) = Name f \<and> Value (fs ! (unat i - 1)) = Value f
      else (\<not> Sensitive f \<longrightarrow> (\<forall>g \<in> set fs. Name g = Name f \<longrightarrow> Value g \<noteq> Value f)) \<and>
        (if i = 0 then \<forall>g \<in> set fs. Name g \<noteq> Name f
         else unat i \<le> length fs \<and> Name (fs ! (unat i - 1)) = Name f))"

lemma idToIndex_uid:
  assumes "added t < 2 ^ 64 - 1" and k: "k < length (ents t)"
  shows "\<exists>i. idToIndex static t (uid t k) = Inr i \<and> 1 \<le> unat i \<and> unat i \<le> length (ents t) \<and>
    index_order static t ! (unat i - 1) = ents t ! k"
proof -
  have u: "unat (uid t k) = unat (evictCount t) + k + 1"
    using assms by (intro unat_uid) simp_all
  have k64: "unat (word_of_nat k :: u64) = k"
      and l64: "unat (word_of_nat (length (ents t)) :: u64) = length (ents t)"
    using assms by (simp_all add: added_def unat_of_nat)
  have le: "\<not> uid t k \<le> evictCount t"
    using u by (simp add: word_le_nat_alt)
  have pos: "uid t k - evictCount t - 1 = word_of_nat k"
    by (simp add: uid_def)
  show ?thesis
  proof (cases static)
    case True
    have "unat (word_of_nat k + 1 :: u64) = k + 1"
      using assms k64 by (subst unat_add_small) (simp_all add: added_def)
    with True k le pos show ?thesis
      by (simp add: idToIndex_def index_order_def)
  next
    case False
    have "unat (word_of_nat (length (ents t)) - word_of_nat k :: u64) = length (ents t) - k"
      using k k64 l64 by (subst unat_sub) (simp_all add: word_le_nat_alt)
    with False k le pos show ?thesis
      by (simp add: idToIndex_def index_order_def rev_nth)
  qed
qed

lemma set_index_order [simp]: "set (index_order static t) = set (ents t)"
  "length (index_order static t) = length (ents t)"
  by (simp_all add: index_order_def)

lemma search_ok:
  assumes ok: "table_ok t"
  shows "\<exists>i m. search static t f = Inr (i, m) \<and> match_ok (index_order static t) f i m"
proof -
  let ?nv = "newest (\<lambda>g. Name g = Name f \<and> Value g = Value f) (ents t)"
  let ?n = "newest (\<lambda>g. Name g = Name f) (ents t)"
  have bound: "added t < 2 ^ 64 - 1"
    using ok by (simp add: table_ok_def)
  have get: "mapGet (byNameValue t) (Name f, Value f) = (case ?nv of None \<Rightarrow> 0 | Some k \<Rightarrow> uid t k)"
    "mapGet (byName t) (Name f) = (case ?n of None \<Rightarrow> 0 | Some k \<Rightarrow> uid t k)"
    using ok by (simp_all add: table_ok_def mapGet_def split: option.splits)
  show ?thesis
  proof (cases "\<not> Sensitive f \<and> ?nv \<noteq> None")
    case True
    then obtain k where nv: "?nv = Some k" by auto
    note k = newest_Some [OF this]
    from idToIndex_uid [OF bound, of k static] k obtain i where
      i: "idToIndex static t (uid t k) = Inr i" "1 \<le> unat i" "unat i \<le> length (ents t)"
        "index_order static t ! (unat i - 1) = ents t ! k" by auto
    moreover have "search static t f = Inr (i, True)"
      using True nv get i(1) uid_nonzero [OF bound, of k] k by (auto simp: search_def)
    ultimately show ?thesis
      using True k by (auto simp: match_ok_def)
  next
    case False
    then have no_nv: "\<not> Sensitive f \<Longrightarrow> \<forall>g \<in> set (ents t). \<not> (Name g = Name f \<and> Value g = Value f)"
      using newest_None [of _ "ents t"] by auto
    show ?thesis
    proof (cases ?n)
      case None
      then have "search static t f = Inr (0, False)"
        using False get by (auto simp: search_def split: option.splits)
      with None no_nv show ?thesis
        by (auto simp: match_ok_def newest_None)
    next
      case (Some k)
      note k = newest_Some [OF this]
      from idToIndex_uid [OF bound, of k static] k obtain i where
        i: "idToIndex static t (uid t k) = Inr i" "1 \<le> unat i" "unat i \<le> length (ents t)"
          "index_order static t ! (unat i - 1) = ents t ! k" by auto
      then have "i \<noteq> 0" by auto
      moreover have "search static t f = Inr (i, False)"
        using False get Some i(1) uid_nonzero [OF bound, of k] k
        by (auto simp: search_def split: option.splits)
      ultimately show ?thesis
        using i k no_nv by (auto simp: match_ok_def)
    qed
  qed
qed

section \<open>The interface of a table\<close>

lemma match_ok_left: "match_ok fs f i True \<Longrightarrow> match_ok (fs @ gs) f i True"
  by (auto simp: match_ok_def nth_append_left)

lemma match_ok_right:
  assumes "match_ok gs f j m" and "m \<or> j \<noteq> 0 \<and> (\<forall>g \<in> set fs. Name g \<noteq> Name f)"
    and "length fs + length gs < 2 ^ 64"
  shows "match_ok (fs @ gs) f (j + word_of_nat (length fs)) m"
proof -
  have j: "1 \<le> unat j" "unat j \<le> length gs"
    using assms(1,2) by (auto simp: match_ok_def Suc_le_eq unat_gt_0 split: if_splits)
  have "unat (word_of_nat (length fs) :: u64) = length fs"
    using assms(3) by (simp add: unat_of_nat)
  then have u: "unat (j + word_of_nat (length fs)) = unat j + length fs"
    using j assms(3) by (subst unat_add_small) simp_all
  then have nz: "j + word_of_nat (length fs) \<noteq> 0"
    using j(1) by (metis add_is_0 not_one_le_zero unat_0)
  have "(fs @ gs) ! (unat j + length fs - 1) = gs ! (unat j - 1)"
    using j by (simp add: nth_append)
  with assms(1,2) j u nz show ?thesis
    by (auto simp: match_ok_def split: if_splits)
qed

lemma match_ok_first:
  assumes "match_ok fs f i False" and "match_ok gs f j False" and "i \<noteq> 0 \<or> j = 0"
  shows "match_ok (fs @ gs) f i False"
proof -
  have "(fs @ gs) ! (unat i - 1) = fs ! (unat i - 1)" if "i \<noteq> 0"
  proof -
    have "unat i - 1 < length fs"
      using assms(1) that unat_gt_0 [of i] by (auto simp: match_ok_def)
    then show ?thesis by (simp add: nth_append)
  qed
  with assms show ?thesis
    unfolding match_ok_def by (cases "i = 0") auto
qed

text \<open>
  What the encoder needs of a table it searches: the fields by index, and a search whose
  answer fits them. The client lemma is the two-table search of \<^verbatim>\<open>Encoder.searchTable\<close>.
\<close>

locale field_table =
  fixes ok :: "'t \<Rightarrow> bool"
    and fields_of :: "'t \<Rightarrow> HeaderField list"
    and find_in :: "'t \<Rightarrow> HeaderField \<Rightarrow> hpack_error + (u64 \<times> bool)"
  assumes find_ok: "ok t \<Longrightarrow> \<exists>i m. find_in t f = Inr (i, m) \<and> match_ok (fields_of t) f i m"

locale two_tables =
  first: field_table ok1 fields1 find1 + second: field_table ok2 fields2 find2
  for ok1 :: "'s \<Rightarrow> bool" and fields1 and find1 and ok2 :: "'d \<Rightarrow> bool" and fields2 and find2
begin

lemma search_both:
  assumes "ok1 s" and "ok2 d" and "length (fields1 s) + length (fields2 d) < 2 ^ 64"
  shows "\<exists>i m. and_then (find1 s f) (\<lambda>(i, m).
      if m then Inr (i, True)
      else and_then (find2 d f) (\<lambda>(j, m').
        if m' \<or> i = 0 \<and> j \<noteq> 0 then Inr (j + word_of_nat (length (fields1 s)), m')
        else Inr (i, False))) = Inr (i, m) \<and> match_ok (fields1 s @ fields2 d) f i m"
proof -
  obtain i m where i: "find1 s f = Inr (i, m)" "match_ok (fields1 s) f i m"
    using first.find_ok [OF assms(1)] by blast
  obtain j m' where j: "find2 d f = Inr (j, m')" "match_ok (fields2 d) f j m'"
    using second.find_ok [OF assms(2)] by blast
  let ?n = "word_of_nat (length (fields1 s)) :: u64"
  consider (hit1) m | (hit2) "\<not> m" "m'" | (name2) "\<not> m" "\<not> m'" "i = 0" "j \<noteq> 0"
    | (other) "\<not> m" "\<not> m'" "i \<noteq> 0 \<or> j = 0" by blast
  then show ?thesis
  proof cases
    case hit1
    with i match_ok_left show ?thesis by auto
  next
    case hit2
    with j have "match_ok (fields1 s @ fields2 d) f (j + ?n) True"
      using match_ok_right [of "fields2 d" f j True "fields1 s"] assms(3) by (simp add: match_ok_def)
    with hit2 i j show ?thesis by auto
  next
    case name2
    with i j have "match_ok (fields1 s @ fields2 d) f (j + ?n) False"
      using match_ok_right [of "fields2 d" f j False "fields1 s"] assms(3) by (auto simp: match_ok_def)
    with name2 i j show ?thesis by auto
  next
    case other
    with i j have "match_ok (fields1 s @ fields2 d) f i False"
      using match_ok_first [of "fields1 s" f i "fields2 d" j] by simp
    with other i j show ?thesis by auto
  qed
qed

end

interpretation static_search: field_table table_ok "index_order True" "search True"
  by unfold_locales (rule search_ok)

interpretation dynamic_search: field_table table_ok "index_order False" "search False"
  by unfold_locales (rule search_ok)

interpretation hpack_search:
  two_tables table_ok "index_order True" "search True" table_ok "index_order False" "search False"
  by unfold_locales

section \<open>The static table\<close>

lemma foldl_addEntry:
  assumes "table_ok t" and "added t + length fs < 2 ^ 64 - 1"
  shows "table_ok (foldl addEntry t fs) \<and> ents (foldl addEntry t fs) = ents t @ fs"
  using assms
proof (induction fs arbitrary: t)
  case (Cons f fs)
  from Cons.IH [OF addEntry_ok [of t f]] Cons.prems show ?case by simp
qed simp

lemma length_staticTableEntries [simp]: "length staticTableEntries = 61"
  by (simp add: staticTableEntries_def)

lemma staticTable_ok: "table_ok staticTable" and staticTable_ents: "ents staticTable = staticTableEntries"
proof -
  have a: "added init_table = 0" by (simp add: added_def init_table_def)
  have "table_ok (foldl addEntry init_table staticTableEntries) \<and>
      ents (foldl addEntry init_table staticTableEntries) = ents init_table @ staticTableEntries"
    by (rule foldl_addEntry [OF init_table_ok]) (simp add: a)
  then show "table_ok staticTable" "ents staticTable = staticTableEntries"
    by (simp_all add: staticTable_def newStaticTable_def init_table_def)
qed

section \<open>Sizes and eviction\<close>

definition field_size :: "HeaderField \<Rightarrow> nat" where
  "field_size f = length (Name f) + length (Value f) + 32"

definition total_size :: "HeaderField list \<Rightarrow> nat" where
  "total_size fs = sum_list (map field_size fs)"

lemma total_size_simps [simp]:
  "total_size [] = 0" "total_size (f # fs) = field_size f + total_size fs"
  "total_size (fs @ gs) = total_size fs + total_size gs"
  by (simp_all add: total_size_def)

lemma total_size_drop: "total_size (drop n fs) \<le> total_size fs"
  by (metis append_take_drop_id le_add2 total_size_simps(3))

text \<open>
  The size field is the sum of the entries' sizes modulo \<open>2 ^ 32\<close>, whatever happens; it is at
  most the maximal size after every operation, and it is the exact sum as long as no single
  addition overflows.
\<close>

definition dt_ok :: "dynamicTable \<Rightarrow> bool" where
  "dt_ok dt \<longleftrightarrow> table_ok (table dt) \<and> dt_size dt = word_of_nat (total_size (ents (table dt))) \<and>
     dt_size dt \<le> maxSize dt"

definition dt_exact :: "dynamicTable \<Rightarrow> bool" where
  "dt_exact dt \<longleftrightarrow> dt_ok dt \<and> total_size (ents (table dt)) \<le> unat (maxSize dt)"

lemma Size_eq: "Size f = word_of_nat (field_size f)"
  by (simp add: Size_def field_size_def)

lemma evictLoop_spec:
  assumes "evictLoop sz mx fs = (sz', n)" and "sz = word_of_nat (total_size fs)"
  shows "n \<le> length fs \<and> sz' = word_of_nat (total_size (drop n fs)) \<and> sz' \<le> mx \<and>
    (\<forall>k < n. (word_of_nat (total_size (drop k fs)) :: u32) > mx)"
  using assms
proof (induction sz mx fs arbitrary: sz' n rule: evictLoop.induct)
  case (2 sz mx f fs)
  show ?case
  proof (cases "sz > mx")
    case True
    obtain sz1 n1 where rec: "evictLoop (sz - Size f) mx fs = (sz1, n1)"
      by fastforce
    have "sz - Size f = word_of_nat (total_size fs)"
      using 2(3) by (simp add: Size_eq)
    from 2(1) [OF True rec this] True rec 2(2,3) show ?thesis
      by (auto simp: less_Suc_eq_0_disj)
  next
    case False
    with 2 show ?thesis by auto
  qed
qed simp

lemma evict_spec:
  assumes "table_ok (table dt)" and "dt_size dt = word_of_nat (total_size (ents (table dt)))"
  shows "\<exists>dt' n. evict dt = Inr dt' \<and> dt_ok dt' \<and> maxSize dt' = maxSize dt \<and>
    allowedMaxSize dt' = allowedMaxSize dt \<and> added (table dt') = added (table dt) \<and>
    n \<le> length (ents (table dt)) \<and> ents (table dt') = drop n (ents (table dt)) \<and>
    (\<forall>k < n. (word_of_nat (total_size (drop k (ents (table dt)))) :: u32) > maxSize dt)"
proof -
  obtain sz n where loop: "evictLoop (dt_size dt) (maxSize dt) (ents (table dt)) = (sz, n)"
    by fastforce
  note spec = evictLoop_spec [OF loop assms(2)]
  obtain t where t: "evictOldest (table dt) n = Inr t" "ents t = drop n (ents (table dt))"
      "added t = added (table dt)" "table_ok t"
    using evictOldest_ok [OF assms(1), of n] spec by blast
  have "evict dt = Inr (dt\<lparr>dt_size := sz, table := t\<rparr>)"
    using loop t by (simp add: evict_def)
  with t spec show ?thesis
    by (intro exI [of _ "dt\<lparr>dt_size := sz, table := t\<rparr>"] exI [of _ n]) (auto simp: dt_ok_def)
qed

lemma setMaxSize_ok:
  assumes "dt_ok dt"
  shows "\<exists>dt'. setMaxSize dt v = Inr dt' \<and> dt_ok dt' \<and> maxSize dt' = v \<and>
    allowedMaxSize dt' = allowedMaxSize dt \<and> added (table dt') = added (table dt)"
  using evict_spec [of "dt\<lparr>maxSize := v\<rparr>"] assms by (auto simp: setMaxSize_def dt_ok_def)

lemma dt_add_ok:
  assumes "dt_ok dt" and "Suc (added (table dt)) < 2 ^ 64 - 1"
  shows "\<exists>dt'. dt_add dt f = Inr dt' \<and> dt_ok dt' \<and> maxSize dt' = maxSize dt \<and>
    allowedMaxSize dt' = allowedMaxSize dt \<and> added (table dt') = Suc (added (table dt))"
  using evict_spec [of "dt\<lparr>table := addEntry (table dt) f, dt_size := dt_size dt + Size f\<rparr>"]
    assms addEntry_ok
  by (auto simp: dt_add_def dt_ok_def Size_eq)

lemma init_dynamicTable_ok: "dt_ok init_dynamicTable"
  by (simp add: dt_ok_def init_dynamicTable_def init_table_ok) (simp add: init_table_def)

text \<open>The dynamic tables that the operations produce, with the number of fields added so far.\<close>

inductive dt_run :: "nat \<Rightarrow> dynamicTable \<Rightarrow> bool" where
  start: "dt_run 0 init_dynamicTable"
| resize: "dt_run n dt \<Longrightarrow> setMaxSize dt v = Inr dt' \<Longrightarrow> dt_run n dt'"
| allow: "dt_run n dt \<Longrightarrow> dt_run n (dt\<lparr>allowedMaxSize := v\<rparr>)"
| grow: "dt_run n dt \<Longrightarrow> dt_add dt f = Inr dt' \<Longrightarrow> dt_run (Suc n) dt'"

lemma dt_run_ok: "dt_run n dt \<Longrightarrow> n < 2 ^ 64 - 1 \<Longrightarrow> dt_ok dt \<and> added (table dt) = n"
proof (induction rule: dt_run.induct)
  case start
  show ?case
    using init_dynamicTable_ok by (simp add: init_dynamicTable_def added_def init_table_def)
next
  case (resize n dt v dt')
  with setMaxSize_ok [of dt v] show ?case by auto
next
  case (allow n dt v)
  then show ?case by (auto simp: dt_ok_def)
next
  case (grow n dt f dt')
  with dt_add_ok [of dt f] show ?case by auto
qed

lemma unat_total_size:
  assumes "total_size fs < 2 ^ 32"
  shows "unat (word_of_nat (total_size fs) :: u32) = total_size fs"
  using assms by (simp add: unat_of_nat)

lemma dt_add_exact:
  assumes "dt_exact dt" and "Suc (added (table dt)) < 2 ^ 64 - 1"
    and "unat (maxSize dt) + field_size f < 2 ^ 32"
  shows "\<exists>dt' n. dt_add dt f = Inr dt' \<and> dt_exact dt' \<and> maxSize dt' = maxSize dt \<and>
    n \<le> Suc (length (ents (table dt))) \<and> ents (table dt') = drop n (ents (table dt) @ [f]) \<and>
    (\<forall>k < n. total_size (drop k (ents (table dt) @ [f])) > unat (maxSize dt))"
proof -
  let ?fs = "ents (table dt) @ [f]"
  let ?dt = "dt\<lparr>table := addEntry (table dt) f, dt_size := dt_size dt + Size f\<rparr>"
  have small: "total_size ?fs < 2 ^ 32"
    using assms(1,3) by (simp add: dt_exact_def)
  have exact: "unat (word_of_nat (total_size (drop k ?fs)) :: u32) = total_size (drop k ?fs)" for k
    using total_size_drop [of k ?fs] small by (intro unat_total_size) simp
  have pre: "table_ok (table ?dt)" "dt_size ?dt = word_of_nat (total_size (ents (table ?dt)))"
    using assms addEntry_ok by (auto simp: dt_exact_def dt_ok_def Size_eq)
  obtain dt' n where dt': "evict ?dt = Inr dt'" "dt_ok dt'" "maxSize dt' = maxSize dt"
      "n \<le> length ?fs" "ents (table dt') = drop n ?fs"
      "\<forall>k < n. (word_of_nat (total_size (drop k ?fs)) :: u32) > maxSize dt"
    using evict_spec [OF pre] by auto
  have "total_size (drop n ?fs) \<le> unat (maxSize dt)"
    using dt'(2,3,5) exact [of n] unfolding dt_ok_def word_le_nat_alt by metis
  moreover have "\<forall>k < n. total_size (drop k ?fs) > unat (maxSize dt)"
    using dt'(6) exact by (simp add: word_less_nat_alt del: drop_append)
  ultimately show ?thesis
    using dt' by (intro exI [of _ dt'] exI [of _ n]) (simp add: dt_add_def dt_exact_def)
qed

section \<open>Properties\<close>

text \<open>
  C27: in every dynamic table that additions, size changes and evictions produce from the empty
  one (fewer than \<open>2 ^ 64 - 1\<close> additions), a search does not panic and answers right: a full
  match points, by its HPACK index, to an entry with this name and value; a name match points to
  an entry with this name when there is no full match (or the field is sensitive); index 0
  means that no entry has the name. Entries that were evicted are never returned.
\<close>

theorem dynamic_table_search:
  assumes "dt_run n dt" and "n < 2 ^ 64 - 1"
  shows "\<exists>i m. search False (table dt) f = Inr (i, m) \<and> match_ok (rev (ents (table dt))) f i m"
  using search_ok [of "table dt" False f] dt_run_ok [OF assms]
  by (simp add: dt_ok_def index_order_def)

theorem dynamic_table_search_witness:
  "\<exists>dt i m. dt_add (init_dynamicTable\<lparr>maxSize := 100\<rparr>) (hf ''a'' ''b'') = Inr dt \<and>
     search False (table dt) (hf ''a'' ''b'') = Inr (i, m) \<and>
     match_ok (rev (ents (table dt))) (hf ''a'' ''b'') i m"
proof -
  obtain dt0 where dt0: "setMaxSize init_dynamicTable 100 = Inr dt0"
      "dt0 = init_dynamicTable\<lparr>maxSize := 100\<rparr>"
    by (simp add: setMaxSize_def evict_def evictOldest_def init_dynamicTable_def init_table_def)
  obtain dt where dt: "dt_add dt0 (hf ''a'' ''b'') = Inr dt"
    using dt_add_ok [of dt0 "hf ''a'' ''b''"] dt_run_ok [OF dt_run.resize [OF dt_run.start dt0(1)]]
    by auto
  have "dt_run 1 dt"
    using dt_run.grow [OF dt_run.resize [OF dt_run.start dt0(1)] dt] by simp
  from dynamic_table_search [OF this, of "hf ''a'' ''b''"] dt dt0 show ?thesis by auto
qed

text \<open>
  C28: adding a field to the dynamic table keeps the table within its maximal size and evicts as
  RFC 7541, section 4.4, says: the oldest entries, and no more of them than needed. The new
  field itself goes when it alone is larger than the table.
\<close>

theorem dynamic_table_eviction:
  assumes "dt_exact dt" and "Suc (added (table dt)) < 2 ^ 64 - 1"
    and "unat (maxSize dt) + field_size f < 2 ^ 32"
  shows "\<exists>dt' n. dt_add dt f = Inr dt' \<and> maxSize dt' = maxSize dt \<and>
    unat (dt_size dt') = total_size (ents (table dt')) \<and>
    total_size (ents (table dt')) \<le> unat (maxSize dt') \<and>
    n \<le> Suc (length (ents (table dt))) \<and> ents (table dt') = drop n (ents (table dt) @ [f]) \<and>
    (\<forall>k < n. total_size (drop k (ents (table dt) @ [f])) > unat (maxSize dt))"
proof -
  obtain dt' n where dt': "dt_add dt f = Inr dt'" "dt_exact dt'" "maxSize dt' = maxSize dt"
      "n \<le> Suc (length (ents (table dt)))" "ents (table dt') = drop n (ents (table dt) @ [f])"
      "\<forall>k < n. total_size (drop k (ents (table dt) @ [f])) > unat (maxSize dt)"
    using dt_add_exact [OF assms] by blast
  have "total_size (ents (table dt')) < 2 ^ 32"
    using dt'(2) unat_less [of "maxSize dt'"] by (simp add: dt_exact_def)
  then have "unat (dt_size dt') = total_size (ents (table dt'))"
    using dt'(2) unat_total_size by (simp add: dt_exact_def dt_ok_def)
  with dt' show ?thesis
    by (intro exI [of _ dt'] exI [of _ n]) (simp add: dt_exact_def)
qed

theorem dynamic_table_eviction_witness:
  "\<exists>dt'. dt_add (init_dynamicTable\<lparr>maxSize := 40\<rparr>) (hf ''a'' ''b'') = Inr dt' \<and>
     ents (table dt') = [hf ''a'' ''b''] \<and> dt_size dt' = 34"
proof -
  let ?dt = "init_dynamicTable\<lparr>maxSize := 40\<rparr>"
  have e: "dt_exact ?dt"
    using init_dynamicTable_ok by (simp add: dt_exact_def dt_ok_def init_dynamicTable_def init_table_def)
  have "ents (table ?dt) = []" "added (table ?dt) = 0"
    by (simp_all add: init_dynamicTable_def init_table_def added_def)
  with dynamic_table_eviction [OF e, of "hf ''a'' ''b''"] obtain dt' n where
    dt': "dt_add ?dt (hf ''a'' ''b'') = Inr dt'" "ents (table dt') = drop n [hf ''a'' ''b'']"
      "unat (dt_size dt') = total_size (ents (table dt'))" "n \<le> 1"
      "\<forall>k < n. total_size (drop k [hf ''a'' ''b'']) > 40"
    by (auto simp: field_size_def)
  have "n = 0"
    using dt'(4,5) by (cases n) (auto simp: field_size_def)
  with dt' show ?thesis
    by (auto simp: field_size_def word_unat_eq_iff)
qed

end
