(* ===== verification/Huffman_Model.thy ===== *)
theory Huffman_Model
  imports Hpack_Varint
begin

text \<open>
  Huffman coding of header strings: the code table of \<^verbatim>\<open>h2/hpack/tables.go\<close> and
  the encoder, the decoding tree and the decoder of \<^verbatim>\<open>h2/hpack/huffman.go\<close>.
  \<open>Huffman_Proofs\<close> shows that decoding undoes encoding.
\<close>

section \<open>The code table\<close>

definition huffmanCodes :: "u32 list" where
  "huffmanCodes = [
     0x1ff8, 0x7fffd8, 0xfffffe2, 0xfffffe3, 0xfffffe4, 0xfffffe5, 0xfffffe6, 0xfffffe7,
     0xfffffe8, 0xffffea, 0x3ffffffc, 0xfffffe9, 0xfffffea, 0x3ffffffd, 0xfffffeb, 0xfffffec,
     0xfffffed, 0xfffffee, 0xfffffef, 0xffffff0, 0xffffff1, 0xffffff2, 0x3ffffffe, 0xffffff3,
     0xffffff4, 0xffffff5, 0xffffff6, 0xffffff7, 0xffffff8, 0xffffff9, 0xffffffa, 0xffffffb,
     0x14, 0x3f8, 0x3f9, 0xffa, 0x1ff9, 0x15, 0xf8, 0x7fa,
     0x3fa, 0x3fb, 0xf9, 0x7fb, 0xfa, 0x16, 0x17, 0x18,
     0x0, 0x1, 0x2, 0x19, 0x1a, 0x1b, 0x1c, 0x1d,
     0x1e, 0x1f, 0x5c, 0xfb, 0x7ffc, 0x20, 0xffb, 0x3fc,
     0x1ffa, 0x21, 0x5d, 0x5e, 0x5f, 0x60, 0x61, 0x62,
     0x63, 0x64, 0x65, 0x66, 0x67, 0x68, 0x69, 0x6a,
     0x6b, 0x6c, 0x6d, 0x6e, 0x6f, 0x70, 0x71, 0x72,
     0xfc, 0x73, 0xfd, 0x1ffb, 0x7fff0, 0x1ffc, 0x3ffc, 0x22,
     0x7ffd, 0x3, 0x23, 0x4, 0x24, 0x5, 0x25, 0x26,
     0x27, 0x6, 0x74, 0x75, 0x28, 0x29, 0x2a, 0x7,
     0x2b, 0x76, 0x2c, 0x8, 0x9, 0x2d, 0x77, 0x78,
     0x79, 0x7a, 0x7b, 0x7ffe, 0x7fc, 0x3ffd, 0x1ffd, 0xffffffc,
     0xfffe6, 0x3fffd2, 0xfffe7, 0xfffe8, 0x3fffd3, 0x3fffd4, 0x3fffd5, 0x7fffd9,
     0x3fffd6, 0x7fffda, 0x7fffdb, 0x7fffdc, 0x7fffdd, 0x7fffde, 0xffffeb, 0x7fffdf,
     0xffffec, 0xffffed, 0x3fffd7, 0x7fffe0, 0xffffee, 0x7fffe1, 0x7fffe2, 0x7fffe3,
     0x7fffe4, 0x1fffdc, 0x3fffd8, 0x7fffe5, 0x3fffd9, 0x7fffe6, 0x7fffe7, 0xffffef,
     0x3fffda, 0x1fffdd, 0xfffe9, 0x3fffdb, 0x3fffdc, 0x7fffe8, 0x7fffe9, 0x1fffde,
     0x7fffea, 0x3fffdd, 0x3fffde, 0xfffff0, 0x1fffdf, 0x3fffdf, 0x7fffeb, 0x7fffec,
     0x1fffe0, 0x1fffe1, 0x3fffe0, 0x1fffe2, 0x7fffed, 0x3fffe1, 0x7fffee, 0x7fffef,
     0xfffea, 0x3fffe2, 0x3fffe3, 0x3fffe4, 0x7ffff0, 0x3fffe5, 0x3fffe6, 0x7ffff1,
     0x3ffffe0, 0x3ffffe1, 0xfffeb, 0x7fff1, 0x3fffe7, 0x7ffff2, 0x3fffe8, 0x1ffffec,
     0x3ffffe2, 0x3ffffe3, 0x3ffffe4, 0x7ffffde, 0x7ffffdf, 0x3ffffe5, 0xfffff1, 0x1ffffed,
     0x7fff2, 0x1fffe3, 0x3ffffe6, 0x7ffffe0, 0x7ffffe1, 0x3ffffe7, 0x7ffffe2, 0xfffff2,
     0x1fffe4, 0x1fffe5, 0x3ffffe8, 0x3ffffe9, 0xffffffd, 0x7ffffe3, 0x7ffffe4, 0x7ffffe5,
     0xfffec, 0xfffff3, 0xfffed, 0x1fffe6, 0x3fffe9, 0x1fffe7, 0x1fffe8, 0x7ffff3,
     0x3fffea, 0x3fffeb, 0x1ffffee, 0x1ffffef, 0xfffff4, 0xfffff5, 0x3ffffea, 0x7ffff4,
     0x3ffffeb, 0x7ffffe6, 0x3ffffec, 0x3ffffed, 0x7ffffe7, 0x7ffffe8, 0x7ffffe9, 0x7ffffea,
     0x7ffffeb, 0xffffffe, 0x7ffffec, 0x7ffffed, 0x7ffffee, 0x7ffffef, 0x7fffff0, 0x3ffffee]"

text \<open>Lengths in bits (\<^verbatim>\<open>uint8\<close> in the source; no entry exceeds 30).\<close>

definition huffmanCodeLen :: "nat list" where
  "huffmanCodeLen = [
     13, 23, 28, 28, 28, 28, 28, 28, 28, 24, 30, 28, 28, 30, 28, 28,
     28, 28, 28, 28, 28, 28, 30, 28, 28, 28, 28, 28, 28, 28, 28, 28,
     6, 10, 10, 12, 13, 6, 8, 11, 10, 10, 8, 11, 8, 6, 6, 6,
     5, 5, 5, 6, 6, 6, 6, 6, 6, 6, 7, 8, 15, 6, 12, 10,
     13, 6, 7, 7, 7, 7, 7, 7, 7, 7, 7, 7, 7, 7, 7, 7,
     7, 7, 7, 7, 7, 7, 7, 7, 8, 7, 8, 13, 19, 13, 14, 6,
     15, 5, 6, 5, 6, 5, 6, 6, 6, 5, 7, 7, 6, 6, 6, 5,
     6, 7, 6, 5, 5, 6, 7, 7, 7, 7, 7, 15, 11, 14, 13, 28,
     20, 22, 20, 20, 22, 22, 22, 23, 22, 23, 23, 23, 23, 23, 24, 23,
     24, 24, 22, 23, 24, 23, 23, 23, 23, 21, 22, 23, 22, 23, 23, 24,
     22, 21, 20, 22, 22, 23, 23, 21, 23, 22, 22, 24, 21, 22, 23, 23,
     21, 21, 22, 21, 23, 22, 23, 23, 20, 22, 22, 22, 23, 22, 22, 23,
     26, 26, 20, 19, 22, 23, 22, 25, 26, 26, 26, 27, 27, 26, 24, 25,
     19, 21, 26, 27, 27, 26, 27, 24, 21, 21, 26, 26, 28, 27, 27, 27,
     20, 24, 20, 21, 22, 21, 21, 23, 22, 22, 25, 25, 24, 24, 26, 23,
     26, 27, 26, 26, 27, 27, 27, 27, 27, 28, 27, 27, 27, 27, 27, 26]"

section \<open>Encoding\<close>

text \<open>
  \<^verbatim>\<open>appendByteToHuffmanCode\<close>: \<open>rembits\<close> is the number of free low bits of the last
  byte of \<open>dst\<close>. The recursion is the \<^verbatim>\<open>for\<close> loop over the bits still to write.
\<close>

function appendBitsLoop :: "bytes \<Rightarrow> nat \<Rightarrow> u32 \<Rightarrow> nat \<Rightarrow> bytes \<times> nat" where
  "appendBitsLoop dst rembits code nbits =
     (if rembits > nbits then
        (orAt (length dst - 1) (ucast (push_bit (rembits - nbits) code)) dst, rembits - nbits)
      else
        let dst' = orAt (length dst - 1) (ucast (drop_bit (nbits - rembits) code)) dst;
            nbits' = nbits - rembits
        in if nbits' = 0 then (dst', 8) else appendBitsLoop (dst' @ [0]) 8 code nbits')"
  by pat_completeness auto
termination
  by (relation "measures [\<lambda>(dst, rembits, code, nbits). nbits,
      \<lambda>(dst, rembits, code, nbits). if rembits = 0 then 1 else 0]") auto

declare appendBitsLoop.simps [simp del]

definition appendByteToHuffmanCode :: "bytes \<Rightarrow> nat \<Rightarrow> byte \<Rightarrow> bytes \<times> nat" where
  "appendByteToHuffmanCode dst rembits c =
     appendBitsLoop dst rembits (huffmanCodes ! unat c) (huffmanCodeLen ! unat c)"

fun appendHuffmanLoop :: "bytes \<Rightarrow> nat \<Rightarrow> bytes \<Rightarrow> bytes \<times> nat" where
  "appendHuffmanLoop dst rembits [] = (dst, rembits)"
| "appendHuffmanLoop dst rembits (c # cs) =
     (let dst0 = (if rembits = 8 then dst @ [0] else dst);
          (dst', rembits') = appendByteToHuffmanCode dst0 rembits c
      in appendHuffmanLoop dst' rembits' cs)"

text \<open>The string is padded with the first bits of EOS, whose code is 30 ones.\<close>

definition AppendHuffmanString :: "bytes \<Rightarrow> string \<Rightarrow> bytes" where
  "AppendHuffmanString dst s =
     (let (dst', rembits) = appendHuffmanLoop dst 8 (bytes_of s) in
      if rembits < 8 then
        let code = 0x3fffffff :: u32; nbits = 30
        in orAt (length dst' - 1) (ucast (drop_bit (nbits - rembits) code)) dst'
      else dst')"

definition HuffmanEncodeLength :: "string \<Rightarrow> u64" where
  "HuffmanEncodeLength s =
     (foldl (\<lambda>n c. n + word_of_nat (huffmanCodeLen ! unat c)) 0 (bytes_of s) + 7) div 8"

section \<open>The decoding tree\<close>

text \<open>
  A node has 256 children or none; a leaf carries its symbol and the number of bits of the
  last byte that led to it. A missing child (\<^verbatim>\<open>nil\<close>) is \<open>None\<close>.
\<close>

datatype node = Leaf (codeLen: nat) (sym: byte) | Internal (children: "byte \<Rightarrow> node option")

definition newInternalNode :: "byte \<Rightarrow> node option" where
  "newInternalNode = (\<lambda>_. None)"

text \<open>
  One round of \<^verbatim>\<open>buildRootHuffmanNode\<close>'s loop over the symbols: walk eight bits at a time,
  then fill every slot that starts with the remaining bits. Walking into a leaf would
  dereference its nil children: \<open>None\<close>.
\<close>

function insertCode :: "(byte \<Rightarrow> node option) \<Rightarrow> byte \<Rightarrow> u32 \<Rightarrow> nat \<Rightarrow> (byte \<Rightarrow> node option) option" where
  "insertCode cur s code len =
     (if len > 8 then
        let len' = len - 8; i = ucast (drop_bit len' code)
        in case cur i of
             None \<Rightarrow> map_option (\<lambda>c. cur(i := Some (Internal c))) (insertCode newInternalNode s code len')
           | Some (Internal c0) \<Rightarrow> map_option (\<lambda>c. cur(i := Some (Internal c))) (insertCode c0 s code len')
           | Some (Leaf l x) \<Rightarrow> None
      else
        let shift = 8 - len; start = unat (ucast (push_bit shift code) :: byte); n = 2 ^ shift
        in Some (\<lambda>i. if start \<le> unat i \<and> unat i < start + n then Some (Leaf len s) else cur i))"
  by pat_completeness auto
termination
  by (relation "measure (\<lambda>(cur, s, code, len). len)") auto

declare insertCode.simps [simp del]

fun insertCodes :: "(byte \<Rightarrow> node option) \<Rightarrow> nat \<Rightarrow> (u32 \<times> nat) list \<Rightarrow> (byte \<Rightarrow> node option) option" where
  "insertCodes cur k [] = Some cur"
| "insertCodes cur k ((code, len) # cs) =
     (case insertCode cur (word_of_nat k) code len of
        None \<Rightarrow> None | Some cur' \<Rightarrow> insertCodes cur' (Suc k) cs)"

definition buildRootHuffmanNode :: "(byte \<Rightarrow> node option) option" where
  "buildRootHuffmanNode =
     (if length huffmanCodes \<noteq> 256 then None
      else insertCodes newInternalNode 0 (zip huffmanCodes huffmanCodeLen))"

definition getRootHuffmanNode :: "byte \<Rightarrow> node option" where
  "getRootHuffmanNode = (case buildRootHuffmanNode of Some r \<Rightarrow> r | None \<Rightarrow> newInternalNode)"

section \<open>Decoding\<close>

text \<open>
  The variables of \<^verbatim>\<open>huffmanDecode\<close>: \<open>node\<close> is the children of \<^verbatim>\<open>n\<close>, which is never a
  leaf at the head of a loop. A loop that does not end is \<open>None\<close>.
\<close>

record hstate =
  hs_node :: "byte \<Rightarrow> node option"
  hs_cur :: u64
  hs_cbits :: nat
  hs_sbits :: nat
  hs_buf :: bytes

definition tooLong :: "nat \<Rightarrow> hstate \<Rightarrow> bool" where
  "tooLong maxLen st \<longleftrightarrow> maxLen \<noteq> 0 \<and> length (hs_buf st) = maxLen"

text \<open>\<^verbatim>\<open>for cbits >= 8\<close>\<close>

partial_function (option) decodeInner ::
    "(byte \<Rightarrow> node option) \<Rightarrow> nat \<Rightarrow> hstate \<Rightarrow> (hpack_error + hstate) option" where
  "decodeInner root maxLen st =
     (if hs_cbits st \<ge> 8 then
        (case hs_node st (ucast (drop_bit (hs_cbits st - 8) (hs_cur st))) of
           None \<Rightarrow> Some (Inl ErrInvalidHuffman)
         | Some (Leaf l s) \<Rightarrow>
             if tooLong maxLen st then Some (Inl ErrStringLength)
             else decodeInner root maxLen
               (st\<lparr>hs_buf := hs_buf st @ [s], hs_cbits := hs_cbits st - l, hs_node := root,
                  hs_sbits := hs_cbits st - l\<rparr>)
         | Some (Internal c) \<Rightarrow>
             decodeInner root maxLen (st\<lparr>hs_node := c, hs_cbits := hs_cbits st - 8\<rparr>))
      else Some (Inr st))"

text \<open>\<^verbatim>\<open>for _, b := range v\<close>\<close>

fun decodeOuter :: "(byte \<Rightarrow> node option) \<Rightarrow> nat \<Rightarrow> hstate \<Rightarrow> bytes \<Rightarrow> (hpack_error + hstate) option" where
  "decodeOuter root maxLen st [] = Some (Inr st)"
| "decodeOuter root maxLen st (b # v) =
     (case decodeInner root maxLen
        (st\<lparr>hs_cur := push_bit 8 (hs_cur st) OR ucast b, hs_cbits := hs_cbits st + 8,
           hs_sbits := hs_sbits st + 8\<rparr>) of
        None \<Rightarrow> None
      | Some (Inl e) \<Rightarrow> Some (Inl e)
      | Some (Inr st') \<Rightarrow> decodeOuter root maxLen st' v)"

text \<open>\<^verbatim>\<open>for cbits > 0\<close>, after the last byte\<close>

partial_function (option) decodeTail ::
    "(byte \<Rightarrow> node option) \<Rightarrow> nat \<Rightarrow> hstate \<Rightarrow> (hpack_error + hstate) option" where
  "decodeTail root maxLen st =
     (if hs_cbits st > 0 then
        (case hs_node st (ucast (push_bit (8 - hs_cbits st) (hs_cur st))) of
           None \<Rightarrow> Some (Inl ErrInvalidHuffman)
         | Some (Internal c) \<Rightarrow> Some (Inr st)
         | Some (Leaf l s) \<Rightarrow>
             if l > hs_cbits st then Some (Inr st)
             else if tooLong maxLen st then Some (Inl ErrStringLength)
             else decodeTail root maxLen
               (st\<lparr>hs_buf := hs_buf st @ [s], hs_cbits := hs_cbits st - l, hs_node := root,
                  hs_sbits := hs_cbits st - l\<rparr>))
      else Some (Inr st))"

definition decodeCheck :: "hstate \<Rightarrow> hpack_error + bytes" where
  "decodeCheck st =
     (if hs_sbits st > 7 then Inl ErrInvalidHuffman
      else let m = push_bit (hs_cbits st) 1 - 1 in
        if hs_cur st AND m \<noteq> m then Inl ErrInvalidHuffman else Inr (hs_buf st))"

definition decodeRun :: "nat \<Rightarrow> bytes \<Rightarrow> (hpack_error + hstate) option" where
  "decodeRun maxLen v =
     (let root = getRootHuffmanNode in
      case decodeOuter root maxLen
        \<lparr>hs_node = root, hs_cur = 0, hs_cbits = 0, hs_sbits = 0, hs_buf = []\<rparr> v of
        None \<Rightarrow> None
      | Some (Inl e) \<Rightarrow> Some (Inl e)
      | Some (Inr st) \<Rightarrow> decodeTail root maxLen st)"

text \<open>
  \<^verbatim>\<open>huffmanDecode\<close>, with the decoded bytes instead of the buffer. A run that did not end
  would show as \<open>Panic\<close>; \<open>Huffman_Proofs\<close> proves that there is none.
\<close>

definition huffmanDecode :: "nat \<Rightarrow> bytes \<Rightarrow> hpack_error + bytes" where
  "huffmanDecode maxLen v =
     (case decodeRun maxLen v of
        None \<Rightarrow> Inl (Panic ''huffmanDecode does not return'')
      | Some (Inl e) \<Rightarrow> Inl e
      | Some (Inr st) \<Rightarrow> decodeCheck st)"

definition HuffmanDecodeToString :: "bytes \<Rightarrow> hpack_error + string" where
  "HuffmanDecodeToString v =
     (case huffmanDecode 0 v of Inl e \<Rightarrow> Inl e | Inr b \<Rightarrow> Inr (string_of b))"

end
