(* ===== verification/Hpack_Decoder.thy ===== *)
theory Hpack_Decoder
  imports Hpack_Table Huffman_Model
begin

text \<open>
  The HPACK decoder (\<^verbatim>\<open>h2/hpack/hpack.go\<close>). Decoded fields go to the callback \<open>emit\<close>, which
  works on a state \<open>sink\<close> of its own and may change whether it is called again (the only method
  of the decoder that callbacks in this program call is \<^verbatim>\<open>SetEmitEnabled\<close>).
  A parsing step returns the new decoder and the error, if any.
\<close>

section \<open>The decoder\<close>

record 's Decoder =
  dec_dynTab :: dynamicTable
  emit :: "HeaderField \<Rightarrow> 's \<Rightarrow> bool \<Rightarrow> 's \<times> bool"
  emitEnabled :: bool
  maxStrLen :: nat
  dec_buf :: bytes
  saveBuf :: bytes
  firstField :: bool
  sink :: 's

type_synonym 's parsed = "'s Decoder \<times> hpack_error option"

definition NewDecoder ::
    "u32 \<Rightarrow> (HeaderField \<Rightarrow> 's \<Rightarrow> bool \<Rightarrow> 's \<times> bool) \<Rightarrow> 's \<Rightarrow> hpack_error + 's Decoder" where
  "NewDecoder maxDynamicTableSize emitFunc s =
     and_then (setMaxSize (init_dynamicTable\<lparr>allowedMaxSize := maxDynamicTableSize\<rparr>) maxDynamicTableSize)
       (\<lambda>dt. Inr \<lparr>dec_dynTab = dt, emit = emitFunc, emitEnabled = True, maxStrLen = 0, dec_buf = [],
                saveBuf = [], firstField = True, sink = s\<rparr>)"

definition SetMaxStringLength :: "'s Decoder \<Rightarrow> nat \<Rightarrow> 's Decoder" where
  "SetMaxStringLength d n = d\<lparr>maxStrLen := n\<rparr>"

definition SetEmitFunc :: "'s Decoder \<Rightarrow> (HeaderField \<Rightarrow> 's \<Rightarrow> bool \<Rightarrow> 's \<times> bool) \<Rightarrow> 's Decoder" where
  "SetEmitFunc d emitFunc = d\<lparr>emit := emitFunc\<rparr>"

definition SetEmitEnabled :: "'s Decoder \<Rightarrow> bool \<Rightarrow> 's Decoder" where
  "SetEmitEnabled d v = d\<lparr>emitEnabled := v\<rparr>"

definition dec_SetMaxDynamicTableSize :: "'s Decoder \<Rightarrow> u32 \<Rightarrow> hpack_error + 's Decoder" where
  "dec_SetMaxDynamicTableSize d v =
     and_then (setMaxSize (dec_dynTab d) v) (\<lambda>dt. Inr (d\<lparr>dec_dynTab := dt\<rparr>))"

definition SetAllowedMaxDynamicTableSize :: "'s Decoder \<Rightarrow> u32 \<Rightarrow> 's Decoder" where
  "SetAllowedMaxDynamicTableSize d v = d\<lparr>dec_dynTab := (dec_dynTab d)\<lparr>allowedMaxSize := v\<rparr>\<rparr>"

definition maxTableIndex :: "'s Decoder \<Rightarrow> nat" where
  "maxTableIndex d = length (ents (table (dec_dynTab d))) + length (ents staticTable)"

definition at :: "'s Decoder \<Rightarrow> u64 \<Rightarrow> HeaderField option" where
  "at d i =
     (if i = 0 then None
      else if unat i \<le> length (ents staticTable) then Some (ents staticTable ! (unat i - 1))
      else if unat i > maxTableIndex d then None
      else let dt = ents (table (dec_dynTab d))
           in Some (dt ! (length dt - (unat i - length (ents staticTable)))))"

section \<open>Parsing\<close>

datatype indexType = indexedTrue | indexedFalse | indexedNever

definition indexed :: "indexType \<Rightarrow> bool" where
  "indexed v \<longleftrightarrow> v = indexedTrue"

definition sensitive :: "indexType \<Rightarrow> bool" where
  "sensitive v \<longleftrightarrow> v = indexedNever"

definition readString :: "'s Decoder \<Rightarrow> bytes \<Rightarrow> bool \<Rightarrow> hpack_error + (string \<times> bytes)" where
  "readString d p wantStr =
     (if p = [] then Inl ErrNeedMore
      else
        let isHuff = (p ! 0 AND 128 \<noteq> 0) in
        and_then (readVarInt 7 p) (\<lambda>(strLen, p').
          if maxStrLen d \<noteq> 0 \<and> unat strLen > maxStrLen d then Inl ErrStringLength
          else if length p' < unat strLen then Inl ErrNeedMore
          else if \<not> isHuff then
            Inr (if wantStr then string_of (take (unat strLen) p') else [], drop (unat strLen) p')
          else if wantStr then
            and_then (huffmanDecode (maxStrLen d) (take (unat strLen) p')) (\<lambda>s.
              Inr (string_of s, drop (unat strLen) p'))
          else Inr ([], drop (unat strLen) p')))"

definition callEmit :: "'s Decoder \<Rightarrow> HeaderField \<Rightarrow> 's parsed" where
  "callEmit d f =
     (if maxStrLen d \<noteq> 0 \<and> (length (Name f) > maxStrLen d \<or> length (Value f) > maxStrLen d)
      then (d, Some ErrStringLength)
      else if emitEnabled d then
        let (s', en) = emit d f (sink d) (emitEnabled d)
        in (d\<lparr>sink := s', emitEnabled := en\<rparr>, None)
      else (d, None))"

definition parseFieldIndexed :: "'s Decoder \<Rightarrow> 's parsed" where
  "parseFieldIndexed d =
     (case readVarInt 7 (dec_buf d) of
        Inl e \<Rightarrow> (d, Some e)
      | Inr (idx, buf) \<Rightarrow>
          (case at d idx of
             None \<Rightarrow> (d, Some (DecodingError (InvalidIndexError idx)))
           | Some h \<Rightarrow> callEmit (d\<lparr>dec_buf := buf\<rparr>) (hf (Name h) (Value h))))"

text \<open>The name of a literal field: from the table, or read from the input.\<close>

definition literalName :: "'s Decoder \<Rightarrow> u64 \<Rightarrow> bytes \<Rightarrow> bool \<Rightarrow> hpack_error + (string \<times> bytes)" where
  "literalName d nameIdx buf wantStr =
     (if nameIdx > 0 then
        (case at d nameIdx of
           None \<Rightarrow> Inl (DecodingError (InvalidIndexError nameIdx))
         | Some ihf \<Rightarrow> Inr (Name ihf, buf))
      else readString d buf wantStr)"

definition parseFieldLiteral :: "'s Decoder \<Rightarrow> nat \<Rightarrow> indexType \<Rightarrow> 's parsed" where
  "parseFieldLiteral d n it =
     (let wantStr = (emitEnabled d \<or> indexed it) in
      case and_then (readVarInt n (dec_buf d)) (\<lambda>(nameIdx, buf1).
             and_then (literalName d nameIdx buf1 wantStr) (\<lambda>(name, buf2).
               and_then (readString d buf2 wantStr) (\<lambda>(val, buf3). Inr (name, val, buf3)))) of
        Inl e \<Rightarrow> (d, Some e)
      | Inr (name, val, buf) \<Rightarrow>
          (let d1 = d\<lparr>dec_buf := buf\<rparr> in
           case (if indexed it then dt_add (dec_dynTab d1) (hf name val) else Inr (dec_dynTab d1)) of
             Inl e \<Rightarrow> (d1, Some e)
           | Inr dt \<Rightarrow>
               callEmit (d1\<lparr>dec_dynTab := dt\<rparr>) \<lparr>Name = name, Value = val, Sensitive = sensitive it\<rparr>))"

definition parseDynamicTableSizeUpdate :: "'s Decoder \<Rightarrow> 's parsed" where
  "parseDynamicTableSizeUpdate d =
     (if \<not> firstField d \<and> dt_size (dec_dynTab d) > 0
      then (d, Some (DecodingError TableSizeUpdateNotFirst))
      else case readVarInt 5 (dec_buf d) of
        Inl e \<Rightarrow> (d, Some e)
      | Inr (siz, buf) \<Rightarrow>
          if siz > ucast (allowedMaxSize (dec_dynTab d))
          then (d, Some (DecodingError TableSizeUpdateTooLarge))
          else case setMaxSize (dec_dynTab d) (ucast siz) of
            Inl e \<Rightarrow> (d, Some e)
          | Inr dt \<Rightarrow> (d\<lparr>dec_dynTab := dt, dec_buf := buf\<rparr>, None))"

definition parseHeaderFieldRepr :: "'s Decoder \<Rightarrow> 's parsed" where
  "parseHeaderFieldRepr d =
     (let b = dec_buf d ! 0 in
      if b AND 128 \<noteq> 0 then parseFieldIndexed d
      else if b AND 192 = 64 then parseFieldLiteral d 6 indexedTrue
      else if b AND 240 = 0 then parseFieldLiteral d 4 indexedFalse
      else if b AND 240 = 16 then parseFieldLiteral d 4 indexedNever
      else if b AND 224 = 32 then parseDynamicTableSizeUpdate d
      else (d, Some (DecodingError InvalidEncoding)))"

subsection \<open>Every step consumes input\<close>

lemma readString_extend:
  assumes "readString d p w = Inr (s, r)"
  shows "readString d (p @ q) w = Inr (s, r @ q) \<and> length r < length p"
proof -
  from assms obtain n p' where v: "readVarInt 7 p = Inr (n, p')" and p: "p \<noteq> []"
    by (auto simp: readString_def split: if_splits)
  from readVarInt_extend [OF v, of q] p assms v show ?thesis
    by (auto simp: readString_def nth_append Let_def split: if_splits)
qed

lemma callEmit_buf [simp]: "dec_buf (fst (callEmit d f)) = dec_buf d"
  by (simp add: callEmit_def Let_def split: prod.splits)

lemma parseHeaderFieldRepr_consumes:
  assumes "parseHeaderFieldRepr d = (d', None)" and "dec_buf d \<noteq> []"
  shows "length (dec_buf d') < length (dec_buf d)"
proof -
  have emit: "length (dec_buf d1) < n" if "callEmit d0 f = (d1, e)" "length (dec_buf d0) < n"
    for d0 :: "'a Decoder" and f d1 e n
    using callEmit_buf [of d0 f] that by (simp del: callEmit_buf)
  have idx: "length (dec_buf d') < length (dec_buf d)" if "parseFieldIndexed d = (d', None)"
    using that readVarInt_extend [of 7 "dec_buf d" _ _ "[]"]
    by (auto simp: parseFieldIndexed_def split: sum.splits option.splits elim!: emit)
  have lit: "length (dec_buf d') < length (dec_buf d)" if "parseFieldLiteral d n it = (d', None)" for n it
  proof -
    let ?w = "emitEnabled d \<or> indexed it"
    from that obtain i b1 name b2 v b3 dt where
      1: "readVarInt n (dec_buf d) = Inr (i, b1)" and
      2: "literalName d i b1 ?w = Inr (name, b2)" and
      3: "readString d b2 ?w = Inr (v, b3)" and
      4: "callEmit (d\<lparr>dec_buf := b3, dec_dynTab := dt\<rparr>)
        \<lparr>Name = name, Value = v, Sensitive = sensitive it\<rparr> = (d', None)"
      by (auto simp: parseFieldLiteral_def Let_def split: sum.splits if_splits)
    have "length b2 \<le> length b1"
      using 2 readString_extend [of d b1 ?w name b2 "[]"]
      by (auto simp: literalName_def split: if_splits option.splits)
    with readVarInt_extend [OF 1, of "[]"] readString_extend [OF 3, of "[]"]
    have "length b3 < length (dec_buf d)" by simp
    then show ?thesis
      using emit [OF 4, of "length (dec_buf d)"] by simp
  qed
  have upd: "length (dec_buf d') < length (dec_buf d)" if "parseDynamicTableSizeUpdate d = (d', None)"
    using that readVarInt_extend [of 5 "dec_buf d" _ _ "[]"]
    by (auto simp: parseDynamicTableSizeUpdate_def split: sum.splits if_splits)
  show ?thesis
    using assms(1) idx lit upd by (auto simp: parseHeaderFieldRepr_def Let_def split: if_splits)
qed

section \<open>Writing and closing\<close>

text \<open>
  The loop of \<^verbatim>\<open>Write\<close>. It ends because every successful step consumes input; the Boolean
  says that it stopped for want of input (\<^verbatim>\<open>errNeedMore\<close>).
\<close>

function writeLoop :: "'s Decoder \<Rightarrow> 's Decoder \<times> bool \<times> hpack_error option" where
  "writeLoop d =
     (if dec_buf d = [] then (d, False, None)
      else case parseHeaderFieldRepr d of
        (d', None) \<Rightarrow> writeLoop (d'\<lparr>firstField := False\<rparr>)
      | (d', Some e) \<Rightarrow>
          if e = ErrNeedMore then (d', True, None) else (d'\<lparr>firstField := False\<rparr>, False, Some e))"
  by pat_completeness auto
termination
  by (relation "measure (\<lambda>d. length (dec_buf d))") (auto dest!: sym [of "(_, _)"] dest: parseHeaderFieldRepr_consumes)

declare writeLoop.simps [simp del]

definition Write :: "'s Decoder \<Rightarrow> bytes \<Rightarrow> 's Decoder \<times> nat \<times> hpack_error option" where
  "Write d0 p =
     (if p = [] then (d0, 0, None)
      else
        let d = (if saveBuf d0 = [] then d0\<lparr>dec_buf := p\<rparr>
                 else d0\<lparr>dec_buf := saveBuf d0 @ p, saveBuf := []\<rparr>)
        in case writeLoop d of
             (d', True, _) \<Rightarrow>
               if maxStrLen d' \<noteq> 0 \<and> length (dec_buf d') > 2 * (maxStrLen d' + 8)
               then (d', 0, Some ErrStringLength)
               else (d'\<lparr>saveBuf := saveBuf d' @ dec_buf d'\<rparr>, length p, None)
           | (d', False, err) \<Rightarrow> (d', length p, err))"

definition Close :: "'s Decoder \<Rightarrow> 's parsed" where
  "Close d =
     (if length (saveBuf d) > 0 then (d\<lparr>saveBuf := []\<rparr>, Some (DecodingError TruncatedHeaders))
      else (d\<lparr>firstField := True\<rparr>, None))"

text \<open>
  \<^verbatim>\<open>DecodeFull\<close> runs with a callback of its own, which appends to the result, and puts the old
  one back.
\<close>

definition collect :: "HeaderField \<Rightarrow> HeaderField list \<Rightarrow> bool \<Rightarrow> HeaderField list \<times> bool" where
  "collect f fs en = (fs @ [f], en)"

definition with_emit ::
    "'s Decoder \<Rightarrow> (HeaderField \<Rightarrow> 't \<Rightarrow> bool \<Rightarrow> 't \<times> bool) \<Rightarrow> 't \<Rightarrow> 't Decoder" where
  "with_emit d em s =
     \<lparr>dec_dynTab = dec_dynTab d, emit = em, emitEnabled = emitEnabled d, maxStrLen = maxStrLen d,
      dec_buf = dec_buf d, saveBuf = saveBuf d, firstField = firstField d, sink = s\<rparr>"

definition DecodeFull :: "'s Decoder \<Rightarrow> bytes \<Rightarrow> 's Decoder \<times> (hpack_error + HeaderField list)" where
  "DecodeFull d p =
     (let (d1, n, err) = Write (with_emit d collect []) p in
      case err of
        Some e \<Rightarrow> (with_emit d1 (emit d) (sink d), Inl e)
      | None \<Rightarrow>
          (let (d2, err2) = Close d1 in
           case err2 of
             Some e \<Rightarrow> (with_emit d2 (emit d) (sink d), Inl e)
           | None \<Rightarrow> (with_emit d2 (emit d) (sink d), Inr (sink d2))))"

end
