(* ===== verification/Frame_Types.thy ===== *)
theory Frame_Types
  imports Hpack_Decoder "HOL-Library.Char_ord"
begin

text \<open>
  The data of the framing layer: frame types, flags, error codes and errors
  (\<^verbatim>\<open>h2/frame/errors.go\<close>), settings and the header name check (\<^verbatim>\<open>h2/frame/http2.go\<close>), and the
  frames (\<^verbatim>\<open>h2/frame/frame.go\<close>). The names a \<^verbatim>\<open>String\<close> method prints are part of the model where
  they are a table; formatted numbers are not.
\<close>

section \<open>Frame types and flags\<close>

type_synonym FrameType = byte

definition FrameData :: FrameType where "FrameData = 0x0"
definition FrameHeaders :: FrameType where "FrameHeaders = 0x1"
definition FramePriority :: FrameType where "FramePriority = 0x2"
definition FrameRSTStream :: FrameType where "FrameRSTStream = 0x3"
definition FrameSettings :: FrameType where "FrameSettings = 0x4"
definition FramePushPromise :: FrameType where "FramePushPromise = 0x5"
definition FramePing :: FrameType where "FramePing = 0x6"
definition FrameGoAway :: FrameType where "FrameGoAway = 0x7"
definition FrameWindowUpdate :: FrameType where "FrameWindowUpdate = 0x8"
definition FrameContinuation :: FrameType where "FrameContinuation = 0x9"

lemmas frame_type_defs =
  FrameData_def FrameHeaders_def FramePriority_def FrameRSTStream_def FrameSettings_def
  FramePushPromise_def FramePing_def FrameGoAway_def FrameWindowUpdate_def FrameContinuation_def

definition frameName :: "FrameType \<rightharpoonup> string" where
  "frameName = [FrameData \<mapsto> ''DATA'', FrameHeaders \<mapsto> ''HEADERS'', FramePriority \<mapsto> ''PRIORITY'',
     FrameRSTStream \<mapsto> ''RST_STREAM'', FrameSettings \<mapsto> ''SETTINGS'', FramePushPromise \<mapsto> ''PUSH_PROMISE'',
     FramePing \<mapsto> ''PING'', FrameGoAway \<mapsto> ''GOAWAY'', FrameWindowUpdate \<mapsto> ''WINDOW_UPDATE'',
     FrameContinuation \<mapsto> ''CONTINUATION'']"

text \<open>\<^verbatim>\<open>f.Has(v)\<close>\<close>

definition Has :: "byte \<Rightarrow> byte \<Rightarrow> bool" where
  "Has f v \<longleftrightarrow> f AND v = v"

definition FlagDataEndStream :: byte where "FlagDataEndStream = 0x1"
definition FlagDataPadded :: byte where "FlagDataPadded = 0x8"
definition FlagHeadersEndStream :: byte where "FlagHeadersEndStream = 0x1"
definition FlagHeadersEndHeaders :: byte where "FlagHeadersEndHeaders = 0x4"
definition FlagHeadersPadded :: byte where "FlagHeadersPadded = 0x8"
definition FlagHeadersPriority :: byte where "FlagHeadersPriority = 0x20"
definition FlagSettingsAck :: byte where "FlagSettingsAck = 0x1"
definition FlagPingAck :: byte where "FlagPingAck = 0x1"
definition FlagContinuationEndHeaders :: byte where "FlagContinuationEndHeaders = 0x4"
definition FlagPushPromiseEndHeaders :: byte where "FlagPushPromiseEndHeaders = 0x4"
definition FlagPushPromisePadded :: byte where "FlagPushPromisePadded = 0x8"

lemmas flag_defs =
  FlagDataEndStream_def FlagDataPadded_def FlagHeadersEndStream_def FlagHeadersEndHeaders_def
  FlagHeadersPadded_def FlagHeadersPriority_def FlagSettingsAck_def FlagPingAck_def
  FlagContinuationEndHeaders_def FlagPushPromiseEndHeaders_def FlagPushPromisePadded_def

section \<open>Errors\<close>

type_synonym ErrCode = u32

definition ErrCodeNo :: ErrCode where "ErrCodeNo = 0x0"
definition ErrCodeProtocol :: ErrCode where "ErrCodeProtocol = 0x1"
definition ErrCodeInternal :: ErrCode where "ErrCodeInternal = 0x2"
definition ErrCodeFlowControl :: ErrCode where "ErrCodeFlowControl = 0x3"
definition ErrCodeSettingsTimeout :: ErrCode where "ErrCodeSettingsTimeout = 0x4"
definition ErrCodeStreamClosed :: ErrCode where "ErrCodeStreamClosed = 0x5"
definition ErrCodeFrameSize :: ErrCode where "ErrCodeFrameSize = 0x6"
definition ErrCodeRefusedStream :: ErrCode where "ErrCodeRefusedStream = 0x7"
definition ErrCodeCancel :: ErrCode where "ErrCodeCancel = 0x8"
definition ErrCodeCompression :: ErrCode where "ErrCodeCompression = 0x9"
definition ErrCodeConnect :: ErrCode where "ErrCodeConnect = 0xa"
definition ErrCodeEnhanceYourCalm :: ErrCode where "ErrCodeEnhanceYourCalm = 0xb"
definition ErrCodeInadequateSecurity :: ErrCode where "ErrCodeInadequateSecurity = 0xc"
definition ErrCodeHTTP11Required :: ErrCode where "ErrCodeHTTP11Required = 0xd"

definition errCodeName :: "ErrCode \<rightharpoonup> string" where
  "errCodeName = [ErrCodeNo \<mapsto> ''NO_ERROR'', ErrCodeProtocol \<mapsto> ''PROTOCOL_ERROR'',
     ErrCodeInternal \<mapsto> ''INTERNAL_ERROR'', ErrCodeFlowControl \<mapsto> ''FLOW_CONTROL_ERROR'',
     ErrCodeSettingsTimeout \<mapsto> ''SETTINGS_TIMEOUT'', ErrCodeStreamClosed \<mapsto> ''STREAM_CLOSED'',
     ErrCodeFrameSize \<mapsto> ''FRAME_SIZE_ERROR'', ErrCodeRefusedStream \<mapsto> ''REFUSED_STREAM'',
     ErrCodeCancel \<mapsto> ''CANCEL'', ErrCodeCompression \<mapsto> ''COMPRESSION_ERROR'',
     ErrCodeConnect \<mapsto> ''CONNECT_ERROR'', ErrCodeEnhanceYourCalm \<mapsto> ''ENHANCE_YOUR_CALM'',
     ErrCodeInadequateSecurity \<mapsto> ''INADEQUATE_SECURITY'', ErrCodeHTTP11Required \<mapsto> ''HTTP_1_1_REQUIRED'']"

text \<open>Why a header list is refused.\<close>

datatype header_error =
    pseudoHeaderError string
  | duplicatePseudoHeaderError string
  | headerFieldNameError string
  | errMixPseudoHeaderTypes
  | errPseudoAfterRegular

text \<open>
  The detail that \<^verbatim>\<open>connError\<close> stashes away: the arguments of its message instead of the
  formatted text.
\<close>

datatype err_detail =
    Reason string
  | WrongPrioritySize nat
  | ExpectedContinuation FrameType u32 FrameType u32
  | WrongContinuation u32 u32
  | UnexpectedContinuation u32
  | InvalidHeader header_error

text \<open>\<open>NoReturn\<close> stands for a call that never comes back, \<open>FramePanic\<close> for a run-time panic.\<close>

datatype frame_error =
    EOF
  | ErrUnexpectedEOF
  | ErrFrameTooLarge
  | ConnectionError ErrCode
  | StreamError u32 ErrCode "header_error option"
  | connError ErrCode err_detail
  | errStreamID
  | errDepStreamID
  | errPadLength
  | errPadBytes
  | errIllegalIncrement
  | errIllegalReadsWithMeta
  | errWrite string
  | errShortWrite
  | NoReturn
  | FramePanic string

definition streamError :: "u32 \<Rightarrow> ErrCode \<Rightarrow> frame_error" where
  "streamError sid code = StreamError sid code None"

text \<open>\<^verbatim>\<open>terminalReadFrameError\<close>\<close>

fun terminalReadFrameError :: "frame_error option \<Rightarrow> bool" where
  "terminalReadFrameError (Some (StreamError sid code cause)) = False"
| "terminalReadFrameError (Some e) = True"
| "terminalReadFrameError None = False"

section \<open>Settings\<close>

type_synonym SettingID = u16

definition SettingHeaderTableSize :: SettingID where "SettingHeaderTableSize = 0x1"
definition SettingEnablePush :: SettingID where "SettingEnablePush = 0x2"
definition SettingMaxConcurrentStreams :: SettingID where "SettingMaxConcurrentStreams = 0x3"
definition SettingInitialWindowSize :: SettingID where "SettingInitialWindowSize = 0x4"
definition SettingMaxFrameSize :: SettingID where "SettingMaxFrameSize = 0x5"
definition SettingMaxHeaderListSize :: SettingID where "SettingMaxHeaderListSize = 0x6"

lemmas setting_defs =
  SettingHeaderTableSize_def SettingEnablePush_def SettingMaxConcurrentStreams_def
  SettingInitialWindowSize_def SettingMaxFrameSize_def SettingMaxHeaderListSize_def

record Setting =
  ID :: SettingID
  Val :: u32

definition Valid :: "Setting \<Rightarrow> frame_error option" where
  "Valid s =
     (if ID s = SettingEnablePush then
        (if Val s \<noteq> 1 \<and> Val s \<noteq> 0 then Some (ConnectionError ErrCodeProtocol) else None)
      else if ID s = SettingInitialWindowSize then
        (if Val s > 2 ^ 31 - 1 then Some (ConnectionError ErrCodeFlowControl) else None)
      else if ID s = SettingMaxFrameSize then
        (if Val s < 16384 \<or> Val s > 2 ^ 24 - 1 then Some (ConnectionError ErrCodeProtocol) else None)
      else None)"

definition settingName :: "SettingID \<rightharpoonup> string" where
  "settingName = [SettingHeaderTableSize \<mapsto> ''HEADER_TABLE_SIZE'', SettingEnablePush \<mapsto> ''ENABLE_PUSH'',
     SettingMaxConcurrentStreams \<mapsto> ''MAX_CONCURRENT_STREAMS'',
     SettingInitialWindowSize \<mapsto> ''INITIAL_WINDOW_SIZE'', SettingMaxFrameSize \<mapsto> ''MAX_FRAME_SIZE'',
     SettingMaxHeaderListSize \<mapsto> ''MAX_HEADER_LIST_SIZE'']"

text \<open>
  \<^verbatim>\<open>validWireHeaderFieldName\<close> ranges over runes; a rune is an upper-case ASCII letter exactly when
  it is such a byte of the string.
\<close>

definition validWireHeaderFieldName :: "string \<Rightarrow> bool" where
  "validWireHeaderFieldName v \<longleftrightarrow>
     v \<noteq> [] \<and> list_all (\<lambda>r. \<not> (CHR ''A'' \<le> r \<and> r \<le> CHR ''Z'')) v"

definition bodyAllowedForStatus :: "int \<Rightarrow> bool" where
  "bodyAllowedForStatus status =
     (if status \<ge> 100 \<and> status \<le> 199 then False
      else if status = 204 then False
      else if status = 304 then False
      else True)"

definition validPseudoPath :: "string \<Rightarrow> bool" where
  "validPseudoPath v \<longleftrightarrow> (length v > 0 \<and> v ! 0 = CHR ''/'') \<or> v = ''*''"

text \<open>\<^verbatim>\<open>mustUint31\<close>: the \<^verbatim>\<open>int32\<close> argument as a signed number; \<open>None\<close> is the panic.\<close>

definition mustUint31 :: "u32 \<Rightarrow> u32 option" where
  "mustUint31 v = (if sint v < 0 \<or> sint v > 2147483647 then None else Some v)"

section \<open>Frames\<close>

record FrameHeader =
  valid :: bool
  Type :: FrameType
  Flags :: byte
  Length :: u32
  StreamID :: u32

record PriorityParam =
  StreamDep :: u32
  Exclusive :: bool
  Weight :: byte

definition zeroPriority :: PriorityParam where
  "zeroPriority = \<lparr>StreamDep = 0, Exclusive = False, Weight = 0\<rparr>"

definition IsZero :: "PriorityParam \<Rightarrow> bool" where
  "IsZero p \<longleftrightarrow> p = zeroPriority"

datatype Frame =
    DataFrame FrameHeader bytes
  | HeadersFrame FrameHeader PriorityParam bytes
  | PriorityFrame FrameHeader PriorityParam
  | RSTStreamFrame FrameHeader ErrCode
  | SettingsFrame FrameHeader bytes
  | PushPromiseFrame FrameHeader u32 bytes
  | PingFrame FrameHeader bytes
  | GoAwayFrame FrameHeader u32 ErrCode bytes
  | WindowUpdateFrame FrameHeader u32
  | ContinuationFrame FrameHeader bytes
  | UnknownFrame FrameHeader bytes
  | MetaHeadersFrame FrameHeader PriorityParam "HeaderField list" bool

fun Header :: "Frame \<Rightarrow> FrameHeader" where
  "Header (DataFrame fh d) = fh"
| "Header (HeadersFrame fh p b) = fh"
| "Header (PriorityFrame fh p) = fh"
| "Header (RSTStreamFrame fh c) = fh"
| "Header (SettingsFrame fh p) = fh"
| "Header (PushPromiseFrame fh i b) = fh"
| "Header (PingFrame fh d) = fh"
| "Header (GoAwayFrame fh i c d) = fh"
| "Header (WindowUpdateFrame fh i) = fh"
| "Header (ContinuationFrame fh b) = fh"
| "Header (UnknownFrame fh p) = fh"
| "Header (MetaHeadersFrame fh p fs t) = fh"

text \<open>\<^verbatim>\<open>invalidate\<close> marks the frame that the next \<^verbatim>\<open>ReadFrame\<close> overwrites.\<close>

fun invalidate :: "Frame \<Rightarrow> Frame" where
  "invalidate (DataFrame fh d) = DataFrame (fh\<lparr>valid := False\<rparr>) d"
| "invalidate (HeadersFrame fh p b) = HeadersFrame (fh\<lparr>valid := False\<rparr>) p b"
| "invalidate (PriorityFrame fh p) = PriorityFrame (fh\<lparr>valid := False\<rparr>) p"
| "invalidate (RSTStreamFrame fh c) = RSTStreamFrame (fh\<lparr>valid := False\<rparr>) c"
| "invalidate (SettingsFrame fh p) = SettingsFrame (fh\<lparr>valid := False\<rparr>) p"
| "invalidate (PushPromiseFrame fh i b) = PushPromiseFrame (fh\<lparr>valid := False\<rparr>) i b"
| "invalidate (PingFrame fh d) = PingFrame (fh\<lparr>valid := False\<rparr>) d"
| "invalidate (GoAwayFrame fh i c d) = GoAwayFrame (fh\<lparr>valid := False\<rparr>) i c d"
| "invalidate (WindowUpdateFrame fh i) = WindowUpdateFrame (fh\<lparr>valid := False\<rparr>) i"
| "invalidate (ContinuationFrame fh b) = ContinuationFrame (fh\<lparr>valid := False\<rparr>) b"
| "invalidate (UnknownFrame fh p) = UnknownFrame (fh\<lparr>valid := False\<rparr>) p"
| "invalidate (MetaHeadersFrame fh p fs t) = MetaHeadersFrame (fh\<lparr>valid := False\<rparr>) p fs t"

text \<open>\<^verbatim>\<open>StreamEnded\<close> and \<^verbatim>\<open>HeadersEnded\<close>: the flags of the frames that have them.\<close>

definition StreamEnded :: "FrameHeader \<Rightarrow> bool" where
  "StreamEnded fh = Has (Flags fh) FlagHeadersEndStream"

definition HeadersEnded :: "FrameHeader \<Rightarrow> bool" where
  "HeadersEnded fh = Has (Flags fh) FlagHeadersEndHeaders"

definition IsAck :: "FrameHeader \<Rightarrow> bool" where
  "IsAck fh = Has (Flags fh) FlagSettingsAck"

section \<open>Reading a settings payload\<close>

definition NumSettings :: "bytes \<Rightarrow> nat" where
  "NumSettings p = length p div 6"

text \<open>\<^verbatim>\<open>f.Setting(i)\<close>, for \<open>i\<close> below the number of settings.\<close>

definition Setting_at :: "bytes \<Rightarrow> nat \<Rightarrow> Setting" where
  "Setting_at p i =
     \<lparr>ID = be_uint16 (p ! (i * 6)) (p ! (i * 6 + 1)),
      Val = be_uint32 (p ! (i * 6 + 2)) (p ! (i * 6 + 3)) (p ! (i * 6 + 4)) (p ! (i * 6 + 5))\<rparr>"

fun Value_loop :: "bytes \<Rightarrow> SettingID \<Rightarrow> nat list \<Rightarrow> u32 option" where
  "Value_loop p sid [] = None"
| "Value_loop p sid (i # is) =
     (let s = Setting_at p i in if ID s = sid then Some (Val s) else Value_loop p sid is)"

text \<open>\<^verbatim>\<open>f.Value(id)\<close>: \<open>None\<close> is \<^verbatim>\<open>ok == false\<close>.\<close>

definition setting_Value :: "bytes \<Rightarrow> SettingID \<Rightarrow> u32 option" where
  "setting_Value p sid = Value_loop p sid [0..<NumSettings p]"

text \<open>\<^verbatim>\<open>HasDuplicates\<close>: the quadratic search for few settings, a set for many.\<close>

fun seenLoop :: "bytes \<Rightarrow> SettingID set \<Rightarrow> nat list \<Rightarrow> bool" where
  "seenLoop p seen [] = False"
| "seenLoop p seen (i # is) =
     (let sid = ID (Setting_at p i) in sid \<in> seen \<or> seenLoop p (insert sid seen) is)"

definition HasDuplicates :: "bytes \<Rightarrow> bool" where
  "HasDuplicates p =
     (let num = NumSettings p in
      if num = 0 then False
      else if num < 10 then
        list_ex (\<lambda>i. list_ex (\<lambda>j. ID (Setting_at p i) = ID (Setting_at p j)) [i + 1..<num]) [0..<num]
      else seenLoop p {} [0..<num])"

text \<open>\<^verbatim>\<open>ForeachSetting\<close>: run a function that may fail on each setting, threading a state.\<close>

fun foreachLoop :: "('s \<Rightarrow> Setting \<Rightarrow> 'e + 's) \<Rightarrow> 's \<Rightarrow> Setting list \<Rightarrow> 'e + 's" where
  "foreachLoop f s [] = Inr s"
| "foreachLoop f s (x # xs) = and_then (f s x) (\<lambda>s'. foreachLoop f s' xs)"

definition ForeachSetting :: "bytes \<Rightarrow> ('s \<Rightarrow> Setting \<Rightarrow> 'e + 's) \<Rightarrow> 's \<Rightarrow> 'e + 's" where
  "ForeachSetting p f s = foreachLoop f s (map (Setting_at p) [0..<NumSettings p])"

end
