(* ===== verification/Frame_Parse.thy ===== *)
theory Frame_Parse
  imports Frame_Types
begin

text \<open>
  The frame parsers of \<^verbatim>\<open>h2/frame/frame.go\<close>: a parser gets the frame header and a payload of
  \<open>Length\<close> bytes. The \<^verbatim>\<open>countError\<close> callback only counts and is left out.
\<close>

section \<open>Reading fields of a payload\<close>

fun readByte :: "bytes \<Rightarrow> frame_error + (bytes \<times> byte)" where
  "readByte [] = Inl ErrUnexpectedEOF"
| "readByte (b # p) = Inr (p, b)"

fun readUint32 :: "bytes \<Rightarrow> frame_error + (bytes \<times> u32)" where
  "readUint32 (a # b # c # d # p) = Inr (p, be_uint32 a b c d)"
| "readUint32 p = Inl ErrUnexpectedEOF"

text \<open>\<^verbatim>\<open>& (1<<31 - 1)\<close>: mask off the reserved bit.\<close>

definition low31 :: "u32 \<Rightarrow> u32" where
  "low31 v = v AND 0x7fffffff"

section \<open>The parsers\<close>

definition parseDataFrame :: "FrameHeader \<Rightarrow> bytes \<Rightarrow> frame_error + Frame" where
  "parseDataFrame fh payload =
     (if StreamID fh = 0 then
        Inl (connError ErrCodeProtocol (Reason ''DATA frame with stream muxID 0''))
      else
        and_then (if Has (Flags fh) FlagDataPadded then readByte payload else Inr (payload, 0))
          (\<lambda>(payload, padSize).
            if unat padSize > length payload then
              Inl (connError ErrCodeProtocol (Reason ''pad size larger than data payload''))
            else Inr (DataFrame fh (take (length payload - unat padSize) payload))))"

definition parseSettingsFrame :: "FrameHeader \<Rightarrow> bytes \<Rightarrow> frame_error + Frame" where
  "parseSettingsFrame fh p =
     (if Has (Flags fh) FlagSettingsAck \<and> Length fh > 0 then Inl (ConnectionError ErrCodeFrameSize)
      else if StreamID fh \<noteq> 0 then Inl (ConnectionError ErrCodeProtocol)
      else if length p mod 6 \<noteq> 0 then Inl (ConnectionError ErrCodeFrameSize)
      else case setting_Value p SettingInitialWindowSize of
        Some v \<Rightarrow> if v > 2 ^ 31 - 1 then Inl (ConnectionError ErrCodeFlowControl) else Inr (SettingsFrame fh p)
      | None \<Rightarrow> Inr (SettingsFrame fh p))"

definition parsePingFrame :: "FrameHeader \<Rightarrow> bytes \<Rightarrow> frame_error + Frame" where
  "parsePingFrame fh payload =
     (if length payload \<noteq> 8 then Inl (ConnectionError ErrCodeFrameSize)
      else if StreamID fh \<noteq> 0 then Inl (ConnectionError ErrCodeProtocol)
      else Inr (PingFrame fh payload))"

definition parseGoAwayFrame :: "FrameHeader \<Rightarrow> bytes \<Rightarrow> frame_error + Frame" where
  "parseGoAwayFrame fh p =
     (if StreamID fh \<noteq> 0 then Inl (ConnectionError ErrCodeProtocol)
      else if length p < 8 then Inl (ConnectionError ErrCodeFrameSize)
      else Inr (GoAwayFrame fh (low31 (be_uint32 (p ! 0) (p ! 1) (p ! 2) (p ! 3)))
                  (be_uint32 (p ! 4) (p ! 5) (p ! 6) (p ! 7)) (drop 8 p)))"

definition parseUnknownFrame :: "FrameHeader \<Rightarrow> bytes \<Rightarrow> frame_error + Frame" where
  "parseUnknownFrame fh p = Inr (UnknownFrame fh p)"

definition parseWindowUpdateFrame :: "FrameHeader \<Rightarrow> bytes \<Rightarrow> frame_error + Frame" where
  "parseWindowUpdateFrame fh p =
     (if length p \<noteq> 4 then Inl (ConnectionError ErrCodeFrameSize)
      else
        let inc = low31 (be_uint32 (p ! 0) (p ! 1) (p ! 2) (p ! 3)) in
        if inc = 0 then
          (if StreamID fh = 0 then Inl (ConnectionError ErrCodeProtocol)
           else Inl (streamError (StreamID fh) ErrCodeProtocol))
        else Inr (WindowUpdateFrame fh inc))"

text \<open>The optional priority of a HEADERS frame.\<close>

definition readPriority :: "bytes \<Rightarrow> frame_error + (bytes \<times> PriorityParam)" where
  "readPriority p =
     and_then (readUint32 p) (\<lambda>(p1, v).
       and_then (readByte p1) (\<lambda>(p2, w).
         Inr (p2, \<lparr>StreamDep = low31 v, Exclusive = (v \<noteq> low31 v), Weight = w\<rparr>)))"

definition parseHeadersFrame :: "FrameHeader \<Rightarrow> bytes \<Rightarrow> frame_error + Frame" where
  "parseHeadersFrame fh p =
     (if StreamID fh = 0 then
        Inl (connError ErrCodeProtocol (Reason ''HEADERS frame with stream muxID 0''))
      else
        and_then (if Has (Flags fh) FlagHeadersPadded then readByte p else Inr (p, 0)) (\<lambda>(p1, padLength).
          and_then (if Has (Flags fh) FlagHeadersPriority then readPriority p1 else Inr (p1, zeroPriority))
            (\<lambda>(p2, prio).
              if length p2 < unat padLength then Inl (streamError (StreamID fh) ErrCodeProtocol)
              else Inr (HeadersFrame fh prio (take (length p2 - unat padLength) p2)))))"

definition parsePriorityFrame :: "FrameHeader \<Rightarrow> bytes \<Rightarrow> frame_error + Frame" where
  "parsePriorityFrame fh payload =
     (if StreamID fh = 0 then
        Inl (connError ErrCodeProtocol (Reason ''PRIORITY frame with stream muxID 0''))
      else if length payload \<noteq> 5 then
        Inl (connError ErrCodeFrameSize (WrongPrioritySize (length payload)))
      else
        let v = be_uint32 (payload ! 0) (payload ! 1) (payload ! 2) (payload ! 3); streamID = low31 v in
        Inr (PriorityFrame fh
          \<lparr>StreamDep = streamID, Exclusive = (streamID \<noteq> v), Weight = payload ! 4\<rparr>))"

definition parseRSTStreamFrame :: "FrameHeader \<Rightarrow> bytes \<Rightarrow> frame_error + Frame" where
  "parseRSTStreamFrame fh p =
     (if length p \<noteq> 4 then Inl (ConnectionError ErrCodeFrameSize)
      else if StreamID fh = 0 then Inl (ConnectionError ErrCodeProtocol)
      else Inr (RSTStreamFrame fh (be_uint32 (p ! 0) (p ! 1) (p ! 2) (p ! 3))))"

definition parseContinuationFrame :: "FrameHeader \<Rightarrow> bytes \<Rightarrow> frame_error + Frame" where
  "parseContinuationFrame fh p =
     (if StreamID fh = 0 then
        Inl (connError ErrCodeProtocol (Reason ''CONTINUATION frame with stream muxID 0''))
      else Inr (ContinuationFrame fh p))"

definition parsePushPromise :: "FrameHeader \<Rightarrow> bytes \<Rightarrow> frame_error + Frame" where
  "parsePushPromise fh p =
     (if StreamID fh = 0 then Inl (ConnectionError ErrCodeProtocol)
      else
        and_then (if Has (Flags fh) FlagPushPromisePadded then readByte p else Inr (p, 0)) (\<lambda>(p1, padLength).
          and_then (readUint32 p1) (\<lambda>(p2, promiseID).
            if unat padLength > length p2 then Inl (ConnectionError ErrCodeProtocol)
            else Inr (PushPromiseFrame fh (low31 promiseID) (take (length p2 - unat padLength) p2)))))"

definition typeFrameParser :: "FrameType \<Rightarrow> FrameHeader \<Rightarrow> bytes \<Rightarrow> frame_error + Frame" where
  "typeFrameParser t =
     (if t = FrameData then parseDataFrame
      else if t = FrameHeaders then parseHeadersFrame
      else if t = FramePriority then parsePriorityFrame
      else if t = FrameRSTStream then parseRSTStreamFrame
      else if t = FrameSettings then parseSettingsFrame
      else if t = FramePushPromise then parsePushPromise
      else if t = FramePing then parsePingFrame
      else if t = FrameGoAway then parseGoAwayFrame
      else if t = FrameWindowUpdate then parseWindowUpdateFrame
      else if t = FrameContinuation then parseContinuationFrame
      else parseUnknownFrame)"

section \<open>What every parser guarantees\<close>

text \<open>
  The frame keeps the header it was given; its constructor is that of the header's type; frames
  that belong to a stream have one, frames of the connection have none. No parser makes a
  \<^verbatim>\<open>MetaHeadersFrame\<close>, which only \<^verbatim>\<open>readMetaFrame\<close> does.
\<close>

fun frame_type_ok :: "Frame \<Rightarrow> bool" where
  "frame_type_ok (DataFrame fh d) \<longleftrightarrow> Type fh = FrameData \<and> StreamID fh \<noteq> 0"
| "frame_type_ok (HeadersFrame fh p b) \<longleftrightarrow> Type fh = FrameHeaders \<and> StreamID fh \<noteq> 0 \<and> low31 (StreamDep p) = StreamDep p"
| "frame_type_ok (PriorityFrame fh p) \<longleftrightarrow> Type fh = FramePriority \<and> StreamID fh \<noteq> 0 \<and> low31 (StreamDep p) = StreamDep p"
| "frame_type_ok (RSTStreamFrame fh c) \<longleftrightarrow> Type fh = FrameRSTStream \<and> StreamID fh \<noteq> 0"
| "frame_type_ok (SettingsFrame fh p) \<longleftrightarrow> Type fh = FrameSettings \<and> StreamID fh = 0 \<and> 6 dvd length p"
| "frame_type_ok (PushPromiseFrame fh i b) \<longleftrightarrow> Type fh = FramePushPromise \<and> StreamID fh \<noteq> 0 \<and> low31 i = i"
| "frame_type_ok (PingFrame fh d) \<longleftrightarrow> Type fh = FramePing \<and> StreamID fh = 0 \<and> length d = 8"
| "frame_type_ok (GoAwayFrame fh i c d) \<longleftrightarrow> Type fh = FrameGoAway \<and> StreamID fh = 0 \<and> low31 i = i"
| "frame_type_ok (WindowUpdateFrame fh i) \<longleftrightarrow> Type fh = FrameWindowUpdate \<and> low31 i = i \<and> i \<noteq> 0"
| "frame_type_ok (ContinuationFrame fh b) \<longleftrightarrow> Type fh = FrameContinuation \<and> StreamID fh \<noteq> 0"
| "frame_type_ok (UnknownFrame fh p) \<longleftrightarrow> Type fh > FrameContinuation"
| "frame_type_ok (MetaHeadersFrame fh p fs t) \<longleftrightarrow> False"

lemmas parser_defs =
  parseDataFrame_def parseHeadersFrame_def parsePriorityFrame_def parseRSTStreamFrame_def
  parseSettingsFrame_def parsePushPromise_def parsePingFrame_def parseGoAwayFrame_def
  parseWindowUpdateFrame_def parseContinuationFrame_def parseUnknownFrame_def

lemma low31_idem [simp]: "low31 (low31 v) = low31 v"
  by (simp add: low31_def and.assoc)

lemma frame_type_cases:
  assumes "t \<noteq> FrameData" "t \<noteq> FrameHeaders" "t \<noteq> FramePriority" "t \<noteq> FrameRSTStream" "t \<noteq> FrameSettings"
    "t \<noteq> FramePushPromise" "t \<noteq> FramePing" "t \<noteq> FrameGoAway" "t \<noteq> FrameWindowUpdate" "t \<noteq> FrameContinuation"
  shows "t > FrameContinuation"
proof -
  have "\<not> t \<le> 9"
  proof
    assume "t \<le> 9"
    then have "unat t \<le> 9" by (simp add: word_le_nat_alt)
    then have "unat t \<in> {0, 1, 2, 3, 4, 5, 6, 7, 8, 9}" by auto
    moreover have "t = word_of_nat (unat t)" by simp
    ultimately show False
      using assms unfolding frame_type_defs by (elim insertE; simp add: word_unat_eq_iff)
  qed
  then show ?thesis by (simp add: frame_type_defs not_le)
qed

lemma typeFrameParser_ok:
  assumes "typeFrameParser (Type fh) fh p = Inr f"
  shows "Header f = fh \<and> frame_type_ok f"
proof -
  consider "Type fh = FrameData" | "Type fh = FrameHeaders" | "Type fh = FramePriority"
    | "Type fh = FrameRSTStream" | "Type fh = FrameSettings" | "Type fh = FramePushPromise"
    | "Type fh = FramePing" | "Type fh = FrameGoAway" | "Type fh = FrameWindowUpdate"
    | "Type fh = FrameContinuation" | "Type fh > FrameContinuation"
    using frame_type_cases [of "Type fh"] by blast
  then show ?thesis
  proof cases
    case 11
    then have "typeFrameParser (Type fh) = parseUnknownFrame"
      by (auto simp: typeFrameParser_def frame_type_defs)
    with 11 assms show ?thesis by (auto simp: parseUnknownFrame_def)
  qed (use assms in \<open>auto simp: typeFrameParser_def parser_defs readPriority_def zeroPriority_def low31_def Let_def
        frame_type_defs mod_eq_0_iff_dvd split: if_splits option.splits\<close>)
qed

section \<open>Settings as a list\<close>

text \<open>The settings of a payload, and the two ways of looking for duplicates agree.\<close>

definition settings_of :: "bytes \<Rightarrow> Setting list" where
  "settings_of p = map (Setting_at p) [0..<NumSettings p]"

lemma Value_loop_find:
  "Value_loop p sid is = map_option Val (find (\<lambda>s. ID s = sid) (map (Setting_at p) is))"
  by (induction "is") (auto simp: Let_def)

lemma setting_Value_find: "setting_Value p sid = map_option Val (find (\<lambda>s. ID s = sid) (settings_of p))"
  by (simp add: setting_Value_def settings_of_def Value_loop_find)

lemma seenLoop_distinct:
  "seenLoop p seen is \<longleftrightarrow> \<not> distinct (map (\<lambda>i. ID (Setting_at p i)) is) \<or>
     (\<exists>i \<in> set is. ID (Setting_at p i) \<in> seen)"
proof (induction p seen "is" rule: seenLoop.induct)
  case (2 p seen i "is")
  have "ID (Setting_at p i) \<in> (\<lambda>i. ID (Setting_at p i)) ` set is \<longleftrightarrow>
      (\<exists>j \<in> set is. ID (Setting_at p j) = ID (Setting_at p i))"
    by (auto simp: image_iff eq_commute)
  then show ?case
    using 2 [OF refl] by (simp add: Let_def) blast
qed simp

lemma HasDuplicates_distinct: "HasDuplicates p \<longleftrightarrow> \<not> distinct (map ID (settings_of p))"
proof -
  have "list_ex (\<lambda>i. list_ex (\<lambda>j. g i = g j) [i + 1..<n]) [0..<n] \<longleftrightarrow> \<not> distinct (map g [0..<n])" for g :: "nat \<Rightarrow> u16" and n
  proof
    assume "list_ex (\<lambda>i. list_ex (\<lambda>j. g i = g j) [i + 1..<n]) [0..<n]"
    then obtain i j where "i < j" "j < n" "g i = g j"
      by (auto simp: list_ex_iff Suc_le_eq)
    then show "\<not> distinct (map g [0..<n])"
      using nth_eq_iff_index_eq [of "map g [0..<n]" i j] by auto
  next
    assume "\<not> distinct (map g [0..<n])"
    then obtain i j where "i < j" "j < n" "g i = g j"
      by (auto simp: distinct_conv_nth) (metis linorder_neqE_nat)
    then show "list_ex (\<lambda>i. list_ex (\<lambda>j. g i = g j) [i + 1..<n]) [0..<n]"
      unfolding list_ex_iff by (intro bexI [of _ i] bexI [of _ j]) auto
  qed
  then show ?thesis
    by (simp add: HasDuplicates_def settings_of_def seenLoop_distinct comp_def Let_def)
qed

end
