(* ===== verification/Hpack_Encoder.thy ===== *)
theory Hpack_Encoder
  imports Hpack_Table Huffman_Model
begin

text \<open>
  The HPACK encoder (\<^verbatim>\<open>h2/hpack/encode.go\<close>): representations of header fields and table size
  records, and the encoder's state. The underlying \<^verbatim>\<open>io.Writer\<close> is a parameter: its state is
  the component \<open>w\<close> and its \<^verbatim>\<open>Write\<close> is the argument \<open>write\<close> of \<open>WriteField\<close>.
\<close>

section \<open>Representations\<close>

definition encodeTypeByte :: "bool \<Rightarrow> bool \<Rightarrow> byte" where
  "encodeTypeByte indexing sensitive = (if sensitive then 0x10 else if indexing then 0x40 else 0)"

definition appendHpackString :: "bytes \<Rightarrow> string \<Rightarrow> bytes" where
  "appendHpackString dst s =
     (let huffmanLength = HuffmanEncodeLength s in
      if huffmanLength < word_of_nat (length s) then
        let first = length dst;
            dst1 = appendVarInt dst 7 huffmanLength;
            dst2 = AppendHuffmanString dst1 s
        in orAt first 0x80 dst2
      else appendVarInt dst 7 (word_of_nat (length s)) @ bytes_of s)"

definition appendIndexed :: "bytes \<Rightarrow> u64 \<Rightarrow> bytes" where
  "appendIndexed dst i = orAt (length dst) 0x80 (appendVarInt dst 7 i)"

definition appendNewName :: "bytes \<Rightarrow> HeaderField \<Rightarrow> bool \<Rightarrow> bytes" where
  "appendNewName dst f indexing =
     (let dst1 = dst @ [encodeTypeByte indexing (Sensitive f)];
          dst2 = appendHpackString dst1 (Name f)
      in appendHpackString dst2 (Value f))"

definition appendIndexedName :: "bytes \<Rightarrow> HeaderField \<Rightarrow> u64 \<Rightarrow> bool \<Rightarrow> bytes" where
  "appendIndexedName dst f i indexing =
     (let first = length dst;
          n = (if indexing then 6 else 4);
          dst1 = appendVarInt dst n i;
          dst2 = orAt first (encodeTypeByte indexing (Sensitive f)) dst1
      in appendHpackString dst2 (Value f))"

definition appendTableSize :: "bytes \<Rightarrow> u32 \<Rightarrow> bytes" where
  "appendTableSize dst v = orAt (length dst) 0x20 (appendVarInt dst 5 (ucast v))"

section \<open>The encoder\<close>

definition uint32Max :: u32 where "uint32Max = NOT 0"

definition initialHeaderTableSize :: u32 where "initialHeaderTableSize = 4096"

record 'w Encoder =
  enc_dynTab :: dynamicTable
  minSize :: u32
  maxSizeLimit :: u32
  tableSizeUpdate :: bool
  enc_w :: 'w
  enc_buf :: bytes

definition NewEncoder :: "'w \<Rightarrow> hpack_error + 'w Encoder" where
  "NewEncoder w =
     and_then (setMaxSize init_dynamicTable initialHeaderTableSize) (\<lambda>dt.
       Inr \<lparr>enc_dynTab = dt, minSize = uint32Max, maxSizeLimit = initialHeaderTableSize,
            tableSizeUpdate = False, enc_w = w, enc_buf = []\<rparr>)"

definition searchTable :: "'w Encoder \<Rightarrow> HeaderField \<Rightarrow> hpack_error + (u64 \<times> bool)" where
  "searchTable e f =
     and_then (search True staticTable f) (\<lambda>(i, nameValueMatch).
       if nameValueMatch then Inr (i, True)
       else and_then (search False (table (enc_dynTab e)) f) (\<lambda>(j, nameValueMatch).
         if nameValueMatch \<or> i = 0 \<and> j \<noteq> 0
         then Inr (j + word_of_nat (length (ents staticTable)), nameValueMatch)
         else Inr (i, False)))"

definition shouldIndex :: "'w Encoder \<Rightarrow> HeaderField \<Rightarrow> bool" where
  "shouldIndex e f \<longleftrightarrow> \<not> Sensitive f \<and> Size f \<le> maxSize (enc_dynTab e)"

text \<open>\<^verbatim>\<open>WriteField\<close> up to the call of the writer: the pending table size records, then the field's representation.\<close>

definition writeSizeUpdate :: "'w Encoder \<Rightarrow> 'w Encoder" where
  "writeSizeUpdate e =
     (if tableSizeUpdate e then
        let buf1 = (if minSize e < maxSize (enc_dynTab e) then appendTableSize (enc_buf e) (minSize e)
                    else enc_buf e)
        in e\<lparr>tableSizeUpdate := False, minSize := uint32Max,
             enc_buf := appendTableSize buf1 (maxSize (enc_dynTab e))\<rparr>
      else e)"

definition encodeRepr :: "'w Encoder \<Rightarrow> HeaderField \<Rightarrow> hpack_error + 'w Encoder" where
  "encodeRepr e f =
     and_then (searchTable e f) (\<lambda>(idx, nameValueMatch).
       if nameValueMatch then Inr (e\<lparr>enc_buf := appendIndexed (enc_buf e) idx\<rparr>)
       else
         let indexing = shouldIndex e f in
         and_then (if indexing then dt_add (enc_dynTab e) f else Inr (enc_dynTab e)) (\<lambda>dt.
           Inr (e\<lparr>enc_dynTab := dt,
                  enc_buf := (if idx = 0 then appendNewName (enc_buf e) f indexing
                              else appendIndexedName (enc_buf e) f idx indexing)\<rparr>)))"

definition encodeField :: "'w Encoder \<Rightarrow> HeaderField \<Rightarrow> hpack_error + 'w Encoder" where
  "encodeField e f = encodeRepr (writeSizeUpdate (e\<lparr>enc_buf := []\<rparr>)) f"

datatype io_error = ErrShortWrite | ErrWriter string

definition WriteField ::
    "('w \<Rightarrow> bytes \<Rightarrow> 'w \<times> nat \<times> io_error option) \<Rightarrow> 'w Encoder \<Rightarrow> HeaderField \<Rightarrow>
     hpack_error + ('w Encoder \<times> io_error option)" where
  "WriteField write e0 f =
     and_then (encodeField e0 f) (\<lambda>e.
       let (w', n, err) = write (enc_w e) (enc_buf e);
           err' = (if err = None \<and> n \<noteq> length (enc_buf e) then Some ErrShortWrite else err)
       in Inr (e\<lparr>enc_w := w'\<rparr>, err'))"

definition SetMaxDynamicTableSize :: "'w Encoder \<Rightarrow> u32 \<Rightarrow> hpack_error + 'w Encoder" where
  "SetMaxDynamicTableSize e v0 =
     (let v = (if v0 > maxSizeLimit e then maxSizeLimit e else v0);
          e1 = (if v < minSize e then e\<lparr>minSize := v\<rparr> else e)
      in and_then (setMaxSize (enc_dynTab e1) v) (\<lambda>dt.
           Inr (e1\<lparr>tableSizeUpdate := True, enc_dynTab := dt\<rparr>)))"

definition SetMaxDynamicTableSizeLimit :: "'w Encoder \<Rightarrow> u32 \<Rightarrow> hpack_error + 'w Encoder" where
  "SetMaxDynamicTableSizeLimit e v =
     (let e1 = e\<lparr>maxSizeLimit := v\<rparr> in
      if maxSize (enc_dynTab e1) > v then
        and_then (setMaxSize (enc_dynTab e1) v) (\<lambda>dt.
          Inr (e1\<lparr>tableSizeUpdate := True, enc_dynTab := dt\<rparr>))
      else Inr e1)"

end
