(* ===== verification/Framer.thy ===== *)
theory Framer
  imports Frame_Parse Hpack_Encoder
begin

text \<open>
  The framer of \<^verbatim>\<open>h2/frame/frame.go\<close>: writing frames to a writer, reading frames from a reader,
  the order of HEADERS and CONTINUATION frames, and the merging of header blocks.
  The reader is the list of the bytes it will still deliver before it ends; the writer is a
  parameter, its state the component \<open>fr_w\<close>. Logging and the locks around each write are left out:
  every operation runs alone.
\<close>

section \<open>The framer\<close>

text \<open>
  What the callback of \<^verbatim>\<open>readMetaFrame\<close> keeps in the variables it captures.
\<close>

record meta_state =
  ms_fields :: "HeaderField list"
  ms_truncated :: bool
  ms_remainSize :: u32
  ms_sawRegular :: bool
  ms_invalid :: "header_error option"

record 'w Framer =
  fr_r :: bytes
  lastFrame :: "Frame option"
  errDetail :: "err_detail option"
  lastHeaderStream :: u32
  maxReadSize :: u32
  fr_w :: 'w
  wbuf :: bytes
  AllowIllegalWrites :: bool
  AllowIllegalReads :: bool
  ReadMetaHeaders :: "meta_state Decoder option"
  MaxHeaderListSize :: u32

definition frameHeaderLen :: nat where "frameHeaderLen = 9"
definition minMaxFrameSize :: u32 where "minMaxFrameSize = 2 ^ 14"
definition maxFrameSize :: u32 where "maxFrameSize = 2 ^ 24 - 1"

definition SetMaxReadFrameSize :: "'w Framer \<Rightarrow> u32 \<Rightarrow> 'w Framer" where
  "SetMaxReadFrameSize fr v = fr\<lparr>maxReadSize := (if v > maxFrameSize then maxFrameSize else v)\<rparr>"

definition NewFramer :: "'w \<Rightarrow> bytes \<Rightarrow> 'w Framer" where
  "NewFramer w r =
     SetMaxReadFrameSize
       \<lparr>fr_r = r, lastFrame = None, errDetail = None, lastHeaderStream = 0, maxReadSize = 0, fr_w = w,
        wbuf = [], AllowIllegalWrites = False, AllowIllegalReads = False, ReadMetaHeaders = None,
        MaxHeaderListSize = 0\<rparr> maxFrameSize"

definition maxHeaderListSize :: "'w Framer \<Rightarrow> u32" where
  "maxHeaderListSize fr = (if MaxHeaderListSize fr = 0 then push_bit 20 16 else MaxHeaderListSize fr)"

text \<open>\<^verbatim>\<open>int\<close> is 64 bits wide, so that every \<^verbatim>\<open>uint32\<close> survives the conversion.\<close>

definition maxHeaderStringLen :: "'w Framer \<Rightarrow> nat" where
  "maxHeaderStringLen fr =
     (let v = maxHeaderListSize fr in
      if (ucast (ucast v :: u64) :: u32) = v then unat (ucast v :: u64) else 0)"

section \<open>Writing\<close>

type_synonym 'w writer = "'w \<Rightarrow> bytes \<Rightarrow> 'w \<times> nat \<times> frame_error option"

definition startWrite :: "FrameType \<Rightarrow> byte \<Rightarrow> u32 \<Rightarrow> 'w Framer \<Rightarrow> 'w Framer" where
  "startWrite ftype flags streamID f = f\<lparr>wbuf := [0, 0, 0, ftype, flags] @ put_uint32 streamID\<rparr>"

definition writeByte :: "byte \<Rightarrow> 'w Framer \<Rightarrow> 'w Framer" where
  "writeByte v f = f\<lparr>wbuf := wbuf f @ [v]\<rparr>"

definition writeBytes :: "bytes \<Rightarrow> 'w Framer \<Rightarrow> 'w Framer" where
  "writeBytes v f = f\<lparr>wbuf := wbuf f @ v\<rparr>"

definition writeUint16 :: "u16 \<Rightarrow> 'w Framer \<Rightarrow> 'w Framer" where
  "writeUint16 v f = f\<lparr>wbuf := wbuf f @ put_uint16 v\<rparr>"

definition writeUint32 :: "u32 \<Rightarrow> 'w Framer \<Rightarrow> 'w Framer" where
  "writeUint32 v f = f\<lparr>wbuf := wbuf f @ put_uint32 v\<rparr>"

text \<open>The three length bytes are filled in when the payload is complete.\<close>

definition put_uint24 :: "int \<Rightarrow> bytes" where
  "put_uint24 n = [word_of_int (n div 2 ^ 16), word_of_int (n div 2 ^ 8), word_of_int n]"

definition endWrite :: "'w writer \<Rightarrow> 'w Framer \<Rightarrow> 'w Framer \<times> frame_error option" where
  "endWrite write f =
     (let len = length (wbuf f) - frameHeaderLen in
      if len \<ge> 2 ^ 24 then (f, Some ErrFrameTooLarge)
      else
        let f1 = f\<lparr>wbuf := put_uint24 (int len) @ drop 3 (wbuf f)\<rparr>;
            (w', n, err) = write (fr_w f1) (wbuf f1)
        in (f1\<lparr>fr_w := w'\<rparr>,
            if err = None \<and> n \<noteq> length (wbuf f1) then Some errShortWrite else err))"

definition validStreamIDOrZero :: "u32 \<Rightarrow> bool" where
  "validStreamIDOrZero streamID \<longleftrightarrow> streamID AND push_bit 31 1 = 0"

definition validStreamID :: "u32 \<Rightarrow> bool" where
  "validStreamID streamID \<longleftrightarrow> streamID \<noteq> 0 \<and> streamID AND push_bit 31 1 = 0"

text \<open>\<^verbatim>\<open>pad\<close> is a slice that may be nil, which is not the same as an empty one: \<open>None\<close>.\<close>

definition WriteDataPadded ::
    "'w writer \<Rightarrow> u32 \<Rightarrow> bool \<Rightarrow> bytes \<Rightarrow> bytes option \<Rightarrow> 'w Framer \<Rightarrow> 'w Framer \<times> frame_error option" where
  "WriteDataPadded write streamID endStream dat pad f =
     (let padb = (case pad of None \<Rightarrow> [] | Some p \<Rightarrow> p) in
      if \<not> validStreamID streamID \<and> \<not> AllowIllegalWrites f then (f, Some errStreamID)
      else if length padb > 255 then (f, Some errPadLength)
      else if \<not> AllowIllegalWrites f \<and> list_ex (\<lambda>b. b \<noteq> 0) padb then (f, Some errPadBytes)
      else
        let flags = (if endStream then FlagDataEndStream else 0) OR (if pad \<noteq> None then FlagDataPadded else 0);
            f1 = startWrite FrameData flags streamID f;
            f2 = (if pad \<noteq> None then writeByte (word_of_nat (length padb)) f1 else f1)
        in endWrite write (writeBytes padb (writeBytes dat f2)))"

definition WriteData :: "'w writer \<Rightarrow> u32 \<Rightarrow> bool \<Rightarrow> bytes \<Rightarrow> 'w Framer \<Rightarrow> 'w Framer \<times> frame_error option" where
  "WriteData write streamID endStream dat f = WriteDataPadded write streamID endStream dat None f"

text \<open>
  \<^verbatim>\<open>WriteDataNC\<close> puts the frame header into the caller's slice (taken with its full capacity), in front
  of the data; the slice as it is afterwards is part of the result. An index outside it panics.
\<close>

definition WriteDataNC ::
    "'w writer \<Rightarrow> u32 \<Rightarrow> bool \<Rightarrow> bytes \<Rightarrow> nat \<Rightarrow> nat \<Rightarrow> 'w Framer \<Rightarrow> 'w Framer \<times> bytes \<times> frame_error option" where
  "WriteDataNC write streamID endStream dat start fin f =
     (if start < 9 \<or> length dat < start then (f, dat, Some (FramePanic ''index out of range''))
      else
        let flags = (if endStream then FlagDataEndStream else 0);
            len = int fin - int start;
            header = put_uint24 len @ [FrameData, flags] @ put_uint32 streamID;
            dat1 = take (start - 9) dat @ header @ drop start dat
        in if len \<ge> 2 ^ 24 then (f, dat1, Some ErrFrameTooLarge)
           else if fin < start - 9 \<or> length dat < fin then
             (f, dat1, Some (FramePanic ''slice bounds out of range''))
           else
             let (w', n, err) = write (fr_w f) (drop (start - 9) (take fin dat1))
             in (f\<lparr>fr_w := w'\<rparr>, dat1,
                 if err = None \<and> int n \<noteq> int fin - int start + 9 then Some errShortWrite else err))"

definition WriteSettings :: "'w writer \<Rightarrow> Setting list \<Rightarrow> 'w Framer \<Rightarrow> 'w Framer \<times> frame_error option" where
  "WriteSettings write settings f =
     endWrite write
       (foldl (\<lambda>f s. writeUint32 (Val s) (writeUint16 (ID s) f)) (startWrite FrameSettings 0 0 f) settings)"

definition WriteSettingsAck :: "'w writer \<Rightarrow> 'w Framer \<Rightarrow> 'w Framer \<times> frame_error option" where
  "WriteSettingsAck write f = endWrite write (startWrite FrameSettings FlagSettingsAck 0 f)"

definition WritePing :: "'w writer \<Rightarrow> bool \<Rightarrow> bytes \<Rightarrow> 'w Framer \<Rightarrow> 'w Framer \<times> frame_error option" where
  "WritePing write ack dat f =
     endWrite write (writeBytes dat (startWrite FramePing (if ack then FlagPingAck else 0) 0 f))"

definition WriteGoAway :: "'w writer \<Rightarrow> u32 \<Rightarrow> ErrCode \<Rightarrow> bytes \<Rightarrow> 'w Framer \<Rightarrow> 'w Framer \<times> frame_error option" where
  "WriteGoAway write maxStreamID code debugData f =
     endWrite write (writeBytes debugData (writeUint32 code (writeUint32 (low31 maxStreamID)
       (startWrite FrameGoAway 0 0 f))))"

definition WriteWindowUpdate :: "'w writer \<Rightarrow> u32 \<Rightarrow> u32 \<Rightarrow> 'w Framer \<Rightarrow> 'w Framer \<times> frame_error option" where
  "WriteWindowUpdate write streamID incr f =
     (if (incr < 1 \<or> incr > 2147483647) \<and> \<not> AllowIllegalWrites f then (f, Some errIllegalIncrement)
      else endWrite write (writeUint32 incr (startWrite FrameWindowUpdate 0 streamID f)))"

record HeadersFrameParam =
  hp_StreamID :: u32
  hp_BlockFragment :: bytes
  hp_EndStream :: bool
  hp_EndHeaders :: bool
  hp_PadLength :: byte
  hp_Priority :: PriorityParam

definition priorityWord :: "PriorityParam \<Rightarrow> u32" where
  "priorityWord p = (if Exclusive p then StreamDep p OR push_bit 31 1 else StreamDep p)"

definition WriteHeaders :: "'w writer \<Rightarrow> HeadersFrameParam \<Rightarrow> 'w Framer \<Rightarrow> 'w Framer \<times> frame_error option" where
  "WriteHeaders write p f =
     (if \<not> validStreamID (hp_StreamID p) \<and> \<not> AllowIllegalWrites f then (f, Some errStreamID)
      else
        let flags = (if hp_PadLength p \<noteq> 0 then FlagHeadersPadded else 0) OR
                    (if hp_EndStream p then FlagHeadersEndStream else 0) OR
                    (if hp_EndHeaders p then FlagHeadersEndHeaders else 0) OR
                    (if \<not> IsZero (hp_Priority p) then FlagHeadersPriority else 0);
            f1 = startWrite FrameHeaders flags (hp_StreamID p) f;
            f2 = (if hp_PadLength p \<noteq> 0 then writeByte (hp_PadLength p) f1 else f1)
        in if \<not> IsZero (hp_Priority p) \<and> \<not> validStreamIDOrZero (StreamDep (hp_Priority p)) \<and>
              \<not> AllowIllegalWrites f then (f2, Some errDepStreamID)
           else
             let f3 = (if \<not> IsZero (hp_Priority p)
                       then writeByte (Weight (hp_Priority p)) (writeUint32 (priorityWord (hp_Priority p)) f2)
                       else f2)
             in endWrite write (writeBytes (replicate (unat (hp_PadLength p)) 0)
                  (writeBytes (hp_BlockFragment p) f3)))"

definition WritePriority :: "'w writer \<Rightarrow> u32 \<Rightarrow> PriorityParam \<Rightarrow> 'w Framer \<Rightarrow> 'w Framer \<times> frame_error option" where
  "WritePriority write streamID p f =
     (if \<not> validStreamID streamID \<and> \<not> AllowIllegalWrites f then (f, Some errStreamID)
      else if \<not> validStreamIDOrZero (StreamDep p) then (f, Some errDepStreamID)
      else endWrite write (writeByte (Weight p) (writeUint32 (priorityWord p)
             (startWrite FramePriority 0 streamID f))))"

definition WriteRSTStream :: "'w writer \<Rightarrow> u32 \<Rightarrow> ErrCode \<Rightarrow> 'w Framer \<Rightarrow> 'w Framer \<times> frame_error option" where
  "WriteRSTStream write streamID code f =
     (if \<not> validStreamID streamID \<and> \<not> AllowIllegalWrites f then (f, Some errStreamID)
      else endWrite write (writeUint32 code (startWrite FrameRSTStream 0 streamID f)))"

definition WriteContinuation ::
    "'w writer \<Rightarrow> u32 \<Rightarrow> bool \<Rightarrow> bytes \<Rightarrow> 'w Framer \<Rightarrow> 'w Framer \<times> frame_error option" where
  "WriteContinuation write streamID endHeaders headerBlockFragment f =
     (if \<not> validStreamID streamID \<and> \<not> AllowIllegalWrites f then (f, Some errStreamID)
      else endWrite write (writeBytes headerBlockFragment
             (startWrite FrameContinuation (if endHeaders then FlagContinuationEndHeaders else 0) streamID f)))"

record PushPromiseParam =
  pp_StreamID :: u32
  pp_PromiseID :: u32
  pp_BlockFragment :: bytes
  pp_EndHeaders :: bool
  pp_PadLength :: byte

definition WritePushPromise :: "'w writer \<Rightarrow> PushPromiseParam \<Rightarrow> 'w Framer \<Rightarrow> 'w Framer \<times> frame_error option" where
  "WritePushPromise write p f =
     (if \<not> validStreamID (pp_StreamID p) \<and> \<not> AllowIllegalWrites f then (f, Some errStreamID)
      else
        let flags = (if pp_PadLength p \<noteq> 0 then FlagPushPromisePadded else 0) OR
                    (if pp_EndHeaders p then FlagPushPromiseEndHeaders else 0);
            f1 = startWrite FramePushPromise flags (pp_StreamID p) f;
            f2 = (if pp_PadLength p \<noteq> 0 then writeByte (pp_PadLength p) f1 else f1)
        in if \<not> validStreamID (pp_PromiseID p) \<and> \<not> AllowIllegalWrites f then (f2, Some errStreamID)
           else endWrite write (writeBytes (replicate (unat (pp_PadLength p)) 0)
                  (writeBytes (pp_BlockFragment p) (writeUint32 (pp_PromiseID p) f2))))"

definition WriteRawFrame ::
    "'w writer \<Rightarrow> FrameType \<Rightarrow> byte \<Rightarrow> u32 \<Rightarrow> bytes \<Rightarrow> 'w Framer \<Rightarrow> 'w Framer \<times> frame_error option" where
  "WriteRawFrame write t flags streamID payload f =
     endWrite write (writeBytes payload (startWrite t flags streamID f))"

section \<open>Reading\<close>

text \<open>\<^verbatim>\<open>io.ReadFull\<close>: all the bytes asked for, or an error that tells whether there were any.\<close>

definition readFull :: "nat \<Rightarrow> bytes \<Rightarrow> frame_error + (bytes \<times> bytes)" where
  "readFull n r =
     (if n \<le> length r then Inr (take n r, drop n r)
      else if r = [] then Inl EOF else Inl ErrUnexpectedEOF)"

definition readFrameHeader :: "bytes \<Rightarrow> frame_error + (FrameHeader \<times> bytes)" where
  "readFrameHeader r =
     and_then (readFull frameHeaderLen r) (\<lambda>(buf, r').
       Inr (\<lparr>valid = True, Type = buf ! 3, Flags = buf ! 4,
             Length = push_bit 16 (ucast (buf ! 0)) OR push_bit 8 (ucast (buf ! 1)) OR ucast (buf ! 2),
             StreamID = low31 (be_uint32 (buf ! 5) (buf ! 6) (buf ! 7) (buf ! 8))\<rparr>, r'))"

definition framer_connError :: "'w Framer \<Rightarrow> ErrCode \<Rightarrow> err_detail \<Rightarrow> 'w Framer \<times> frame_error" where
  "framer_connError fr code reason = (fr\<lparr>errDetail := Some reason\<rparr>, ConnectionError code)"

definition checkFrameOrder :: "'w Framer \<Rightarrow> Frame \<Rightarrow> 'w Framer \<times> frame_error option" where
  "checkFrameOrder fr0 f =
     (let last = lastFrame fr0;
          fr = fr0\<lparr>lastFrame := Some f\<rparr>;
          fh = Header f;
          fail = (\<lambda>detail. let (fr', e) = framer_connError fr ErrCodeProtocol detail in (fr', Some e))
      in if AllowIllegalReads fr then (fr, None)
         else if lastHeaderStream fr \<noteq> 0 \<and> Type fh \<noteq> FrameContinuation then
           (case last of
              Some l \<Rightarrow> fail (ExpectedContinuation (Type fh) (StreamID fh) (Type (Header l)) (lastHeaderStream fr))
            | None \<Rightarrow> (fr, Some (FramePanic ''nil lastFrame'')))
         else if lastHeaderStream fr \<noteq> 0 \<and> StreamID fh \<noteq> lastHeaderStream fr then
           fail (WrongContinuation (StreamID fh) (lastHeaderStream fr))
         else if lastHeaderStream fr = 0 \<and> Type fh = FrameContinuation then
           fail (UnexpectedContinuation (StreamID fh))
         else if Type fh = FrameHeaders \<or> Type fh = FrameContinuation then
           (fr\<lparr>lastHeaderStream := (if Has (Flags fh) FlagHeadersEndHeaders then 0 else StreamID fh)\<rparr>, None)
         else (fr, None))"

text \<open>
  \<^verbatim>\<open>ReadFrame\<close> up to the merging of header blocks: header, payload, parser, order. The bytes that a
  failed read had already taken from the reader are gone.
\<close>

definition readRawFrame :: "'w Framer \<Rightarrow> 'w Framer \<times> (frame_error + Frame)" where
  "readRawFrame fr0 =
     (let fr = fr0\<lparr>errDetail := None, lastFrame := map_option invalidate (lastFrame fr0)\<rparr> in
      case readFrameHeader (fr_r fr) of
        Inl e \<Rightarrow> (fr\<lparr>fr_r := []\<rparr>, Inl e)
      | Inr (fh, r1) \<Rightarrow>
          if Length fh > maxReadSize fr then (fr\<lparr>fr_r := r1\<rparr>, Inl ErrFrameTooLarge)
          else case readFull (unat (Length fh)) r1 of
            Inl e \<Rightarrow> (fr\<lparr>fr_r := []\<rparr>, Inl e)
          | Inr (payload, r2) \<Rightarrow>
              (let fr1 = fr\<lparr>fr_r := r2\<rparr> in
               case typeFrameParser (Type fh) fh payload of
                 Inl (connError code reason) \<Rightarrow>
                   (let (fr2, e) = framer_connError fr1 code reason in (fr2, Inl e))
               | Inl e \<Rightarrow> (fr1, Inl e)
               | Inr f \<Rightarrow>
                   (case checkFrameOrder fr1 f of
                      (fr2, Some e) \<Rightarrow> (fr2, Inl e)
                    | (fr2, None) \<Rightarrow> (fr2, Inr f))))"

subsection \<open>Header blocks\<close>

text \<open>The callback that \<^verbatim>\<open>readMetaFrame\<close> installs in the HPACK decoder.\<close>

definition metaEmit :: "HeaderField \<Rightarrow> meta_state \<Rightarrow> bool \<Rightarrow> meta_state \<times> bool" where
  "metaEmit f s en =
     (let isPseudo = (take 1 (Name f) = '':'');
          s1 = (if isPseudo then
                  (if ms_sawRegular s then s\<lparr>ms_invalid := Some errPseudoAfterRegular\<rparr> else s)
                else
                  let s' = s\<lparr>ms_sawRegular := True\<rparr> in
                  if \<not> validWireHeaderFieldName (Name f)
                  then s'\<lparr>ms_invalid := Some (headerFieldNameError (Name f))\<rparr> else s')
      in if ms_invalid s1 \<noteq> None then (s1, False)
         else if Size f > ms_remainSize s1 then (s1\<lparr>ms_truncated := True\<rparr>, False)
         else (s1\<lparr>ms_remainSize := ms_remainSize s1 - Size f, ms_fields := ms_fields s1 @ [f]\<rparr>, en))"

fun PseudoFields :: "HeaderField list \<Rightarrow> HeaderField list" where
  "PseudoFields [] = []"
| "PseudoFields (f # fs) = (if \<not> IsPseudo f then [] else f # PseudoFields fs)"

fun RegularFields :: "HeaderField list \<Rightarrow> HeaderField list" where
  "RegularFields [] = []"
| "RegularFields (f # fs) = (if \<not> IsPseudo f then f # fs else RegularFields fs)"

fun PseudoValue :: "HeaderField list \<Rightarrow> string \<Rightarrow> string" where
  "PseudoValue [] pseudo = []"
| "PseudoValue (f # fs) pseudo =
     (if \<not> IsPseudo f then []
      else if drop 1 (Name f) = pseudo then Value f
      else PseudoValue fs pseudo)"

definition requestPseudo :: "string \<Rightarrow> bool" where
  "requestPseudo n \<longleftrightarrow>
     n = '':method'' \<or> n = '':path'' \<or> n = '':scheme'' \<or> n = '':authority'' \<or> n = '':protocol''"

fun checkPseudosLoop :: "HeaderField list \<Rightarrow> bool \<Rightarrow> bool \<Rightarrow> HeaderField list \<Rightarrow> header_error option" where
  "checkPseudosLoop before isRequest isResponse [] =
     (if isRequest \<and> isResponse then Some errMixPseudoHeaderTypes else None)"
| "checkPseudosLoop before isRequest isResponse (f # fs) =
     (if \<not> requestPseudo (Name f) \<and> Name f \<noteq> '':status'' then Some (pseudoHeaderError (Name f))
      else if list_ex (\<lambda>g. Name f = Name g) before then Some (duplicatePseudoHeaderError (Name f))
      else checkPseudosLoop (before @ [f]) (isRequest \<or> requestPseudo (Name f))
             (isResponse \<or> Name f = '':status'') fs)"

definition checkPseudos :: "HeaderField list \<Rightarrow> header_error option" where
  "checkPseudos fs = checkPseudosLoop [] False False (PseudoFields fs)"

text \<open>
  The loop of \<^verbatim>\<open>readMetaFrame\<close> over the fragments of a header block. It calls \<^verbatim>\<open>ReadFrame\<close> for the
  CONTINUATION frames; anything else would make the type assertion panic. Each round reads at
  least a frame header, which is why the loop ends.
\<close>

lemma readRawFrame_consumes:
  assumes "readRawFrame fr = (fr', Inr f)"
  shows "length (fr_r fr') + 9 \<le> length (fr_r fr)"
  using assms
  by (auto simp: readRawFrame_def readFrameHeader_def readFull_def frameHeaderLen_def checkFrameOrder_def
      framer_connError_def Let_def split: sum.splits if_splits option.splits prod.splits frame_error.splits)

function metaLoop ::
    "'w Framer \<Rightarrow> meta_state Decoder \<Rightarrow> FrameHeader \<Rightarrow> bytes \<Rightarrow>
     'w Framer \<times> meta_state Decoder \<times> frame_error option" where
  "metaLoop fr d fh frag =
     (case Write d frag of
        (d1, n, Some (Panic s)) \<Rightarrow> (fr, d1, Some (FramePanic s))
      | (d1, n, Some e) \<Rightarrow> (fr, d1, Some (ConnectionError ErrCodeCompression))
      | (d1, n, None) \<Rightarrow>
          if HeadersEnded fh then (fr, d1, None)
          else case readRawFrame fr of
            (fr', Inl e) \<Rightarrow> (fr', d1, Some e)
          | (fr', Inr (ContinuationFrame fh' frag')) \<Rightarrow> metaLoop fr' d1 fh' frag'
          | (fr', Inr _) \<Rightarrow> (fr', d1, Some (FramePanic ''interface conversion'')))"
  by pat_completeness auto
termination
proof (relation "measure (\<lambda>(fr, d, fh, frag). length (fr_r fr))", simp)
  fix fr fr' :: "'a Framer" and d d1 :: "meta_state Decoder" and fh fh' frag frag' y z f
  assume "(fr', z) = readRawFrame fr" "z = Inr f"
  then have "length (fr_r fr') + 9 \<le> length (fr_r fr)"
    by (intro readRawFrame_consumes [of fr fr' f]) simp
  then show "((fr', d1, fh', frag'), fr, d, fh, frag)
      \<in> measure (\<lambda>(fr, d, fh :: FrameHeader, frag :: bytes). length (fr_r fr))"
    by simp
qed

declare metaLoop.simps [simp del]

definition metaStart :: "'w Framer \<Rightarrow> meta_state" where
  "metaStart fr =
     \<lparr>ms_fields = [], ms_truncated = False, ms_remainSize = maxHeaderListSize fr, ms_sawRegular = False,
      ms_invalid = None\<rparr>"

definition metaDecoder :: "'w Framer \<Rightarrow> meta_state Decoder \<Rightarrow> meta_state Decoder" where
  "metaDecoder fr d =
     SetEmitFunc (SetMaxStringLength (SetEmitEnabled d True) (maxHeaderStringLen fr)) metaEmit
       \<lparr>sink := metaStart fr\<rparr>"

text \<open>The end of \<^verbatim>\<open>readMetaFrame\<close>, once the header block is complete.\<close>

definition metaFinish ::
    "'w Framer \<Rightarrow> meta_state Decoder \<Rightarrow> FrameHeader \<Rightarrow> PriorityParam \<Rightarrow>
     'w Framer \<times> meta_state Decoder \<times> (frame_error + Frame)" where
  "metaFinish fr d fh prio =
     (let fr1 = (if HeadersEnded fh
                 then fr\<lparr>lastFrame := Some (HeadersFrame (fh\<lparr>valid := False\<rparr>) prio [])\<rparr> else fr);
          (d1, err) = Close d;
          s = sink d1
      in if err \<noteq> None then (fr1, d1, Inl (ConnectionError ErrCodeCompression))
         else case ms_invalid s of
           Some e \<Rightarrow> (fr1\<lparr>errDetail := Some (InvalidHeader e)\<rparr>, d1,
                      Inl (StreamError (StreamID fh) ErrCodeProtocol (Some e)))
         | None \<Rightarrow>
             (case checkPseudos (ms_fields s) of
                Some e \<Rightarrow> (fr1\<lparr>errDetail := Some (InvalidHeader e)\<rparr>, d1,
                           Inl (StreamError (StreamID fh) ErrCodeProtocol (Some e)))
              | None \<Rightarrow> (fr1, d1,
                         Inr (MetaHeadersFrame (fh\<lparr>valid := False\<rparr>) prio (ms_fields s) (ms_truncated s)))))"

text \<open>The deferred \<^verbatim>\<open>SetEmitFunc\<close> runs on every path.\<close>

definition readMetaFrame ::
    "'w Framer \<Rightarrow> meta_state Decoder \<Rightarrow> FrameHeader \<Rightarrow> PriorityParam \<Rightarrow> bytes \<Rightarrow>
     'w Framer \<times> (frame_error + Frame)" where
  "readMetaFrame fr d fh prio frag =
     (if AllowIllegalReads fr then (fr, Inl errIllegalReadsWithMeta)
      else
        let (fr1, d1, err) = metaLoop fr (metaDecoder fr d) fh frag;
            (fr2, d2, res) = (case err of Some e \<Rightarrow> (fr1, d1, Inl e) | None \<Rightarrow> metaFinish fr1 d1 fh prio)
        in (fr2\<lparr>ReadMetaHeaders := Some (SetEmitFunc d2 (\<lambda>f s en. (s, en)))\<rparr>, res))"

definition ReadFrame :: "'w Framer \<Rightarrow> 'w Framer \<times> (frame_error + Frame)" where
  "ReadFrame fr =
     (case readRawFrame fr of
        (fr1, Inl e) \<Rightarrow> (fr1, Inl e)
      | (fr1, Inr f) \<Rightarrow>
          (case f of
             HeadersFrame fh prio frag \<Rightarrow>
               (case ReadMetaHeaders fr1 of
                  Some d \<Rightarrow> readMetaFrame fr1 d fh prio frag
                | None \<Rightarrow> (fr1, Inr f))
           | _ \<Rightarrow> (fr1, Inr f)))"

end
