(* ===== verification/Buf_Writer.thy ===== *)
theory Buf_Writer
  imports Framer
begin

text \<open>
  The buffered writer of \<^verbatim>\<open>h2/http_util.go\<close>, through which the framer writes to the connection, and
  the contract of a writer that the framing proofs rely on. The connection is a parameter: its
  state and its \<^verbatim>\<open>Write\<close>. No caller sets \<^verbatim>\<open>onFlush\<close>, which stays nil.
\<close>

section \<open>The buffer\<close>

record 'c bufWriter =
  bw_buf :: bytes
  offset :: nat
  batchSize :: nat
  bw_conn :: 'c
  bw_err :: "frame_error option"

definition newBufWriter :: "'c \<Rightarrow> nat \<Rightarrow> 'c bufWriter" where
  "newBufWriter conn bsize =
     \<lparr>bw_buf = replicate (bsize * 2) 0, offset = 0, batchSize = bsize, bw_conn = conn, bw_err = None\<rparr>"

definition bufFlush :: "'c writer \<Rightarrow> 'c bufWriter \<Rightarrow> 'c bufWriter \<times> frame_error option" where
  "bufFlush connWrite w =
     (if bw_err w \<noteq> None then (w, bw_err w)
      else if offset w = 0 then (w, None)
      else
        let (c', n, err) = connWrite (bw_conn w) (take (offset w) (bw_buf w))
        in (w\<lparr>bw_conn := c', bw_err := err, offset := 0\<rparr>, err))"

text \<open>\<^verbatim>\<open>copy(w.buf[w.offset:], b)\<close>: as many bytes as fit.\<close>

definition bufCopy :: "'c bufWriter \<Rightarrow> bytes \<Rightarrow> 'c bufWriter \<times> nat" where
  "bufCopy w b =
     (let nn = min (length (bw_buf w) - offset w) (length b) in
      (w\<lparr>bw_buf := take (offset w) (bw_buf w) @ take nn b @ drop (offset w + nn) (bw_buf w),
         offset := offset w + nn\<rparr>, nn))"

partial_function (option) bufWriteLoop ::
    "'c writer \<Rightarrow> 'c bufWriter \<Rightarrow> bytes \<Rightarrow> nat \<Rightarrow> frame_error option \<Rightarrow>
     ('c bufWriter \<times> nat \<times> frame_error option) option" where
  "bufWriteLoop connWrite w b n err =
     (if b = [] then Some (w, n, err)
      else
        let (w1, nn) = bufCopy w b;
            (w2, err2) = (if offset w1 \<ge> batchSize w1 then bufFlush connWrite w1 else (w1, err))
        in bufWriteLoop connWrite w2 (drop nn b) (n + nn) err2)"

definition bufWrite :: "'c writer \<Rightarrow> 'c bufWriter \<Rightarrow> bytes \<Rightarrow> ('c bufWriter \<times> nat \<times> frame_error option) option" where
  "bufWrite connWrite w b =
     (if bw_err w \<noteq> None then Some (w, 0, bw_err w)
      else if batchSize w = 0 then
        let (c', n, err) = connWrite (bw_conn w) b in Some (w\<lparr>bw_conn := c'\<rparr>, n, err)
      else bufWriteLoop connWrite w b 0 None)"

text \<open>The buffer as the framer's writer; a call that does not return is \<open>NoReturn\<close>.\<close>

definition bufWriter_Write :: "'c writer \<Rightarrow> 'c bufWriter writer" where
  "bufWriter_Write connWrite w b =
     (case bufWrite connWrite w b of Some r \<Rightarrow> r | None \<Rightarrow> (w, 0, Some NoReturn))"

text \<open>
  \<^verbatim>\<open>newFramer\<close>: a framer on a connection, with header blocks merged. The bytes that the connection
  delivers are those of the buffered reader. The callback of the new decoder is nil; \<^verbatim>\<open>readMetaFrame\<close>
  installs its own before the decoder runs.
\<close>

definition http2InitHeaderTableSize :: u32 where "http2InitHeaderTableSize = 4096"

definition newFramer :: "'c \<Rightarrow> bytes \<Rightarrow> int \<Rightarrow> u32 \<Rightarrow> u32 \<Rightarrow> hpack_error + 'c bufWriter Framer" where
  "newFramer conn r writeBufferSize maxHeaders maxFrame =
     (let wsize = (if writeBufferSize < 0 then 0 else nat writeBufferSize);
          fr = SetMaxReadFrameSize (NewFramer (newBufWriter conn wsize) r) maxFrame
      in and_then (NewDecoder http2InitHeaderTableSize (\<lambda>f s en. (s, en)) (metaStart fr)) (\<lambda>d.
           Inr (fr\<lparr>MaxHeaderListSize := maxHeaders, ReadMetaHeaders := Some d\<rparr>)))"

section \<open>The contract of a writer\<close>

text \<open>
  A writer that works: as long as its state is good, every byte is accepted, in order.
\<close>

locale byte_writer =
  fixes wr :: "'w writer"
    and good :: "'w \<Rightarrow> bool"
    and written :: "'w \<Rightarrow> bytes"
  assumes write_ok: "good w \<Longrightarrow> wr w b = (fst (wr w b), length b, None)"
    and write_good: "good w \<Longrightarrow> good (fst (wr w b))"
    and write_written: "good w \<Longrightarrow> written (fst (wr w b)) = written w @ b"
begin

lemma write_cases:
  assumes "good w"
  obtains w' where "wr w b = (w', length b, None)" "good w'" "written w' = written w @ b"
  using write_ok [OF assms] write_good [OF assms] write_written [OF assms] by blast

end

section \<open>The buffer keeps the contract of its connection\<close>

text \<open>
  The flushed bytes and the buffered ones, in this order, are what has been written. Between two
  writes the buffer is not full.
\<close>

definition buf_good :: "('c \<Rightarrow> bool) \<Rightarrow> 'c bufWriter \<Rightarrow> bool" where
  "buf_good cgood w \<longleftrightarrow> bw_err w = None \<and> length (bw_buf w) = 2 * batchSize w \<and>
     (if batchSize w = 0 then offset w = 0 else offset w < batchSize w) \<and> cgood (bw_conn w)"

definition buf_written :: "('c \<Rightarrow> bytes) \<Rightarrow> 'c bufWriter \<Rightarrow> bytes" where
  "buf_written cwritten w = cwritten (bw_conn w) @ take (offset w) (bw_buf w)"

context byte_writer
begin

lemma flush_ok:
  assumes "bw_err w = None" "good (bw_conn w)"
  shows "snd (bufFlush wr w) = None \<and> bw_err (fst (bufFlush wr w)) = None \<and> good (bw_conn (fst (bufFlush wr w))) \<and>
    offset (fst (bufFlush wr w)) = 0 \<and> length (bw_buf (fst (bufFlush wr w))) = length (bw_buf w) \<and>
    batchSize (fst (bufFlush wr w)) = batchSize w \<and>
    buf_written written (fst (bufFlush wr w)) = buf_written written w"
proof (cases "offset w = 0")
  case False
  obtain c' where "wr (bw_conn w) (take (offset w) (bw_buf w)) = (c', length (take (offset w) (bw_buf w)), None)"
    "good c'" "written c' = written (bw_conn w) @ take (offset w) (bw_buf w)"
    using write_cases [OF assms(2)] .
  with False assms show ?thesis
    by (simp add: bufFlush_def buf_written_def Let_def)
qed (use assms in \<open>simp add: bufFlush_def\<close>)

lemma copy_ok:
  assumes "buf_good good w" "batchSize w > 0" "b \<noteq> []" "bufCopy w b = (w1, nn)"
  shows "0 < nn \<and> nn \<le> length b \<and> bw_err w1 = None \<and> good (bw_conn w1) \<and> batchSize w1 = batchSize w \<and>
    length (bw_buf w1) = length (bw_buf w) \<and> buf_written written w1 = buf_written written w @ take nn b"
  using assms by (auto simp: bufCopy_def buf_good_def buf_written_def Let_def min_def)

lemma loop_ok:
  assumes "buf_good good w" "batchSize w > 0"
  shows "\<exists>w'. bufWriteLoop wr w b n None = Some (w', n + length b, None) \<and> buf_good good w' \<and>
    buf_written written w' = buf_written written w @ b"
  using assms
proof (induction b arbitrary: w n rule: length_induct)
  case (1 b)
  show ?case
  proof (cases "b = []")
    case True
    with 1 show ?thesis by (simp add: bufWriteLoop.simps)
  next
    case False
    obtain w1 nn where copy: "bufCopy w b = (w1, nn)" by fastforce
    note c = copy_ok [OF 1(2,3) False copy]
    define w2 where "w2 = (if offset w1 \<ge> batchSize w1 then fst (bufFlush wr w1) else w1)"
    have step: "bufWriteLoop wr w b n None = bufWriteLoop wr w2 (drop nn b) (n + nn) None"
      using False copy c flush_ok [of w1] by (subst bufWriteLoop.simps) (auto simp: w2_def split: prod.splits)
    have w2: "buf_good good w2" "batchSize w2 > 0" "buf_written written w2 = buf_written written w @ take nn b"
      using c 1(2,3) flush_ok [of w1] by (auto simp: w2_def buf_good_def)
    moreover have "length (drop nn b) < length b" using c False by auto
    ultimately obtain w' where "bufWriteLoop wr w2 (drop nn b) (n + nn) None = Some (w', n + nn + length (drop nn b), None)"
      "buf_good good w'" "buf_written written w' = buf_written written w @ take nn b @ drop nn b"
      using 1(1) [rule_format, of "drop nn b" w2 "n + nn"] by auto
    with step c show ?thesis by auto
  qed
qed

lemma buffered_ok:
  assumes "buf_good good w"
  shows "\<exists>w'. bufWriter_Write wr w b = (w', length b, None) \<and> buf_good good w' \<and>
    buf_written written w' = buf_written written w @ b"
proof (cases "batchSize w = 0")
  case True
  with assms have g: "bw_err w = None" "good (bw_conn w)" "offset w = 0" "bw_buf w = []"
    by (auto simp: buf_good_def)
  obtain c' where "wr (bw_conn w) b = (c', length b, None)" "good c'" "written c' = written (bw_conn w) @ b"
    using write_cases [OF g(2)] .
  with True g show ?thesis
    by (simp add: bufWriter_Write_def bufWrite_def buf_good_def buf_written_def)
next
  case False
  with loop_ok [OF assms, of b 0] assms show ?thesis
    by (auto simp: bufWriter_Write_def bufWrite_def buf_good_def)
qed

lemma buffered: "byte_writer (bufWriter_Write wr) (buf_good good) (buf_written written)"
proof
  fix w b assume "buf_good good w"
  then obtain w' where "bufWriter_Write wr w b = (w', length b, None)" "buf_good good w'"
    "buf_written written w' = buf_written written w @ b"
    using buffered_ok by blast
  then show "bufWriter_Write wr w b = (fst (bufWriter_Write wr w b), length b, None)"
    "buf_good good (fst (bufWriter_Write wr w b))"
    "buf_written written (fst (bufWriter_Write wr w b)) = buf_written written w @ b"
    by simp_all
qed

end

text \<open>A connection that takes every byte: the far end of a pipe.\<close>

definition pipeWrite :: "bytes writer" where
  "pipeWrite c b = (c @ b, length b, None)"

interpretation pipe: byte_writer pipeWrite "\<lambda>c. True" "\<lambda>c. c"
  by unfold_locales (auto simp: pipeWrite_def)

interpretation buffered_pipe: byte_writer "bufWriter_Write pipeWrite" "buf_good (\<lambda>c. True)" "buf_written (\<lambda>c. c)"
  by (rule pipe.buffered)

section \<open>A connection that fails\<close>

text \<open>
  Once the connection has failed, \<^verbatim>\<open>Flush\<close> leaves the offset where it is, the buffer fills up, and
  the loop of \<^verbatim>\<open>Write\<close> copies nothing any more: with more bytes left than the buffer holds it never
  ends.
\<close>

lemma failed_loop_no_result:
  assumes "bufWriteLoop wr w b n err = Some r"
  shows "bw_err w \<noteq> None \<longrightarrow> offset w \<le> length (bw_buf w) \<longrightarrow> length (bw_buf w) = 2 * batchSize w \<longrightarrow>
    length b \<le> length (bw_buf w) - offset w"
proof (rule bufWriteLoop.raw_induct [OF _ assms, where P = "\<lambda>wr w b n err r. bw_err w \<noteq> None \<longrightarrow>
    offset w \<le> length (bw_buf w) \<longrightarrow> length (bw_buf w) = 2 * batchSize w \<longrightarrow>
    length b \<le> length (bw_buf w) - offset w"], intro impI)
  fix loop :: "'a writer \<Rightarrow> 'a bufWriter \<Rightarrow> bytes \<Rightarrow> nat \<Rightarrow> frame_error option \<Rightarrow>
    ('a bufWriter \<times> nat \<times> frame_error option) option" and wr w b n err r
  assume IH: "\<And>wr w b n err r. loop wr w b n err = Some r \<Longrightarrow> bw_err w \<noteq> None \<longrightarrow>
      offset w \<le> length (bw_buf w) \<longrightarrow> length (bw_buf w) = 2 * batchSize w \<longrightarrow>
      length b \<le> length (bw_buf w) - offset w"
    and failed: "bw_err w \<noteq> None" "offset w \<le> length (bw_buf w)" "length (bw_buf w) = 2 * batchSize w"
    and step: "(if b = [] then Some (w, n, err)
      else let (w1, nn) = bufCopy w b;
             (w2, err2) = (if offset w1 \<ge> batchSize w1 then bufFlush wr w1 else (w1, err))
           in loop wr w2 (drop nn b) (n + nn) err2) = Some r"
  obtain w1 nn where copy: "bufCopy w b = (w1, nn)" by fastforce
  have "bufFlush wr w1 = (w1, bw_err w1)"
    using copy failed by (auto simp: bufCopy_def bufFlush_def Let_def)
  with step copy have "b = [] \<or> (\<exists>err2. loop wr w1 (drop nn b) (n + nn) err2 = Some r)"
    by (auto split: if_splits)
  then consider "b = []" | err2 where "loop wr w1 (drop nn b) (n + nn) err2 = Some r" by blast
  then show "length b \<le> length (bw_buf w) - offset w"
  proof cases
    case 2
    have "nn = min (length (bw_buf w) - offset w) (length b)" "offset w1 = offset w + nn"
      "length (bw_buf w1) = length (bw_buf w)" "bw_err w1 = bw_err w" "batchSize w1 = batchSize w"
      using copy failed by (auto simp: bufCopy_def Let_def)
    moreover from this have "length (drop nn b) \<le> length (bw_buf w1) - offset w1"
      using IH [OF 2] failed by simp
    ultimately show ?thesis by (simp add: min_def split: if_splits)
  qed simp
qed

lemma failed_loop_diverges:
  assumes "bw_err w \<noteq> None" "offset w \<le> length (bw_buf w)" "length (bw_buf w) = 2 * batchSize w"
    "length b > length (bw_buf w) - offset w"
  shows "bufWriteLoop wr w b n err = None"
  using assms failed_loop_no_result [of wr w b n err] by (cases "bufWriteLoop wr w b n err") auto

text \<open>
  C31: A write through the buffer to a connection whose writes fail never returns, as soon as the data
  exceeds what is left of the buffer by more than a whole buffer: \<^verbatim>\<open>Write\<close> loops for ever.
\<close>

theorem buffered_write_diverges:
  assumes "buf_good (\<lambda>c. True) w" "batchSize w > 0" "\<And>c b. snd (snd (connWrite c b)) \<noteq> None"
    "length b > 4 * batchSize w - offset w"
  shows "bufWrite connWrite w b = None"
proof -
  obtain w1 nn where copy: "bufCopy w b = (w1, nn)" by fastforce
  then have w1: "nn = 2 * batchSize w - offset w" "offset w1 = 2 * batchSize w" "bw_err w1 = None"
    "length (bw_buf w1) = 2 * batchSize w" "batchSize w1 = batchSize w"
    using assms(1,2,4) by (auto simp: bufCopy_def buf_good_def Let_def)
  define w2 where "w2 = fst (bufFlush connWrite w1)"
  have "bufWriteLoop connWrite w b 0 None = bufWriteLoop connWrite w2 (drop nn b) nn (snd (bufFlush connWrite w1))"
    using assms(2,4) copy w1 by (subst bufWriteLoop.simps) (auto simp: w2_def split: prod.splits)
  also have "\<dots> = None"
    using assms(1,2,4) w1 assms(3) [of "bw_conn w1" "bw_buf w1"]
    by (intro failed_loop_diverges) (auto simp: w2_def bufFlush_def buf_good_def split: prod.splits)
  finally show ?thesis
    using assms(1,2) by (simp add: bufWrite_def buf_good_def)
qed

text \<open>A connection that is closed, a buffer of one byte, and five bytes to write.\<close>

theorem buffered_write_diverges_witness:
  "bufWrite (\<lambda>c b. (c, 0, Some (errWrite ''closed''))) (newBufWriter () 1) [1, 2, 3, 4, 5] = None"
  by (rule buffered_write_diverges) (simp_all add: newBufWriter_def buf_good_def)

end
