(* ===== verification/Frame_Round_Trip.thy ===== *)
theory Frame_Round_Trip
  imports Buf_Writer
begin

text \<open>
  Frames written by one framer are the frames another one reads. The writes of a session are a list
  of operations; what they put on the wire is stated by \<open>op_payload\<close> and \<open>frame_bytes\<close>, and which
  orders of frames the reader accepts by \<open>order_after\<close>.
\<close>

section \<open>Operations\<close>

datatype frame_op =
    OpData u32 bool bytes "bytes option"
  | OpHeaders HeadersFrameParam
  | OpPriority u32 PriorityParam
  | OpRSTStream u32 ErrCode
  | OpSettings "Setting list"
  | OpSettingsAck
  | OpPushPromise PushPromiseParam
  | OpPing bool bytes
  | OpGoAway u32 ErrCode bytes
  | OpWindowUpdate u32 u32
  | OpContinuation u32 bool bytes
  | OpRawFrame FrameType byte u32 bytes

fun perform :: "'w writer \<Rightarrow> frame_op \<Rightarrow> 'w Framer \<Rightarrow> 'w Framer \<times> frame_error option" where
  "perform wr (OpData sid es d pad) f = WriteDataPadded wr sid es d pad f"
| "perform wr (OpHeaders p) f = WriteHeaders wr p f"
| "perform wr (OpPriority sid p) f = WritePriority wr sid p f"
| "perform wr (OpRSTStream sid c) f = WriteRSTStream wr sid c f"
| "perform wr (OpSettings ss) f = WriteSettings wr ss f"
| "perform wr OpSettingsAck f = WriteSettingsAck wr f"
| "perform wr (OpPushPromise p) f = WritePushPromise wr p f"
| "perform wr (OpPing ack d) f = WritePing wr ack d f"
| "perform wr (OpGoAway sid c d) f = WriteGoAway wr sid c d f"
| "perform wr (OpWindowUpdate sid i) f = WriteWindowUpdate wr sid i f"
| "perform wr (OpContinuation sid eh b) f = WriteContinuation wr sid eh b f"
| "perform wr (OpRawFrame t fl sid p) f = WriteRawFrame wr t fl sid p f"

text \<open>A session: the operations one after the other, up to the first error.\<close>

fun performAll :: "'w writer \<Rightarrow> frame_op list \<Rightarrow> 'w Framer \<Rightarrow> 'w Framer \<times> frame_error option" where
  "performAll wr [] f = (f, None)"
| "performAll wr (op # ops) f =
     (case perform wr op f of (f', Some e) \<Rightarrow> (f', Some e) | (f', None) \<Rightarrow> performAll wr ops f')"

fun readFrames :: "nat \<Rightarrow> 'w Framer \<Rightarrow> 'w Framer \<times> (frame_error + Frame list)" where
  "readFrames 0 fr = (fr, Inr [])"
| "readFrames (Suc n) fr =
     (case ReadFrame fr of
        (fr', Inl e) \<Rightarrow> (fr', Inl e)
      | (fr', Inr f) \<Rightarrow> (case readFrames n fr' of (fr'', Inl e) \<Rightarrow> (fr'', Inl e) | (fr'', Inr fs) \<Rightarrow> (fr'', Inr (f # fs))))"

section \<open>What an operation puts on the wire\<close>

fun op_type :: "frame_op \<Rightarrow> FrameType" where
  "op_type (OpData sid es d pad) = FrameData"
| "op_type (OpHeaders p) = FrameHeaders"
| "op_type (OpPriority sid p) = FramePriority"
| "op_type (OpRSTStream sid c) = FrameRSTStream"
| "op_type (OpSettings ss) = FrameSettings"
| "op_type OpSettingsAck = FrameSettings"
| "op_type (OpPushPromise p) = FramePushPromise"
| "op_type (OpPing ack d) = FramePing"
| "op_type (OpGoAway sid c d) = FrameGoAway"
| "op_type (OpWindowUpdate sid i) = FrameWindowUpdate"
| "op_type (OpContinuation sid eh b) = FrameContinuation"
| "op_type (OpRawFrame t fl sid p) = t"

fun op_stream :: "frame_op \<Rightarrow> u32" where
  "op_stream (OpData sid es d pad) = sid"
| "op_stream (OpHeaders p) = hp_StreamID p"
| "op_stream (OpPriority sid p) = sid"
| "op_stream (OpRSTStream sid c) = sid"
| "op_stream (OpSettings ss) = 0"
| "op_stream OpSettingsAck = 0"
| "op_stream (OpPushPromise p) = pp_StreamID p"
| "op_stream (OpPing ack d) = 0"
| "op_stream (OpGoAway sid c d) = 0"
| "op_stream (OpWindowUpdate sid i) = sid"
| "op_stream (OpContinuation sid eh b) = sid"
| "op_stream (OpRawFrame t fl sid p) = sid"

definition flag :: "bool \<Rightarrow> byte \<Rightarrow> byte" where
  "flag b v = (if b then v else 0)"

fun op_flags :: "frame_op \<Rightarrow> byte" where
  "op_flags (OpData sid es d pad) = flag es 1 OR flag (pad \<noteq> None) 8"
| "op_flags (OpHeaders p) = flag (hp_PadLength p \<noteq> 0) 8 OR flag (hp_EndStream p) 1 OR flag (hp_EndHeaders p) 4 OR
     flag (\<not> IsZero (hp_Priority p)) 0x20"
| "op_flags (OpPriority sid p) = 0"
| "op_flags (OpRSTStream sid c) = 0"
| "op_flags (OpSettings ss) = 0"
| "op_flags OpSettingsAck = 1"
| "op_flags (OpPushPromise p) = flag (pp_PadLength p \<noteq> 0) 8 OR flag (pp_EndHeaders p) 4"
| "op_flags (OpPing ack d) = flag ack 1"
| "op_flags (OpGoAway sid c d) = 0"
| "op_flags (OpWindowUpdate sid i) = 0"
| "op_flags (OpContinuation sid eh b) = flag eh 4"
| "op_flags (OpRawFrame t fl sid p) = fl"

definition setting_bytes :: "Setting list \<Rightarrow> bytes" where
  "setting_bytes ss = concat (map (\<lambda>s. put_uint16 (ID s) @ put_uint32 (Val s)) ss)"

definition prio_bytes :: "PriorityParam \<Rightarrow> bytes" where
  "prio_bytes p = put_uint32 (priorityWord p) @ [Weight p]"

fun op_payload :: "frame_op \<Rightarrow> bytes" where
  "op_payload (OpData sid es d pad) =
     (case pad of None \<Rightarrow> d | Some p \<Rightarrow> [word_of_nat (length p)] @ d @ p)"
| "op_payload (OpHeaders p) =
     (if hp_PadLength p = 0 then [] else [hp_PadLength p]) @
     (if IsZero (hp_Priority p) then [] else prio_bytes (hp_Priority p)) @
     hp_BlockFragment p @ replicate (unat (hp_PadLength p)) 0"
| "op_payload (OpPriority sid p) = prio_bytes p"
| "op_payload (OpRSTStream sid c) = put_uint32 c"
| "op_payload (OpSettings ss) = setting_bytes ss"
| "op_payload OpSettingsAck = []"
| "op_payload (OpPushPromise p) =
     (if pp_PadLength p = 0 then [] else [pp_PadLength p]) @ put_uint32 (pp_PromiseID p) @
     pp_BlockFragment p @ replicate (unat (pp_PadLength p)) 0"
| "op_payload (OpPing ack d) = d"
| "op_payload (OpGoAway sid c d) = put_uint32 (low31 sid) @ put_uint32 c @ d"
| "op_payload (OpWindowUpdate sid i) = put_uint32 i"
| "op_payload (OpContinuation sid eh b) = b"
| "op_payload (OpRawFrame t fl sid p) = p"

definition frame_bytes :: "FrameType \<Rightarrow> byte \<Rightarrow> u32 \<Rightarrow> bytes \<Rightarrow> bytes" where
  "frame_bytes t fl sid p = put_uint24 (int (length p)) @ [t, fl] @ put_uint32 sid @ p"

definition op_bytes :: "frame_op \<Rightarrow> bytes" where
  "op_bytes op = frame_bytes (op_type op) (op_flags op) (op_stream op) (op_payload op)"

section \<open>Legal operations\<close>

text \<open>
  What a caller has to respect: stream identifiers, the sizes the protocol fixes, padding of zeros,
  an initial window below \<^verbatim>\<open>1<<31\<close>, raw frames of extension types only.
\<close>

fun op_args_ok :: "frame_op \<Rightarrow> bool" where
  "op_args_ok (OpData sid es d pad) \<longleftrightarrow> validStreamID sid \<and>
     (case pad of None \<Rightarrow> True | Some p \<Rightarrow> length p \<le> 255 \<and> list_all (\<lambda>b. b = 0) p)"
| "op_args_ok (OpHeaders p) \<longleftrightarrow> validStreamID (hp_StreamID p) \<and>
     (IsZero (hp_Priority p) \<or> validStreamIDOrZero (StreamDep (hp_Priority p)))"
| "op_args_ok (OpPriority sid p) \<longleftrightarrow> validStreamID sid \<and> validStreamIDOrZero (StreamDep p)"
| "op_args_ok (OpRSTStream sid c) \<longleftrightarrow> validStreamID sid"
| "op_args_ok (OpSettings ss) \<longleftrightarrow>
     (case find (\<lambda>s. ID s = SettingInitialWindowSize) ss of None \<Rightarrow> True | Some s \<Rightarrow> Val s \<le> 2 ^ 31 - 1)"
| "op_args_ok OpSettingsAck \<longleftrightarrow> True"
| "op_args_ok (OpPushPromise p) \<longleftrightarrow> validStreamID (pp_StreamID p) \<and> validStreamID (pp_PromiseID p)"
| "op_args_ok (OpPing ack d) \<longleftrightarrow> length d = 8"
| "op_args_ok (OpGoAway sid c d) \<longleftrightarrow> True"
| "op_args_ok (OpWindowUpdate sid i) \<longleftrightarrow> validStreamIDOrZero sid \<and> 1 \<le> i \<and> i \<le> 2147483647"
| "op_args_ok (OpContinuation sid eh b) \<longleftrightarrow> validStreamID sid"
| "op_args_ok (OpRawFrame t fl sid p) \<longleftrightarrow> t > FrameContinuation \<and> validStreamIDOrZero sid"

definition op_legal :: "frame_op \<Rightarrow> bool" where
  "op_legal op \<longleftrightarrow> op_args_ok op \<and> length (op_payload op) < 2 ^ 24"

text \<open>The frame the reader gets for an operation.\<close>

definition op_header :: "frame_op \<Rightarrow> FrameHeader" where
  "op_header op = \<lparr>valid = True, Type = op_type op, Flags = op_flags op,
     Length = word_of_nat (length (op_payload op)), StreamID = op_stream op\<rparr>"

fun op_frame :: "frame_op \<Rightarrow> Frame" where
  "op_frame (OpData sid es d pad) = DataFrame (op_header (OpData sid es d pad)) d"
| "op_frame (OpHeaders p) = HeadersFrame (op_header (OpHeaders p)) (hp_Priority p) (hp_BlockFragment p)"
| "op_frame (OpPriority sid p) = PriorityFrame (op_header (OpPriority sid p)) p"
| "op_frame (OpRSTStream sid c) = RSTStreamFrame (op_header (OpRSTStream sid c)) c"
| "op_frame (OpSettings ss) = SettingsFrame (op_header (OpSettings ss)) (setting_bytes ss)"
| "op_frame OpSettingsAck = SettingsFrame (op_header OpSettingsAck) []"
| "op_frame (OpPushPromise p) =
     PushPromiseFrame (op_header (OpPushPromise p)) (pp_PromiseID p) (pp_BlockFragment p)"
| "op_frame (OpPing ack d) = PingFrame (op_header (OpPing ack d)) d"
| "op_frame (OpGoAway sid c d) = GoAwayFrame (op_header (OpGoAway sid c d)) (low31 sid) c d"
| "op_frame (OpWindowUpdate sid i) = WindowUpdateFrame (op_header (OpWindowUpdate sid i)) i"
| "op_frame (OpContinuation sid eh b) = ContinuationFrame (op_header (OpContinuation sid eh b)) b"
| "op_frame (OpRawFrame t fl sid p) = UnknownFrame (op_header (OpRawFrame t fl sid p)) p"

section \<open>Writing\<close>

lemma put_uint24_length [simp]: "length (put_uint24 n) = 3"
  by (simp add: put_uint24_def)

lemma settings_fold:
  "foldl (\<lambda>f s. writeUint32 (Val s) (writeUint16 (ID s) f)) f ss = f\<lparr>wbuf := wbuf f @ setting_bytes ss\<rparr>"
  by (induction ss arbitrary: f) (simp_all add: setting_bytes_def writeUint16_def writeUint32_def)

text \<open>Every legal operation builds its frame in the buffer and hands it to \<^verbatim>\<open>endWrite\<close>.\<close>

lemma perform_endWrite:
  assumes "op_args_ok op"
  shows "perform wr op f =
    endWrite wr (f\<lparr>wbuf := [0, 0, 0, op_type op, op_flags op] @ put_uint32 (op_stream op) @ op_payload op\<rparr>)"
proof (cases op)
  case (OpData sid es d pad)
  with assms show ?thesis
    by (cases pad) (auto simp: WriteDataPadded_def startWrite_def writeByte_def writeBytes_def flag_defs flag_def
        list_all_iff list_ex_iff Let_def not_less)
next
  case (OpHeaders p)
  with assms show ?thesis
    by (auto simp: WriteHeaders_def startWrite_def writeByte_def writeBytes_def writeUint32_def flag_defs flag_def
        prio_bytes_def Let_def)
next
  case (OpPushPromise p)
  with assms show ?thesis
    by (auto simp: WritePushPromise_def startWrite_def writeByte_def writeBytes_def writeUint32_def flag_defs
        flag_def Let_def)
next
  case (OpSettings ss)
  then show ?thesis by (simp add: WriteSettings_def startWrite_def settings_fold)
qed (use assms in \<open>auto simp: WritePriority_def WriteRSTStream_def WriteSettingsAck_def WritePing_def WriteGoAway_def
      WriteWindowUpdate_def WriteContinuation_def WriteRawFrame_def startWrite_def writeByte_def writeBytes_def
      writeUint32_def flag_defs flag_def prio_bytes_def frame_type_defs\<close>)

context byte_writer
begin

lemma endWrite_frame:
  assumes "good (fr_w f)" "length p < 2 ^ 24" "wbuf f = [0, 0, 0, t, fl] @ put_uint32 sid @ p"
  shows "\<exists>w'. endWrite wr f = (f\<lparr>wbuf := frame_bytes t fl sid p, fr_w := w'\<rparr>, None) \<and> good w' \<and>
    written w' = written (fr_w f) @ frame_bytes t fl sid p"
proof -
  have w: "put_uint24 (int (length (wbuf f) - frameHeaderLen)) @ drop 3 (wbuf f) = frame_bytes t fl sid p"
    using assms(3) by (simp add: frame_bytes_def frameHeaderLen_def)
  obtain w' where "wr (fr_w f) (frame_bytes t fl sid p) = (w', length (frame_bytes t fl sid p), None)" "good w'"
    "written w' = written (fr_w f) @ frame_bytes t fl sid p"
    using write_cases [OF assms(1)] .
  then show ?thesis
    using assms(2,3) w by (auto simp: endWrite_def Let_def frameHeaderLen_def)
qed

lemma perform_ok:
  assumes "good (fr_w f)" "op_legal op"
  shows "\<exists>f'. perform wr op f = (f', None) \<and> good (fr_w f') \<and> written (fr_w f') = written (fr_w f) @ op_bytes op"
  using assms endWrite_frame [of "f\<lparr>wbuf := [0, 0, 0, op_type op, op_flags op] @ put_uint32 (op_stream op) @ op_payload op\<rparr>"
      "op_payload op" "op_type op" "op_flags op" "op_stream op"]
  by (auto simp: perform_endWrite op_legal_def op_bytes_def)

lemma performAll_ok:
  assumes "good (fr_w f)" "list_all op_legal ops"
  shows "\<exists>f'. performAll wr ops f = (f', None) \<and> good (fr_w f') \<and>
    written (fr_w f') = written (fr_w f) @ concat (map op_bytes ops)"
  using assms
proof (induction ops arbitrary: f)
  case (Cons op ops)
  then obtain f1 where f1: "perform wr op f = (f1, None)" "good (fr_w f1)"
    "written (fr_w f1) = written (fr_w f) @ op_bytes op"
    using perform_ok [of f op] by auto
  with Cons.IH [of f1] Cons.prems show ?case by auto
qed simp

end

section \<open>Reading\<close>

lemma uint24_of_put:
  assumes "n < 2 ^ 24"
  shows "push_bit 16 (ucast (word_of_int (int n div 2 ^ 16) :: byte)) OR
    push_bit 8 (ucast (word_of_int (int n div 2 ^ 8) :: byte)) OR
    ucast (word_of_int (int n) :: byte) = (word_of_nat n :: u32)"
proof (rule bit_word_eqI)
  fix k
  assume "k < LENGTH(32)"
  then consider "k < 8" | "8 \<le> k \<and> k < 16" | "16 \<le> k \<and> k < 24" | "24 \<le> k \<and> k < 32"
    by fastforce
  moreover have "\<not> bit n k" if "24 \<le> k"
  proof -
    have "take_bit 24 n = n" using assms by (simp add: take_bit_nat_eq_self)
    then show ?thesis using that bit_take_bit_iff [of 24 n k] by simp
  qed
  ultimately show "bit (push_bit 16 (ucast (word_of_int (int n div 2 ^ 16) :: byte)) OR
      push_bit 8 (ucast (word_of_int (int n div 2 ^ 8) :: byte)) OR
      ucast (word_of_int (int n) :: byte) :: u32) k = bit (word_of_nat n :: u32) k"
    using bit_drop_bit_eq [of 16 "int n"] bit_drop_bit_eq [of 8 "int n"]
    by cases (auto simp: bit_simps drop_bit_eq_div)
qed

lemma readFrameHeader_frame:
  assumes "length p < 2 ^ 24"
  shows "readFrameHeader (frame_bytes t fl sid p @ r) =
    Inr (\<lparr>valid = True, Type = t, Flags = fl, Length = word_of_nat (length p), StreamID = low31 sid\<rparr>, p @ r)"
  using uint24_of_put [OF assms]
  by (simp add: readFrameHeader_def readFull_def frame_bytes_def put_uint24_def put_uint32_def frameHeaderLen_def
      wire_simps)

lemma low31_valid:
  "validStreamIDOrZero v \<Longrightarrow> low31 v = v" "validStreamID v \<Longrightarrow> low31 v = v"
proof -
  have *: "low31 v = v" if v: "v AND push_bit 31 1 = 0"
  proof (rule bit_word_eqI)
    fix n assume n: "n < LENGTH(32)"
    have "\<not> bit v 31" using v bit_and_iff [of v "push_bit 31 1" 31] by (simp add: bit_simps)
    moreover have "bit (0x7fffffff :: u32) n \<longleftrightarrow> n < 31"
      using n bit_mask_iff [where ?'a = "32 word", of 31 n] by (simp add: mask_eq_exp_minus_1)
    ultimately show "bit (low31 v) n = bit v n"
      using n by (cases "n = 31") (auto simp: low31_def bit_simps)
  qed
  then show "validStreamIDOrZero v \<Longrightarrow> low31 v = v" "validStreamID v \<Longrightarrow> low31 v = v"
    by (auto simp: validStreamIDOrZero_def validStreamID_def)
qed

lemma low31_0 [simp]: "low31 0 = 0"
  by (simp add: low31_def)

lemma low31_small:
  assumes "i \<le> 2147483647"
  shows "low31 i = i"
proof -
  have "unat i \<le> unat (2147483647 :: u32)"
    using assms by (simp only: word_le_nat_alt)
  then have "take_bit 31 i = i" by (intro take_bit_small) simp
  then show ?thesis
    using mask_eq_exp_minus_1 [where ?'a = "32 word", of 31] by (simp add: low31_def take_bit_eq_mask)
qed

subsection \<open>The parsers on what the writers build\<close>

lemma length_setting_bytes [simp]: "length (setting_bytes ss) = 6 * length ss"
  by (induction ss) (simp_all add: setting_bytes_def)

lemma Setting_at_Suc: "6 \<le> length p \<Longrightarrow> Setting_at p (Suc j) = Setting_at (drop 6 p) j"
  by (simp add: Setting_at_def algebra_simps)

lemma Setting_at_bytes: "i < length ss \<Longrightarrow> Setting_at (setting_bytes ss) i = ss ! i"
proof (induction ss arbitrary: i)
  case (Cons s ss)
  show ?case
  proof (cases i)
    case 0
    then show ?thesis
      by (simp add: Setting_at_def setting_bytes_def put_uint16_def put_uint32_def wire_simps)
  next
    case (Suc j)
    have "Setting_at (setting_bytes (s # ss)) (Suc j) = Setting_at (setting_bytes ss) j"
      by (subst Setting_at_Suc) (simp_all add: setting_bytes_def put_uint16_def put_uint32_def)
    with Cons Suc show ?thesis by simp
  qed
qed simp

lemma settings_of_bytes [wire_simps]: "settings_of (setting_bytes ss) = ss"
  by (rule nth_equalityI) (simp_all add: settings_of_def NumSettings_def Setting_at_bytes)

lemma Has_flag:
  "Has (flag a 1 OR flag b 8) 8 \<longleftrightarrow> b"
  "Has (flag a 8 OR flag b 1 OR flag c 4 OR flag d 0x20) 8 \<longleftrightarrow> a"
  "Has (flag a 8 OR flag b 1 OR flag c 4 OR flag d 0x20) 0x20 \<longleftrightarrow> d"
  "Has (flag a 8 OR flag b 1 OR flag c 4 OR flag d 0x20) 4 \<longleftrightarrow> c"
  "Has (flag a 8 OR flag b 4) 8 \<longleftrightarrow> a"
  "Has (flag a 4) 4 \<longleftrightarrow> a" "\<not> Has 0 1" "Has 1 1"
  by (cases a; cases b; cases c; cases d; simp add: Has_def flag_def)+

lemma low31_priorityWord [wire_simps]:
  assumes "validStreamIDOrZero (StreamDep p)"
  shows "low31 (priorityWord p) = StreamDep p" "priorityWord p \<noteq> StreamDep p \<longleftrightarrow> Exclusive p"
proof -
  have v: "StreamDep p AND push_bit 31 1 = 0"
    using assms by (simp add: validStreamIDOrZero_def)
  have "(StreamDep p OR push_bit 31 1) AND 0x7fffffff = StreamDep p AND 0x7fffffff"
    by (simp add: bit.conj_disj_distrib2)
  then show "low31 (priorityWord p) = StreamDep p"
    using low31_valid(1) [OF assms] by (simp add: priorityWord_def low31_def)
  show "priorityWord p \<noteq> StreamDep p \<longleftrightarrow> Exclusive p"
  proof -
    have "\<not> bit (StreamDep p) 31"
      using v bit_and_iff [of "StreamDep p" "push_bit 31 1" 31] by (simp add: bit_simps)
    moreover have "bit (StreamDep p OR push_bit 31 1) 31"
      by (simp add: bit_simps)
    ultimately show ?thesis by (auto simp: priorityWord_def)
  qed
qed

lemma readUint32_put [wire_simps]: "readUint32 (put_uint32 v @ r) = Inr (r, v)"
  by (simp add: put_uint32_def wire_simps)

lemma readPriority_bytes [wire_simps]:
  assumes "validStreamIDOrZero (StreamDep p)"
  shows "readPriority (prio_bytes p @ r) = Inr (r, p)"
  using low31_priorityWord [OF assms] by (cases p) (auto simp: readPriority_def prio_bytes_def wire_simps)

lemma be_uint32_nth:
  assumes "take 4 p = put_uint32 v"
  shows "be_uint32 (p ! 0) (p ! 1) (p ! 2) (p ! 3) = v"
proof -
  have "be_uint32 (take 4 p ! 0) (take 4 p ! 1) (take 4 p ! 2) (take 4 p ! 3) = v"
    unfolding assms by (simp add: put_uint32_def wire_simps)
  then show ?thesis by simp
qed

lemma be_uint32_nth_put [wire_simps]:
  "be_uint32 (put_uint32 v ! 0) (put_uint32 v ! Suc 0) (put_uint32 v ! 2) (put_uint32 v ! 3) = v"
  using be_uint32_nth [of "put_uint32 v" v] by simp

lemma parse_op:
  assumes "op_legal op"
  shows "typeFrameParser (op_type op) (op_header op) (op_payload op) = Inr (op_frame op)"
proof (cases op)
  case (OpData sid es d pad)
  with assms show ?thesis
    by (cases pad) (auto simp: op_legal_def typeFrameParser_def parseDataFrame_def op_header_def flag_defs Has_flag
        validStreamID_def unat_of_nat)
next
  case (OpHeaders p)
  have z: "hp_Priority p = zeroPriority" if "IsZero (hp_Priority p)"
    using that by (simp add: IsZero_def)
  from OpHeaders assms z show ?thesis
    by (auto simp: op_legal_def typeFrameParser_def parseHeadersFrame_def op_header_def flag_defs Has_flag
        validStreamID_def frame_type_defs wire_simps simp del: and_then_Inr_iff)
next
  case (OpPriority sid p)
  with assms have v: "validStreamIDOrZero (StreamDep p)" "sid \<noteq> 0"
    by (auto simp: op_legal_def validStreamID_def)
  have "be_uint32 (prio_bytes p ! 0) (prio_bytes p ! 1) (prio_bytes p ! 2) (prio_bytes p ! 3) = priorityWord p"
    by (rule be_uint32_nth) (simp add: prio_bytes_def)
  moreover have "prio_bytes p ! 4 = Weight p" "length (prio_bytes p) = 5"
    by (simp_all add: prio_bytes_def nth_append)
  ultimately show ?thesis
    using OpPriority v low31_priorityWord [OF v(1)]
    by (cases p) (auto simp: typeFrameParser_def parsePriorityFrame_def op_header_def frame_type_defs Let_def)
next
  case (OpPushPromise p)
  with assms have "low31 (pp_PromiseID p) = pp_PromiseID p"
    by (auto simp: op_legal_def low31_valid)
  with OpPushPromise assms show ?thesis
    by (auto simp: op_legal_def typeFrameParser_def parsePushPromise_def op_header_def flag_defs Has_flag
        validStreamID_def frame_type_defs wire_simps)
next
  case (OpSettings ss)
  with assms show ?thesis
    by (auto simp: op_legal_def typeFrameParser_def parseSettingsFrame_def op_header_def flag_defs Has_flag
        frame_type_defs wire_simps setting_Value_find not_less split: option.splits)
next
  case (OpGoAway sid c d)
  then show ?thesis
    by (simp add: typeFrameParser_def parseGoAwayFrame_def op_header_def frame_type_defs put_uint32_def wire_simps)
next
  case (OpRawFrame t fl sid p)
  with assms have "typeFrameParser t = parseUnknownFrame"
    by (auto simp: op_legal_def typeFrameParser_def frame_type_defs)
  with OpRawFrame show ?thesis by (simp add: parseUnknownFrame_def)
qed (use assms in \<open>auto simp: op_legal_def typeFrameParser_def parsePingFrame_def parseRSTStreamFrame_def
      parseSettingsFrame_def parseWindowUpdateFrame_def parseContinuationFrame_def op_header_def frame_type_defs
      wire_simps flag_defs Has_flag validStreamID_def low31_small setting_Value_def NumSettings_def Let_def\<close>)

section \<open>The order of frames\<close>

text \<open>
  The automaton of header blocks. Its state is the stream whose block is open, 0 if there is none:
  an open block admits only CONTINUATION frames of its stream, and a CONTINUATION frame only an open block.
\<close>

definition order_after :: "u32 \<Rightarrow> Frame \<Rightarrow> u32 option" where
  "order_after s f =
     (let fh = Header f; open_stream = (if HeadersEnded fh then 0 else StreamID fh) in
      if s \<noteq> 0 then (if Type fh = FrameContinuation \<and> StreamID fh = s then Some open_stream else None)
      else if Type fh = FrameContinuation then None
      else if Type fh = FrameHeaders then Some open_stream
      else Some 0)"

fun orderly :: "u32 \<Rightarrow> Frame list \<Rightarrow> bool" where
  "orderly s [] \<longleftrightarrow> True"
| "orderly s (f # fs) \<longleftrightarrow> (case order_after s f of None \<Rightarrow> False | Some s' \<Rightarrow> orderly s' fs)"

lemma checkFrameOrder_ok_iff:
  assumes "\<not> AllowIllegalReads fr"
  shows "checkFrameOrder fr f = (fr', None) \<longleftrightarrow>
    (\<exists>s. order_after (lastHeaderStream fr) f = Some s \<and> fr' = fr\<lparr>lastFrame := Some f, lastHeaderStream := s\<rparr>)"
  using assms
  by (auto simp: checkFrameOrder_def order_after_def framer_connError_def HeadersEnded_def frame_type_defs Let_def
      split: option.splits)

text \<open>One frame, written by a legal operation, is read back.\<close>

lemma op_header_low31:
  assumes "op_legal op"
  shows "low31 (op_stream op) = op_stream op"
  using assms by (cases op) (auto simp: op_legal_def low31_valid)

lemma unat_length_u32: "n < 2 ^ 24 \<Longrightarrow> unat (word_of_nat n :: u32) = n"
  by (simp add: unat_of_nat)

lemma readRawFrame_op:
  assumes "op_legal op" "fr_r fr = op_bytes op @ r" "length (op_payload op) \<le> unat (maxReadSize fr)" "\<not> AllowIllegalReads fr"
    "order_after (lastHeaderStream fr) (op_frame op) = Some s"
  shows "readRawFrame fr =
    (fr\<lparr>errDetail := None, fr_r := r, lastFrame := Some (op_frame op), lastHeaderStream := s\<rparr>, Inr (op_frame op))"
proof -
  define fr1 where "fr1 = fr\<lparr>errDetail := None, lastFrame := map_option invalidate (lastFrame fr), fr_r := r\<rparr>"
  have len: "length (op_payload op) < 2 ^ 24" using assms(1) by (simp add: op_legal_def)
  have hd: "readFrameHeader (op_bytes op @ r) = Inr (op_header op, op_payload op @ r)"
    using readFrameHeader_frame [OF len] op_header_low31 [OF assms(1)] by (simp add: op_bytes_def op_header_def)
  have n: "unat (Length (op_header op)) = length (op_payload op)"
    using unat_length_u32 [OF len] by (simp add: op_header_def)
  have small: "\<not> Length (op_header op) > maxReadSize fr"
    using assms(3) n by (simp add: word_less_nat_alt)
  have p: "typeFrameParser (Type (op_header op)) (op_header op) (op_payload op) = Inr (op_frame op)"
    using parse_op [OF assms(1)] by (simp add: op_header_def)
  have "checkFrameOrder fr1 (op_frame op) = (fr1\<lparr>lastFrame := Some (op_frame op), lastHeaderStream := s\<rparr>, None)"
    using assms(4,5) by (subst checkFrameOrder_ok_iff) (auto simp: fr1_def)
  then show ?thesis
    using assms(2) hd small p
    by (simp add: readRawFrame_def readFull_def n fr1_def Let_def)
qed

lemma readFrames_ops:
  assumes "list_all op_legal ops" "fr_r fr = concat (map op_bytes ops) @ r" "maxReadSize fr = maxFrameSize"
    "\<not> AllowIllegalReads fr" "ReadMetaHeaders fr = None" "orderly (lastHeaderStream fr) (map op_frame ops)"
  shows "\<exists>fr'. readFrames (length ops) fr = (fr', Inr (map op_frame ops)) \<and> fr_r fr' = r"
  using assms
proof (induction ops arbitrary: fr)
  case (Cons op ops)
  obtain s where s: "order_after (lastHeaderStream fr) (op_frame op) = Some s" "orderly s (map op_frame ops)"
    using Cons.prems(6) by (auto split: option.splits)
  define fr1 where "fr1 = fr\<lparr>errDetail := None, fr_r := concat (map op_bytes ops) @ r, lastFrame := Some (op_frame op),
    lastHeaderStream := s\<rparr>"
  have "readRawFrame fr = (fr1, Inr (op_frame op))"
    unfolding fr1_def using Cons.prems s by (intro readRawFrame_op) (auto simp: op_legal_def maxFrameSize_def)
  then have "ReadFrame fr = (fr1, Inr (op_frame op))"
    using Cons.prems(5) by (simp add: ReadFrame_def fr1_def split: Frame.splits)
  moreover obtain fr' where "readFrames (length ops) fr1 = (fr', Inr (map op_frame ops))" "fr_r fr' = r"
    using Cons.IH [of fr1] Cons.prems s by (auto simp: fr1_def)
  ultimately show ?case by simp
qed simp

lemma flushed_pipe:
  assumes "buf_good (\<lambda>c. True) w"
  shows "bw_conn (fst (bufFlush pipeWrite w)) = buf_written (\<lambda>c. c) w"
  using assms by (auto simp: bufFlush_def buf_written_def buf_good_def pipeWrite_def)

text \<open>
  C2: A session of legal writes in an admissible order, through a buffer of any size, never fails, and once
  the buffer is flushed the framer at the other end reads exactly the frames that were written, one after the
  other, and leaves the bytes that follow.
\<close>

theorem frame_session_round_trip:
  assumes "list_all op_legal ops" "orderly 0 (map op_frame ops)"
  shows "\<exists>f' fr'. performAll (bufWriter_Write pipeWrite) ops (NewFramer (newBufWriter [] bsize) []) = (f', None) \<and>
    readFrames (length ops) (NewFramer w (bw_conn (fst (bufFlush pipeWrite (fr_w f'))) @ rest)) =
      (fr', Inr (map op_frame ops)) \<and>
    fr_r fr' = rest"
proof -
  have good: "buf_good (\<lambda>c. True) (newBufWriter [] bsize)" "buf_written (\<lambda>c. c) (newBufWriter [] bsize) = []"
    by (simp_all add: buf_good_def buf_written_def newBufWriter_def)
  obtain f' where f': "performAll (bufWriter_Write pipeWrite) ops (NewFramer (newBufWriter [] bsize) []) = (f', None)"
    "buf_good (\<lambda>c. True) (fr_w f')" "buf_written (\<lambda>c. c) (fr_w f') = concat (map op_bytes ops)"
    using buffered_pipe.performAll_ok [of "NewFramer (newBufWriter [] bsize) []" ops] good assms(1)
    by (auto simp: NewFramer_def SetMaxReadFrameSize_def)
  let ?fr = "NewFramer w (bw_conn (fst (bufFlush pipeWrite (fr_w f'))) @ rest)"
  have "\<exists>fr'. readFrames (length ops) ?fr = (fr', Inr (map op_frame ops)) \<and> fr_r fr' = rest"
    using assms f'(2,3)
    by (intro readFrames_ops) (auto simp: NewFramer_def SetMaxReadFrameSize_def flushed_pipe)
  with f'(1) show ?thesis by blast
qed

text \<open>A request in two header fragments, data with padding, and a ping.\<close>

theorem frame_session_round_trip_witness:
  "\<exists>f' fr'. performAll (bufWriter_Write pipeWrite)
      [OpHeaders \<lparr>hp_StreamID = 1, hp_BlockFragment = [0x82], hp_EndStream = False, hp_EndHeaders = False,
         hp_PadLength = 2, hp_Priority = \<lparr>StreamDep = 3, Exclusive = True, Weight = 7\<rparr>\<rparr>,
       OpContinuation 1 True [0x84], OpData 1 True [1, 2, 3] (Some [0, 0]), OpPing False [1, 2, 3, 4, 5, 6, 7, 8]]
      (NewFramer (newBufWriter [] 16) []) = (f', None) \<and>
    readFrames (length [0, 1, 2, 3 :: nat]) (NewFramer () (bw_conn (fst (bufFlush pipeWrite (fr_w f'))) @ [9])) =
      (fr', Inr (map op_frame
        [OpHeaders \<lparr>hp_StreamID = 1, hp_BlockFragment = [0x82], hp_EndStream = False, hp_EndHeaders = False,
           hp_PadLength = 2, hp_Priority = \<lparr>StreamDep = 3, Exclusive = True, Weight = 7\<rparr>\<rparr>,
         OpContinuation 1 True [0x84], OpData 1 True [1, 2, 3] (Some [0, 0]), OpPing False [1, 2, 3, 4, 5, 6, 7, 8]])) \<and>
    fr_r fr' = [9]"
  using frame_session_round_trip [of "[OpHeaders \<lparr>hp_StreamID = 1, hp_BlockFragment = [0x82], hp_EndStream = False,
      hp_EndHeaders = False, hp_PadLength = 2, hp_Priority = \<lparr>StreamDep = 3, Exclusive = True, Weight = 7\<rparr>\<rparr>,
      OpContinuation 1 True [0x84], OpData 1 True [1, 2, 3] (Some [0, 0]), OpPing False [1, 2, 3, 4, 5, 6, 7, 8]]"
      16 "()" "[9]"]
  by (simp add: op_legal_def validStreamID_def validStreamIDOrZero_def IsZero_def zeroPriority_def prio_bytes_def
      order_after_def op_header_def HeadersEnded_def Has_def flag_def flag_defs frame_type_defs)

end
