(* ===== verification/Bit_Lists.thy ===== *)
theory Bit_Lists
  imports H2_Prelude "HOL-Library.Sublist"
begin

text \<open>
  Words and byte sequences as bit lists, most significant bit first, and a checker for
  prefix-free sets of bit lists. The proofs about the Huffman coder run on these.
\<close>

section \<open>Bit lists\<close>

definition bits_be :: "nat \<Rightarrow> 'a::len word \<Rightarrow> bool list" where
  "bits_be n w = map (bit w) (rev [0..<n])"

definition stream_bits :: "bytes \<Rightarrow> bool list" where
  "stream_bits bs = concat (map (bits_be 8) bs)"

lemma length_bits_be [simp]: "length (bits_be n w) = n"
  by (simp add: bits_be_def)

lemma nth_bits_be: "k < n \<Longrightarrow> bits_be n w ! k = bit w (n - Suc k)"
  by (simp add: bits_be_def rev_nth)

lemma bits_be_0 [simp]: "bits_be 0 w = []"
  by (simp add: bits_be_def)

lemma bits_be_eqI:
  assumes "length xs = n" and "\<And>k. k < n \<Longrightarrow> bit w (n - Suc k) = xs ! k"
  shows "bits_be n w = xs"
  using assms by (intro nth_equalityI) (simp_all add: nth_bits_be)

lemma bits_be_inj:
  fixes a b :: "'a::len word"
  assumes "bits_be LENGTH('a) a = bits_be LENGTH('a) b"
  shows "a = b"
proof (rule bit_word_eqI)
  fix n assume n: "n < LENGTH('a)"
  have "bits_be LENGTH('a) a ! (LENGTH('a) - Suc n) = bits_be LENGTH('a) b ! (LENGTH('a) - Suc n)"
    by (simp add: assms)
  with n show "bit a n = bit b n"
    by (simp add: nth_bits_be)
qed

lemma bits_be_8_inj: "bits_be 8 a = bits_be 8 b \<Longrightarrow> a = b" for a b :: byte
  using bits_be_inj [of a b] by simp

lemma ex_byte_of_bits:
  assumes "length xs = 8"
  shows "\<exists>b::byte. bits_be 8 b = xs"
proof -
  define b :: byte where "b = horner_sum of_bool 2 (rev xs)"
  have "bits_be 8 b = xs"
    using assms by (intro bits_be_eqI) (auto simp: b_def bit_horner_sum_bit_word_iff rev_nth)
  then show ?thesis ..
qed

lemma drop_bits_be: "drop k (bits_be n w) = bits_be (n - k) w"
  by (intro nth_equalityI) (simp_all add: nth_bits_be)

lemma take_bits_be: "k \<le> n \<Longrightarrow> n \<le> LENGTH('a) \<Longrightarrow> take k (bits_be n w) = bits_be k (drop_bit (n - k) w)"
  for w :: "'a::len word"
  by (intro nth_equalityI) (simp_all add: nth_bits_be bit_simps)

lemma bits_be_split:
  "bits_be (m + n) w = bits_be m (drop_bit n w) @ bits_be n w"
  by (intro nth_equalityI) (auto simp: nth_bits_be nth_append bit_simps less_diff_conv add.commute)

lemma stream_bits_simps [simp]:
  "stream_bits [] = []"
  "stream_bits (b # bs) = bits_be 8 b @ stream_bits bs"
  "stream_bits (bs @ cs) = stream_bits bs @ stream_bits cs"
  by (simp_all add: stream_bits_def)

lemma length_stream_bits [simp]: "length (stream_bits bs) = 8 * length bs"
  by (induction bs) simp_all

section \<open>Prefix-free sets\<close>

definition clash :: "bool list \<Rightarrow> bool list \<Rightarrow> bool" where
  "clash v w \<longleftrightarrow> prefix v w \<or> prefix w v"

text \<open>A binary tree that holds words at its leaves; inserting a word that clashes fails.\<close>

datatype btree = Empty | Word | Branch btree btree

fun bt_insert :: "bool list \<Rightarrow> btree \<Rightarrow> btree option" where
  "bt_insert [] Empty = Some Word"
| "bt_insert (b # w) Empty =
     map_option (\<lambda>t. if b then Branch Empty t else Branch t Empty) (bt_insert w Empty)"
| "bt_insert w Word = None"
| "bt_insert [] (Branch l r) = None"
| "bt_insert (b # w) (Branch l r) =
     (if b then map_option (Branch l) (bt_insert w r)
      else map_option (\<lambda>t. Branch t r) (bt_insert w l))"

fun bt_insert_all :: "bool list list \<Rightarrow> btree \<Rightarrow> btree option" where
  "bt_insert_all [] t = Some t"
| "bt_insert_all (w # ws) t =
     (case bt_insert w t of None \<Rightarrow> None | Some t' \<Rightarrow> bt_insert_all ws t')"

fun bt_words :: "btree \<Rightarrow> bool list set" where
  "bt_words Empty = {}"
| "bt_words Word = {[]}"
| "bt_words (Branch l r) = Cons False ` bt_words l \<union> Cons True ` bt_words r"

lemma clash_simps [simp]:
  "clash [] w" "clash w []" "clash (a # v) (b # w) \<longleftrightarrow> a = b \<and> clash v w"
  by (auto simp: clash_def)

lemma bt_insert_words:
  "bt_insert w t = Some t' \<Longrightarrow>
     bt_words t' = insert w (bt_words t) \<and> (\<forall>v \<in> bt_words t. \<not> clash v w)"
proof (induction w t arbitrary: t' rule: bt_insert.induct)
  case (5 b w l r)
  show ?case
  proof (cases b)
    case True
    with 5 obtain r' where "bt_insert w r = Some r'" and "t' = Branch l r'"
      by auto
    with 5(1) [OF True] True show ?thesis by auto
  next
    case False
    with 5 obtain l' where "bt_insert w l = Some l'" and "t' = Branch l' r"
      by auto
    with 5(2) [OF False] False show ?thesis by auto
  qed
qed (auto split: if_splits)

lemma bt_insert_all_prefix_free:
  "bt_insert_all ws t = Some t' \<Longrightarrow>
     sorted_wrt (\<lambda>v w. \<not> clash v w) ws \<and> (\<forall>v \<in> bt_words t. \<forall>w \<in> set ws. \<not> clash v w)"
proof (induction ws arbitrary: t)
  case (Cons w ws)
  then obtain t1 where t1: "bt_insert w t = Some t1" and rest: "bt_insert_all ws t1 = Some t'"
    by (auto split: option.splits)
  from Cons.IH [OF rest] bt_insert_words [OF t1] show ?case
    by auto
qed simp

lemma clash_sym: "clash v w \<longleftrightarrow> clash w v"
  by (auto simp: clash_def)

lemma prefix_free_nth:
  assumes "bt_insert_all ws Empty = Some t" and "i < length ws" and "j < length ws" and "i \<noteq> j"
  shows "\<not> clash (ws ! i) (ws ! j)"
proof -
  have s: "sorted_wrt (\<lambda>v w. \<not> clash v w) ws"
    using bt_insert_all_prefix_free [OF assms(1)] by simp
  show ?thesis
  proof (cases "i < j")
    case True
    with sorted_wrt_nth_less [OF s] assms show ?thesis by blast
  next
    case False
    with assms have "j < i" by simp
    with sorted_wrt_nth_less [OF s] assms have "\<not> clash (ws ! j) (ws ! i)" by blast
    then show ?thesis using clash_sym by blast
  qed
qed

end
