(* ===== verification/Huffman_Bits.thy ===== *)
theory Huffman_Bits
  imports Huffman_Model Bit_Lists
begin

text \<open>
  The bits the Huffman encoder writes. The code table is checked once by evaluation (lengths,
  and that no code is a prefix of another); the encoder's output is then the concatenation
  of the codes of the string's bytes, padded with ones to a byte boundary.
\<close>

section \<open>The table\<close>

definition table_bits :: "bool list list" where
  "table_bits = map2 (\<lambda>c l. bits_be l c) huffmanCodes huffmanCodeLen"

definition code_bits :: "byte \<Rightarrow> bool list" where
  "code_bits c = bits_be (huffmanCodeLen ! unat c) (huffmanCodes ! unat c)"

lemma length_tables: "length huffmanCodes = 256" "length huffmanCodeLen = 256"
  by code_simp+

lemma table_lengths: "list_all (\<lambda>l. 5 \<le> l \<and> l \<le> 30) huffmanCodeLen"
  by code_simp

lemma table_codes: "list_all2 (\<lambda>c l. uint c < 2 ^ l) huffmanCodes huffmanCodeLen"
  by code_simp

lemma table_prefix_free: "bt_insert_all table_bits Empty \<noteq> None"
  by code_simp

lemma code_facts:
  "5 \<le> huffmanCodeLen ! unat c" "huffmanCodeLen ! unat c \<le> 30"
  "unat (huffmanCodes ! unat c) < 2 ^ (huffmanCodeLen ! unat c)"
  for c :: byte
proof -
  have c: "unat c < 256" by (rule unat_byte_less)
  then show "5 \<le> huffmanCodeLen ! unat c" "huffmanCodeLen ! unat c \<le> 30"
    using table_lengths length_tables by (simp_all add: list_all_length)
  have "uint (huffmanCodes ! unat c) < 2 ^ (huffmanCodeLen ! unat c)"
    using c table_codes length_tables by (simp add: list_all2_conv_all_nth)
  then have "int (unat (huffmanCodes ! unat c)) < int (2 ^ (huffmanCodeLen ! unat c))"
    by (simp only: of_nat_power) simp
  then show "unat (huffmanCodes ! unat c) < 2 ^ (huffmanCodeLen ! unat c)"
    by (simp only: of_nat_less_iff)
qed

lemma code_bits_nth: "code_bits c = table_bits ! unat c"
  using unat_byte_less [of c] length_tables by (simp add: code_bits_def table_bits_def)

lemma length_code_bits: "5 \<le> length (code_bits c)" "length (code_bits c) \<le> 30"
  by (simp_all add: code_bits_def code_facts)

lemma code_bits_prefix_free:
  assumes "c \<noteq> d"
  shows "\<not> clash (code_bits c) (code_bits d)"
proof -
  obtain t where t: "bt_insert_all table_bits Empty = Some t"
    using table_prefix_free by blast
  have neq: "unat c \<noteq> unat d"
    using assms by (simp only: word_unat_eq_iff) simp
  have "unat x < length table_bits" for x :: byte
    by (simp add: table_bits_def length_tables unat_byte_less)
  with prefix_free_nth [OF t _ _ neq] show ?thesis
    by (simp add: code_bits_nth)
qed

section \<open>The encoder's output, bit by bit\<close>

lemma or_last_bits:
  fixes t :: byte
  assumes "stream_bits dst = xs @ replicate r False" and "1 \<le> r" "r \<le> 8"
    and "bits_be 8 t = replicate (8 - r) False @ zs"
  shows "stream_bits (orAt (length dst - 1) t dst) = xs @ zs"
proof -
  have len: "length zs = r"
    using arg_cong [OF assms(4), of length] assms(3) by simp
  have "dst \<noteq> []"
    using assms(1,2) by auto
  then obtain ds d where dst: "dst = ds @ [d]"
    by (metis append_butlast_last_id)
  have eq: "stream_bits ds @ bits_be 8 d = xs @ replicate r False"
    using assms(1) by (simp add: dst)
  define ys where "ys = take (8 - r) (bits_be 8 d)"
  have d: "bits_be 8 d = ys @ replicate r False" and ds: "stream_bits ds @ ys = xs"
  proof -
    have "drop (8 - r) (bits_be 8 d) = replicate r False"
    proof -
      have "drop (length xs) (stream_bits ds @ bits_be 8 d) = replicate r False"
        by (simp add: eq)
      moreover have "length xs = 8 * length ds + (8 - r)"
        using arg_cong [OF eq, of length] assms(3) by simp
      ultimately show ?thesis by simp
    qed
    then show "bits_be 8 d = ys @ replicate r False"
      by (metis append_take_drop_id ys_def)
    then show "stream_bits ds @ ys = xs"
      using eq by simp
  qed
  have "bits_be 8 (d OR t) = ys @ zs"
  proof (rule bits_be_eqI)
    show "length (ys @ zs) = 8"
      using assms(3) by (simp add: len ys_def)
    fix k :: nat assume k: "k < 8"
    have ly: "length ys = 8 - r" by (simp add: ys_def)
    have "bit d (8 - Suc k) = (ys @ replicate r False) ! k"
      using k nth_bits_be [of k 8 d] d by simp
    moreover have "bit t (8 - Suc k) = (replicate (8 - r) False @ zs) ! k"
      using k nth_bits_be [of k 8 t] assms(4) by simp
    ultimately show "bit (d OR t) (8 - Suc k) = (ys @ zs) ! k"
      using k len ly by (simp add: bit_or_iff nth_append)
  qed
  then show ?thesis
    using ds by (simp add: dst orAt_def nth_append flip: append_assoc)
qed

lemma bits_be_push:
  fixes code :: u32
  assumes "n < r" "r \<le> 8" and "r = 8 \<or> unat code < 2 ^ n"
  shows "bits_be 8 (ucast (push_bit (r - n) code) :: byte) =
    replicate (8 - r) False @ bits_be n code @ replicate (r - n) False"
  using assms
  by (intro bits_be_eqI)
    (auto simp: bit_simps nth_append nth_bits_be dest: bit_small)

lemma bits_be_shift:
  fixes code :: u32
  assumes "r \<le> n" "r \<le> 8" "n \<le> 32" and "r = 8 \<or> unat code < 2 ^ n"
  shows "bits_be 8 (ucast (drop_bit (n - r) code) :: byte) =
    replicate (8 - r) False @ take r (bits_be n code)"
proof (rule bits_be_eqI)
  fix k :: nat assume k: "k < 8"
  show "bit (ucast (drop_bit (n - r) code) :: byte) (8 - Suc k) =
      (replicate (8 - r) False @ take r (bits_be n code)) ! k"
  proof (cases "k < 8 - r")
    case True
    with k assms bit_small [of code n "n - r + (8 - Suc k)"] show ?thesis
      by (auto simp: bit_simps nth_append add.commute)
  next
    case False
    then have "n - r + (8 - Suc k) = n - Suc (k - (8 - r))"
      using k assms by simp
    with False k assms show ?thesis
      by (auto simp: bit_simps nth_append nth_bits_be add.commute)
  qed
qed (use assms in simp)

lemma appendBitsLoop_bits:
  assumes "stream_bits dst = xs @ replicate r False" and "1 \<le> r" "r \<le> 8" "n \<le> 32" "1 \<le> n"
    and "r = 8 \<or> unat code < 2 ^ n"
    and "appendBitsLoop dst r code n = (dst', r')"
  shows "stream_bits dst' = xs @ bits_be n code @ replicate (r' mod 8) False \<and> 1 \<le> r' \<and> r' \<le> 8"
  using assms
proof (induction dst r code n arbitrary: xs rule: appendBitsLoop.induct)
  case (1 dst r code n)
  show ?case
  proof (cases "r > n")
    case True
    with 1 show ?thesis
      using or_last_bits [OF 1(2,3,4) bits_be_push [OF True 1(4,7)]]
      by (auto simp: appendBitsLoop.simps [of dst r code n])
  next
    case False
    let ?d = "orAt (length dst - 1) (ucast (drop_bit (n - r) code)) dst"
    have d: "stream_bits ?d = xs @ take r (bits_be n code)"
      using False 1(4,5,7) by (intro or_last_bits [OF 1(2,3,4)] bits_be_shift) auto
    show ?thesis
    proof (cases "n - r = 0")
      case True
      with False d 1 show ?thesis
        by (auto simp: appendBitsLoop.simps [of dst r code n])
    next
      case nz: False
      have "stream_bits (?d @ [0]) = (xs @ take r (bits_be n code)) @ replicate 8 False"
      proof -
        have "bits_be 8 (0 :: byte) = replicate 8 False"
          by (intro bits_be_eqI) simp_all
        then show ?thesis using d by simp
      qed
      moreover have "appendBitsLoop (?d @ [0]) 8 code (n - r) = (dst', r')"
        using 1(8) False nz by (simp add: appendBitsLoop.simps [of dst r code n] Let_def)
      ultimately have "stream_bits dst' = (xs @ take r (bits_be n code)) @ bits_be (n - r) code @
          replicate (r' mod 8) False \<and> 1 \<le> r' \<and> r' \<le> 8"
        using 1(1) [OF False refl refl nz] 1(5) nz by auto
      moreover have "take r (bits_be n code) @ bits_be (n - r) code = bits_be n code"
        by (metis append_take_drop_id drop_bits_be)
      ultimately show ?thesis
        by (metis append_assoc)
    qed
  qed
qed

lemma appendByteToHuffmanCode_bits:
  assumes "stream_bits dst = xs @ replicate r False" and "1 \<le> r" "r \<le> 8"
    and "appendByteToHuffmanCode dst r c = (dst', r')"
  shows "stream_bits dst' = xs @ code_bits c @ replicate (r' mod 8) False \<and> 1 \<le> r' \<and> r' \<le> 8"
  using appendBitsLoop_bits [OF assms(1-3), of "huffmanCodeLen ! unat c" "huffmanCodes ! unat c"]
    assms(4) code_facts [of c]
  by (simp add: appendByteToHuffmanCode_def code_bits_def)

lemma bits_be_zero: "bits_be 8 (0 :: byte) = replicate 8 False"
  by (intro bits_be_eqI) simp_all

lemma appendHuffmanLoop_bits:
  assumes "stream_bits dst = xs @ replicate (r mod 8) False" and "1 \<le> r" "r \<le> 8"
    and "appendHuffmanLoop dst r cs = (dst', r')"
  shows "stream_bits dst' = xs @ concat (map code_bits cs) @ replicate (r' mod 8) False
    \<and> 1 \<le> r' \<and> r' \<le> 8"
  using assms
proof (induction cs arbitrary: dst xs r)
  case (Cons c cs)
  let ?d = "if r = 8 then dst @ [0] else dst"
  obtain d1 r1 where step: "appendByteToHuffmanCode ?d r c = (d1, r1)"
    by fastforce
  have "stream_bits ?d = xs @ replicate r False"
    using Cons.prems(1-3) bits_be_zero by (cases "r = 8") auto
  from appendByteToHuffmanCode_bits [OF this Cons.prems(2,3) step]
  have "stream_bits d1 = (xs @ code_bits c) @ replicate (r1 mod 8) False" "1 \<le> r1" "r1 \<le> 8"
    by simp_all
  from Cons.IH [OF this] Cons.prems(4) step show ?case
    by (simp add: Let_def)
qed simp

lemma pad_bits:
  assumes "r < 8"
  shows "bits_be 8 (ucast (drop_bit (30 - r) (0x3fffffff :: u32)) :: byte) =
    replicate (8 - r) False @ replicate r True"
proof -
  have "bits_be 8 (ucast (drop_bit (30 - r) (mask 30 :: u32)) :: byte) =
      replicate (8 - r) False @ replicate r True"
    using assms by (intro bits_be_eqI) (auto simp: bit_simps nth_append)
  then show ?thesis
    by (simp add: mask_eq_exp_minus_1)
qed

text \<open>Fewer than eight padding bits, all of them ones.\<close>

lemma AppendHuffmanString_bits:
  "\<exists>p < 8. stream_bits (AppendHuffmanString dst s) =
     stream_bits dst @ concat (map code_bits (bytes_of s)) @ replicate p True"
proof -
  obtain d r where loop: "appendHuffmanLoop dst 8 (bytes_of s) = (d, r)"
    by fastforce
  have d: "stream_bits d =
        (stream_bits dst @ concat (map code_bits (bytes_of s))) @ replicate (r mod 8) False"
      and r: "1 \<le> r" "r \<le> 8"
    using appendHuffmanLoop_bits [of dst "stream_bits dst" 8, OF _ _ _ loop] by simp_all
  show ?thesis
  proof (cases "r < 8")
    case True
    with r have "stream_bits (AppendHuffmanString dst s) =
        stream_bits dst @ concat (map code_bits (bytes_of s)) @ replicate r True"
      using or_last_bits [OF _ r pad_bits [OF True], of d
          "stream_bits dst @ concat (map code_bits (bytes_of s))"] d
      by (simp add: AppendHuffmanString_def loop Let_def)
    with True show ?thesis by blast
  next
    case False
    with r d have "stream_bits (AppendHuffmanString dst s) =
        stream_bits dst @ concat (map code_bits (bytes_of s)) @ replicate 0 True"
      by (simp add: AppendHuffmanString_def loop)
    then show ?thesis by (metis zero_less_numeral)
  qed
qed

lemma stream_bits_prefix:
  assumes "stream_bits ys = stream_bits xs @ zs"
  shows "\<exists>ys'. ys = xs @ ys' \<and> stream_bits ys' = zs"
  using assms
proof (induction xs arbitrary: ys)
  case (Cons x xs)
  then obtain y ys1 where ys: "ys = y # ys1"
    by (cases ys) (auto dest: arg_cong [of _ _ length])
  with Cons.prems have "bits_be 8 y = bits_be 8 x" "stream_bits ys1 = stream_bits xs @ zs"
    by simp_all
  with Cons.IH bits_be_8_inj [of y x] ys show ?case
    by auto
qed simp

text \<open>The encoder appends, and what it appends depends on the string alone.\<close>

lemma stream_bits_inj: "stream_bits xs = stream_bits ys \<Longrightarrow> xs = ys"
  using stream_bits_prefix [of xs ys "[]"] length_stream_bits
  by (metis append_Nil2 length_0_conv mult_eq_0_iff zero_neq_numeral)

lemma padding_unique:
  assumes "p < 8" "q < 8" and "8 * k = n + p" and "8 * l = n + q"
  shows "p = (q :: nat)"
proof -
  have "k < l + 1" "l < k + 1"
    using assms by linarith+
  then have "k = l" by simp
  with assms show ?thesis by simp
qed

lemma AppendHuffmanString_append:
  "AppendHuffmanString dst s = dst @ AppendHuffmanString [] s"
proof -
  let ?c = "concat (map code_bits (bytes_of s))"
  obtain p where p: "p < 8" and d: "stream_bits (AppendHuffmanString dst s) =
      stream_bits dst @ ?c @ replicate p True"
    using AppendHuffmanString_bits by blast
  obtain q where q: "q < 8" and e: "stream_bits (AppendHuffmanString [] s) = ?c @ replicate q True"
    using AppendHuffmanString_bits [of "[]" s] by auto
  from stream_bits_prefix [OF d] obtain ys where
    ys: "AppendHuffmanString dst s = dst @ ys" and ys_bits: "stream_bits ys = ?c @ replicate p True"
    by blast
  have "8 * length ys = length ?c + p" "8 * length (AppendHuffmanString [] s) = length ?c + q"
    using arg_cong [OF ys_bits, of length] arg_cong [OF e, of length] by simp_all
  then have "p = q" by (rule padding_unique [OF p q])
  with ys ys_bits e stream_bits_inj [of ys "AppendHuffmanString [] s"] show ?thesis
    by simp
qed

lemma HuffmanEncodeLength_sum:
  assumes "n + 30 * length cs < 2 ^ 63" 
  shows "unat (foldl (\<lambda>n c. n + word_of_nat (huffmanCodeLen ! unat c)) (word_of_nat n :: u64) cs) =
    n + length (concat (map code_bits cs)) \<and> length (concat (map code_bits cs)) \<le> 30 * length cs"
  using assms
proof (induction cs arbitrary: n)
  case Nil
  then show ?case by (simp add: unat_of_nat)
next
  case (Cons c cs)
  let ?l = "huffmanCodeLen ! unat c"
  have "n + ?l + 30 * length cs < 2 ^ 63"
    using Cons.prems code_facts(2) [of c] by simp
  from Cons.IH [OF this] code_facts(2) [of c] show ?case
    by (simp add: code_bits_def)
qed

lemma HuffmanEncodeLength_eq:
  assumes "30 * length s < 2 ^ 63"
  shows "unat (HuffmanEncodeLength s) = length (AppendHuffmanString [] s)"
proof -
  let ?c = "concat (map code_bits (bytes_of s))"
  let ?w = "foldl (\<lambda>n c. n + word_of_nat (huffmanCodeLen ! unat c)) 0 (bytes_of s) :: u64"
  obtain q where q: "q < 8" and "stream_bits (AppendHuffmanString [] s) = ?c @ replicate q True"
    using AppendHuffmanString_bits [of "[]" s] by auto
  from arg_cong [OF this(2), of length]
  have len: "8 * length (AppendHuffmanString [] s) = length ?c + q" by simp
  have w: "unat ?w = length ?c" "length ?c \<le> 30 * length s"
    using HuffmanEncodeLength_sum [of 0 "bytes_of s"] assms by simp_all
  then have "unat (?w + 7) = length ?c + 7"
    using assms by (subst unat_add_small) simp_all
  then have "unat (HuffmanEncodeLength s) = (length ?c + 7) div 8"
    by (simp add: HuffmanEncodeLength_def unat_div)
  with len q show ?thesis by linarith
qed

end
