(* ===== verification/Huffman_Tree.thy ===== *)
theory Huffman_Tree
  imports Huffman_Bits
begin

text \<open>
  The decoding tree: \<open>represents W ch\<close> says that the children \<open>ch\<close> of a node hold exactly
  the code words \<open>W\<close> (what is left of each code below that node, with its symbol).
  Inserting a word that clashes with none of them succeeds and adds it, so that
  \<^verbatim>\<open>buildRootHuffmanNode\<close> does not panic and its tree represents the whole table.
\<close>

section \<open>What a node represents\<close>

definition below :: "bool list \<Rightarrow> (bool list \<times> byte) set \<Rightarrow> (bool list \<times> byte) set" where
  "below p W = {(w, s). w \<noteq> [] \<and> (p @ w, s) \<in> W}"

inductive represents :: "(bool list \<times> byte) set \<Rightarrow> (byte \<Rightarrow> node option) \<Rightarrow> bool" where
  node: "(\<And>i.
      (\<exists>w s. (w, s) \<in> W \<and> prefix w (bits_be 8 i) \<and> ch i = Some (Leaf (length w) s)) \<or>
      (\<exists>w s c. (w, s) \<in> W \<and> strict_prefix (bits_be 8 i) w \<and> ch i = Some (Internal c) \<and>
        represents (below (bits_be 8 i) W) c) \<or>
      ch i = None \<and> (\<forall>(w, s) \<in> W. \<not> clash w (bits_be 8 i)))
    \<Longrightarrow> represents W ch"

inductive_cases represents_node: "represents W ch"

lemma below_simps [simp]: "below p {} = {}"
  by (simp add: below_def)

lemma below_append: "below q (below p W) = below (p @ q) W"
  by (auto simp: below_def)

lemma represents_empty: "represents {} newInternalNode"
  by (rule represents.node) (simp add: newInternalNode_def)

lemma represents_cases:
  assumes "represents W ch"
  obtains (Leaf) w s where "(w, s) \<in> W" "prefix w (bits_be 8 i)" "ch i = Some (Leaf (length w) s)"
  | (Internal) w s c where "(w, s) \<in> W" "strict_prefix (bits_be 8 i) w" "ch i = Some (Internal c)"
      "represents (below (bits_be 8 i) W) c"
  | (Nil) "ch i = None" "\<And>w s. (w, s) \<in> W \<Longrightarrow> \<not> clash w (bits_be 8 i)"
proof -
  note cases_i = that
  show thesis
    by (rule represents_node [OF assms]) (use cases_i in \<open>fastforce split: prod.splits\<close>)
qed

section \<open>Insertion\<close>

lemma fill_range_small:
  fixes i :: byte and code :: u32
  assumes "1 \<le> len" "len \<le> 8" and "unat code < 2 ^ len"
  shows "unat (ucast (push_bit (8 - len) code) :: byte) \<le> unat i \<and>
      unat i < unat (ucast (push_bit (8 - len) code) :: byte) + 2 ^ (8 - len) \<longleftrightarrow>
    prefix (bits_be len code) (bits_be 8 i)"
proof -
  have "unat code < 2 ^ 8"
    using assms by (meson less_le_trans one_le_numeral power_increasing)
  then have code: "unat (ucast code :: byte) = unat code"
    by (simp add: unsigned_ucast_eq take_bit_nat_eq_self)
  have "unat code * 2 ^ (8 - len) < 2 ^ len * 2 ^ (8 - len)"
    using assms by simp
  also have "\<dots> = (2 :: nat) ^ 8"
    using assms by (simp flip: power_add)
  finally have lt: "unat code * 2 ^ (8 - len) < 256" by simp
  have "(ucast (push_bit (8 - len) code) :: byte) = push_bit (8 - len) (ucast code)"
    by (rule bit_word_eqI) (auto simp: bit_simps)
  then have start: "unat (ucast (push_bit (8 - len) code) :: byte) = unat code * 2 ^ (8 - len)"
    using lt code by (simp add: unat_push_bit)
  have "prefix (bits_be len code) (bits_be 8 i) \<longleftrightarrow> bits_be len code = take len (bits_be 8 i)"
    using assms by (metis length_bits_be prefix_def append_eq_conv_conj take_is_prefix)
  also have "\<dots> \<longleftrightarrow> bits_be len (ucast code :: byte) = bits_be len (drop_bit (8 - len) i)"
  proof -
    have "bits_be len code = bits_be len (ucast code :: byte)"
      using assms by (intro bits_be_eqI) (auto simp: nth_bits_be bit_simps)
    then show ?thesis
      using assms take_bits_be [of len 8 i] by simp
  qed
  also have "\<dots> \<longleftrightarrow> ucast code = drop_bit (8 - len) i"
  proof
    assume eq: "bits_be len (ucast code :: byte) = bits_be len (drop_bit (8 - len) i)"
    show "ucast code = drop_bit (8 - len) i"
    proof (rule bit_word_eqI)
      fix n assume n: "n < LENGTH(8)"
      show "bit (ucast code :: byte) n = bit (drop_bit (8 - len) i) n"
      proof (cases "n < len")
        case True
        with arg_cong [OF eq, of "\<lambda>xs. xs ! (len - Suc n)"] show ?thesis
          by (simp add: nth_bits_be)
      next
        case False
        with assms bit_small [of code len n] show ?thesis
          by (auto simp: bit_simps dest: bit_imp_le_length)
      qed
    qed
  qed simp
  also have "\<dots> \<longleftrightarrow> unat code = unat i div 2 ^ (8 - len)"
    by (simp add: word_unat_eq_iff unat_drop_bit code)
  also have "\<dots> \<longleftrightarrow> unat code * 2 ^ (8 - len) \<le> unat i \<and>
      unat i < unat code * 2 ^ (8 - len) + 2 ^ (8 - len)"
    using div_times_less_eq_dividend [of "unat i" "2 ^ (8 - len)"]
      dividend_less_div_times [of "2 ^ (8 - len)" "unat i"]
    by (auto intro: div_nat_eqI [symmetric] simp: mult.commute add.commute)
  finally show ?thesis by (simp add: start)
qed

text \<open>\<^verbatim>\<open>uint8(code << shift)\<close> drops the bits of the code that led to this node.\<close>

lemma fill_range:
  fixes i :: byte and code :: u32
  assumes "1 \<le> len" "len \<le> 8"
  shows "unat (ucast (push_bit (8 - len) code) :: byte) \<le> unat i \<and>
      unat i < unat (ucast (push_bit (8 - len) code) :: byte) + 2 ^ (8 - len) \<longleftrightarrow>
    prefix (bits_be len code) (bits_be 8 i)"
proof -
  let ?c = "take_bit len code"
  have "(ucast (push_bit (8 - len) ?c) :: byte) = ucast (push_bit (8 - len) code)"
    using assms by (intro bit_word_eqI) (auto simp: bit_simps)
  moreover have "bits_be len ?c = bits_be len code"
    using assms by (intro bits_be_eqI) (auto simp: bit_simps nth_bits_be)
  moreover have "unat ?c < 2 ^ len"
    by (simp add: unat_take_bit)
  ultimately show ?thesis
    using fill_range_small [OF assms, of ?c i] by simp
qed

lemma same_first_byte:
  assumes "clash (bits_be 8 i @ v) (bits_be 8 j @ u)"
  shows "i = (j :: byte)"
proof -
  have "bits_be 8 i = bits_be 8 j"
    using assms by (auto simp: clash_def prefix_def)
  then show ?thesis
    by (rule bits_be_8_inj)
qed

lemma represents_internal:
  assumes W: "represents W ch" and v: "v \<noteq> []"
    and c: "represents (insert (v, s) (below (bits_be 8 i) W)) c"
  shows "represents (insert (bits_be 8 i @ v, s) W) (ch(i := Some (Internal c)))"
    (is "represents ?W ?ch")
proof (rule represents.node)
  fix j
  show "(\<exists>w t. (w, t) \<in> ?W \<and> prefix w (bits_be 8 j) \<and> ?ch j = Some (Leaf (length w) t)) \<or>
      (\<exists>w t c'. (w, t) \<in> ?W \<and> strict_prefix (bits_be 8 j) w \<and> ?ch j = Some (Internal c') \<and>
        represents (below (bits_be 8 j) ?W) c') \<or>
      ?ch j = None \<and> (\<forall>(w, t) \<in> ?W. \<not> clash w (bits_be 8 j))"
  proof (cases "j = i")
    case True
    have "below (bits_be 8 i) ?W = insert (v, s) (below (bits_be 8 i) W)"
      using v by (auto simp: below_def)
    moreover have "strict_prefix (bits_be 8 i) (bits_be 8 i @ v)"
      using v by (simp add: strict_prefix_def)
    ultimately show ?thesis
      using True c by auto
  next
    case False
    have "below (bits_be 8 j) ?W = below (bits_be 8 j) W" "\<not> clash (bits_be 8 i @ v) (bits_be 8 j)"
      using False same_first_byte [of i v j] same_first_byte [of i v j "[]"]
      by (auto simp: below_def clash_def)
    with False show ?thesis
      by (cases rule: represents_cases [OF W, of j]) auto
  qed
qed

lemma represents_fill:
  assumes W: "represents W ch" and len: "length v \<le> 8"
  shows "represents (insert (v, s) W)
    (\<lambda>i. if prefix v (bits_be 8 i) then Some (Leaf (length v) s) else ch i)"
    (is "represents ?W ?ch")
proof (rule represents.node)
  fix i
  show "(\<exists>w t. (w, t) \<in> ?W \<and> prefix w (bits_be 8 i) \<and> ?ch i = Some (Leaf (length w) t)) \<or>
      (\<exists>w t c. (w, t) \<in> ?W \<and> strict_prefix (bits_be 8 i) w \<and> ?ch i = Some (Internal c) \<and>
        represents (below (bits_be 8 i) ?W) c) \<or>
      ?ch i = None \<and> (\<forall>(w, t) \<in> ?W. \<not> clash w (bits_be 8 i))"
  proof (cases "prefix v (bits_be 8 i)")
    case True
    then show ?thesis
      by (intro disjI1 exI [of _ v] exI [of _ s]) simp
  next
    case no: False
    have nc: "\<not> clash v (bits_be 8 i)"
      using no len by (metis clash_def length_bits_be prefix_length_prefix prefix_order.eq_iff)
    have "below (bits_be 8 i) ?W = below (bits_be 8 i) W"
      using nc by (auto simp: below_def clash_def)
    with no nc show ?thesis
      by (cases rule: represents_cases [OF W, of i]) auto
  qed
qed

lemma insertCode_represents:
  assumes "represents W ch" and "1 \<le> len" "len \<le> 32"
    and "\<And>w t. (w, t) \<in> W \<Longrightarrow> \<not> clash w (bits_be len code)"
  shows "\<exists>ch'. insertCode ch s code len = Some ch' \<and> represents (insert (bits_be len code, s) W) ch'"
  using assms
proof (induction ch s code len arbitrary: W rule: insertCode.induct)
  case (1 ch s code len)
  show ?case
  proof (cases "len > 8")
    case True
    define i :: byte where "i = ucast (drop_bit (len - 8) code)"
    let ?v = "bits_be (len - 8) code"
    have "bits_be 8 i = bits_be 8 (drop_bit (len - 8) code)"
      by (intro bits_be_eqI) (auto simp: i_def nth_bits_be bit_simps)
    then have w: "bits_be len code = bits_be 8 i @ ?v"
      using bits_be_split [of 8 "len - 8" code] True by simp
    have v: "?v \<noteq> []" "1 \<le> len - 8" "len - 8 \<le> 32"
      using True 1(5) by (auto simp flip: length_0_conv)
    have nc: "\<not> clash u ?v" if "(u, t) \<in> below (bits_be 8 i) W" for u t
      using that 1(6) [of "bits_be 8 i @ u" t] by (auto simp: below_def w clash_def)
    note step = represents_internal [OF 1(3) v(1)]
    from 1(3) show ?thesis
    proof (cases rule: represents_cases [where i = i])
      case (Leaf u t)
      with 1(6) [of u t] show ?thesis
        by (auto simp: w clash_def)
    next
      case (Internal u t c0)
      from 1(2) [OF True refl i_def Internal(3) refl Internal(4) v(2,3)] nc obtain c where
        "insertCode c0 s code (len - 8) = Some c"
        "represents (insert (?v, s) (below (bits_be 8 i) W)) c" by blast
      with step [of s i c] Internal(3) True show ?thesis
        by (simp add: insertCode.simps [of ch s code len] Let_def i_def w)
    next
      case Nil
      then have empty: "below (bits_be 8 i) W = {}"
        by (fastforce simp: below_def clash_def)
      from 1(1) [OF True refl i_def Nil(1) represents_empty v(2,3)] obtain c where
        "insertCode newInternalNode s code (len - 8) = Some c"
        "represents (insert (?v, s) {}) c" by blast
      with step [of s i c] Nil(1) True empty show ?thesis
        by (simp add: insertCode.simps [of ch s code len] Let_def i_def w)
    qed
  next
    case False
    then show ?thesis
      using 1(4) fill_range [of len code] represents_fill [OF 1(3), of "bits_be len code" s, unfolded length_bits_be]
      by (simp add: insertCode.simps [of ch s code len] Let_def)
  qed
qed

section \<open>The whole table\<close>

definition codes :: "(bool list \<times> byte) set" where
  "codes = range (\<lambda>c. (code_bits c, c))"

lemma insertCodes_represents:
  assumes "represents ((\<lambda>j. (code_bits (word_of_nat j), word_of_nat j)) ` {..<k}) ch"
    and "k \<le> 256"
  shows "\<exists>ch'. insertCodes ch k (drop k (zip huffmanCodes huffmanCodeLen)) = Some ch' \<and>
    represents ((\<lambda>j. (code_bits (word_of_nat j), word_of_nat j)) ` {..<256}) ch'"
  using assms
proof (induction "256 - k" arbitrary: k ch)
  case 0
  then show ?case by (simp add: length_tables)
next
  case (Suc n)
  then have k: "k < 256" by simp
  let ?s = "word_of_nat k :: byte"
  have s: "unat ?s = k"
    using k by (simp add: unat_of_nat)
  have word: "bits_be (huffmanCodeLen ! k) (huffmanCodes ! k) = code_bits ?s"
    using s by (simp add: code_bits_def)
  have len: "1 \<le> huffmanCodeLen ! k" "huffmanCodeLen ! k \<le> 32"
    using code_facts [of ?s] s by simp_all
  have nc: "\<not> clash w (code_bits ?s)"
    if "(w, t) \<in> (\<lambda>j. (code_bits (word_of_nat j), word_of_nat j)) ` {..<k}" for w t
  proof -
    from that obtain j where j: "j < k" and w: "w = code_bits (word_of_nat j)" by auto
    have "(word_of_nat j :: byte) \<noteq> ?s"
    proof
      assume "(word_of_nat j :: byte) = ?s"
      from arg_cong [OF this, of unat] j k show False
        by (simp add: unat_of_nat)
    qed
    from code_bits_prefix_free [OF this] w show ?thesis by simp
  qed
  obtain ch1 where ins: "insertCode ch ?s (huffmanCodes ! k) (huffmanCodeLen ! k) = Some ch1"
    and "represents (insert (code_bits ?s, ?s)
      ((\<lambda>j. (code_bits (word_of_nat j), word_of_nat j)) ` {..<k})) ch1"
    using insertCode_represents [OF Suc.prems(1) len, of "huffmanCodes ! k" ?s] nc word by auto
  then have "represents ((\<lambda>j. (code_bits (word_of_nat j), word_of_nat j)) ` {..<Suc k}) ch1"
    by (simp add: lessThan_Suc)
  from Suc.hyps(1) [OF _ this] Suc.hyps(2) k ins show ?case
    by (simp add: length_tables flip: Cons_nth_drop_Suc)
qed

lemma getRootHuffmanNode_represents:
  "buildRootHuffmanNode = Some getRootHuffmanNode \<and> represents codes getRootHuffmanNode"
proof -
  have "codes = (\<lambda>j. (code_bits (word_of_nat j), word_of_nat j)) ` {..<256}"
  proof -
    have "(code_bits c, c) \<in> (\<lambda>j. (code_bits (word_of_nat j), word_of_nat j)) ` {..<256}"
      for c :: byte
      using unat_byte_less [of c] by (intro image_eqI [of _ _ "unat c"]) simp_all
    then show ?thesis by (auto simp: codes_def)
  qed
  moreover obtain ch where "insertCodes newInternalNode 0 (zip huffmanCodes huffmanCodeLen) = Some ch"
    and "represents ((\<lambda>j. (code_bits (word_of_nat j), word_of_nat j)) ` {..<256}) ch"
    using insertCodes_represents [of 0 newInternalNode] represents_empty by auto
  ultimately show ?thesis
    by (simp add: getRootHuffmanNode_def buildRootHuffmanNode_def length_tables)
qed

end
