(* ===== verification/Huffman_Proofs.thy ===== *)
theory Huffman_Proofs
  imports Huffman_Tree
begin

text \<open>
  Huffman decoding. A byte sequence is an encoding of a string when its bits are the
  string's codes followed by fewer than eight ones. The decoder returns on every input, it
  accepts exactly the encodings, and it returns the encoded string.
\<close>

section \<open>Encodings\<close>

definition encodes :: "bool list \<Rightarrow> bytes \<Rightarrow> bool" where
  "encodes B s \<longleftrightarrow> (\<exists>p < 8. B = concat (map code_bits s) @ replicate p True)"

lemma table_not_ones: "list_all (\<lambda>w. length w > 7 \<or> \<not> list_all id w) table_bits"
  by code_simp

lemma table_padding:
  "list_all (\<lambda>k. list_ex (\<lambda>w. prefix w (replicate k True @ replicate (8 - k) False) \<or>
     prefix (replicate k True @ replicate (8 - k) False) w) table_bits) [1..<8]"
  by code_simp

lemma code_bits_mem: "code_bits c \<in> set table_bits"
  unfolding code_bits_nth by (rule nth_mem) (simp add: table_bits_def length_tables unat_byte_less)

lemma code_bits_nonempty: "code_bits c \<noteq> []"
  using length_code_bits(1) [of c] by auto

lemma code_not_padding:
  assumes "p < 8"
  shows "\<not> prefix (code_bits c) (replicate p True)"
proof
  assume pre: "prefix (code_bits c) (replicate p True)"
  then have "length (code_bits c) \<le> 7"
    using assms prefix_length_le by fastforce
  with table_not_ones code_bits_mem [of c] have "\<not> list_all id (code_bits c)"
    by (fastforce simp: list_all_iff)
  with pre show False
    using set_mono_prefix [OF pre] by (auto simp: list_all_iff split: if_splits)
qed

lemma padding_has_code:
  assumes "1 \<le> k" "k < 8"
  shows "\<exists>c. clash (code_bits c) (replicate k True @ replicate (8 - k) False)"
proof -
  obtain w where w: "w \<in> set table_bits" "clash w (replicate k True @ replicate (8 - k) False)"
    using table_padding assms unfolding list_all_iff list_ex_iff clash_def
    by (metis One_nat_def atLeastLessThan_iff set_upt)
  then obtain j where "j < 256" "w = table_bits ! j"
    by (auto simp: in_set_conv_nth table_bits_def length_tables)
  then have "w = code_bits (word_of_nat j)"
    by (simp add: code_bits_nth unat_of_nat)
  with w show ?thesis by blast
qed

lemma code_bits_inj:
  assumes "clash (code_bits c) (code_bits d)"
  shows "c = d"
  using assms code_bits_prefix_free by blast

lemma clash_append: "prefix v xs \<Longrightarrow> prefix w xs \<Longrightarrow> clash v w"
  by (metis clash_def prefix_same_cases)

text \<open>What has been decoded so far is the beginning of whatever is encoded.\<close>

lemma encodes_split:
  assumes "encodes (concat (map code_bits b) @ X) s"
  shows "\<exists>s2. s = b @ s2 \<and> encodes X s2"
  using assms
proof (induction b arbitrary: s)
  case (Cons c b)
  then obtain p where p: "p < 8"
    and eq: "code_bits c @ concat (map code_bits b) @ X = concat (map code_bits s) @ replicate p True"
    by (auto simp: encodes_def)
  show ?case
  proof (cases s)
    case Nil
    with eq have "prefix (code_bits c) (replicate p True)"
      by (metis append_Nil concat.simps(1) list.map(1) prefixI)
    with code_not_padding [OF p] show ?thesis by blast
  next
    case (Cons d s')
    with eq have pre: "prefix (code_bits c) (code_bits d @ concat (map code_bits s') @ replicate p True)"
      by (metis append_assoc concat.simps(2) list.simps(9) prefixI)
    have "c = d"
      by (rule code_bits_inj) (metis pre clash_append prefixI)
    with eq Cons p have "encodes (concat (map code_bits b) @ X) s'"
      by (auto simp: encodes_def)
    from Cons.IH [OF this] Cons \<open>c = d\<close> show ?thesis by auto
  qed
qed simp

lemma encodes_Cons:
  assumes "encodes X s" and "length X > 7"
  shows "\<exists>c. prefix (code_bits c) X"
proof (cases s)
  case Nil
  with assms show ?thesis by (auto simp: encodes_def)
next
  case (Cons c s')
  with assms show ?thesis by (auto simp: encodes_def intro!: exI [of _ c])
qed

section \<open>The state of the decoder\<close>

text \<open>
  After the bits \<open>B\<close>: the codes of the bytes in the buffer, the complete bytes \<open>p\<close> walked
  from the root to the current node, and the low \<^verbatim>\<open>cbits\<close> bits of \<^verbatim>\<open>cur\<close>.
\<close>

definition partial :: "bool list \<Rightarrow> bool" where
  "partial p \<longleftrightarrow> p = [] \<or> (\<exists>c. strict_prefix p (code_bits c))"

definition progress :: "bool list \<Rightarrow> bool list \<Rightarrow> hstate \<Rightarrow> bool" where
  "progress B p st \<longleftrightarrow>
     represents (below p codes) (hs_node st) \<and> partial p \<and> 8 dvd length p \<and>
     B = concat (map code_bits (hs_buf st)) @ p @ bits_be (hs_cbits st) (hs_cur st) \<and>
     hs_sbits st = length p + hs_cbits st"

definition within :: "nat \<Rightarrow> hstate \<Rightarrow> bool" where
  "within maxLen st \<longleftrightarrow> maxLen = 0 \<or> length (hs_buf st) \<le> maxLen"

text \<open>Why an error is right, when \<open>P\<close> are the strings the input may still encode.\<close>

definition rejects :: "nat \<Rightarrow> (bytes \<Rightarrow> bool) \<Rightarrow> hpack_error \<Rightarrow> bool" where
  "rejects maxLen P e \<longleftrightarrow>
     e = ErrInvalidHuffman \<and> (\<forall>s. \<not> P s) \<or>
     e = ErrStringLength \<and> maxLen \<noteq> 0 \<and> (\<forall>s. P s \<longrightarrow> maxLen < length s)"

lemma in_codes: "(w, s) \<in> below p codes \<longleftrightarrow> w \<noteq> [] \<and> code_bits s = p @ w"
  by (auto simp: below_def codes_def image_iff)

lemma partial_code:
  assumes "partial p" and "prefix (code_bits d) (p @ y)"
  obtains w where "w \<noteq> []" "code_bits d = p @ w" "prefix w y"
proof -
  have "\<not> prefix (code_bits d) p"
  proof
    assume pre: "prefix (code_bits d) p"
    with code_bits_nonempty [of d] assms(1) obtain c where c: "strict_prefix p (code_bits c)"
      by (auto simp: partial_def)
    with pre have "d = c"
      by (intro code_bits_inj) (auto simp: clash_def strict_prefix_def intro: prefix_order.trans)
    with pre c show False
      by (meson prefix_order.leD)
  qed
  with assms(2) obtain w where "code_bits d = p @ w" "prefix w y"
    by (auto simp: prefix_append)
  with \<open>\<not> prefix (code_bits d) p\<close> that show thesis
    by fastforce
qed

lemma node_cases:
  assumes "represents (below p codes) ch" and "partial p"
  obtains (Leaf) w s where "code_bits s = p @ w" "w \<noteq> []" "prefix w (bits_be 8 i)"
      "ch i = Some (Leaf (length w) s)"
  | (Internal) c where "ch i = Some (Internal c)" "partial (p @ bits_be 8 i)"
      "represents (below (p @ bits_be 8 i) codes) c"
      "\<And>d. \<not> prefix (code_bits d) (p @ bits_be 8 i)"
  | (Nil) "ch i = None" "\<And>d. \<not> clash (code_bits d) (p @ bits_be 8 i)"
  using assms(1)
proof (cases rule: represents_cases [where i = i])
  case (Leaf w s)
  with that(1) show thesis by (auto simp: in_codes)
next
  case (Internal w s c)
  then have s: "code_bits s = p @ w" and pre: "strict_prefix (p @ bits_be 8 i) (code_bits s)"
    by (auto simp: in_codes strict_prefix_def)
  have "\<not> prefix (code_bits d) (p @ bits_be 8 i)" for d
  proof
    assume d: "prefix (code_bits d) (p @ bits_be 8 i)"
    with pre have "d = s"
      by (intro code_bits_inj) (auto simp: clash_def strict_prefix_def intro: prefix_order.trans)
    with d pre show False
      by (meson prefix_order.leD)
  qed
  with that(2) Internal pre show thesis
    by (auto simp: below_append partial_def)
next
  case Nil
  have "\<not> clash (code_bits d) (p @ bits_be 8 i)" for d
  proof
    assume "clash (code_bits d) (p @ bits_be 8 i)"
    then consider "prefix (code_bits d) (p @ bits_be 8 i)" | "prefix (p @ bits_be 8 i) (code_bits d)"
      by (auto simp: clash_def)
    then show False
    proof cases
      case 1
      then obtain w where "w \<noteq> []" "code_bits d = p @ w" "prefix w (bits_be 8 i)"
        by (rule partial_code [OF assms(2)])
      with Nil(2) [of w d] show False
        by (auto simp: in_codes clash_def)
    next
      case 2
      then obtain w where w: "code_bits d = p @ bits_be 8 i @ w"
        by (auto simp: prefix_def)
      moreover have "bits_be 8 i \<noteq> []"
        by (simp flip: length_0_conv)
      ultimately have "(bits_be 8 i @ w, d) \<in> below p codes"
        by (simp add: in_codes)
      from Nil(2) [OF this] show False
        by (simp add: clash_def)
    qed
  qed
  with that(3) Nil show thesis by blast
qed

section \<open>The loops\<close>

lemma bits_be_ucast: "bits_be 8 (ucast w :: byte) = bits_be 8 w"
  by (intro bits_be_eqI) (auto simp: nth_bits_be bit_simps)

lemma top_byte:
  fixes cur :: u64
  assumes "8 \<le> n" "n \<le> 64"
  shows "bits_be n cur = bits_be 8 (ucast (drop_bit (n - 8) cur) :: byte) @ bits_be (n - 8) cur"
  using bits_be_split [of 8 "n - 8" cur] assms by (simp add: bits_be_ucast)

lemma drop_code:
  assumes "prefix w (bits_be n cur)"
  shows "bits_be n cur = w @ bits_be (n - length w) cur"
  using assms drop_bits_be [of "length w" n cur] by (auto simp: prefix_def)

text \<open>One symbol decoded: the state moves to the root.\<close>

lemma progress_leaf:
  assumes "progress B p st" and "code_bits s = p @ w" and "prefix w (bits_be (hs_cbits st) (hs_cur st))"
    and "represents codes root"
  shows "progress B [] (st\<lparr>hs_buf := hs_buf st @ [s], hs_cbits := hs_cbits st - length w,
    hs_node := root, hs_sbits := hs_cbits st - length w\<rparr>)"
proof -
  have "below [] codes = codes"
    by (auto simp: below_def codes_def code_bits_nonempty)
  with assms drop_code [OF assms(3)] show ?thesis
    by (simp add: progress_def partial_def)
qed

lemma progress_encodes:
  assumes "progress B p st" and "encodes (B @ x) s"
  obtains s2 where "s = hs_buf st @ s2" "encodes (p @ bits_be (hs_cbits st) (hs_cur st) @ x) s2"
  using assms encodes_split [of "hs_buf st" "p @ bits_be (hs_cbits st) (hs_cur st) @ x" s]
  by (auto simp: progress_def)

text \<open>A code is complete but the buffer is full: whatever is encoded is longer.\<close>

lemma reject_long:
  assumes "progress B p st" and "code_bits c = p @ w" and "prefix w (bits_be (hs_cbits st) (hs_cur st) @ x)"
    and "tooLong maxLen st"
  shows "rejects maxLen (encodes (B @ x)) ErrStringLength"
proof -
  have "maxLen < length s" if s: "encodes (B @ x) s" for s
  proof -
    obtain s2 where s2: "s = hs_buf st @ s2" "encodes (p @ bits_be (hs_cbits st) (hs_cur st) @ x) s2"
      using progress_encodes [OF assms(1) s] by blast
    have "s2 \<noteq> []"
    proof
      assume "s2 = []"
      with s2 obtain q where q: "q < 8" "p @ bits_be (hs_cbits st) (hs_cur st) @ x = replicate q True"
        by (auto simp: encodes_def)
      have "prefix (code_bits c) (replicate q True)"
        using assms(2,3) by (simp flip: q(2))
      with code_not_padding [OF q(1)] show False by blast
    qed
    with s2 assms(4) show ?thesis by (auto simp: tooLong_def)
  qed
  with assms(4) show ?thesis by (auto simp: rejects_def tooLong_def)
qed

lemma decodeInner_spec:
  assumes "progress B p st" and "hs_cbits st \<le> 64" and "within maxLen st"
    and root: "represents codes root"
  shows "\<exists>r. decodeInner root maxLen st = Some r \<and>
    (case r of Inl e \<Rightarrow> \<forall>x. rejects maxLen (encodes (B @ x)) e
     | Inr st' \<Rightarrow> (\<exists>p'. progress B p' st') \<and> hs_cbits st' < 8 \<and> within maxLen st')"
  using assms(1-3)
proof (induction "hs_cbits st" arbitrary: st p rule: less_induct)
  case less
  show ?case
  proof (cases "hs_cbits st \<ge> 8")
    case False
    with less.prems show ?thesis
      by (auto simp: decodeInner.simps [of root maxLen st])
  next
    case True
    define i :: byte where "i = ucast (drop_bit (hs_cbits st - 8) (hs_cur st))"
    note bits = top_byte [OF True less.prems(2), of "hs_cur st", folded i_def]
    have rep: "represents (below p codes) (hs_node st)" "partial p"
      using less.prems(1) by (simp_all add: progress_def)
    from rep show ?thesis
    proof (cases rule: node_cases [where i = i])
      case (Leaf w s)
      have pre: "prefix w (bits_be (hs_cbits st) (hs_cur st))"
        using Leaf(3) by (simp add: bits)
      show ?thesis
      proof (cases "tooLong maxLen st")
        case long: True
        have "rejects maxLen (encodes (B @ x)) ErrStringLength" for x
          using reject_long [OF less.prems(1) Leaf(1) _ long, of x] pre by (simp add: prefix_prefix)
        with Leaf(4) True long show ?thesis
          by (simp add: decodeInner.simps [of root maxLen st] i_def)
      next
        case short: False
        let ?st = "st\<lparr>hs_buf := hs_buf st @ [s], hs_cbits := hs_cbits st - length w,
          hs_node := root, hs_sbits := hs_cbits st - length w\<rparr>"
        have "within maxLen ?st"
          using short less.prems(3) by (auto simp: within_def tooLong_def)
        moreover have "hs_cbits ?st < hs_cbits st" "hs_cbits ?st \<le> 64"
          using Leaf(2) True less.prems(2) by auto
        ultimately show ?thesis
          using less.hyps [of ?st "[]"] progress_leaf [OF less.prems(1) Leaf(1) pre root]
            Leaf(4) True short
          by (simp add: decodeInner.simps [of root maxLen st] i_def)
      qed
    next
      case (Internal c)
      let ?st = "st\<lparr>hs_node := c, hs_cbits := hs_cbits st - 8\<rparr>"
      have "progress B (p @ bits_be 8 i) ?st"
        using less.prems(1) Internal(2,3) True by (simp add: progress_def bits)
      moreover have "hs_cbits ?st < hs_cbits st" "hs_cbits ?st \<le> 64" "within maxLen ?st"
        using True less.prems(2,3) by (auto simp: within_def)
      ultimately show ?thesis
        using less.hyps [of ?st "p @ bits_be 8 i"] Internal(1) True
        by (simp add: decodeInner.simps [of root maxLen st] i_def)
    next
      case Nil
      have "\<not> encodes (B @ x) s" for x s
      proof
        assume "encodes (B @ x) s"
        then obtain s2 where "encodes (p @ bits_be (hs_cbits st) (hs_cur st) @ x) s2"
          using progress_encodes [OF less.prems(1)] by blast
        then obtain d where d: "prefix (code_bits d) ((p @ bits_be 8 i) @ bits_be (hs_cbits st - 8) (hs_cur st) @ x)"
          using encodes_Cons by (fastforce simp: bits)
        have "clash (code_bits d) (p @ bits_be 8 i)"
          by (rule clash_append [OF d]) simp
        with Nil(2) show False by blast
      qed
      with Nil(1) True show ?thesis
        by (simp add: decodeInner.simps [of root maxLen st] i_def rejects_def)
    qed
  qed
qed

lemma decodeOuter_spec:
  assumes "progress B p st" and "hs_cbits st < 8" and "within maxLen st"
    and root: "represents codes root"
  shows "\<exists>r. decodeOuter root maxLen st v = Some r \<and>
    (case r of Inl e \<Rightarrow> rejects maxLen (encodes (B @ stream_bits v)) e
     | Inr st' \<Rightarrow> (\<exists>p'. progress (B @ stream_bits v) p' st') \<and> hs_cbits st' < 8 \<and> within maxLen st')"
  using assms(1-3)
proof (induction v arbitrary: B p st)
  case Nil
  then show ?case by auto
next
  case (Cons b v)
  let ?st = "st\<lparr>hs_cur := push_bit 8 (hs_cur st) OR ucast b, hs_cbits := hs_cbits st + 8,
    hs_sbits := hs_sbits st + 8\<rparr>"
  have "bits_be (hs_cbits st + 8) (push_bit 8 (hs_cur st) OR ucast b) =
      bits_be (hs_cbits st) (hs_cur st) @ bits_be 8 b"
    using Cons.prems(2)
    by (intro bits_be_eqI) (auto simp: nth_append nth_bits_be bit_simps dest: bit_imp_le_length)
  then have "progress (B @ bits_be 8 b) p ?st"
    using Cons.prems(1) by (simp add: progress_def)
  from decodeInner_spec [OF this _ _ root, of maxLen] Cons.prems(2,3) obtain r where
    r: "decodeInner root maxLen ?st = Some r" and
    spec: "case r of Inl e \<Rightarrow> \<forall>x. rejects maxLen (encodes ((B @ bits_be 8 b) @ x)) e
      | Inr st' \<Rightarrow> (\<exists>p'. progress (B @ bits_be 8 b) p' st') \<and> hs_cbits st' < 8 \<and> within maxLen st'"
    by (auto simp: within_def)
  show ?case
  proof (cases r)
    case (Inl e)
    with r spec show ?thesis by simp
  next
    case (Inr st')
    with spec obtain p' where "progress (B @ bits_be 8 b) p' st'" "hs_cbits st' < 8" "within maxLen st'"
      by auto
    from Cons.IH [OF this] r Inr show ?thesis
      by (simp cong: sum.case_cong)
  qed
qed

lemma low_byte:
  fixes cur :: u64
  assumes "n \<le> 8"
  shows "bits_be 8 (ucast (push_bit (8 - n) cur) :: byte) = bits_be n cur @ replicate (8 - n) False"
  using assms by (intro bits_be_eqI) (auto simp: nth_append nth_bits_be bit_simps)

definition exhausted :: "bool list \<Rightarrow> hstate \<Rightarrow> bool" where
  "exhausted p st \<longleftrightarrow> (\<forall>d. \<not> prefix (code_bits d) (p @ bits_be (hs_cbits st) (hs_cur st)))"

lemma ones_of_short:
  assumes "encodes X []" and "X = p @ x" and "8 dvd length p"
  shows "p = [] \<and> x = replicate (length x) True"
proof -
  obtain q where q: "q < 8" "p @ x = replicate q True"
    using assms(1,2) by (auto simp: encodes_def)
  then have "length p < 8"
    by (metis add_lessD1 length_append length_replicate)
  with assms(3) have "p = []" by (auto dest: dvd_imp_le)
  with q(2) show ?thesis by (metis append_Nil length_replicate)
qed

text \<open>No child for what is left, even with zeros for the missing bits: not an encoding.\<close>

lemma reject_tail:
  assumes st: "progress B p st" and c: "0 < hs_cbits st" "hs_cbits st < 8"
    and none: "\<And>d. \<not> clash (code_bits d) (p @ bits_be (hs_cbits st) (hs_cur st) @
      replicate (8 - hs_cbits st) False)"
  shows "\<not> encodes B s"
proof
  let ?x = "bits_be (hs_cbits st) (hs_cur st)"
  assume "encodes B s"
  then obtain s2 where s2: "encodes (p @ ?x) s2"
    using progress_encodes [OF st, of "[]"] by auto
  show False
  proof (cases s2)
    case Nil
    have "p = [] \<and> ?x = replicate (hs_cbits st) True"
      using ones_of_short [of "p @ ?x" p ?x] s2 st Nil by (simp add: progress_def)
    with padding_has_code [of "hs_cbits st"] c none show False by auto
  next
    case (Cons d s3)
    with s2 have "prefix (code_bits d) (p @ ?x)"
      by (auto simp: encodes_def)
    then have "clash (code_bits d) ((p @ ?x) @ replicate (8 - hs_cbits st) False)"
      unfolding clash_def using prefix_prefix by blast
    with none [of d] show False by simp
  qed
qed

lemma exhausted_leaf:
  assumes "progress B p st" "code_bits s = p @ w" "w \<noteq> []"
    and "prefix w (bits_be (hs_cbits st) (hs_cur st) @ z)" "length w > hs_cbits st"
  shows "exhausted p st"
  unfolding exhausted_def
proof (intro allI notI)
  fix d
  let ?x = "bits_be (hs_cbits st) (hs_cur st)"
  assume d: "prefix (code_bits d) (p @ ?x)"
  then have "prefix (code_bits d) ((p @ ?x) @ z)" "prefix (code_bits s) ((p @ ?x) @ z)"
    using assms(2,4) prefix_prefix by (blast, simp)
  then have "d = s"
    using clash_append code_bits_inj by blast
  with d assms(2,5) show False
    using prefix_length_le by fastforce
qed

lemma exhausted_internal:
  assumes "\<And>d. \<not> prefix (code_bits d) (p @ bits_be (hs_cbits st) (hs_cur st) @ z)"
  shows "exhausted p st"
  unfolding exhausted_def using assms prefix_prefix
  by (metis append_assoc)

lemma exhausted_empty:
  assumes "progress B p st" and "hs_cbits st = 0"
  shows "exhausted p st"
  using assms partial_code [of p _ "[]"] by (fastforce simp: progress_def exhausted_def)

lemma decodeTail_spec:
  assumes "progress B p st" and "hs_cbits st < 8" and "within maxLen st"
    and root: "represents codes root"
  shows "\<exists>r. decodeTail root maxLen st = Some r \<and>
    (case r of Inl e \<Rightarrow> rejects maxLen (encodes B) e
     | Inr st' \<Rightarrow> \<exists>p'. progress B p' st' \<and> hs_cbits st' < 8 \<and> within maxLen st' \<and> exhausted p' st')"
  using assms(1-3)
proof (induction "hs_cbits st" arbitrary: st p rule: less_induct)
  case less
  show ?case
  proof (cases "hs_cbits st > 0")
    case False
    with less.prems exhausted_empty show ?thesis
      by (auto simp: decodeTail.simps [of root maxLen st])
  next
    case True
    define i :: byte where "i = ucast (push_bit (8 - hs_cbits st) (hs_cur st))"
    let ?x = "bits_be (hs_cbits st) (hs_cur st)"
    have bits: "bits_be 8 i = ?x @ replicate (8 - hs_cbits st) False"
      using low_byte less.prems(2) by (simp add: i_def)
    have rep: "represents (below p codes) (hs_node st)" "partial p"
      using less.prems(1) by (simp_all add: progress_def)
    from rep show ?thesis
    proof (cases rule: node_cases [where i = i])
      case (Leaf w s)
      show ?thesis
      proof (cases "length w > hs_cbits st")
        case long: True
        have "exhausted p st"
          by (rule exhausted_leaf [OF less.prems(1) Leaf(1,2) _ long]) (use Leaf(3) bits in simp)
        with Leaf(4) True long less.prems show ?thesis
          by (auto simp: decodeTail.simps [of root maxLen st] i_def)
      next
        case False
        have pre: "prefix w ?x"
          using Leaf(3) False by (auto simp: bits prefix_append)
        show ?thesis
        proof (cases "tooLong maxLen st")
          case long: True
          have "rejects maxLen (encodes B) ErrStringLength"
            using reject_long [OF less.prems(1) Leaf(1) _ long, of "[]"] pre by simp
          with Leaf(4) True False long show ?thesis
            by (simp add: decodeTail.simps [of root maxLen st] i_def)
        next
          case short: False
          let ?st = "st\<lparr>hs_buf := hs_buf st @ [s], hs_cbits := hs_cbits st - length w,
            hs_node := root, hs_sbits := hs_cbits st - length w\<rparr>"
          have "within maxLen ?st" "hs_cbits ?st < hs_cbits st" "hs_cbits ?st < 8"
            using short less.prems(2,3) Leaf(2) True by (auto simp: within_def tooLong_def)
          then show ?thesis
            using less.hyps [of ?st "[]"] progress_leaf [OF less.prems(1) Leaf(1) pre root]
              Leaf(4) True False short
            by (simp add: decodeTail.simps [of root maxLen st] i_def)
        qed
      qed
    next
      case (Internal c)
      have "exhausted p st"
        by (rule exhausted_internal) (use Internal(4) bits in simp)
      with Internal(1) True less.prems show ?thesis
        by (auto simp: decodeTail.simps [of root maxLen st] i_def)
    next
      case Nil
      have "\<not> encodes B s" for s
        by (rule reject_tail [OF less.prems(1) True less.prems(2)]) (use Nil(2) bits in simp)
      with Nil(1) True show ?thesis
        by (simp add: decodeTail.simps [of root maxLen st] i_def rejects_def)
    qed
  qed
qed

section \<open>The whole decoder\<close>

lemma list_all_id_replicate: "list_all id xs \<longleftrightarrow> xs = replicate (length xs) True"
  by (induction xs) auto

lemma mask_ones_iff:
  fixes cur :: "'a::len word"
  assumes "n \<le> LENGTH('a)"
  shows "cur AND mask n = mask n \<longleftrightarrow> bits_be n cur = replicate n True"
proof -
  have "cur AND mask n = mask n \<longleftrightarrow> (\<forall>k < n. bit cur k)"
    using assms by (auto simp: bit_eq_iff bit_simps dest: order_less_le_trans)
  also have "\<dots> \<longleftrightarrow> list_all id (bits_be n cur)"
    by (auto simp: bits_be_def list_all_iff)
  also have "\<dots> \<longleftrightarrow> bits_be n cur = replicate n True"
    using list_all_id_replicate [of "bits_be n cur"] by simp
  finally show ?thesis .
qed

lemma decodeCheck_spec:
  assumes st: "progress B p st" and "hs_cbits st < 8" and "within maxLen st" and ex: "exhausted p st"
  shows "case decodeCheck st of Inl e \<Rightarrow> rejects maxLen (encodes B) e
    | Inr b \<Rightarrow> encodes B b \<and> (maxLen = 0 \<or> length b \<le> maxLen)"
proof -
  let ?x = "bits_be (hs_cbits st) (hs_cur st)"
  have only: "s = hs_buf st \<and> encodes (p @ ?x) []" if s: "encodes B s" for s
  proof -
    obtain s2 where s2: "s = hs_buf st @ s2" "encodes (p @ ?x) s2"
      using progress_encodes [OF st, of "[]" s] s by auto
    then have "s2 = []"
      using ex by (cases s2) (auto simp: encodes_def exhausted_def dest!: spec [of _ "hd s2"])
    with s2 show ?thesis by simp
  qed
  have ones: "hs_cur st AND (push_bit (hs_cbits st) 1 - 1) = push_bit (hs_cbits st) 1 - 1 \<longleftrightarrow>
      ?x = replicate (hs_cbits st) True"
    using mask_ones_iff [of "hs_cbits st" "hs_cur st"] assms(2) by (simp only: mask_word) simp
  have p: "8 dvd length p" "hs_sbits st = length p + hs_cbits st"
      "B = concat (map code_bits (hs_buf st)) @ p @ ?x"
    using st by (simp_all add: progress_def)
  note short = ones_of_short [OF _ refl p(1), of ?x]
  show ?thesis
  proof (cases "p = [] \<and> ?x = replicate (hs_cbits st) True")
    case True
    then have "encodes B (hs_buf st)"
      using p(3) assms(2) by (auto simp: encodes_def)
    with True ones assms(2,3) p(2) show ?thesis
      by (simp add: decodeCheck_def within_def)
  next
    case False
    then have "\<not> encodes B s" for s
      using only [of s] short by auto
    moreover have "p = []" if "hs_sbits st \<le> 7"
      using that p(1,2) by (auto dest: dvd_imp_le)
    ultimately show ?thesis
      using False ones by (auto simp: decodeCheck_def rejects_def Let_def)
  qed
qed

lemma decodeRun_spec:
  "\<exists>r. decodeRun maxLen v = Some r \<and>
    (case huffmanDecode maxLen v of Inl e \<Rightarrow> rejects maxLen (encodes (stream_bits v)) e
     | Inr b \<Rightarrow> encodes (stream_bits v) b \<and> (maxLen = 0 \<or> length b \<le> maxLen))"
proof -
  let ?root = getRootHuffmanNode
  let ?st = "\<lparr>hs_node = ?root, hs_cur = 0, hs_cbits = 0, hs_sbits = 0, hs_buf = []\<rparr> :: hstate"
  note root = getRootHuffmanNode_represents [THEN conjunct2]
  have "below [] codes = codes"
    by (auto simp: below_def codes_def code_bits_nonempty)
  with root have "progress [] [] ?st"
    by (simp add: progress_def partial_def)
  from decodeOuter_spec [OF this _ _ root, of maxLen v, unfolded append_Nil] obtain r where
    r: "decodeOuter ?root maxLen ?st v = Some r" and
    spec: "case r of Inl e \<Rightarrow> rejects maxLen (encodes (stream_bits v)) e
      | Inr st' \<Rightarrow> (\<exists>p'. progress (stream_bits v) p' st') \<and> hs_cbits st' < 8 \<and> within maxLen st'"
    by (auto simp: within_def)
  show ?thesis
  proof (cases r)
    case (Inl e)
    with r spec show ?thesis
      by (simp add: decodeRun_def huffmanDecode_def Let_def)
  next
    case (Inr st1)
    with spec obtain p1 where st1: "progress (stream_bits v) p1 st1" "hs_cbits st1 < 8"
      "within maxLen st1" by auto
    from decodeTail_spec [OF this root] obtain q where
      q: "decodeTail ?root maxLen st1 = Some q" and
      tail: "case q of Inl e \<Rightarrow> rejects maxLen (encodes (stream_bits v)) e
        | Inr st' \<Rightarrow> \<exists>p'. progress (stream_bits v) p' st' \<and> hs_cbits st' < 8 \<and> within maxLen st' \<and>
            exhausted p' st'"
      by auto
    have run: "decodeRun maxLen v = Some q"
      using r q Inr by (simp add: decodeRun_def Let_def)
    show ?thesis
    proof (cases q)
      case (Inl e)
      with run tail show ?thesis by (simp add: huffmanDecode_def)
    next
      case (Inr st2)
      with tail obtain p2 where "progress (stream_bits v) p2 st2" "hs_cbits st2 < 8"
        "within maxLen st2" "exhausted p2 st2" by auto
      from decodeCheck_spec [OF this] run Inr show ?thesis
        by (simp add: huffmanDecode_def)
    qed
  qed
qed

lemma encodes_unique:
  assumes "encodes B s" and "encodes B t"
  shows "s = t"
proof -
  have "\<exists>u. t = s @ u" if "encodes B s" "encodes B t" for s t
  proof -
    from that(1) obtain p where "B = concat (map code_bits s) @ replicate p True"
      by (auto simp: encodes_def)
    with encodes_split [of s "replicate p True" t] that(2) show ?thesis by auto
  qed
  from this [OF assms] this [OF assms(2,1)] show ?thesis by auto
qed

lemma encodes_AppendHuffmanString:
  "encodes (stream_bits v) b \<longleftrightarrow> v = AppendHuffmanString [] (string_of b)"
proof
  assume "encodes (stream_bits v) b"
  then obtain p where p: "p < 8" "stream_bits v = concat (map code_bits b) @ replicate p True"
    by (auto simp: encodes_def)
  obtain q where q: "q < 8" "stream_bits (AppendHuffmanString [] (string_of b)) =
      concat (map code_bits b) @ replicate q True"
    using AppendHuffmanString_bits [of "[]" "string_of b"] by auto
  have "p = q"
    using padding_unique [OF p(1) q(1), of "length v" "length (concat (map code_bits b))"
        "length (AppendHuffmanString [] (string_of b))"]
      arg_cong [OF p(2), of length] arg_cong [OF q(2), of length] by simp
  with p q show "v = AppendHuffmanString [] (string_of b)"
    by (intro stream_bits_inj) simp
next
  assume "v = AppendHuffmanString [] (string_of b)"
  with AppendHuffmanString_bits [of "[]" "string_of b"] show "encodes (stream_bits v) b"
    by (auto simp: encodes_def)
qed

lemma huffmanDecode_Inr_iff:
  "huffmanDecode maxLen v = Inr b \<longleftrightarrow>
     v = AppendHuffmanString [] (string_of b) \<and> (maxLen = 0 \<or> length b \<le> maxLen)"
proof
  assume "huffmanDecode maxLen v = Inr b"
  with decodeRun_spec [of maxLen v] show
    "v = AppendHuffmanString [] (string_of b) \<and> (maxLen = 0 \<or> length b \<le> maxLen)"
    by (auto simp: encodes_AppendHuffmanString)
next
  assume *: "v = AppendHuffmanString [] (string_of b) \<and> (maxLen = 0 \<or> length b \<le> maxLen)"
  then have b: "encodes (stream_bits v) b"
    by (simp add: encodes_AppendHuffmanString)
  show "huffmanDecode maxLen v = Inr b"
  proof (cases "huffmanDecode maxLen v")
    case (Inl e)
    with decodeRun_spec [of maxLen v] b * show ?thesis
      by (auto simp: rejects_def)
  next
    case (Inr c)
    with decodeRun_spec [of maxLen v] encodes_unique [OF b] show ?thesis by auto
  qed
qed

lemma huffmanDecode_error:
  assumes "huffmanDecode maxLen v = Inl e"
  shows "e = ErrInvalidHuffman \<and> (\<forall>b. v \<noteq> AppendHuffmanString [] b) \<or>
    e = ErrStringLength \<and> maxLen \<noteq> 0 \<and> (\<forall>b. v = AppendHuffmanString [] b \<longrightarrow> maxLen < length b)"
proof -
  have "v \<noteq> AppendHuffmanString [] b" if "\<And>s. \<not> encodes (stream_bits v) s" for b
    using that [of "bytes_of b"] by (simp add: encodes_AppendHuffmanString)
  moreover have "maxLen < length b"
    if "\<And>s. encodes (stream_bits v) s \<Longrightarrow> maxLen < length s" "v = AppendHuffmanString [] b" for b
    using that(1) [of "bytes_of b"] that(2) by (simp add: encodes_AppendHuffmanString)
  moreover have "rejects maxLen (encodes (stream_bits v)) e"
    using decodeRun_spec [of maxLen v] assms by auto
  ultimately show ?thesis
    unfolding rejects_def by blast
qed

section \<open>Properties\<close>

text \<open>
  C25: \<^verbatim>\<open>huffmanDecode\<close> succeeds on exactly the byte sequences that \<^verbatim>\<open>AppendHuffmanString\<close>
  produces and returns the string that was encoded, provided it is within the maximal length
  (\<open>0\<close>: none). So decoding undoes encoding, and no other padding or truncation is accepted.
\<close>

theorem huffman_decode_iff_encoded:
  "huffmanDecode maxLen v = Inr b \<longleftrightarrow>
     v = AppendHuffmanString [] (string_of b) \<and> (maxLen = 0 \<or> length b \<le> maxLen)"
  by (rule huffmanDecode_Inr_iff)

text \<open>
  C26: building the decoding tree does not run into a leaf, the decoder's loops end on every
  input, and the only errors are \<^verbatim>\<open>ErrInvalidHuffman\<close>, on inputs that encode no string, and
  \<^verbatim>\<open>ErrStringLength\<close>, when there is a maximal length and the encoded string is longer or the
  input encodes nothing.
\<close>

theorem huffman_decoder_total:
  "buildRootHuffmanNode \<noteq> None \<and> decodeRun maxLen v \<noteq> None \<and>
   ((\<exists>b. huffmanDecode maxLen v = Inr b) \<or>
    huffmanDecode maxLen v = Inl ErrInvalidHuffman \<and> (\<nexists>s. v = AppendHuffmanString [] s) \<or>
    huffmanDecode maxLen v = Inl ErrStringLength \<and> 0 < maxLen \<and>
      (\<nexists>s. v = AppendHuffmanString [] s \<and> length s \<le> maxLen))"
proof -
  have "decodeRun maxLen v \<noteq> None" "buildRootHuffmanNode \<noteq> None"
    using decodeRun_spec [of maxLen v] getRootHuffmanNode_represents by auto
  moreover have "(\<exists>b. huffmanDecode maxLen v = Inr b) \<or>
      huffmanDecode maxLen v = Inl ErrInvalidHuffman \<and> (\<nexists>s. v = AppendHuffmanString [] s) \<or>
      huffmanDecode maxLen v = Inl ErrStringLength \<and> 0 < maxLen \<and>
        (\<nexists>s. v = AppendHuffmanString [] s \<and> length s \<le> maxLen)"
    using huffmanDecode_error [of maxLen v]
    by (cases "huffmanDecode maxLen v") (auto simp: not_le)
  ultimately show ?thesis by blast
qed

end
