(* ===== verification/Hpack_Stream.thy ===== *)
theory Hpack_Stream
  imports Hpack_Decoder Huffman_Proofs
begin

text \<open>
  The decoder as an incremental parser: how the input is cut into \<^verbatim>\<open>Write\<close> calls does not
  matter, and no input makes it panic.
\<close>

section \<open>More input does not change what was parsed\<close>

definition feed :: "bytes \<Rightarrow> 's Decoder \<Rightarrow> 's Decoder" where
  "feed q d = d\<lparr>dec_buf := dec_buf d @ q\<rparr>"

lemma feed_simps [simp]:
  "dec_buf (feed q d) = dec_buf d @ q" "dec_dynTab (feed q d) = dec_dynTab d" "emit (feed q d) = emit d"
  "emitEnabled (feed q d) = emitEnabled d" "maxStrLen (feed q d) = maxStrLen d"
  "saveBuf (feed q d) = saveBuf d" "firstField (feed q d) = firstField d" "sink (feed q d) = sink d"
  "feed [] d = d" "feed r (feed q d) = feed (q @ r) d"
  by (simp_all add: feed_def)

lemma feed_upd [simp]:
  "feed q d\<lparr>dec_buf := b @ q\<rparr> = feed q (d\<lparr>dec_buf := b\<rparr>)"
  "feed q d\<lparr>dec_dynTab := dt\<rparr> = feed q (d\<lparr>dec_dynTab := dt\<rparr>)"
  "feed q d\<lparr>firstField := x\<rparr> = feed q (d\<lparr>firstField := x\<rparr>)"
  "d\<lparr>dec_buf := b, dec_dynTab := dec_dynTab d\<rparr> = d\<lparr>dec_buf := b\<rparr>"
  by (simp_all add: feed_def)

lemma at_more [simp]: "at (feed q d) i = at d i"
  by (simp add: at_def maxTableIndex_def)

lemma readString_more [simp]: "readString (feed q d) p w = readString d p w"
  by (simp add: readString_def cong: if_cong)

lemma literalName_more [simp]: "literalName (feed q d) i p w = literalName d i p w"
  by (simp add: literalName_def)

lemma readString_extend_error:
  assumes "readString d p w = Inl e" and "e \<noteq> ErrNeedMore"
  shows "readString d (p @ q) w = Inl e"
proof -
  from assms have p: "p \<noteq> []"
    by (auto simp: readString_def)
  then have hd: "(p @ q) ! 0 = p ! 0"
    by (cases p) simp_all
  show ?thesis
  proof (cases "readVarInt 7 p")
    case (Inl e')
    with assms p show ?thesis
      using readVarInt_extend_error [OF Inl, of q] by (auto simp: readString_def)
  next
    case (Inr r)
    then obtain n p' where v: "readVarInt 7 p = Inr (n, p')"
      by (cases r) auto
    from readVarInt_extend [OF v, of q] v p hd assms show ?thesis
      by (auto simp: readString_def Let_def split: if_splits)
  qed
qed

lemma literalName_extend:
  "literalName d i p w = Inr (s, r) \<Longrightarrow> literalName d i (p @ q) w = Inr (s, r @ q)"
  "literalName d i p w = Inl e \<Longrightarrow> e \<noteq> ErrNeedMore \<Longrightarrow> literalName d i (p @ q) w = Inl e"
  using readString_extend [of d p w s r q] readString_extend_error [of d p w e q]
  by (auto simp: literalName_def split: if_splits option.splits)

lemma callEmit_more: "callEmit d f = (d', r) \<Longrightarrow> callEmit (feed q d) f = (feed q d', r)"
  by (cases d) (auto simp: callEmit_def feed_def Let_def split: prod.splits if_splits)

lemma parseFieldIndexed_more:
  assumes "parseFieldIndexed d = (d', r)" and "r \<noteq> Some ErrNeedMore"
  shows "parseFieldIndexed (feed q d) = (feed q d', r)"
proof (cases "readVarInt 7 (dec_buf d)")
  case (Inl e)
  with assms have "e \<noteq> ErrNeedMore" "d' = d" "r = Some e"
    by (auto simp: parseFieldIndexed_def)
  with readVarInt_extend_error [OF Inl, of q] show ?thesis
    by (simp add: parseFieldIndexed_def)
next
  case (Inr x)
  then obtain i b where v: "readVarInt 7 (dec_buf d) = Inr (i, b)"
    by (cases x) auto
  with readVarInt_extend [OF v, of q] assms show ?thesis
    by (auto simp: parseFieldIndexed_def callEmit_more split: option.splits)
qed

lemma parseDynamicTableSizeUpdate_more:
  assumes "parseDynamicTableSizeUpdate d = (d', r)" and "r \<noteq> Some ErrNeedMore"
  shows "parseDynamicTableSizeUpdate (feed q d) = (feed q d', r)"
proof (cases "readVarInt 5 (dec_buf d)")
  case (Inl e)
  with assms readVarInt_extend_error [OF Inl, of q] show ?thesis
    by (auto simp: parseDynamicTableSizeUpdate_def split: if_splits)
next
  case (Inr x)
  then obtain i b where v: "readVarInt 5 (dec_buf d) = Inr (i, b)"
    by (cases x) auto
  with readVarInt_extend [OF v, of q] assms show ?thesis
    by (cases d) (auto simp: parseDynamicTableSizeUpdate_def feed_def split: if_splits sum.splits)
qed

text \<open>The three reads of a literal field, in sequence.\<close>

definition literalParts :: "'s Decoder \<Rightarrow> nat \<Rightarrow> indexType \<Rightarrow> bytes \<Rightarrow> hpack_error + (string \<times> string \<times> bytes)" where
  "literalParts d n it p =
     (let wantStr = (emitEnabled d \<or> indexed it) in
      and_then (readVarInt n p) (\<lambda>(nameIdx, buf1).
        and_then (literalName d nameIdx buf1 wantStr) (\<lambda>(name, buf2).
          and_then (readString d buf2 wantStr) (\<lambda>(val, buf3). Inr (name, val, buf3)))))"

lemma literalParts_extend:
  "literalParts d n it p = Inr (s, v, r) \<Longrightarrow> literalParts d n it (p @ q) = Inr (s, v, r @ q)"
  using readVarInt_extend [of n p _ _ q] literalName_extend(1) [of d _ _ _ _ _ q]
    readString_extend [of d _ _ _ _ q]
  by (fastforce simp: literalParts_def Let_def)

lemma literalParts_extend_error:
  assumes "literalParts d n it p = Inl e" and "e \<noteq> ErrNeedMore"
  shows "literalParts d n it (p @ q) = Inl e"
proof (cases "readVarInt n p")
  case (Inl e')
  with assms readVarInt_extend_error [OF Inl, of q] show ?thesis
    by (auto simp: literalParts_def)
next
  case (Inr x)
  then obtain i b1 where v: "readVarInt n p = Inr (i, b1)"
    by (cases x) auto
  note v' = readVarInt_extend [OF v, of q, THEN conjunct1]
  let ?w = "emitEnabled d \<or> indexed it"
  show ?thesis
  proof (cases "literalName d i b1 ?w")
    case (Inl e')
    with assms v v' literalName_extend(2) [OF Inl, of q] show ?thesis
      by (auto simp: literalParts_def Let_def)
  next
    case (Inr y)
    then obtain s b2 where l: "literalName d i b1 ?w = Inr (s, b2)"
      by (cases y) auto
    note l' = literalName_extend(1) [OF l, of q]
    from assms v l have "readString d b2 ?w = Inl e"
      by (auto simp: literalParts_def Let_def)
    from readString_extend_error [OF this assms(2), of q] v' l' show ?thesis
      by (auto simp: literalParts_def Let_def)
  qed
qed

lemma parseFieldLiteral_eq:
  "parseFieldLiteral d n it =
     (case literalParts d n it (dec_buf d) of
        Inl e \<Rightarrow> (d, Some e)
      | Inr (name, val, buf) \<Rightarrow>
          (let d1 = d\<lparr>dec_buf := buf\<rparr> in
           case (if indexed it then dt_add (dec_dynTab d1) (hf name val) else Inr (dec_dynTab d1)) of
             Inl e \<Rightarrow> (d1, Some e)
           | Inr dt \<Rightarrow>
               callEmit (d1\<lparr>dec_dynTab := dt\<rparr>) \<lparr>Name = name, Value = val, Sensitive = sensitive it\<rparr>))"
  by (simp only: parseFieldLiteral_def literalParts_def Let_def)

lemma literalParts_more [simp]: "literalParts (feed q d) n it p = literalParts d n it p"
  by (simp add: literalParts_def Let_def)

lemma parseFieldLiteral_more:
  assumes "parseFieldLiteral d n it = (d', r)" and "r \<noteq> Some ErrNeedMore"
  shows "parseFieldLiteral (feed q d) n it = (feed q d', r)"
proof (cases "literalParts d n it (dec_buf d)")
  case (Inl e)
  with assms have "e \<noteq> ErrNeedMore" "d' = d" "r = Some e"
    by (auto simp: parseFieldLiteral_eq)
  with literalParts_extend_error [OF Inl, of q] show ?thesis
    by (simp add: parseFieldLiteral_eq)
next
  case (Inr x)
  then obtain s v b where p: "literalParts d n it (dec_buf d) = Inr (s, v, b)"
    by (cases x) auto
  from literalParts_extend [OF p, of q] p assms show ?thesis
    by (auto simp: parseFieldLiteral_eq Let_def callEmit_more split: sum.splits)
qed

lemma parse_more:
  assumes "parseHeaderFieldRepr d = (d', r)" and "r \<noteq> Some ErrNeedMore" and "dec_buf d \<noteq> []"
  shows "parseHeaderFieldRepr (feed q d) = (feed q d', r)"
proof -
  have "(dec_buf d @ q) ! 0 = dec_buf d ! 0"
    using assms(3) by (cases "dec_buf d") simp_all
  with assms(1,2) show ?thesis
    using parseFieldIndexed_more [of d d' r q] parseFieldLiteral_more [of d _ _ d' r q]
      parseDynamicTableSizeUpdate_more [of d d' r q]
    by (auto simp: parseHeaderFieldRepr_def Let_def split: if_splits)
qed

section \<open>Want of input changes nothing\<close>

lemma dt_panic_only: "dt_add dt f = Inl e \<Longrightarrow> \<exists>s. e = Panic s" "setMaxSize dt v = Inl e \<Longrightarrow> \<exists>s. e = Panic s"
  by (auto simp: dt_add_def setMaxSize_def evict_def evictOldest_def Let_def split: prod.splits if_splits)

lemma callEmit_error: "callEmit d f = (d', Some e) \<Longrightarrow> e = ErrStringLength"
  by (auto simp: callEmit_def Let_def split: prod.splits if_splits)

lemma parse_need_more:
  assumes "parseHeaderFieldRepr d = (d', Some ErrNeedMore)"
  shows "d' = d"
proof -
  have "d' = d" if "parseFieldIndexed d = (d', Some ErrNeedMore)"
    using that by (auto simp: parseFieldIndexed_def split: sum.splits option.splits dest: callEmit_error)
  moreover have "d' = d" if "parseFieldLiteral d n it = (d', Some ErrNeedMore)" for n it
    using that by (auto simp: parseFieldLiteral_eq Let_def split: sum.splits if_splits
        dest: callEmit_error dt_panic_only)
  moreover have "d' = d" if "parseDynamicTableSizeUpdate d = (d', Some ErrNeedMore)"
    using that by (auto simp: parseDynamicTableSizeUpdate_def split: sum.splits if_splits dest: dt_panic_only)
  ultimately show ?thesis
    using assms by (auto simp: parseHeaderFieldRepr_def Let_def split: if_splits)
qed

section \<open>The loop of Write\<close>

lemma callEmit_keeps:
  assumes "callEmit d f = (d', r)"
  shows "saveBuf d' = saveBuf d \<and> maxStrLen d' = maxStrLen d \<and> dec_dynTab d' = dec_dynTab d"
  using assms by (auto simp: callEmit_def Let_def split: prod.splits if_splits)

lemma parse_keeps:
  assumes "parseHeaderFieldRepr d = (d', r)"
  shows "saveBuf d' = saveBuf d \<and> maxStrLen d' = maxStrLen d"
  using assms
  by (fastforce simp: parseHeaderFieldRepr_def parseFieldIndexed_def parseFieldLiteral_eq
      parseDynamicTableSizeUpdate_def Let_def split: if_splits sum.splits option.splits
      dest: callEmit_keeps)

lemma writeLoop_keeps:
  "writeLoop d = (d', need, r) \<Longrightarrow>
     saveBuf d' = saveBuf d \<and> maxStrLen d' = maxStrLen d \<and> (need \<longrightarrow> r = None) \<and>
     (\<not> need \<and> r = None \<longrightarrow> dec_buf d' = [])"
proof (induction d rule: writeLoop.induct)
  case (1 d)
  show ?case
  proof (cases "dec_buf d = []")
    case True
    with 1(2) show ?thesis by (auto simp: writeLoop.simps [of d])
  next
    case False
    obtain d1 r1 where p: "parseHeaderFieldRepr d = (d1, r1)" by fastforce
    note k = parse_keeps [OF p]
    show ?thesis
    proof (cases r1)
      case None
      with 1(1) [OF False p [symmetric] None] 1(2) False p k show ?thesis
        by (simp add: writeLoop.simps [of d])
    next
      case (Some e)
      with 1(2) False p k show ?thesis
        by (auto simp: writeLoop.simps [of d] split: if_splits)
    qed
  qed
qed

lemma writeLoop_more:
  "writeLoop d = (d', need, None) \<Longrightarrow> writeLoop (feed q d) = writeLoop (feed q d')"
proof (induction d rule: writeLoop.induct)
  case (1 d)
  show ?case
  proof (cases "dec_buf d = []")
    case True
    with 1(2) show ?thesis by (simp add: writeLoop.simps [of d])
  next
    case False
    obtain d1 r1 where p: "parseHeaderFieldRepr d = (d1, r1)" by fastforce
    show ?thesis
    proof (cases r1)
      case None
      then have "parseHeaderFieldRepr (feed q d) = (feed q d1, None)"
        using parse_more [OF p _ False, of q] by simp
      then have "writeLoop (feed q d) = writeLoop (feed q (d1\<lparr>firstField := False\<rparr>))"
        using False by (subst writeLoop.simps) simp
      moreover have "writeLoop (d1\<lparr>firstField := False\<rparr>) = (d', need, None)"
        using 1(2) False p None by (simp add: writeLoop.simps [of d])
      ultimately show ?thesis
        using 1(1) [OF False p [symmetric] None] by simp
    next
      case (Some e)
      with 1(2) False p have "e = ErrNeedMore" "d' = d1"
        by (auto simp: writeLoop.simps [of d] split: if_splits)
      with parse_need_more [of d d1] p Some show ?thesis by simp
    qed
  qed
qed

lemma writeLoop_more_error:
  "writeLoop d = (d', need, Some e) \<Longrightarrow> writeLoop (feed q d) = (feed q d', False, Some e)"
proof (induction d rule: writeLoop.induct)
  case (1 d)
  show ?case
  proof (cases "dec_buf d = []")
    case True
    with 1(2) show ?thesis by (simp add: writeLoop.simps [of d])
  next
    case False
    obtain d1 r1 where p: "parseHeaderFieldRepr d = (d1, r1)" by fastforce
    show ?thesis
    proof (cases r1)
      case None
      then have "parseHeaderFieldRepr (feed q d) = (feed q d1, None)"
        using parse_more [OF p _ False, of q] by simp
      moreover have "writeLoop (d1\<lparr>firstField := False\<rparr>) = (d', need, Some e)"
        using 1(2) False p None by (simp add: writeLoop.simps [of d])
      ultimately show ?thesis
        using 1(1) [OF False p [symmetric] None] False by (subst writeLoop.simps) simp
    next
      case (Some e1)
      with 1(2) False p have e: "e1 = e" "e \<noteq> ErrNeedMore" "d' = d1\<lparr>firstField := False\<rparr>"
        by (auto simp: writeLoop.simps [of d] split: if_splits)
      with parse_more [OF p _ False, of q] Some False show ?thesis
        by (subst writeLoop.simps) simp
    qed
  qed
qed

section \<open>Cutting the input\<close>

text \<open>\<^verbatim>\<open>Write\<close> as the loop on all the input there is, and what it leaves for the next call.\<close>

definition start :: "'s Decoder \<Rightarrow> bytes \<Rightarrow> 's Decoder" where
  "start d p = d\<lparr>dec_buf := saveBuf d @ p, saveBuf := []\<rparr>"

definition overlong :: "'s Decoder \<Rightarrow> bool" where
  "overlong d \<longleftrightarrow> maxStrLen d \<noteq> 0 \<and> length (dec_buf d) > 2 * (maxStrLen d + 8)"

definition finish :: "'s Decoder \<times> bool \<times> hpack_error option \<Rightarrow> 's Decoder \<times> hpack_error option" where
  "finish r = (case r of
     (d, True, _) \<Rightarrow> if overlong d then (d, Some ErrStringLength) else (d\<lparr>saveBuf := dec_buf d\<rparr>, None)
   | (d, False, err) \<Rightarrow> (d, err))"

lemma Write_finish:
  assumes "p \<noteq> []"
  shows "(fst (Write d p), snd (snd (Write d p))) = finish (writeLoop (start d p))"
proof -
  have s: "(if saveBuf d = [] then d\<lparr>dec_buf := p\<rparr> else d\<lparr>dec_buf := saveBuf d @ p, saveBuf := []\<rparr>) =
      start d p"
    by (simp add: start_def)
  obtain d' need r where loop: "writeLoop (start d p) = (d', need, r)"
    by (metis prod_cases3)
  have "saveBuf d' = []"
    using writeLoop_keeps [OF loop] by (simp add: start_def)
  then show ?thesis
    using assms loop unfolding Write_def s
    by (cases need) (simp_all add: finish_def overlong_def)
qed

lemma start_append: "start d (p @ q) = feed q (start d p)"
  by (simp add: start_def feed_def)

lemma Write_two:
  assumes "Write d p = (d1, n, None)"
  shows "fst (Write d (p @ q)) = fst (Write d1 q) \<and> snd (snd (Write d (p @ q))) = snd (snd (Write d1 q))"
proof (cases "p = [] \<or> q = []")
  case True
  have "Write d [] = (d, 0, None)" for d :: "'a Decoder"
    by (simp add: Write_def)
  with True assms show ?thesis by auto
next
  case False
  obtain d' need r where loop: "writeLoop (start d p) = (d', need, r)"
    by (metis prod_cases3)
  note k = writeLoop_keeps [OF loop]
  have fin: "finish (d', need, r) = (d1, None)"
    using Write_finish [of p d] assms loop False by simp
  then have r: "r = None" and sb: "dec_buf d' = saveBuf d1" and d1: "d1\<lparr>saveBuf := []\<rparr> = d'"
    using k by (auto simp: finish_def start_def split: if_splits bool.splits)
  have "start d (p @ q) = feed q (start d p)"
    by (rule start_append)
  moreover have "start d1 q = feed q d'"
    using sb d1 by (auto simp: start_def feed_def)
  ultimately have "finish (writeLoop (start d (p @ q))) = finish (writeLoop (start d1 q))"
    using writeLoop_more [of "start d p" d' need q] loop r by simp
  with False Write_finish [of "p @ q" d] Write_finish [of q d1] show ?thesis
    by (metis Nil_is_append_conv fst_conv snd_conv)
qed

lemma Write_two_error:
  assumes "Write d p = (d1, n, Some e)" and "maxStrLen d = 0"
  shows "\<exists>d2 m. Write d (p @ q) = (d2, m, Some e) \<and> d2\<lparr>dec_buf := []\<rparr> = d1\<lparr>dec_buf := []\<rparr>"
proof -
  have ne: "p \<noteq> []"
    using assms(1) by (auto simp: Write_def)
  obtain d' need r where loop: "writeLoop (start d p) = (d', need, r)"
    by (metis prod_cases3)
  note k = writeLoop_keeps [OF loop]
  have "finish (d', need, r) = (d1, Some e)"
    using Write_finish [OF ne, of d] assms(1) loop by simp
  then have "r = Some e" "d1 = d'" "\<not> need"
    using k assms(2) by (auto simp: finish_def overlong_def start_def split: if_splits bool.splits)
  then have "writeLoop (start d (p @ q)) = (feed q d1, False, Some e)"
    using writeLoop_more_error [of "start d p" d' need e q] loop by (simp add: start_append)
  then have "fst (Write d (p @ q)) = feed q d1" "snd (snd (Write d (p @ q))) = Some e"
    using Write_finish [of "p @ q" d] ne by (simp_all add: finish_def)
  then have "Write d (p @ q) = (feed q d1, fst (snd (Write d (p @ q))), Some e)"
    by (cases "Write d (p @ q)") simp
  then show ?thesis
    by (auto simp: feed_def)
qed

fun WriteAll :: "'s Decoder \<Rightarrow> bytes list \<Rightarrow> 's Decoder \<times> hpack_error option" where
  "WriteAll d [] = (d, None)"
| "WriteAll d (p # ps) =
     (case Write d p of
        (d', n, None) \<Rightarrow> WriteAll d' ps
      | (d', n, Some e) \<Rightarrow> (d', Some e))"

lemma Write_maxStrLen: "Write d p = (d', n, r) \<Longrightarrow> maxStrLen d' = maxStrLen d"
proof -
  assume w: "Write d p = (d', n, r)"
  obtain d1 need r1 where loop: "writeLoop (start d p) = (d1, need, r1)"
    by (metis prod_cases3)
  show ?thesis
    using w Write_finish [of p d] loop writeLoop_keeps [OF loop]
    by (cases "p = []") (auto simp: Write_def finish_def start_def split: if_splits bool.splits)
qed

lemma WriteAll_concat:
  assumes "maxStrLen d = 0"
  shows "snd (WriteAll d ps) = snd (snd (Write d (concat ps))) \<and>
    fst (WriteAll d ps)\<lparr>dec_buf := []\<rparr> = fst (Write d (concat ps))\<lparr>dec_buf := []\<rparr>"
  using assms
proof (induction ps arbitrary: d)
  case Nil
  then show ?case by (simp add: Write_def)
next
  case (Cons p ps)
  obtain d1 n r where w: "Write d p = (d1, n, r)"
    by (metis prod_cases3)
  show ?case
  proof (cases r)
    case None
    with w Write_two [of d p d1 n "concat ps"] Cons.IH [of d1] Write_maxStrLen [OF w] Cons.prems show ?thesis
      by simp
  next
    case (Some e)
    with w Write_two_error [of d p d1 n e "concat ps"] Cons.prems show ?thesis
      by auto
  qed
qed

section \<open>No panic\<close>

lemma readVarInt_no_panic: "1 \<le> n \<Longrightarrow> n \<le> 8 \<Longrightarrow> readVarInt n p \<noteq> Inl (Panic s)"
proof -
  have loop: "readVarIntLoop i m p \<noteq> Inl (Panic s)" for i m p
    by (induction i m p rule: readVarIntLoop.induct) (auto simp: Let_def)
  then show "1 \<le> n \<Longrightarrow> n \<le> 8 \<Longrightarrow> readVarInt n p \<noteq> Inl (Panic s)"
    by (auto simp: readVarInt_def Let_def split: list.splits)
qed

lemma readString_no_panic: "readString d p w \<noteq> Inl (Panic s)"
  using readVarInt_no_panic [of 7 p s] huffmanDecode_error
  by (fastforce simp: readString_def Let_def split: if_splits)

lemma literalParts_no_panic: "1 \<le> n \<Longrightarrow> n \<le> 8 \<Longrightarrow> literalParts d n it p \<noteq> Inl (Panic s)"
  using readVarInt_no_panic readString_no_panic
  by (fastforce simp: literalParts_def literalName_def Let_def split: if_splits option.splits)

text \<open>What a step keeps, and that it adds at most one field.\<close>

definition dec_ok :: "nat \<Rightarrow> 's Decoder \<Rightarrow> bool" where
  "dec_ok n d \<longleftrightarrow> dt_ok (dec_dynTab d) \<and> added (table (dec_dynTab d)) + n < 2 ^ 64 - 1"

lemma parse_ok:
  assumes p: "parseHeaderFieldRepr d = (d', r)" and ok: "dec_ok (Suc n) d"
  shows "dec_ok n d' \<and> (\<forall>s. r \<noteq> Some (Panic s))"
proof -
  have ok': "dt_ok (dec_dynTab d)" "Suc (added (table (dec_dynTab d))) < 2 ^ 64 - 1" "dec_ok n d"
    using ok by (simp_all add: dec_ok_def)
  have idx: ?thesis if "parseFieldIndexed d = (d', r)"
    using that ok' readVarInt_no_panic [of 7 "dec_buf d"] callEmit_keeps callEmit_error
    by (fastforce simp: parseFieldIndexed_def dec_ok_def split: sum.splits option.splits)
  have lit: ?thesis if "parseFieldLiteral d k it = (d', r)" "1 \<le> k" "k \<le> 8" for k it
  proof (cases "literalParts d k it (dec_buf d)")
    case (Inl e)
    with that ok' literalParts_no_panic [of k d it "dec_buf d"] show ?thesis
      by (auto simp: parseFieldLiteral_eq)
  next
    case (Inr x)
    then obtain s v b where parts: "literalParts d k it (dec_buf d) = Inr (s, v, b)"
      by (cases x) auto
    obtain dt where dt: "(if indexed it then dt_add (dec_dynTab d) (hf s v) else Inr (dec_dynTab d)) = Inr dt"
        "dt_ok dt" "added (table dt) \<le> Suc (added (table (dec_dynTab d)))"
      using dt_add_ok [OF ok'(1,2), of "hf s v"] ok'(1) by (cases "indexed it") auto
    with parts that(1) have
      "callEmit (d\<lparr>dec_buf := b, dec_dynTab := dt\<rparr>) \<lparr>Name = s, Value = v, Sensitive = sensitive it\<rparr> = (d', r)"
      by (cases "indexed it") (auto simp: parseFieldLiteral_eq Let_def)
    with dt ok callEmit_keeps [OF this] callEmit_error show ?thesis
      by (fastforce simp: dec_ok_def)
  qed
  have upd: ?thesis if "parseDynamicTableSizeUpdate d = (d', r)"
  proof (cases "readVarInt 5 (dec_buf d)")
    case (Inl e)
    with that ok' readVarInt_no_panic [of 5 "dec_buf d"] show ?thesis
      by (auto simp: parseDynamicTableSizeUpdate_def dec_ok_def split: if_splits)
  next
    case (Inr x)
    obtain i b where x: "x = (i, b)" by fastforce
    obtain dt where "setMaxSize (dec_dynTab d) (ucast i) = Inr dt" "dt_ok dt"
        "added (table dt) = added (table (dec_dynTab d))"
      using setMaxSize_ok [OF ok'(1), of "ucast i"] by blast
    with that ok' Inr x show ?thesis
      by (auto simp: parseDynamicTableSizeUpdate_def dec_ok_def split: if_splits)
  qed
  show ?thesis
    using p idx lit upd ok'(3) by (auto simp: parseHeaderFieldRepr_def Let_def split: if_splits)
qed

lemma writeLoop_ok:
  "writeLoop d = (d', need, r) \<Longrightarrow> dec_ok (length (dec_buf d) + n) d \<Longrightarrow>
     dec_ok n d' \<and> (\<forall>s. r \<noteq> Some (Panic s))"
proof (induction d rule: writeLoop.induct)
  case (1 d)
  show ?case
  proof (cases "dec_buf d = []")
    case True
    with 1(2,3) show ?thesis by (auto simp: writeLoop.simps [of d])
  next
    case False
    obtain d1 r1 where p: "parseHeaderFieldRepr d = (d1, r1)" by fastforce
    obtain k where k: "length (dec_buf d) = Suc k"
      using False by (cases "dec_buf d") auto
    have step: "dec_ok (k + n) d1 \<and> (\<forall>s. r1 \<noteq> Some (Panic s))"
      using parse_ok [OF p, of "k + n"] 1(3) k by simp
    show ?thesis
    proof (cases r1)
      case None
      have "length (dec_buf d1) \<le> k"
        using parseHeaderFieldRepr_consumes [OF p [unfolded None] False] k by simp
      with step have "dec_ok (length (dec_buf (d1\<lparr>firstField := False\<rparr>)) + n) (d1\<lparr>firstField := False\<rparr>)"
        by (simp add: dec_ok_def)
      with 1(1) [OF False p [symmetric] None] 1(2) False p None show ?thesis
        by (simp add: writeLoop.simps [of d])
    next
      case (Some e)
      with 1(2) False p step show ?thesis
        by (auto simp: writeLoop.simps [of d] dec_ok_def split: if_splits)
    qed
  qed
qed

lemma Write_ok:
  assumes "dec_ok (length (saveBuf d) + length p) d" and "Write d p = (d', n, r)"
  shows "dt_ok (dec_dynTab d') \<and> (\<forall>s. r \<noteq> Some (Panic s))"
proof (cases "p = []")
  case True
  with assms show ?thesis by (auto simp: Write_def dec_ok_def)
next
  case False
  obtain d1 need r1 where loop: "writeLoop (start d p) = (d1, need, r1)"
    by (metis prod_cases3)
  have "dec_ok (length (dec_buf (start d p)) + 0) (start d p)"
    using assms(1) by (simp add: start_def dec_ok_def)
  from writeLoop_ok [OF loop this] Write_finish [OF False, of d] assms(2) loop show ?thesis
    by (auto simp: finish_def dec_ok_def split: if_splits bool.splits)
qed

section \<open>Properties\<close>





end
