(* ===== verification/Meta_Headers.thy ===== *)
theory Meta_Headers
  imports Frame_Round_Trip Hpack_Stream
begin

text \<open>
  What the framer guarantees of what it reads: the order of frames, the header lists that
  \<^verbatim>\<open>readMetaFrame\<close> puts together, and that reading never panics.
\<close>

section \<open>Callbacks of the decoder\<close>

text \<open>What the callback keeps of its state, the decoder keeps of its sink.\<close>

definition emit_keeps :: "('s \<Rightarrow> bool) \<Rightarrow> 's Decoder \<Rightarrow> bool" where
  "emit_keeps I d \<longleftrightarrow> (\<forall>f s en. I s \<longrightarrow> I (fst (emit d f s en)))"

lemma callEmit_sink:
  assumes "callEmit d f = (d', r)" "emit_keeps I d" "I (sink d)"
  shows "I (sink d') \<and> emit d' = emit d"
proof -
  have "I (fst (emit d f (sink d) (emitEnabled d)))"
    using assms(2,3) by (simp add: emit_keeps_def)
  with assms(1,3) show ?thesis
    by (auto simp: callEmit_def Let_def split: prod.splits if_splits)
qed

lemma parse_sink:
  assumes p: "parseHeaderFieldRepr d = (d', r)" and I: "emit_keeps I d" "I (sink d)"
  shows "I (sink d') \<and> emit d' = emit d"
proof -
  have E: "I (sink d1) \<and> emit d1 = emit d" if "callEmit d0 f = (d1, e)" "emit d0 = emit d" "sink d0 = sink d" for d0 f d1 e
    using callEmit_sink [OF that(1), of I] I that by (simp add: emit_keeps_def)
  have "?thesis" if "parseFieldIndexed d = (d', r)"
    using that I by (auto simp: parseFieldIndexed_def split: sum.splits option.splits dest!: E)
  moreover have "?thesis" if "parseFieldLiteral d n it = (d', r)" for n it
    using that I by (auto simp: parseFieldLiteral_eq Let_def split: sum.splits if_splits dest!: E)
  moreover have "?thesis" if "parseDynamicTableSizeUpdate d = (d', r)"
    using that I by (auto simp: parseDynamicTableSizeUpdate_def split: sum.splits if_splits)
  ultimately show ?thesis
    using p I by (auto simp: parseHeaderFieldRepr_def Let_def split: if_splits)
qed

lemma writeLoop_sink:
  "writeLoop d = (d', need, r) \<Longrightarrow> emit_keeps I d \<Longrightarrow> I (sink d) \<Longrightarrow> I (sink d') \<and> emit d' = emit d"
proof (induction d rule: writeLoop.induct)
  case (1 d)
  show ?case
  proof (cases "dec_buf d = []")
    case True
    with 1(2-4) show ?thesis by (auto simp: writeLoop.simps [of d])
  next
    case False
    obtain d1 r1 where p: "parseHeaderFieldRepr d = (d1, r1)" by fastforce
    note s = parse_sink [OF p 1(3,4)]
    show ?thesis
    proof (cases r1)
      case None
      with 1(1) [OF False p [symmetric] None] 1(2,3) False p s show ?thesis
        by (simp add: writeLoop.simps [of d] emit_keeps_def)
    next
      case (Some e)
      with 1(2) False p s show ?thesis
        by (auto simp: writeLoop.simps [of d] split: if_splits)
    qed
  qed
qed

lemma finish_cases:
  assumes "Write d p = (d', n, r)" "p \<noteq> []"
  obtains d1 need r1 where "writeLoop (start d p) = (d1, need, r1)"
    "d' = d1 \<or> d' = d1\<lparr>saveBuf := dec_buf d1\<rparr> \<and> need" "finish (d1, need, r1) = (d', r)"
proof -
  obtain d1 need r1 where loop: "writeLoop (start d p) = (d1, need, r1)" by (metis prod_cases3)
  have fin: "finish (d1, need, r1) = (d', r)"
    using Write_finish [OF assms(2), of d] assms(1) loop by simp
  then have "d' = d1 \<or> d' = d1\<lparr>saveBuf := dec_buf d1\<rparr> \<and> need"
    by (auto simp: finish_def split: if_splits bool.splits)
  with loop fin that show thesis by blast
qed

lemma Write_sink:
  assumes "Write d p = (d', n, r)" "emit_keeps I d" "I (sink d)"
  shows "I (sink d') \<and> emit d' = emit d"
proof (cases "p = []")
  case False
  from finish_cases [OF assms(1) False] obtain d1 need r1 where
    w: "writeLoop (start d p) = (d1, need, r1)" "d' = d1 \<or> d' = d1\<lparr>saveBuf := dec_buf d1\<rparr> \<and> need" by metis
  with writeLoop_sink [OF w(1), of I] assms(2,3) show ?thesis
    by (auto simp: start_def emit_keeps_def)
qed (use assms in \<open>simp add: Write_def\<close>)

text \<open>Every byte that is consumed adds at most one entry to the dynamic table.\<close>

lemma writeLoop_budget:
  "writeLoop d = (d', need, r) \<Longrightarrow> dec_ok (length (dec_buf d) + n) d \<Longrightarrow>
     (\<forall>s. r \<noteq> Some (Panic s)) \<and> (r = None \<longrightarrow> dec_ok (length (dec_buf d') + n) d')"
proof (induction d rule: writeLoop.induct)
  case (1 d)
  show ?case
  proof (cases "dec_buf d = []")
    case True
    with 1(2,3) show ?thesis by (auto simp: writeLoop.simps [of d])
  next
    case False
    obtain d1 r1 where p: "parseHeaderFieldRepr d = (d1, r1)" by fastforce
    obtain k where k: "length (dec_buf d) = Suc k"
      using False by (cases "dec_buf d") auto
    have step: "dec_ok (k + n) d1 \<and> (\<forall>s. r1 \<noteq> Some (Panic s))"
      using parse_ok [OF p, of "k + n"] 1(3) k by simp
    show ?thesis
    proof (cases r1)
      case None
      have "length (dec_buf d1) \<le> k"
        using parseHeaderFieldRepr_consumes [OF p [unfolded None] False] k by simp
      with step have "dec_ok (length (dec_buf (d1\<lparr>firstField := False\<rparr>)) + n) (d1\<lparr>firstField := False\<rparr>)"
        by (simp add: dec_ok_def)
      with 1(1) [OF False p [symmetric] None] 1(2) False p None show ?thesis
        by (simp add: writeLoop.simps [of d])
    next
      case (Some e)
      with 1(2,3) False p step parse_need_more [of d d1] show ?thesis
        by (auto simp: writeLoop.simps [of d] split: if_splits)
    qed
  qed
qed

lemma Write_budget:
  assumes "dec_ok (length (saveBuf d) + length p + n) d" "Write d p = (d', m, r)"
  shows "(\<forall>s. r \<noteq> Some (Panic s)) \<and> (r = None \<longrightarrow> dec_ok (length (saveBuf d') + n) d')"
proof (cases "p = []")
  case False
  from finish_cases [OF assms(2) False] obtain d1 need r1 where
    w: "writeLoop (start d p) = (d1, need, r1)" "finish (d1, need, r1) = (d', r)" by metis
  have "dec_ok (length (dec_buf (start d p)) + n) (start d p)"
    using assms(1) by (simp add: start_def dec_ok_def)
  with writeLoop_budget [OF w(1)] writeLoop_keeps [OF w(1)] w(2) show ?thesis
    by (auto simp: finish_def start_def dec_ok_def split: if_splits bool.splits)
qed (use assms in \<open>auto simp: Write_def\<close>)

section \<open>Header lists\<close>

text \<open>
  A header list as HTTP/2 wants it: the pseudo-header fields come first, each of them known and at
  most once, those of requests and of responses not mixed, and no name of the other fields is empty
  or has an upper-case letter.
\<close>

definition header_list_ok :: "HeaderField list \<Rightarrow> bool" where
  "header_list_ok fs \<longleftrightarrow> (\<exists>ps rs. fs = ps @ rs \<and>
     list_all IsPseudo ps \<and> distinct (map Name ps) \<and>
     (list_all (\<lambda>f. requestPseudo (Name f)) ps \<or> list_all (\<lambda>f. Name f = '':status'') ps) \<and>
     list_all (\<lambda>f. \<not> IsPseudo f \<and> validWireHeaderFieldName (Name f)) rs)"

definition list_size :: "HeaderField list \<Rightarrow> nat" where
  "list_size fs = sum_list (map (\<lambda>f. unat (Size f)) fs)"

lemma PseudoFields_append:
  "list_all IsPseudo ps \<Longrightarrow> list_all (\<lambda>f. \<not> IsPseudo f) rs \<Longrightarrow> PseudoFields (ps @ rs) = ps"
proof (induction ps)
  case Nil
  then show ?case by (cases rs) auto
qed auto

lemma checkPseudosLoop_None:
  "checkPseudosLoop before rq rs fs = None \<Longrightarrow>
     (\<forall>f \<in> set fs. requestPseudo (Name f) \<or> Name f = '':status'') \<and> distinct (map Name fs) \<and>
     Name ` set fs \<inter> Name ` set before = {} \<and>
     \<not> ((rq \<or> (\<exists>f \<in> set fs. requestPseudo (Name f))) \<and> (rs \<or> (\<exists>f \<in> set fs. Name f = '':status'')))"
proof (induction before rq rs fs rule: checkPseudosLoop.induct)
  case (2 before rq rs f fs)
  then have ok: "requestPseudo (Name f) \<or> Name f = '':status''" "\<not> list_ex (\<lambda>g. Name f = Name g) before"
    by (auto split: if_splits)
  with 2 have ih: "checkPseudosLoop (before @ [f]) (rq \<or> requestPseudo (Name f)) (rs \<or> Name f = '':status'') fs = None"
    by (auto split: if_splits)
  have "Name f \<notin> Name ` set before"
    using ok(2) by (auto simp: list_ex_iff)
  with 2(1) [OF _ ok(2) ih] ok(1) show ?case by auto
qed (auto split: if_splits)

text \<open>What the callback keeps as long as it has not found an invalid field.\<close>

definition meta_inv :: "u32 \<Rightarrow> meta_state \<Rightarrow> bool" where
  "meta_inv m s \<longleftrightarrow> (ms_invalid s = None \<longrightarrow>
     list_size (ms_fields s) + unat (ms_remainSize s) = unat m \<and>
     (\<exists>ps rs. ms_fields s = ps @ rs \<and> list_all IsPseudo ps \<and>
        list_all (\<lambda>f. \<not> IsPseudo f \<and> validWireHeaderFieldName (Name f)) rs \<and> (rs \<noteq> [] \<longrightarrow> ms_sawRegular s)))"

lemma metaEmit_inv:
  assumes "meta_inv m s"
  shows "meta_inv m (fst (metaEmit f s en))"
proof (cases "ms_invalid (fst (metaEmit f s en)) = None")
  case True
  then have inv: "ms_invalid s = None"
    by (auto simp: metaEmit_def Let_def split: if_splits)
  obtain ps rs where s: "list_size (ms_fields s) + unat (ms_remainSize s) = unat m" "ms_fields s = ps @ rs"
    "list_all IsPseudo ps" "list_all (\<lambda>f. \<not> IsPseudo f \<and> validWireHeaderFieldName (Name f)) rs"
    "rs \<noteq> [] \<longrightarrow> ms_sawRegular s"
    using assms inv unfolding meta_inv_def by blast
  have pseudo: "take 1 (Name f) = '':'' \<longleftrightarrow> IsPseudo f"
    by (cases "Name f") (auto simp: IsPseudo_def)
  have size: "unat (ms_remainSize s - Size f) = unat (ms_remainSize s) - unat (Size f)" "unat (Size f) \<le> unat (ms_remainSize s)"
    if "\<not> Size f > ms_remainSize s"
    using that by (simp_all add: not_less word_le_nat_alt unat_sub)
  show ?thesis
  proof (cases "IsPseudo f")
    case p: True
    with True pseudo inv have "\<not> ms_sawRegular s" by (auto simp: metaEmit_def Let_def split: if_splits)
    with s have "rs = []" by blast
    with s p pseudo inv size \<open>\<not> ms_sawRegular s\<close> show ?thesis
      by (auto simp: metaEmit_def meta_inv_def list_size_def intro: exI [of _ "ps @ [f]"])
  next
    case False
    with True pseudo inv have "validWireHeaderFieldName (Name f)"
      by (auto simp: metaEmit_def Let_def split: if_splits)
    with False pseudo inv have emit: "fst (metaEmit f s en) =
        (if Size f > ms_remainSize s then s\<lparr>ms_sawRegular := True, ms_truncated := True\<rparr>
         else s\<lparr>ms_sawRegular := True, ms_remainSize := ms_remainSize s - Size f, ms_fields := ms_fields s @ [f]\<rparr>)"
      by (simp add: metaEmit_def Let_def)
    let ?rs = "if Size f > ms_remainSize s then rs else rs @ [f]"
    have "list_size (ms_fields (fst (metaEmit f s en))) + unat (ms_remainSize (fst (metaEmit f s en))) = unat m"
      using s(1) size by (simp add: emit list_size_def)
    moreover have "ms_fields (fst (metaEmit f s en)) = ps @ ?rs" "ms_sawRegular (fst (metaEmit f s en))"
      "list_all (\<lambda>f. \<not> IsPseudo f \<and> validWireHeaderFieldName (Name f)) ?rs"
      using s(2,4) False \<open>validWireHeaderFieldName (Name f)\<close> by (simp_all add: emit)
    ultimately show ?thesis
      using s(3) unfolding meta_inv_def by blast
  qed
qed (auto simp: meta_inv_def)

lemma meta_inv_ok:
  assumes "meta_inv m s" "ms_invalid s = None" "checkPseudos (ms_fields s) = None"
  shows "header_list_ok (ms_fields s) \<and> list_size (ms_fields s) \<le> unat m"
proof -
  obtain ps rs where s: "list_size (ms_fields s) + unat (ms_remainSize s) = unat m" "ms_fields s = ps @ rs"
    "list_all IsPseudo ps" "list_all (\<lambda>f. \<not> IsPseudo f \<and> validWireHeaderFieldName (Name f)) rs"
    using assms unfolding meta_inv_def by blast
  have "PseudoFields (ps @ rs) = ps"
    using s by (intro PseudoFields_append) (auto simp: list_all_iff)
  with assms(3) s(2) have "checkPseudosLoop [] False False ps = None"
    by (simp add: checkPseudos_def)
  from checkPseudosLoop_None [OF this] s show ?thesis
    unfolding header_list_ok_def by (intro conjI exI [of _ ps] exI [of _ rs]) (auto simp: list_all_iff)
qed

section \<open>The reader\<close>

text \<open>Between two reads: an open header block has a frame that opened it.\<close>

definition reader_ok :: "'w Framer \<Rightarrow> bool" where
  "reader_ok fr \<longleftrightarrow> \<not> AllowIllegalReads fr \<and> (lastHeaderStream fr \<noteq> 0 \<longrightarrow> lastFrame fr \<noteq> None)"

lemma readers_no_panic [simp]:
  "readByte p \<noteq> Inl (FramePanic s)" "readUint32 p \<noteq> Inl (FramePanic s)"
  by (cases p rule: readByte.cases, simp_all) (cases p rule: readUint32.cases, simp_all)

lemma readPriority_no_panic [simp]: "readPriority p \<noteq> Inl (FramePanic s)"
  by (auto simp: readPriority_def)

lemma parser_no_panic: "typeFrameParser t fh p \<noteq> Inl (FramePanic s)"
proof -
  have "parseDataFrame fh p \<noteq> Inl (FramePanic s)" "parseHeadersFrame fh p \<noteq> Inl (FramePanic s)"
    "parsePriorityFrame fh p \<noteq> Inl (FramePanic s)" "parseRSTStreamFrame fh p \<noteq> Inl (FramePanic s)"
    "parseSettingsFrame fh p \<noteq> Inl (FramePanic s)" "parsePushPromise fh p \<noteq> Inl (FramePanic s)"
    "parsePingFrame fh p \<noteq> Inl (FramePanic s)" "parseGoAwayFrame fh p \<noteq> Inl (FramePanic s)"
    "parseWindowUpdateFrame fh p \<noteq> Inl (FramePanic s)" "parseContinuationFrame fh p \<noteq> Inl (FramePanic s)"
    "parseUnknownFrame fh p \<noteq> Inl (FramePanic s)"
    by (auto simp: parser_defs streamError_def Let_def split: if_splits option.splits)
  then show ?thesis by (simp add: typeFrameParser_def)
qed

lemma readByte_length: "readByte p = Inr (q, b) \<Longrightarrow> length q \<le> length p"
  by (cases p) auto

lemma readUint32_length: "readUint32 p = Inr (q, b) \<Longrightarrow> length q \<le> length p"
  by (cases p rule: readUint32.cases) auto

lemma readPriority_length: "readPriority p = Inr (q, b) \<Longrightarrow> length q \<le> length p"
  using readUint32_length readByte_length by (fastforce simp: readPriority_def)

fun fragment :: "Frame \<Rightarrow> bytes" where
  "fragment (HeadersFrame fh prio b) = b"
| "fragment (ContinuationFrame fh b) = b"
| "fragment _ = []"

lemma parser_fragment:
  assumes "typeFrameParser t fh p = Inr f"
  shows "length (fragment f) \<le> length p"
proof -
  have "length (fragment f) \<le> length p" if "parseHeadersFrame fh p = Inr f"
    using that readByte_length [of p] readPriority_length
    by (fastforce simp: parseHeadersFrame_def split: if_splits)
  moreover have "fragment f = []" if "parseDataFrame fh p = Inr f \<or> parsePriorityFrame fh p = Inr f \<or>
      parseRSTStreamFrame fh p = Inr f \<or> parseSettingsFrame fh p = Inr f \<or> parsePushPromise fh p = Inr f \<or>
      parsePingFrame fh p = Inr f \<or> parseGoAwayFrame fh p = Inr f \<or> parseWindowUpdateFrame fh p = Inr f \<or>
      parseUnknownFrame fh p = Inr f"
    using that by (elim disjE) (auto simp: parser_defs Let_def split: if_splits option.splits)
  moreover have "length (fragment f) \<le> length p" if "parseContinuationFrame fh p = Inr f"
    using that by (auto simp: parseContinuationFrame_def split: if_splits)
  ultimately show ?thesis
    using assms by (auto simp: typeFrameParser_def split: if_splits)
qed

lemma checkFrameOrder_reader:
  assumes "checkFrameOrder fr f = (fr', r)" "reader_ok fr"
  shows "reader_ok fr' \<and> r \<noteq> Some (FramePanic s) \<and> fr_r fr' = fr_r fr \<and> ReadMetaHeaders fr' = ReadMetaHeaders fr \<and>
    maxHeaderListSize fr' = maxHeaderListSize fr \<and>
    (r = None \<longrightarrow> order_after (lastHeaderStream fr) f = Some (lastHeaderStream fr') \<and> lastFrame fr' = Some f)"
  using assms
  by (auto simp: checkFrameOrder_def reader_ok_def order_after_def framer_connError_def HeadersEnded_def
      maxHeaderListSize_def frame_type_defs Let_def split: option.splits if_splits)

lemma readFrameHeader_length:
  assumes "readFrameHeader r = Inr (fh, r')"
  shows "length r = length r' + 9" "valid fh"
  using assms by (auto simp: readFrameHeader_def readFull_def frameHeaderLen_def split: if_splits)

lemma readFull_length: "readFull n r = Inr (p, r') \<Longrightarrow> length r = length p + length r'"
  by (auto simp: readFull_def split: if_splits)

lemma read_errors [simp]: "readFrameHeader r \<noteq> Inl (FramePanic s)" "readFull n r \<noteq> Inl (FramePanic s)"
  by (auto simp: readFrameHeader_def readFull_def)

text \<open>One raw frame: it fits the automaton, and its fragment has been taken from the input.\<close>

definition raw_read :: "'w Framer \<Rightarrow> 'w Framer \<Rightarrow> frame_error + Frame \<Rightarrow> bool" where
  "raw_read fr fr' r \<longleftrightarrow> reader_ok fr' \<and> ReadMetaHeaders fr' = ReadMetaHeaders fr \<and>
     maxHeaderListSize fr' = maxHeaderListSize fr \<and> length (fr_r fr') \<le> length (fr_r fr) \<and>
     (case r of
        Inl e \<Rightarrow> (\<nexists>s. e = FramePanic s)
      | Inr f \<Rightarrow> frame_type_ok f \<and> length (fragment f) + length (fr_r fr') < length (fr_r fr) \<and>
          order_after (lastHeaderStream fr) f = Some (lastHeaderStream fr') \<and> lastFrame fr' = Some f)"

lemma readRawFrame_reads:
  assumes r: "readRawFrame fr = (fr', r)" and ok: "reader_ok fr"
  shows "raw_read fr fr' r"
proof -
  let ?fr = "fr\<lparr>errDetail := None, lastFrame := map_option invalidate (lastFrame fr)\<rparr>"
  have ok': "reader_ok (?fr\<lparr>fr_r := x\<rparr>)" for x
    using ok by (simp add: reader_ok_def)
  show ?thesis
  proof (cases "readFrameHeader (fr_r fr)")
    case (Inl e)
    with r ok' [of "[]"] show ?thesis
      by (auto simp: readRawFrame_def raw_read_def maxHeaderListSize_def)
  next
    case (Inr x)
    obtain fh r1 where x: "x = (fh, r1)" by fastforce
    note len = readFrameHeader_length [OF Inr [unfolded x]]
    show ?thesis
    proof (cases "Length fh > maxReadSize fr")
      case True
      with r Inr x ok' [of r1] len show ?thesis
        by (auto simp: readRawFrame_def raw_read_def maxHeaderListSize_def)
    next
      case small: False
      show ?thesis
      proof (cases "readFull (unat (Length fh)) r1")
        case (Inl e)
        with r Inr x small ok' [of "[]"] show ?thesis
          by (auto simp: readRawFrame_def raw_read_def maxHeaderListSize_def)
      next
        case full: (Inr y)
        obtain p r2 where y: "y = (p, r2)" by fastforce
        note len2 = readFull_length [OF full [unfolded y]]
        let ?fr1 = "?fr\<lparr>fr_r := r2\<rparr>"
        have base: "readRawFrame fr =
          (case typeFrameParser (Type fh) fh p of
             Inl (connError code reason) \<Rightarrow> (let (fr2, e) = framer_connError ?fr1 code reason in (fr2, Inl e))
           | Inl e \<Rightarrow> (?fr1, Inl e)
           | Inr f \<Rightarrow> (case checkFrameOrder ?fr1 f of (fr2, Some e) \<Rightarrow> (fr2, Inl e) | (fr2, None) \<Rightarrow> (fr2, Inr f)))"
          using Inr x small full y by (simp add: readRawFrame_def Let_def)
        show ?thesis
        proof (cases "typeFrameParser (Type fh) fh p")
          case (Inl e)
          with base r ok' [of r2] len len2 parser_no_panic [of "Type fh" fh p] show ?thesis
            by (cases e) (auto simp: raw_read_def framer_connError_def maxHeaderListSize_def reader_ok_def)
        next
          case parsed: (Inr f)
          obtain fr2 r2' where c: "checkFrameOrder ?fr1 f = (fr2, r2')" by fastforce
          note o = checkFrameOrder_reader [OF c ok']
          note f = typeFrameParser_ok [OF parsed] parser_fragment [OF parsed]
          have "fr' = fr2 \<and> r = (case r2' of Some e \<Rightarrow> Inl e | None \<Rightarrow> Inr f)"
            using base r parsed c by (auto split: option.splits)
          with o f len len2 show ?thesis
            by (auto simp: raw_read_def maxHeaderListSize_def split: option.splits)
        qed
      qed
    qed
  qed
qed

lemma continuation_next:
  assumes "raw_read fr fr' (Inr f)" "lastHeaderStream fr \<noteq> 0"
  obtains fh b where "f = ContinuationFrame fh b" "\<not> HeadersEnded fh \<longrightarrow> lastHeaderStream fr' \<noteq> 0"
  using assms
  by (cases f) (auto simp: raw_read_def order_after_def frame_type_defs Let_def split: if_splits)

lemma headers_opened:
  assumes "raw_read fr fr' (Inr (HeadersFrame fh prio b))"
  shows "\<not> HeadersEnded fh \<longrightarrow> lastHeaderStream fr' \<noteq> 0" "Type fh = FrameHeaders" "StreamID fh \<noteq> 0"
  using assms by (auto simp: raw_read_def order_after_def frame_type_defs Let_def split: if_splits)

text \<open>What the loop over the fragments keeps, and that the type assertion in it holds.\<close>

definition merged :: "(meta_state \<Rightarrow> bool) \<Rightarrow> 'w Framer \<Rightarrow> meta_state Decoder \<Rightarrow> 'w Framer \<Rightarrow> meta_state Decoder \<Rightarrow>
    frame_error option \<Rightarrow> bool" where
  "merged I fr d fr' d' err \<longleftrightarrow> reader_ok fr' \<and> ReadMetaHeaders fr' = ReadMetaHeaders fr \<and>
     maxHeaderListSize fr' = maxHeaderListSize fr \<and> length (fr_r fr') \<le> length (fr_r fr) \<and>
     I (sink d') \<and> emit d' = emit d \<and> (\<nexists>s. err = Some (FramePanic s)) \<and>
     (\<not> terminalReadFrameError err \<longrightarrow> dec_ok (length (saveBuf d') + length (fr_r fr')) d')"

lemma dec_ok_mono: "dec_ok n d \<Longrightarrow> m \<le> n \<Longrightarrow> dec_ok m d"
  by (simp add: dec_ok_def)

lemma metaLoop_merges:
  "metaLoop fr d fh frag = (fr', d', err) \<Longrightarrow> reader_ok fr \<Longrightarrow> (\<not> HeadersEnded fh \<longrightarrow> lastHeaderStream fr \<noteq> 0) \<Longrightarrow>
   dec_ok (length (saveBuf d) + length frag + length (fr_r fr)) d \<Longrightarrow> emit_keeps I d \<Longrightarrow> I (sink d) \<Longrightarrow>
   merged I fr d fr' d' err"
proof (induction fr d fh frag rule: metaLoop.induct)
  case (1 fr d fh frag)
  obtain d1 n r where w: "Write d frag = (d1, n, r)" by (metis prod_cases3)
  note sk = Write_sink [OF w 1(6,7)]
  note bud = Write_budget [OF 1(5) w]
  show ?case
  proof (cases r)
    case (Some e)
    then have "fr' = fr" "d' = d1" "err = Some (ConnectionError ErrCodeCompression)"
      using 1(2) w bud by (auto simp: metaLoop.simps [of fr d fh frag] split: hpack_error.splits)
    with sk 1(3) show ?thesis by (simp add: merged_def)
  next
    case None
    show ?thesis
    proof (cases "HeadersEnded fh")
      case True
      with 1(2,3) w None sk bud show ?thesis
        by (auto simp: metaLoop.simps [of fr d fh frag] merged_def)
    next
      case False
      obtain fr1 res where r1: "readRawFrame fr = (fr1, res)" by fastforce
      note raw = readRawFrame_reads [OF r1 1(3)]
      show ?thesis
      proof (cases res)
        case (Inl e)
        then have "fr' = fr1" "d' = d1" "err = Some e"
          using 1(2) w None False r1 by (auto simp: metaLoop.simps [of fr d fh frag])
        with raw Inl sk bud None show ?thesis
          by (auto simp: merged_def raw_read_def intro: dec_ok_mono)
      next
        case (Inr f)
        obtain fh1 b1 where f: "f = ContinuationFrame fh1 b1" "\<not> HeadersEnded fh1 \<longrightarrow> lastHeaderStream fr1 \<noteq> 0"
          using continuation_next [of fr fr1 f] raw Inr False 1(4) by metis
        have "metaLoop fr1 d1 fh1 b1 = (fr', d', err)"
          using 1(2) w None False r1 Inr f by (simp add: metaLoop.simps [of fr d fh frag])
        moreover have "dec_ok (length (saveBuf d1) + length b1 + length (fr_r fr1)) d1"
          using bud None raw Inr f by (auto simp: raw_read_def intro: dec_ok_mono)
        ultimately have "merged I fr1 d1 fr' d' err"
          using 1(1) [OF w [symmetric] refl None False r1 [symmetric] Inr f(1)] raw f(2) sk 1(6)
          by (simp add: raw_read_def emit_keeps_def)
        with raw sk show ?thesis by (auto simp: merged_def raw_read_def)
      qed
    qed
  qed
qed

definition frame_reader_ok :: "'w Framer \<Rightarrow> bool" where
  "frame_reader_ok fr \<longleftrightarrow> reader_ok fr \<and>
     (\<forall>d. ReadMetaHeaders fr = Some d \<longrightarrow> dec_ok (length (saveBuf d) + length (fr_r fr)) d)"

definition error_of :: "frame_error + 'a \<Rightarrow> frame_error option" where
  "error_of r = (case r of Inl e \<Rightarrow> Some e | Inr _ \<Rightarrow> None)"

definition read_guarantee :: "'w Framer \<Rightarrow> 'w Framer \<Rightarrow> frame_error + Frame \<Rightarrow> bool" where
  "read_guarantee fr fr' r \<longleftrightarrow> (\<nexists>s. r = Inl (FramePanic s)) \<and>
     (\<not> terminalReadFrameError (error_of r) \<longrightarrow> frame_reader_ok fr' \<and> maxHeaderListSize fr' = maxHeaderListSize fr) \<and>
     (\<forall>fh prio fs t. r = Inr (MetaHeadersFrame fh prio fs t) \<longrightarrow>
        Type fh = FrameHeaders \<and> StreamID fh \<noteq> 0 \<and> header_list_ok fs \<and> list_size fs \<le> unat (maxHeaderListSize fr))"

lemma Close_ok:
  assumes "Close d = (d', r)"
  shows "sink d' = sink d" "emit d' = emit d" "dec_ok (length (saveBuf d) + n) d \<Longrightarrow> dec_ok (length (saveBuf d') + n) d'"
  using assms by (auto simp: Close_def dec_ok_def split: if_splits)

lemma metaFinish_ok:
  assumes m: "metaFinish fr d fh prio = (fr', d', r)" and inv: "meta_inv m (sink d)"
    and ok: "reader_ok fr" "dec_ok (length (saveBuf d) + length (fr_r fr)) d"
  shows "reader_ok fr' \<and> fr_r fr' = fr_r fr \<and> maxHeaderListSize fr' = maxHeaderListSize fr \<and>
    dec_ok (length (saveBuf d') + length (fr_r fr)) d' \<and> (\<nexists>s. r = Inl (FramePanic s)) \<and>
    (\<forall>fh' prio' fs t. r = Inr (MetaHeadersFrame fh' prio' fs t) \<longrightarrow>
       Type fh' = Type fh \<and> StreamID fh' = StreamID fh \<and> header_list_ok fs \<and> list_size fs \<le> unat m)"
proof -
  obtain d1 e where c: "Close d = (d1, e)" by fastforce
  note close = Close_ok [OF c]
  have "d' = d1" using m c by (auto simp: metaFinish_def Let_def split: if_splits option.splits)
  moreover have "reader_ok fr' \<and> fr_r fr' = fr_r fr \<and> maxHeaderListSize fr' = maxHeaderListSize fr \<and>
      (\<nexists>s. r = Inl (FramePanic s))"
    using m c ok(1) by (auto simp: metaFinish_def reader_ok_def maxHeaderListSize_def Let_def split: if_splits option.splits)
  moreover have "Type fh' = Type fh \<and> StreamID fh' = StreamID fh \<and> header_list_ok fs \<and> list_size fs \<le> unat m"
    if "r = Inr (MetaHeadersFrame fh' prio' fs t)" for fh' prio' fs t
    using m c that inv close(1) meta_inv_ok [of m "sink d1"]
    by (auto simp: metaFinish_def Let_def split: if_splits option.splits)
  ultimately show ?thesis
    using close(3) [OF ok(2)] by simp
qed

lemma metaDecoder_ok:
  "dec_ok n (metaDecoder fr d) = dec_ok n d" "saveBuf (metaDecoder fr d) = saveBuf d"
  "emit_keeps (meta_inv m) (metaDecoder fr d)" "meta_inv (maxHeaderListSize fr) (sink (metaDecoder fr d))"
  by (simp_all add: metaDecoder_def SetEmitFunc_def SetMaxStringLength_def SetEmitEnabled_def dec_ok_def emit_keeps_def
      metaEmit_inv) (simp add: meta_inv_def metaStart_def list_size_def)

lemma readMetaFrame_ok:
  assumes r: "readMetaFrame fr d fh prio frag = (fr', r)" and ok: "reader_ok fr" "\<not> HeadersEnded fh \<longrightarrow> lastHeaderStream fr \<noteq> 0"
    "dec_ok (length (saveBuf d) + length frag + length (fr_r fr)) d" and fh: "Type fh = FrameHeaders" "StreamID fh \<noteq> 0"
  shows "read_guarantee fr fr' r"
proof -
  let ?m = "maxHeaderListSize fr"
  obtain fr1 d1 err where loop: "metaLoop fr (metaDecoder fr d) fh frag = (fr1, d1, err)" by (metis prod_cases3)
  have m: "merged (meta_inv ?m) fr (metaDecoder fr d) fr1 d1 err"
    using metaLoop_merges [OF loop ok(1,2) _ metaDecoder_ok(3,4)] ok(3) by (simp add: metaDecoder_ok)
  have legal: "\<not> AllowIllegalReads fr" using ok(1) by (simp add: reader_ok_def)
  show ?thesis
  proof (cases err)
    case (Some e)
    with r loop legal have "r = Inl e" "fr' = fr1\<lparr>ReadMetaHeaders := Some (SetEmitFunc d1 (\<lambda>f s en. (s, en)))\<rparr>"
      by (auto simp: readMetaFrame_def)
    with m Some show ?thesis
      by (auto simp: read_guarantee_def merged_def error_of_def frame_reader_ok_def reader_ok_def SetEmitFunc_def
          dec_ok_def maxHeaderListSize_def)
  next
    case None
    obtain fr2 d2 res where fin: "metaFinish fr1 d1 fh prio = (fr2, d2, res)" by (metis prod_cases3)
    from r loop legal None fin have "r = res" "fr' = fr2\<lparr>ReadMetaHeaders := Some (SetEmitFunc d2 (\<lambda>f s en. (s, en)))\<rparr>"
      by (auto simp: readMetaFrame_def)
    with metaFinish_ok [OF fin, of ?m] m None fh show ?thesis
      by (auto simp: read_guarantee_def merged_def error_of_def frame_reader_ok_def reader_ok_def SetEmitFunc_def
          dec_ok_def maxHeaderListSize_def split: sum.splits)
  qed
qed

lemma ReadFrame_ok:
  assumes r: "ReadFrame fr = (fr', r)" and ok: "frame_reader_ok fr"
  shows "read_guarantee fr fr' r"
proof -
  obtain fr1 res where r1: "readRawFrame fr = (fr1, res)" by fastforce
  have raw: "raw_read fr fr1 res"
    using readRawFrame_reads [OF r1] ok by (simp add: frame_reader_ok_def)
  have plain: "read_guarantee fr fr1 res"
    using raw ok
    by (auto simp: read_guarantee_def raw_read_def frame_reader_ok_def error_of_def split: sum.splits intro: dec_ok_mono)
  show ?thesis
  proof (cases "\<exists>fh prio frag d. res = Inr (HeadersFrame fh prio frag) \<and> ReadMetaHeaders fr1 = Some d")
    case False
    with r r1 have "fr' = fr1" "r = res"
      by (auto simp: ReadFrame_def split: sum.splits Frame.splits option.splits)
    with plain show ?thesis by simp
  next
    case True
    then obtain fh prio frag d where h: "res = Inr (HeadersFrame fh prio frag)" "ReadMetaHeaders fr1 = Some d" by blast
    then have "readMetaFrame fr1 d fh prio frag = (fr', r)"
      using r r1 by (simp add: ReadFrame_def)
    moreover have "length frag + length (fr_r fr1) < length (fr_r fr)" "ReadMetaHeaders fr = Some d" "reader_ok fr1"
      using raw h by (simp_all add: raw_read_def)
    moreover from this(2) ok have "dec_ok (length (saveBuf d) + length (fr_r fr)) d"
      by (simp add: frame_reader_ok_def)
    moreover from this calculation(2) have "dec_ok (length (saveBuf d) + length frag + length (fr_r fr1)) d"
      by (simp add: dec_ok_def)
    ultimately have "read_guarantee fr1 fr' r"
      using headers_opened [OF raw [unfolded h(1)]] readMetaFrame_ok by blast
    with raw show ?thesis by (simp add: read_guarantee_def raw_read_def)
  qed
qed

section \<open>Properties\<close>

text \<open>
  Reading on: a stream error does not end the connection, every other error does
  (\<^verbatim>\<open>terminalReadFrameError\<close>).
\<close>

fun readOn :: "nat \<Rightarrow> 'w Framer \<Rightarrow> (frame_error + Frame) list" where
  "readOn 0 fr = []"
| "readOn (Suc n) fr =
     (case ReadFrame fr of (fr', r) \<Rightarrow> r # (if terminalReadFrameError (error_of r) then [] else readOn n fr'))"

lemma readOn_guarantee:
  fixes fr :: "'w Framer"
  shows "frame_reader_ok fr \<Longrightarrow> r \<in> set (readOn n fr) \<Longrightarrow>
     \<exists>fr1 fr2 :: 'w Framer. maxHeaderListSize fr1 = maxHeaderListSize fr \<and> read_guarantee fr1 fr2 r"
proof (induction n arbitrary: fr)
  case (Suc n)
  obtain fr' r' where rf: "ReadFrame fr = (fr', r')" by fastforce
  note g = ReadFrame_ok [OF rf Suc.prems(1)]
  consider "r = r'" | "r \<in> set (readOn n fr')" "\<not> terminalReadFrameError (error_of r')"
    using Suc.prems(2) rf by (auto split: if_splits)
  then show ?case
  proof cases
    case 2
    with g Suc.IH [of fr'] show ?thesis by (auto simp: read_guarantee_def)
  qed (use g in blast)
qed simp

lemma newFramer_ok:
  assumes "newFramer conn bs wsize maxHeaders maxFrame = Inr fr" "length bs < 2 ^ 64 - 1"
  shows "frame_reader_ok fr \<and> MaxHeaderListSize fr = maxHeaders"
proof -
  let ?i = "init_dynamicTable\<lparr>allowedMaxSize := http2InitHeaderTableSize\<rparr>"
  have "dt_ok ?i" using init_dynamicTable_ok by (auto simp: dt_ok_def)
  then obtain dt where dt: "setMaxSize ?i http2InitHeaderTableSize = Inr dt" "dt_ok dt"
    "added (table dt) = added (table init_dynamicTable)"
    using setMaxSize_ok [of ?i http2InitHeaderTableSize] by auto
  have "added (table init_dynamicTable) = 0"
    by (simp add: added_def init_dynamicTable_def init_table_def)
  with dt assms show ?thesis
    by (auto simp: newFramer_def NewDecoder_def Let_def NewFramer_def SetMaxReadFrameSize_def frame_reader_ok_def
        reader_ok_def dec_ok_def)
qed



text \<open>
  C4: Every header list that the framer delivers is well formed, whatever the peer sent: pseudo-header fields
  first, known, without duplicates, requests and responses not mixed, valid names without upper-case letters after
  them, a stream other than 0, and a total size within the limit of the framer.
\<close>

theorem meta_headers_well_formed:
  assumes "newFramer conn bs wsize maxHeaders maxFrame = Inr fr" "length bs < 2 ^ 64 - 1"
    "Inr (MetaHeadersFrame fh prio fs truncated) \<in> set (readOn n fr)"
  shows "header_list_ok fs \<and> StreamID fh \<noteq> 0 \<and>
    list_size fs \<le> (if maxHeaders = 0 then 2 ^ 24 else unat maxHeaders)"
  using newFramer_ok [OF assms(1,2)] readOn_guarantee [OF _ assms(3)]
  by (auto simp: read_guarantee_def maxHeaderListSize_def split: if_splits)

text \<open>A header block in two frames: \<^verbatim>\<open>:method: GET\<close>, \<^verbatim>\<open>:path: /\<close>.\<close>

theorem meta_headers_well_formed_witness:
  "header_list_ok [hf '':method'' ''GET'', hf '':path'' ''/''] \<and>
   list_size [hf '':method'' ''GET'', hf '':path'' ''/''] \<le> 100"
proof -
  let ?bs = "[0, 0, 1, 1, 1, 0, 0, 0, 1, 0x82, 0, 0, 1, 9, 4, 0, 0, 0, 1, 0x84] :: bytes"
  let ?fh = "\<lparr>valid = False, Type = 1, Flags = 1, Length = 1, StreamID = 1\<rparr>"
  have "case newFramer () ?bs 0 100 16384 of Inl _ \<Rightarrow> False
    | Inr fr \<Rightarrow> readOn 1 fr = [Inr (MetaHeadersFrame ?fh zeroPriority [hf '':method'' ''GET'', hf '':path'' ''/''] False)]"
    by code_simp
  then obtain fr where fr: "newFramer () ?bs 0 100 16384 = Inr fr"
    "Inr (MetaHeadersFrame ?fh zeroPriority [hf '':method'' ''GET'', hf '':path'' ''/''] False) \<in> set (readOn 1 fr)"
    by (auto simp del: readOn.simps One_nat_def split: sum.splits)
  from meta_headers_well_formed [OF fr(1) _ fr(2)] show ?thesis by simp
qed

end
