(* ===== verification/Frame_Rules.thy ===== *)
theory Frame_Rules
  imports Meta_Headers
begin

text \<open>
  The rules of the framing layer one by one: which frames may follow which, which writes are
  refused, how a settings payload is read, and what a stream error inside a header block does.
\<close>

section \<open>Order of frames\<close>

text \<open>
  C29: \<^verbatim>\<open>checkFrameOrder\<close> is the automaton of header blocks: it accepts a frame exactly when the
  automaton does, moves to the automaton's next state, and answers everything else with a connection
  error PROTOCOL_ERROR.
\<close>

theorem frame_order_refines_automaton:
  assumes "reader_ok fr" "checkFrameOrder fr f = (fr', r)"
  shows "case order_after (lastHeaderStream fr) f of
    Some s \<Rightarrow> r = None \<and> lastHeaderStream fr' = s
  | None \<Rightarrow> r = Some (ConnectionError ErrCodeProtocol) \<and> lastHeaderStream fr' = lastHeaderStream fr"
  using assms
  by (auto simp: checkFrameOrder_def order_after_def reader_ok_def framer_connError_def HeadersEnded_def frame_type_defs
      Let_def split: if_splits)

theorem frame_order_refines_automaton_witness:
  "snd (checkFrameOrder (NewFramer () []) (ContinuationFrame \<lparr>valid = True, Type = 9, Flags = 4, Length = 0, StreamID = 1\<rparr> [])) =
     Some (ConnectionError ErrCodeProtocol)"
proof -
  let ?f = "ContinuationFrame \<lparr>valid = True, Type = 9, Flags = 4, Length = 0, StreamID = 1\<rparr> []"
  obtain fr' r where c: "checkFrameOrder (NewFramer () []) ?f = (fr', r)" by fastforce
  have "reader_ok (NewFramer () [])" "order_after (lastHeaderStream (NewFramer () [])) ?f = None"
    by (simp_all add: reader_ok_def NewFramer_def SetMaxReadFrameSize_def order_after_def frame_type_defs)
  with frame_order_refines_automaton [OF _ c] c show ?thesis by simp
qed

lemma readFrames_orderly:
  "readFrames n fr = (fr', Inr fs) \<Longrightarrow> reader_ok fr \<Longrightarrow> ReadMetaHeaders fr = None \<Longrightarrow>
     orderly (lastHeaderStream fr) fs \<and> list_all frame_type_ok fs"
proof (induction n arbitrary: fr fs)
  case (Suc n)
  obtain fr1 r1 where rf: "ReadFrame fr = (fr1, r1)" by fastforce
  obtain fr0 r0 where rr: "readRawFrame fr = (fr0, r0)" by fastforce
  note raw = readRawFrame_reads [OF rr Suc.prems(2)]
  have same: "fr1 = fr0" "r1 = r0"
    using rf rr raw Suc.prems(3)
    by (auto simp: ReadFrame_def raw_read_def split: sum.splits Frame.splits)
  from Suc.prems(1) rf obtain f fs' where f: "r1 = Inr f" "readFrames n fr1 = (fr', Inr fs')" "fs = f # fs'"
    by (auto split: sum.splits prod.splits)
  have "orderly (lastHeaderStream fr1) fs' \<and> list_all frame_type_ok fs'"
    using Suc.IH [OF f(2)] raw same Suc.prems(3) by (simp add: raw_read_def)
  with raw f same show ?case by (simp add: raw_read_def)
qed simp



section \<open>Writes that are refused\<close>

text \<open>
  The conditions that the writers check themselves. The others of \<open>op_args_ok\<close> are the caller's: the
  size of a ping is fixed by its type, and neither the values of settings nor the stream of a window
  update are looked at.
\<close>

fun op_checked :: "frame_op \<Rightarrow> bool" where
  "op_checked (OpSettings ss) \<longleftrightarrow> True"
| "op_checked (OpPing ack d) \<longleftrightarrow> True"
| "op_checked (OpRawFrame t fl sid p) \<longleftrightarrow> True"
| "op_checked (OpWindowUpdate sid i) \<longleftrightarrow> 1 \<le> i \<and> i \<le> 2147483647"
| "op_checked op \<longleftrightarrow> op_args_ok op"

lemma perform_checked:
  assumes "op_checked op"
  shows "perform wr op f =
    endWrite wr (f\<lparr>wbuf := [0, 0, 0, op_type op, op_flags op] @ put_uint32 (op_stream op) @ op_payload op\<rparr>)"
proof (cases "op_args_ok op")
  case False
  moreover have "perform wr (OpSettings ss) f = endWrite wr
      (f\<lparr>wbuf := [0, 0, 0, FrameSettings, 0] @ put_uint32 0 @ setting_bytes ss\<rparr>)" for ss
    by (simp add: WriteSettings_def settings_fold startWrite_def)
  ultimately show ?thesis
    using assms by (cases op) (auto simp: WritePing_def WriteRawFrame_def WriteWindowUpdate_def startWrite_def
        writeBytes_def writeUint32_def flag_def flag_defs)
qed (rule perform_endWrite)

lemma perform_unchecked:
  assumes "\<not> op_checked op" "\<not> AllowIllegalWrites f"
  shows "\<exists>f' e. perform wr op f = (f', Some e) \<and> fr_w f' = fr_w f"
proof (cases op)
  case (OpData sid es d pad)
  with assms show ?thesis
    by (cases pad) (auto simp: WriteDataPadded_def list_all_iff list_ex_iff Let_def)
next
  case (OpHeaders p)
  with assms show ?thesis
    by (auto simp: WriteHeaders_def startWrite_def writeByte_def Let_def)
next
  case (OpPushPromise p)
  with assms show ?thesis
    by (auto simp: WritePushPromise_def startWrite_def writeByte_def Let_def)
qed (use assms in \<open>auto simp: WritePriority_def WriteRSTStream_def WriteWindowUpdate_def WriteContinuation_def
      word_less_nat_alt word_le_nat_alt\<close>)

text \<open>
  A framer that does not allow illegal writes refuses every operation whose arguments break a rule it
  checks, and every frame with a payload of 16 MB or more, and then nothing reaches the writer.
\<close>

theorem illegal_writes_refused:
  assumes "\<not> AllowIllegalWrites f" "\<not> op_checked op \<or> 2 ^ 24 \<le> length (op_payload op)"
  shows "\<exists>f' e. perform wr op f = (f', Some e) \<and> fr_w f' = fr_w f"
proof (cases "op_checked op")
  case True
  with assms(2) show ?thesis
    by (auto simp: perform_checked endWrite_def frameHeaderLen_def Let_def)
qed (use assms(1) perform_unchecked in blast)

theorem illegal_writes_refused_witness:
  "\<exists>f' e. perform pipeWrite (OpWindowUpdate 1 0) (NewFramer [] []) = (f', Some e) \<and> fr_w f' = []"
  using illegal_writes_refused [of "NewFramer [] []" "OpWindowUpdate 1 0" pipeWrite]
  by (simp add: NewFramer_def SetMaxReadFrameSize_def)

section \<open>Settings\<close>

text \<open>
  The accessors of a settings frame agree with the list of settings that was written: \<^verbatim>\<open>Value\<close> is the
  first setting with the identifier, \<^verbatim>\<open>HasDuplicates\<close> (with its two algorithms) says whether an
  identifier occurs twice, and \<^verbatim>\<open>ForeachSetting\<close> visits them all in order up to the first error.
\<close>

theorem settings_accessors:
  "setting_Value (setting_bytes ss) sid = map_option Val (find (\<lambda>s. ID s = sid) ss) \<and>
   (HasDuplicates (setting_bytes ss) \<longleftrightarrow> \<not> distinct (map ID ss)) \<and>
   ForeachSetting (setting_bytes ss) f st = foreachLoop f st ss"
  using settings_of_bytes [of ss]
  by (simp add: setting_Value_find HasDuplicates_distinct ForeachSetting_def settings_of_def)

section \<open>A stream error inside a header block\<close>

text \<open>
  A WINDOW_UPDATE frame with increment 0 between the frames of a header block is answered with a
  stream error, because its parser runs before the order is checked. The error ends the merging, and
  the block stays open: the fragments that follow will not reach the HPACK decoder any more.
\<close>

theorem stream_error_inside_header_block:
  assumes "validStreamID sid" "lastHeaderStream fr \<noteq> 0" "4 \<le> maxReadSize fr"
    "fr_r fr = frame_bytes FrameWindowUpdate 0 sid (put_uint32 0) @ rest"
    "Write d frag = (d1, n, None)" "\<not> HeadersEnded fh"
  shows "\<exists>fr'. metaLoop fr d fh frag = (fr', d1, Some (StreamError sid ErrCodeProtocol None)) \<and>
    \<not> terminalReadFrameError (Some (StreamError sid ErrCodeProtocol None)) \<and>
    lastHeaderStream fr' = lastHeaderStream fr \<and> fr_r fr' = rest"
proof -
  let ?fh = "\<lparr>valid = True, Type = FrameWindowUpdate, Flags = 0, Length = 4, StreamID = sid\<rparr>"
  have "readFrameHeader (fr_r fr) = Inr (?fh, put_uint32 0 @ rest)"
    using readFrameHeader_frame [of "put_uint32 0" FrameWindowUpdate 0 sid rest] low31_valid(2) [OF assms(1)] assms(4)
    by simp
  moreover have "typeFrameParser FrameWindowUpdate ?fh (put_uint32 0) = Inl (StreamError sid ErrCodeProtocol None)"
    using assms(1)
    by (simp add: typeFrameParser_def parseWindowUpdateFrame_def frame_type_defs streamError_def validStreamID_def
        wire_simps)
  moreover have "\<not> Length ?fh > maxReadSize fr"
    using assms(3) by (simp add: not_less)
  ultimately have "readRawFrame fr =
      (fr\<lparr>errDetail := None, lastFrame := map_option invalidate (lastFrame fr), fr_r := rest\<rparr>,
       Inl (StreamError sid ErrCodeProtocol None))"
    by (simp add: readRawFrame_def readFull_def Let_def)
  with assms(5,6) show ?thesis
    by (simp add: metaLoop.simps [of fr d fh frag])
qed

text \<open>A HEADERS frame of stream 1 without END_HEADERS has been read, with an empty fragment.\<close>

theorem stream_error_inside_header_block_witness:
  "\<exists>fr'. metaLoop ((NewFramer () (frame_bytes FrameWindowUpdate 0 3 (put_uint32 0)))\<lparr>lastHeaderStream := 1\<rparr>)
      \<lparr>dec_dynTab = init_dynamicTable, emit = metaEmit, emitEnabled = True, maxStrLen = 0, dec_buf = [], saveBuf = [],
       firstField = True, sink = metaStart (NewFramer () [])\<rparr>
      \<lparr>valid = True, Type = 1, Flags = 0, Length = 0, StreamID = 1\<rparr> [] =
    (fr', \<lparr>dec_dynTab = init_dynamicTable, emit = metaEmit, emitEnabled = True, maxStrLen = 0, dec_buf = [], saveBuf = [],
       firstField = True, sink = metaStart (NewFramer () [])\<rparr>, Some (StreamError 3 ErrCodeProtocol None)) \<and>
    lastHeaderStream fr' = 1"
  using stream_error_inside_header_block [of 3
      "(NewFramer () (frame_bytes FrameWindowUpdate 0 3 (put_uint32 0)))\<lparr>lastHeaderStream := 1\<rparr>" "[]"
      "\<lparr>dec_dynTab = init_dynamicTable, emit = metaEmit, emitEnabled = True, maxStrLen = 0, dec_buf = [], saveBuf = [],
       firstField = True, sink = metaStart (NewFramer () [])\<rparr>" "[]"
      "\<lparr>dec_dynTab = init_dynamicTable, emit = metaEmit, emitEnabled = True, maxStrLen = 0, dec_buf = [], saveBuf = [],
       firstField = True, sink = metaStart (NewFramer () [])\<rparr>" 0
      "\<lparr>valid = True, Type = 1, Flags = 0, Length = 0, StreamID = 1\<rparr>"]
  by (auto simp: validStreamID_def NewFramer_def SetMaxReadFrameSize_def maxFrameSize_def Write_def HeadersEnded_def
      Has_def flag_defs)

end
