(* ===== verification/Item_List.thy ===== *)
theory Item_List
  imports H2_Prelude
begin

text \<open>
  The queue of the control buffer and of every outgoing stream (\<^verbatim>\<open>itemList\<close> of
  \<^verbatim>\<open>h2/controlbuf.go\<close>): a linked list of nodes with a head and a tail pointer. The nodes live in a
  store of the list, indexed by addresses; \<open>None\<close> is the nil pointer.
\<close>

section \<open>Linked lists\<close>

type_synonym addr = nat

record 'a itemNode =
  it :: 'a
  next_node :: "addr option"

record 'a itemList =
  il_head :: "addr option"
  il_tail :: "addr option"
  il_store :: "addr \<rightharpoonup> 'a itemNode"
  il_fresh :: addr

definition empty_itemList :: "'a itemList" where
  "empty_itemList = \<lparr>il_head = None, il_tail = None, il_store = (\<lambda>a. None), il_fresh = 0\<rparr>"

definition set_next :: "addr \<Rightarrow> addr option \<Rightarrow> (addr \<rightharpoonup> 'a itemNode) \<Rightarrow> (addr \<rightharpoonup> 'a itemNode)" where
  "set_next a p s = s(a := map_option (next_node_update (\<lambda>_. p)) (s a))"

definition il_enqueue :: "'a \<Rightarrow> 'a itemList \<Rightarrow> 'a itemList" where
  "il_enqueue i il =
     (let n = il_fresh il;
          s = (il_store il)(n \<mapsto> \<lparr>it = i, next_node = None\<rparr>);
          il1 = il\<lparr>il_store := s, il_fresh := Suc n\<rparr>
      in case il_tail il of
           None \<Rightarrow> il1\<lparr>il_head := Some n, il_tail := Some n\<rparr>
         | Some t \<Rightarrow> il1\<lparr>il_store := set_next t (Some n) s, il_tail := Some n\<rparr>)"

text \<open>\<open>None\<close>: the list is empty, and \<^verbatim>\<open>peek\<close> dereferences nil.\<close>

definition il_peek :: "'a itemList \<Rightarrow> 'a option" where
  "il_peek il = (case il_head il of None \<Rightarrow> None | Some h \<Rightarrow> map_option it (il_store il h))"

definition il_dequeue :: "'a itemList \<Rightarrow> 'a itemList \<times> 'a option" where
  "il_dequeue il =
     (case il_head il of
        None \<Rightarrow> (il, None)
      | Some h \<Rightarrow>
          (case il_store il h of
             None \<Rightarrow> (il, None)
           | Some n \<Rightarrow>
               (let il1 = il\<lparr>il_head := next_node n\<rparr>
                in (if il_head il1 = None then il1\<lparr>il_tail := None\<rparr> else il1, Some (it n)))))"

definition il_dequeueAll :: "'a itemList \<Rightarrow> 'a itemList \<times> addr option" where
  "il_dequeueAll il = (il\<lparr>il_head := None, il_tail := None\<rparr>, il_head il)"

definition il_isEmpty :: "'a itemList \<Rightarrow> bool" where
  "il_isEmpty il \<longleftrightarrow> il_head il = None"

text \<open>An assignment through the pointer that \<^verbatim>\<open>peek\<close> returned: the item of the first node changes.\<close>

definition il_modify_head :: "('a \<Rightarrow> 'a) \<Rightarrow> 'a itemList \<Rightarrow> 'a itemList" where
  "il_modify_head f il =
     (case il_head il of
        None \<Rightarrow> il
      | Some h \<Rightarrow> il\<lparr>il_store := (il_store il)(h := map_option (it_update f) (il_store il h))\<rparr>)"

text \<open>
  The items from a node on, for the loops \<^verbatim>\<open>head = head.next\<close>. A list never has more nodes than
  addresses were handed out, which bounds the walk.
\<close>

fun walk :: "nat \<Rightarrow> (addr \<rightharpoonup> 'a itemNode) \<Rightarrow> addr option \<Rightarrow> 'a list" where
  "walk 0 s p = []"
| "walk (Suc k) s None = []"
| "walk (Suc k) s (Some a) = (case s a of None \<Rightarrow> [] | Some n \<Rightarrow> it n # walk k s (next_node n))"

definition il_items :: "'a itemList \<Rightarrow> 'a list" where
  "il_items il = walk (il_fresh il) (il_store il) (il_head il)"

section \<open>Well-formed lists\<close>

text \<open>The addresses \<open>as\<close> lead from \<open>p\<close> to nil.\<close>

fun path :: "(addr \<rightharpoonup> 'a itemNode) \<Rightarrow> addr option \<Rightarrow> addr list \<Rightarrow> bool" where
  "path s p [] \<longleftrightarrow> p = None"
| "path s p (a # as) \<longleftrightarrow> p = Some a \<and> (\<exists>n. s a = Some n \<and> path s (next_node n) as)"

definition il_wf :: "'a itemList \<Rightarrow> bool" where
  "il_wf il \<longleftrightarrow> (\<exists>as. path (il_store il) (il_head il) as \<and> distinct as \<and> (\<forall>a \<in> set as. a < il_fresh il) \<and>
     il_tail il = (if as = [] then None else Some (last as)))"

lemma path_frame: "a \<notin> set as \<Longrightarrow> path (s(a := v)) p as \<longleftrightarrow> path s p as"
  by (induction as arbitrary: p) auto

lemma path_stored: "path s p as \<Longrightarrow> a \<in> set as \<Longrightarrow> \<exists>n. s a = Some n"
  by (induction as arbitrary: p) auto

lemma path_append:
  assumes "path s p as" "as \<noteq> []" "distinct as" "n \<notin> set as"
  shows "path (set_next (last as) (Some n) (s(n \<mapsto> \<lparr>it = i, next_node = None\<rparr>))) p (as @ [n])"
  using assms
proof (induction as arbitrary: p)
  case (Cons a as)
  show ?case
  proof (cases "as = []")
    case True
    with Cons.prems show ?thesis by (auto simp: set_next_def)
  next
    case False
    then have "last as \<noteq> a" using Cons.prems(3) by auto
    let ?s = "set_next (last as) (Some n) (s(n \<mapsto> \<lparr>it = i, next_node = None\<rparr>))"
    obtain na where na: "p = Some a" "s a = Some na" "path s (next_node na) as"
      using Cons.prems(1) by auto
    have "?s a = Some na"
      using na(2) \<open>last as \<noteq> a\<close> Cons.prems(4) by (simp add: set_next_def)
    moreover have "path ?s (next_node na) (as @ [n])"
      by (rule Cons.IH [OF na(3) False]) (use Cons.prems(3,4) in simp_all)
    ultimately show ?thesis
      using na(1) by (auto simp only: path.simps append_Cons last_ConsR [OF False])
  qed
qed simp

lemma walk_path:
  "path s p as \<Longrightarrow> length as \<le> k \<Longrightarrow> walk k s p = map (\<lambda>a. it (the (s a))) as"
proof (induction as arbitrary: k p)
  case Nil
  then show ?case by (cases k) auto
next
  case (Cons a as)
  then show ?case by (cases k) auto
qed

lemma distinct_bound: "distinct as \<Longrightarrow> \<forall>a \<in> set as. a < n \<Longrightarrow> length as \<le> (n :: nat)"
  using card_mono [of "{..<n}" "set as"] by (auto simp: distinct_card [symmetric] subset_iff)

lemma items_path:
  assumes "path (il_store il) (il_head il) as" "distinct as" "\<forall>a \<in> set as. a < il_fresh il"
  shows "il_items il = map (\<lambda>a. it (the (il_store il a))) as"
  unfolding il_items_def by (rule walk_path [OF assms(1) distinct_bound [OF assms(2,3)]])

lemma il_enqueue_ok:
  assumes "il_wf il"
  shows "il_wf (il_enqueue i il)" "il_items (il_enqueue i il) = il_items il @ [i]"
proof -
  obtain as where as: "path (il_store il) (il_head il) as" "distinct as" "\<forall>a \<in> set as. a < il_fresh il"
    "il_tail il = (if as = [] then None else Some (last as))"
    using assms by (auto simp: il_wf_def)
  let ?n = "il_fresh il" and ?il = "il_enqueue i il"
  have new: "?n \<notin> set as" using as(3) by auto
  have p: "path (il_store ?il) (il_head ?il) (as @ [?n])"
  proof (cases "as = []")
    case True
    with as show ?thesis by (simp add: il_enqueue_def Let_def)
  next
    case False
    with path_append [OF as(1) False as(2) new, of i] as(4) show ?thesis
      by (simp add: il_enqueue_def Let_def)
  qed
  have wf: "distinct (as @ [?n])" "\<forall>a \<in> set (as @ [?n]). a < il_fresh ?il" "il_tail ?il = Some ?n"
    using as new by (auto simp: il_enqueue_def Let_def less_Suc_eq split: option.splits)
  from p wf show "il_wf ?il"
    unfolding il_wf_def by (intro exI [of _ "as @ [?n]"]) simp
  have "it (the (il_store ?il a)) = it (the (il_store il a))" if "a \<in> set as" for a
  proof -
    have "\<exists>n. il_store il a = Some n"
      by (rule path_stored [OF as(1) that])
    with that new show ?thesis
      by (auto simp: il_enqueue_def set_next_def Let_def split: option.splits)
  qed
  moreover have "it (the (il_store ?il ?n)) = i"
    using as new by (auto simp: il_enqueue_def set_next_def Let_def split: option.splits)
  ultimately show "il_items ?il = il_items il @ [i]"
    using items_path [OF p wf(1,2)] items_path [OF as(1-3)] by simp
qed

lemma il_dequeue_ok:
  assumes "il_wf il"
  shows "il_wf (fst (il_dequeue il))"
    "snd (il_dequeue il) = (case il_items il of [] \<Rightarrow> None | x # xs \<Rightarrow> Some x)"
    "il_items (fst (il_dequeue il)) = tl (il_items il)"
proof -
  obtain as where as: "path (il_store il) (il_head il) as" "distinct as" "\<forall>a \<in> set as. a < il_fresh il"
    "il_tail il = (if as = [] then None else Some (last as))"
    using assms by (auto simp: il_wf_def)
  have "il_wf (fst (il_dequeue il)) \<and> snd (il_dequeue il) = (case il_items il of [] \<Rightarrow> None | x # xs \<Rightarrow> Some x) \<and>
    il_items (fst (il_dequeue il)) = tl (il_items il)"
  proof (cases as)
    case Nil
    with as have "il_head il = None" "il_items il = []"
      using items_path [OF as(1-3)] by simp_all
    with assms show ?thesis by (simp add: il_dequeue_def)
  next
    case (Cons a bs)
    then obtain n where n: "il_head il = Some a" "il_store il a = Some n" "path (il_store il) (next_node n) bs"
      using as(1) by auto
    let ?il = "fst (il_dequeue il)"
    have il: "il_store ?il = il_store il" "il_head ?il = next_node n" "il_fresh ?il = il_fresh il"
      "snd (il_dequeue il) = Some (it n)"
      "il_tail ?il = (if next_node n = None then None else il_tail il)"
      using n by (simp_all add: il_dequeue_def Let_def)
    have "next_node n = None \<longleftrightarrow> bs = []" using n(3) by (cases bs) auto
    then have "il_wf ?il"
      unfolding il_wf_def using as n Cons by (intro exI [of _ bs]) (auto simp: il)
    moreover have "il_items ?il = map (\<lambda>a. it (the (il_store il a))) bs"
      using items_path [of ?il bs] as n Cons by (simp add: il)
    moreover have "il_items il = it n # map (\<lambda>a. it (the (il_store il a))) bs"
      using items_path [OF as(1-3)] n Cons by simp
    ultimately show ?thesis using il(4) by simp
  qed
  then show "il_wf (fst (il_dequeue il))"
    "snd (il_dequeue il) = (case il_items il of [] \<Rightarrow> None | x # xs \<Rightarrow> Some x)"
    "il_items (fst (il_dequeue il)) = tl (il_items il)" by blast+
qed

lemma il_head_items:
  assumes "il_wf il"
  shows "il_isEmpty il \<longleftrightarrow> il_items il = []" "il_peek il = (case il_items il of [] \<Rightarrow> None | x # xs \<Rightarrow> Some x)"
proof -
  obtain as where as: "path (il_store il) (il_head il) as" "distinct as" "\<forall>a \<in> set as. a < il_fresh il"
    using assms by (auto simp: il_wf_def)
  show "il_isEmpty il \<longleftrightarrow> il_items il = []" "il_peek il = (case il_items il of [] \<Rightarrow> None | x # xs \<Rightarrow> Some x)"
    using as(1) items_path [OF as] by (cases as; force simp: il_isEmpty_def il_peek_def)+
qed

lemma il_dequeueAll_ok:
  assumes "il_wf il"
  shows "il_wf (fst (il_dequeueAll il))" "il_items (fst (il_dequeueAll il)) = []"
    "walk (il_fresh il) (il_store il) (snd (il_dequeueAll il)) = il_items il"
proof -
  have "path (il_store il) None []" by simp
  then show "il_wf (fst (il_dequeueAll il))" "il_items (fst (il_dequeueAll il)) = []"
    using items_path [of "fst (il_dequeueAll il)" "[]"] by (auto simp: il_wf_def il_dequeueAll_def)
qed (simp add: il_dequeueAll_def il_items_def)

lemma il_modify_head_ok:
  assumes "il_wf il" "il_items il = x # xs"
  shows "il_wf (il_modify_head f il)" "il_items (il_modify_head f il) = f x # xs"
proof -
  obtain as where as: "path (il_store il) (il_head il) as" "distinct as" "\<forall>a \<in> set as. a < il_fresh il"
    "il_tail il = (if as = [] then None else Some (last as))"
    using assms(1) by (auto simp: il_wf_def)
  with assms(2) items_path [OF as(1-3)] obtain a bs where a: "as = a # bs" by (cases as) auto
  then obtain n where n: "il_head il = Some a" "il_store il a = Some n" "path (il_store il) (next_node n) bs"
    using as(1) by auto
  let ?il = "il_modify_head f il"
  have il: "il_store ?il = (il_store il)(a \<mapsto> it_update f n)" "il_head ?il = Some a" "il_fresh ?il = il_fresh il"
    "il_tail ?il = il_tail il"
    using n by (simp_all add: il_modify_head_def)
  have p: "path (il_store ?il) (il_head ?il) as"
    unfolding il using a n as(2) by (simp add: path_frame)
  with as show "il_wf ?il"
    unfolding il_wf_def by (intro exI [of _ as]) (simp add: il)
  have "il_items ?il = f (it n) # map (\<lambda>a. it (the (il_store il a))) bs"
    using items_path [OF p] as a by (auto simp: il intro!: map_cong)
  moreover have "il_items il = it n # map (\<lambda>a. it (the (il_store il a))) bs"
    using items_path [OF as(1-3)] a n by simp
  ultimately show "il_items ?il = f x # xs" using assms(2) by simp
qed

section \<open>The contract of a queue\<close>

locale item_queue =
  fixes new :: 'q
    and enq :: "'a \<Rightarrow> 'q \<Rightarrow> 'q"
    and deq :: "'q \<Rightarrow> 'q \<times> 'a option"
    and front :: "'q \<Rightarrow> 'a option"
    and empty :: "'q \<Rightarrow> bool"
    and modify :: "('a \<Rightarrow> 'a) \<Rightarrow> 'q \<Rightarrow> 'q"
    and wf :: "'q \<Rightarrow> bool"
    and items :: "'q \<Rightarrow> 'a list"
  assumes wf_new: "wf new" and items_new: "items new = []"
    and wf_enq: "wf q \<Longrightarrow> wf (enq x q)" and items_enq: "wf q \<Longrightarrow> items (enq x q) = items q @ [x]"
    and wf_deq: "wf q \<Longrightarrow> wf (fst (deq q))" and items_deq: "wf q \<Longrightarrow> items (fst (deq q)) = tl (items q)"
    and deq_value: "wf q \<Longrightarrow> snd (deq q) = (case items q of [] \<Rightarrow> None | x # xs \<Rightarrow> Some x)"
    and front_value: "wf q \<Longrightarrow> front q = (case items q of [] \<Rightarrow> None | x # xs \<Rightarrow> Some x)"
    and wf_modify: "wf q \<Longrightarrow> items q = x # xs \<Longrightarrow> wf (modify f q)"
    and items_modify: "wf q \<Longrightarrow> items q = x # xs \<Longrightarrow> items (modify f q) = f x # xs"
    and empty_iff: "wf q \<Longrightarrow> empty q \<longleftrightarrow> items q = []"
begin

lemmas queue_simps = wf_new items_new wf_enq items_enq wf_deq items_deq deq_value front_value empty_iff

text \<open>First in, first out.\<close>

lemma fifo:
  "wf q \<Longrightarrow> \<exists>q'. (foldl (\<lambda>q x. enq x q) q xs) = q' \<and> wf q' \<and> items q' = items q @ xs"
  by (induction xs arbitrary: q) (auto simp: queue_simps)

end

interpretation il: item_queue empty_itemList il_enqueue il_dequeue il_peek il_isEmpty il_modify_head il_wf il_items
proof
  show "il_wf empty_itemList"
    by (auto simp: il_wf_def empty_itemList_def intro: exI [of _ "[]"])
  show "il_items empty_itemList = []"
    by (simp add: il_items_def empty_itemList_def)
qed (simp_all add: il_enqueue_ok il_dequeue_ok il_head_items il_modify_head_ok)

end
