(* ===== verification/Flow_Control.thy ===== *)
theory Flow_Control
  imports H2_Prelude
begin

text \<open>
  Flow control (\<^verbatim>\<open>h2/flowcontrol.go\<close>): the write quota that blocks the writers of a stream, the window
  of the connection and the window of a stream for what the peer sends. All counters are 32-bit
  words and wrap around as in Go. The mutex of \<^verbatim>\<open>inFlow\<close> makes its operations atomic; the quota is
  shared by two goroutines through atomic operations and a channel, and is modelled by their
  interleaved steps.
\<close>

section \<open>The write quota\<close>

type_synonym i32 = "32 word"

text \<open>
  \<open>wq_ch\<close>: the channel of capacity 1 holds a token; \<open>wq_done\<close>: the channel \<^verbatim>\<open>done\<close> is closed.
\<close>

record writeQuota =
  quota :: i32
  wq_ch :: bool
  wq_done :: bool

definition newWriteQuota :: "i32 \<Rightarrow> writeQuota" where
  "newWriteQuota sz = \<lparr>quota = sz, wq_ch = False, wq_done = False\<rparr>"

text \<open>
  Where the writer is in \<^verbatim>\<open>waitOrConsumeQuota\<close>: before the load, between the load and the addition,
  in the select; or it has returned, with an error (\<^verbatim>\<open>errStreamDone\<close>) or without.
\<close>

datatype wait_pc = Load i32 | Consume i32 | Select i32 | Returned bool

definition waitOrConsumeQuota :: "i32 \<Rightarrow> wait_pc" where
  "waitOrConsumeQuota sz = (if sz = 0 then Returned True else Load sz)"

datatype select_case = FromCh | FromDone

text \<open>One atomic step of the writer; \<open>None\<close> means that the chosen case of the select is not ready.\<close>

fun waitStep :: "select_case \<Rightarrow> wait_pc \<Rightarrow> writeQuota \<Rightarrow> (wait_pc \<times> writeQuota) option" where
  "waitStep c (Load sz) w = Some (if sint (quota w) > 0 then Consume sz else Select sz, w)"
| "waitStep c (Consume sz) w = Some (Returned True, w\<lparr>quota := quota w + (- sz)\<rparr>)"
| "waitStep FromCh (Select sz) w = (if wq_ch w then Some (Load sz, w\<lparr>wq_ch := False\<rparr>) else None)"
| "waitStep FromDone (Select sz) w = (if wq_done w then Some (Returned False, w) else None)"
| "waitStep c (Returned ok) w = None"

text \<open>\<^verbatim>\<open>realReplenish\<close> in its two atomic parts: the addition, and the send that wakes the writer.\<close>

definition replenishAdd :: "i32 \<Rightarrow> writeQuota \<Rightarrow> writeQuota \<times> i32" where
  "replenishAdd sz w = (let a = quota w + sz in (w\<lparr>quota := a\<rparr>, a))"

definition replenishNotify :: "i32 \<Rightarrow> i32 \<Rightarrow> writeQuota \<Rightarrow> writeQuota" where
  "replenishNotify a sz w =
     (let b = a - sz in if sint b \<le> 0 \<and> sint a > 0 then w\<lparr>wq_ch := True\<rparr> else w)"

definition realReplenish :: "int \<Rightarrow> writeQuota \<Rightarrow> writeQuota" where
  "realReplenish n w =
     (let sz = word_of_int n; (w1, a) = replenishAdd sz w in replenishNotify a sz w1)"

section \<open>The window of the connection\<close>

record trInFlow =
  tr_limit :: u32
  unacked :: u32
  effectiveWindowSize :: u32

definition updateEffectiveWindowSize :: "trInFlow \<Rightarrow> trInFlow" where
  "updateEffectiveWindowSize f = f\<lparr>effectiveWindowSize := tr_limit f - unacked f\<rparr>"

definition tr_newLimit :: "u32 \<Rightarrow> trInFlow \<Rightarrow> trInFlow \<times> u32" where
  "tr_newLimit n f =
     (let d = n - tr_limit f in (updateEffectiveWindowSize (f\<lparr>tr_limit := n\<rparr>), d))"

definition tr_onData :: "u32 \<Rightarrow> trInFlow \<Rightarrow> trInFlow \<times> u32" where
  "tr_onData n f0 =
     (let f = f0\<lparr>unacked := unacked f0 + n\<rparr> in
      if unacked f \<ge> tr_limit f div 4 then
        let w = unacked f in (updateEffectiveWindowSize (f\<lparr>unacked := 0\<rparr>), w)
      else (updateEffectiveWindowSize f, 0))"

definition tr_reset :: "trInFlow \<Rightarrow> trInFlow \<times> u32" where
  "tr_reset f = (let w = unacked f in (updateEffectiveWindowSize (f\<lparr>unacked := 0\<rparr>), w))"

definition getSize :: "trInFlow \<Rightarrow> u32" where
  "getSize f = effectiveWindowSize f"

section \<open>The window of a stream\<close>

record inFlow =
  limit :: u32
  pendingData :: u32
  pendingUpdate :: u32
  delta :: u32

definition maxWindowSize :: u32 where "maxWindowSize = 0x7fffffff"

definition in_newLimit :: "u32 \<Rightarrow> inFlow \<Rightarrow> inFlow" where
  "in_newLimit n f = f\<lparr>limit := n\<rparr>"

definition maybeAdjust :: "u32 \<Rightarrow> inFlow \<Rightarrow> inFlow \<times> u32" where
  "maybeAdjust n0 f =
     (let n = (if n0 > 0x7fffffff then 0x7fffffff else n0);
          estSenderQuota = sint (limit f - (pendingData f + pendingUpdate f));
          estUntransmittedData = sint (n - pendingData f)
      in if estUntransmittedData > estSenderQuota then
           let d = (if limit f + n > maxWindowSize then maxWindowSize - limit f else n)
           in (f\<lparr>delta := d\<rparr>, d)
         else (f, 0))"

text \<open>The error carries the number of bytes that its message prints.\<close>

definition in_onData :: "u32 \<Rightarrow> inFlow \<Rightarrow> inFlow \<times> u32 option" where
  "in_onData n f0 =
     (let f = f0\<lparr>pendingData := pendingData f0 + n\<rparr> in
      if pendingData f + pendingUpdate f > limit f + delta f
      then (f, Some (pendingData f + pendingUpdate f))
      else (f, None))"

definition in_onRead :: "u32 \<Rightarrow> inFlow \<Rightarrow> inFlow \<times> u32" where
  "in_onRead n0 f0 =
     (if pendingData f0 = 0 then (f0, 0)
      else
        let f1 = f0\<lparr>pendingData := pendingData f0 - n0\<rparr>;
            (n, f2) = (if n0 > delta f1 then (n0 - delta f1, f1\<lparr>delta := 0\<rparr>)
                       else (0, f1\<lparr>delta := delta f1 - n0\<rparr>));
            f3 = f2\<lparr>pendingUpdate := pendingUpdate f2 + n\<rparr>
        in if pendingUpdate f3 \<ge> limit f3 div 4 \<or> pendingUpdate f3 > 64 * 1024
           then (f3\<lparr>pendingUpdate := 0\<rparr>, pendingUpdate f3)
           else (f3, 0))"

section \<open>No lost wake-up\<close>

text \<open>
  The two goroutines that share a quota: the writer of the stream, and the loopy writer, which gives
  back what it has written. \<open>outstanding\<close> counts the bytes consumed and not yet given back; loopy never
  gives back more. \<open>notify\<close> is the pending second half of \<^verbatim>\<open>realReplenish\<close>.
\<close>

record quota_sys =
  sys_wq :: writeQuota
  writer :: wait_pc
  notify :: "(i32 \<times> i32) option"
  outstanding :: int

inductive quota_step :: "quota_sys \<Rightarrow> quota_sys \<Rightarrow> bool" where
  call: "writer s = Returned ok \<Longrightarrow> sint sz \<ge> 0 \<Longrightarrow> quota_step s (s\<lparr>writer := waitOrConsumeQuota sz\<rparr>)"
| wait: "waitStep c (writer s) (sys_wq s) = Some (pc, w) \<Longrightarrow>
    d = (case writer s of Consume sz \<Rightarrow> sint sz | _ \<Rightarrow> 0) \<Longrightarrow>
    quota_step s (s\<lparr>writer := pc, sys_wq := w, outstanding := outstanding s + d\<rparr>)"
| replenish: "notify s = None \<Longrightarrow> 0 \<le> sint sz \<Longrightarrow> sint sz \<le> outstanding s \<Longrightarrow> replenishAdd sz (sys_wq s) = (w, a) \<Longrightarrow>
    quota_step s (s\<lparr>sys_wq := w, notify := Some (a, sz), outstanding := outstanding s - sint sz\<rparr>)"
| notified: "notify s = Some (a, sz) \<Longrightarrow>
    quota_step s (s\<lparr>sys_wq := replenishNotify a sz (sys_wq s), notify := None\<rparr>)"
| close: "quota_step s (s\<lparr>sys_wq := (sys_wq s)\<lparr>wq_done := True\<rparr>\<rparr>)"

inductive quota_reach :: "i32 \<Rightarrow> quota_sys \<Rightarrow> bool" for sz0 where
  start: "quota_reach sz0 \<lparr>sys_wq = newWriteQuota sz0, writer = Returned True, notify = None, outstanding = 0\<rparr>"
| step: "quota_reach sz0 s \<Longrightarrow> quota_step s s' \<Longrightarrow> quota_reach sz0 s'"

inductive_cases quota_stepE: "quota_step s s'"

definition wake_pending :: "quota_sys \<Rightarrow> bool" where
  "wake_pending s \<longleftrightarrow> wq_ch (sys_wq s) \<or>
     (\<exists>a sz. notify s = Some (a, sz) \<and> sint (a - sz) \<le> 0 \<and> sint a > 0)"

text \<open>
  Nothing overflows; what is missing from the initial quota is outstanding; the writer only consumes a
  positive quota; and a writer in the select with quota left has a wake-up on its way.
\<close>

definition quota_inv :: "i32 \<Rightarrow> quota_sys \<Rightarrow> bool" where
  "quota_inv sz0 s \<longleftrightarrow> 0 \<le> outstanding s \<and> sint (quota (sys_wq s)) + outstanding s = sint sz0 \<and>
     (case writer s of
        Load sz \<Rightarrow> sint sz > 0
      | Consume sz \<Rightarrow> sint sz > 0 \<and> sint (quota (sys_wq s)) > 0
      | Select sz \<Rightarrow> sint sz > 0 \<and> (sint (quota (sys_wq s)) > 0 \<longrightarrow> wake_pending s)
      | Returned ok \<Rightarrow> True)"

lemma sint_range: "- (2 ^ 31) \<le> sint (w :: i32)" "sint (w :: i32) < 2 ^ 31"
  using sint_lt [of w] sint_ge [of w] by simp_all

lemma sint_small:
  assumes "unat (w :: i32) < 2147483648"
  shows "sint w = int (unat w)"
proof -
  have "int (unat w) < 2147483648" using assms by linarith
  then have "signed_take_bit 31 (int (unat w)) = int (unat w)"
    by (intro signed_take_bit_int_eq_self) (rule order_trans [of _ 0], simp_all)
  then show ?thesis by (simp add: sint_uint)
qed

lemma sint_add_exact:
  fixes a b :: i32
  assumes "- (2 ^ 31) \<le> sint a + sint b" "sint a + sint b < 2 ^ 31"
  shows "sint (a + b) = sint a + sint b"
  using assms by (simp add: sint_word_ariths signed_take_bit_int_eq_self)

lemma sint_sub_exact:
  fixes a b :: i32
  assumes "- (2 ^ 31) \<le> sint a - sint b" "sint a - sint b < 2 ^ 31"
  shows "sint (a - b) = sint a - sint b"
  using assms by (simp add: sint_word_ariths signed_take_bit_int_eq_self)

lemma quota_inv_step:
  assumes "quota_step s s'" "quota_inv sz0 s"
  shows "quota_inv sz0 s'"
  using assms(1)
proof cases
  case (call ok sz)
  have "sint sz > 0" if "sz \<noteq> 0"
    using call that by (simp add: order_le_less signed_eq_0_iff)
  with assms(2) call show ?thesis
    by (auto simp: quota_inv_def waitOrConsumeQuota_def)
next
  case (wait c pc w d)
  show ?thesis
  proof (cases "writer s")
    case (Load sz)
    with wait assms(2) show ?thesis
      by (auto simp: quota_inv_def wake_pending_def)
  next
    case (Consume sz)
    have "sint (quota (sys_wq s) - sz) = sint (quota (sys_wq s)) - sint sz"
      using assms(2) Consume sint_range [of "quota (sys_wq s)"] sint_range [of sz]
      by (intro sint_sub_exact) (auto simp: quota_inv_def)
    with wait assms(2) Consume show ?thesis
      by (auto simp: quota_inv_def)
  next
    case (Select sz)
    with wait assms(2) show ?thesis
      by (cases c) (auto simp: quota_inv_def split: if_splits)
  next
    case (Returned ok)
    with wait show ?thesis by (cases c) auto
  qed
next
  case (replenish sz w a)
  have add: "sint (quota (sys_wq s) + sz) = sint (quota (sys_wq s)) + sint sz"
    using assms(2) replenish sint_range [of "quota (sys_wq s)"] sint_range [of sz0]
    by (intro sint_add_exact) (auto simp: quota_inv_def)
  with replenish assms(2) show ?thesis
    by (auto simp: quota_inv_def replenishAdd_def wake_pending_def Let_def split: wait_pc.splits)
next
  case (notified a sz)
  with assms(2) show ?thesis
    by (auto simp: quota_inv_def replenishNotify_def wake_pending_def Let_def split: wait_pc.splits)
next
  case close
  with assms(2) show ?thesis
    by (auto simp: quota_inv_def wake_pending_def split: wait_pc.splits)
qed

lemma quota_inv_reach: "quota_reach sz0 s \<Longrightarrow> quota_inv sz0 s"
proof (induction rule: quota_reach.induct)
  case start
  then show ?case by (simp add: quota_inv_def newWriteQuota_def)
qed (rule quota_inv_step)



text \<open>
  C35: No wake-up is lost: a writer that waits in the select while quota is left has a token in the channel or
  a notification on its way, and once everything is given back the writer's own next three steps consume
  the quota and return without an error.
\<close>

theorem write_quota_wakes_writer:
  assumes "quota_reach sz0 s" "writer s = Select n"
  shows "(sint (quota (sys_wq s)) > 0 \<longrightarrow> wake_pending s) \<and>
    (sint sz0 > 0 \<and> outstanding s = 0 \<and> notify s = None \<longrightarrow>
      (\<exists>s'. (quota_step ^^ 3) s s' \<and> writer s' = Returned True \<and> quota (sys_wq s') = quota (sys_wq s) - n))"
proof -
  have inv: "quota_inv sz0 s" by (rule quota_inv_reach [OF assms(1)])
  moreover have "\<exists>s'. (quota_step ^^ 3) s s' \<and> writer s' = Returned True \<and> quota (sys_wq s') = quota (sys_wq s) - n"
    if free: "sint sz0 > 0" "outstanding s = 0" "notify s = None"
  proof -
    have q: "sint (quota (sys_wq s)) > 0" using inv free by (simp add: quota_inv_def)
    then have ch: "wq_ch (sys_wq s)"
      using inv assms(2) free by (auto simp: quota_inv_def wake_pending_def)
    let ?w = "(sys_wq s)\<lparr>wq_ch := False\<rparr>"
    let ?s1 = "s\<lparr>writer := Load n, sys_wq := ?w, outstanding := outstanding s + 0\<rparr>"
    let ?s2 = "?s1\<lparr>writer := Consume n, sys_wq := ?w, outstanding := outstanding s + 0 + 0\<rparr>"
    let ?s3 = "?s2\<lparr>writer := Returned True, sys_wq := ?w\<lparr>quota := quota ?w + (- n)\<rparr>,
      outstanding := outstanding s + 0 + 0 + sint n\<rparr>"
    have "quota_step s ?s1" using ch assms(2) by (intro quota_step.wait [of FromCh]) auto
    moreover have "quota_step ?s1 ?s2" using quota_step.wait [of FromCh ?s1 "Consume n" ?w 0] q by simp
    moreover have "quota_step ?s2 ?s3"
      using quota_step.wait [of FromCh ?s2 "Returned True" "?w\<lparr>quota := quota ?w + (- n)\<rparr>" "sint n"] by simp
    ultimately have "(quota_step ^^ 3) s ?s3"
      by (auto simp: numeral_3_eq_3)
    then show ?thesis by (intro exI [of _ ?s3]) simp
  qed
  ultimately show ?thesis
    using assms(2) by (simp add: quota_inv_def)
qed

text \<open>
  A quota of 1: the writer takes 5 bytes and waits with 3 more; loopy gives the 5 bytes back and
  notifies.
\<close>

theorem write_quota_wakes_writer_witness:
  "\<exists>s. quota_reach 1 s \<and> writer s = Select 3 \<and> (\<exists>s'. (quota_step ^^ 3) s s' \<and> writer s' = Returned True)"
proof -
  let ?st = "\<lambda>q c pc nt out. \<lparr>sys_wq = \<lparr>quota = q, wq_ch = c, wq_done = False\<rparr>, writer = pc, notify = nt, outstanding = out\<rparr>"
  note [simp] = waitOrConsumeQuota_def replenishAdd_def replenishNotify_def
  have "quota_reach 1 (?st 1 False (Returned True) None 0)"
    using quota_reach.start [of 1] by (simp add: newWriteQuota_def)
  then have "quota_reach 1 (?st 1 False (Load 5) None 0)"
    by (rule quota_reach.step) (use quota_step.call [of "?st 1 False (Returned True) None 0" True 5] in simp)
  then have "quota_reach 1 (?st 1 False (Consume 5) None 0)"
    by (rule quota_reach.step) (use quota_step.wait [of FromCh "?st 1 False (Load 5) None 0"] in simp)
  then have "quota_reach 1 (?st (- 4) False (Returned True) None 5)"
    by (rule quota_reach.step) (use quota_step.wait [of FromCh "?st 1 False (Consume 5) None 0"] in simp)
  then have "quota_reach 1 (?st (- 4) False (Load 3) None 5)"
    by (rule quota_reach.step) (use quota_step.call [of "?st (- 4) False (Returned True) None 5" True 3] in simp)
  then have "quota_reach 1 (?st (- 4) False (Select 3) None 5)"
    by (rule quota_reach.step) (use quota_step.wait [of FromCh "?st (- 4) False (Load 3) None 5"] in simp)
  then have "quota_reach 1 (?st 1 False (Select 3) (Some (1, 5)) 0)"
    by (rule quota_reach.step) (use quota_step.replenish [of "?st (- 4) False (Select 3) None 5" 5] in simp)
  then have "quota_reach 1 (?st 1 True (Select 3) None 0)"
    by (rule quota_reach.step) (use quota_step.notified [of "?st 1 False (Select 3) (Some (1, 5)) 0" 1 5] in simp)
  from this write_quota_wakes_writer [OF this, of 3] show ?thesis
    by (intro exI [of _ "?st 1 True (Select 3) None 0"]) auto
qed

section \<open>Windows for what the peer sends\<close>

text \<open>
  Both windows have the same contract: an amount the receiver is ready to take, which data uses up and
  which is raised by exactly what is announced to the peer. Then the peer's own count, which goes down
  by what it sends and up by what is announced to it, is always the same.
\<close>

datatype 'g window_event = Recv u32 | Grant 'g

fun peer_run ::
    "(u32 \<Rightarrow> 'f \<Rightarrow> 'f \<times> u32) \<Rightarrow> ('g \<Rightarrow> 'f \<Rightarrow> bool) \<Rightarrow> ('g \<Rightarrow> 'f \<Rightarrow> 'f \<times> u32) \<Rightarrow>
     'f \<Rightarrow> nat \<Rightarrow> 'g window_event list \<Rightarrow> ('f \<times> nat) option" where
  "peer_run recv allowed grant f peer [] = Some (f, peer)"
| "peer_run recv allowed grant f peer (Recv n # evs) =
     (if unat n \<le> peer
      then peer_run recv allowed grant (fst (recv n f)) (peer - unat n + unat (snd (recv n f))) evs else None)"
| "peer_run recv allowed grant f peer (Grant g # evs) =
     (if allowed g f
      then peer_run recv allowed grant (fst (grant g f)) (peer + unat (snd (grant g f))) evs else None)"

locale receive_window =
  fixes inv :: "'f \<Rightarrow> bool"
    and avail :: "'f \<Rightarrow> nat"
    and recv :: "u32 \<Rightarrow> 'f \<Rightarrow> 'f \<times> u32"
    and allowed :: "'g \<Rightarrow> 'f \<Rightarrow> bool"
    and grant :: "'g \<Rightarrow> 'f \<Rightarrow> 'f \<times> u32"
  assumes recv_inv: "inv f \<Longrightarrow> unat n \<le> avail f \<Longrightarrow> inv (fst (recv n f))"
    and recv_avail: "inv f \<Longrightarrow> unat n \<le> avail f \<Longrightarrow>
      avail (fst (recv n f)) = avail f - unat n + unat (snd (recv n f))"
    and grant_inv: "inv f \<Longrightarrow> allowed g f \<Longrightarrow> inv (fst (grant g f))"
    and grant_avail: "inv f \<Longrightarrow> allowed g f \<Longrightarrow> avail (fst (grant g f)) = avail f + unat (snd (grant g f))"
begin

lemma peer_agrees:
  "inv f \<Longrightarrow> peer = avail f \<Longrightarrow> peer_run recv allowed grant f peer evs = Some (f', peer') \<Longrightarrow>
     inv f' \<and> peer' = avail f'"
proof (induction evs arbitrary: f peer)
  case (Cons ev evs)
  show ?case
  proof (cases ev)
    case (Recv n)
    with Cons.prems have ok: "unat n \<le> avail f"
      "peer_run recv allowed grant (fst (recv n f)) (avail f - unat n + unat (snd (recv n f))) evs = Some (f', peer')"
      by (simp_all split: if_splits)
    from Cons.IH [OF recv_inv recv_avail [symmetric] ok(2)] ok(1) Cons.prems(1) show ?thesis by simp
  next
    case (Grant g)
    with Cons.prems have ok: "allowed g f"
      "peer_run recv allowed grant (fst (grant g f)) (avail f + unat (snd (grant g f))) evs = Some (f', peer')"
      by (simp_all split: if_splits)
    from Cons.IH [OF grant_inv grant_avail [symmetric] ok(2)] ok(1) Cons.prems(1) show ?thesis by simp
  qed
qed simp

end

subsection \<open>The connection\<close>

datatype conn_op = NewLimit u32 | Reset

fun conn_allowed :: "conn_op \<Rightarrow> trInFlow \<Rightarrow> bool" where
  "conn_allowed (NewLimit n) f \<longleftrightarrow> tr_limit f \<le> n"
| "conn_allowed Reset f \<longleftrightarrow> True"

fun conn_grant :: "conn_op \<Rightarrow> trInFlow \<Rightarrow> trInFlow \<times> u32" where
  "conn_grant (NewLimit n) f = tr_newLimit n f"
| "conn_grant Reset f = tr_reset f"

definition conn_inv :: "trInFlow \<Rightarrow> bool" where
  "conn_inv f \<longleftrightarrow> unacked f = 0 \<or> unacked f < tr_limit f div 4"

definition conn_avail :: "trInFlow \<Rightarrow> nat" where
  "conn_avail f = unat (tr_limit f) - unat (unacked f)"

lemma unat_div4: "unat (v div 4 :: u32) = unat v div 4"
  by (simp add: unat_div)

lemma conn_inv_le: "conn_inv f \<Longrightarrow> unat (unacked f) \<le> unat (tr_limit f)"
  by (auto simp: conn_inv_def word_less_nat_alt unat_div4)

lemma unat_sub_small: "b \<le> a \<Longrightarrow> unat (a - b :: u32) = unat a - unat b"
  by (simp add: unat_sub)

lemma tr_onData_unacked:
  assumes "conn_inv f" "unat n \<le> conn_avail f"
  shows "unat (unacked f + n) = unat (unacked f) + unat n"
  using assms conn_inv_le [OF assms(1)] unat_less [of "tr_limit f"]
  by (intro unat_add_small) (simp add: conn_avail_def)

interpretation conn: receive_window conn_inv conn_avail tr_onData conn_allowed conn_grant
proof
  fix f :: trInFlow and n :: u32
  assume f: "conn_inv f" "unat n \<le> conn_avail f"
  note u = tr_onData_unacked [OF f] and le = conn_inv_le [OF f(1)]
  show "conn_inv (fst (tr_onData n f))"
    by (simp add: tr_onData_def conn_inv_def updateEffectiveWindowSize_def Let_def not_le)
  show "conn_avail (fst (tr_onData n f)) = conn_avail f - unat n + unat (snd (tr_onData n f))"
    using u le f(2) by (auto simp: tr_onData_def conn_avail_def updateEffectiveWindowSize_def Let_def)
next
  fix f :: trInFlow and g
  assume f: "conn_inv f" "conn_allowed g f"
  note le = conn_inv_le [OF f(1)]
  show "conn_inv (fst (conn_grant g f))"
  proof (cases g)
    case (NewLimit n)
    then have "unat (tr_limit f) div 4 \<le> unat n div 4"
      using f(2) by (simp add: word_le_nat_alt div_le_mono)
    with NewLimit f show ?thesis
      by (auto simp: tr_newLimit_def conn_inv_def updateEffectiveWindowSize_def word_less_nat_alt unat_div4 Let_def)
  qed (simp add: tr_reset_def conn_inv_def updateEffectiveWindowSize_def)
  show "conn_avail (fst (conn_grant g f)) = conn_avail f + unat (snd (conn_grant g f))"
    using f le
    by (cases g) (auto simp: tr_newLimit_def tr_reset_def conn_avail_def updateEffectiveWindowSize_def unat_sub_small
        word_le_nat_alt Let_def)
qed

subsection \<open>A stream\<close>

datatype stream_op = Adjust u32 | Read u32 | Limit u32

text \<open>
  \<^verbatim>\<open>maybeAdjust\<close> is only called when the last adjustment is used up; the application reads what there is; a
  new limit is not smaller than the old one and leaves room for the extra window.
\<close>

fun stream_allowed :: "stream_op \<Rightarrow> inFlow \<Rightarrow> bool" where
  "stream_allowed (Adjust n) f \<longleftrightarrow> delta f = 0"
| "stream_allowed (Read n) f \<longleftrightarrow> n \<le> pendingData f"
| "stream_allowed (Limit n) f \<longleftrightarrow> limit f \<le> n \<and> unat n + unat (delta f) \<le> unat maxWindowSize"

text \<open>A new limit reaches the peer as a change of its initial window in a SETTINGS frame.\<close>

fun stream_grant :: "stream_op \<Rightarrow> inFlow \<Rightarrow> inFlow \<times> u32" where
  "stream_grant (Adjust n) f = maybeAdjust n f"
| "stream_grant (Read n) f = in_onRead n f"
| "stream_grant (Limit n) f = (in_newLimit n f, n - limit f)"

definition stream_recv :: "u32 \<Rightarrow> inFlow \<Rightarrow> inFlow \<times> u32" where
  "stream_recv n f = (fst (in_onData n f), 0)"

definition stream_inv :: "inFlow \<Rightarrow> bool" where
  "stream_inv f \<longleftrightarrow> unat (limit f) + unat (delta f) \<le> unat maxWindowSize \<and>
     unat (pendingData f) + unat (pendingUpdate f) \<le> unat (limit f) + unat (delta f) \<and>
     (pendingUpdate f = 0 \<or> pendingUpdate f < limit f div 4)"

definition stream_avail :: "inFlow \<Rightarrow> nat" where
  "stream_avail f = unat (limit f) + unat (delta f) - (unat (pendingData f) + unat (pendingUpdate f))"

lemma maxWindow_value: "unat maxWindowSize = 2 ^ 31 - 1"
  by (simp add: maxWindowSize_def)

lemma stream_sums:
  assumes "stream_inv f"
  shows "unat (limit f + delta f) = unat (limit f) + unat (delta f)"
    "unat (pendingData f + pendingUpdate f) = unat (pendingData f) + unat (pendingUpdate f)"
  using assms by (auto simp: stream_inv_def maxWindow_value intro!: unat_add_small)

text \<open>\<^verbatim>\<open>onData\<close> accepts exactly what fits into the window.\<close>

lemma in_onData_iff:
  assumes "stream_inv f" "unat n < 2 ^ 31"
  shows "snd (in_onData n f) = None \<longleftrightarrow> unat n \<le> stream_avail f"
    "unat (pendingData f + n) = unat (pendingData f) + unat n"
proof -
  show pd: "unat (pendingData f + n) = unat (pendingData f) + unat n"
    using assms by (intro unat_add_small) (auto simp: stream_inv_def maxWindow_value)
  have "unat (pendingData f + n + pendingUpdate f) = unat (pendingData f) + unat n + unat (pendingUpdate f)"
    using assms pd by (subst unat_add_small) (auto simp: stream_inv_def maxWindow_value)
  then show "snd (in_onData n f) = None \<longleftrightarrow> unat n \<le> stream_avail f"
    using stream_sums [OF assms(1)] assms(1)
    by (auto simp: in_onData_def stream_avail_def stream_inv_def word_less_nat_alt Let_def)
qed

lemma stream_recv_ok:
  assumes "stream_inv f" "unat n \<le> stream_avail f"
  shows "stream_inv (fst (stream_recv n f)) \<and> stream_avail (fst (stream_recv n f)) = stream_avail f - unat n"
proof -
  have "unat n < 2 ^ 31"
    using assms by (auto simp: stream_inv_def stream_avail_def maxWindow_value)
  from in_onData_iff(2) [OF assms(1) this] assms show ?thesis
    by (auto simp: stream_recv_def in_onData_def stream_inv_def stream_avail_def Let_def)
qed

lemma maybeAdjust_ok:
  assumes "stream_inv f" "delta f = 0"
  shows "stream_inv (fst (maybeAdjust n f)) \<and>
    stream_avail (fst (maybeAdjust n f)) = stream_avail f + unat (snd (maybeAdjust n f))"
proof -
  define m where "m = (if n > 0x7fffffff then 0x7fffffff else n)"
  define d where "d = (if limit f + m > maxWindowSize then maxWindowSize - limit f else m)"
  have m: "unat m \<le> 2 ^ 31 - 1"
    by (auto simp: m_def word_less_nat_alt not_less)
  have l: "unat (limit f) \<le> 2 ^ 31 - 1"
    using assms by (auto simp: stream_inv_def maxWindow_value)
  have sum: "unat (limit f + m) = unat (limit f) + unat m"
    using m l by (intro unat_add_small) simp
  have "unat (maxWindowSize - limit f) = 2 ^ 31 - 1 - unat (limit f)"
    using l by (simp add: unat_sub_small word_le_nat_alt maxWindow_value)
  with sum l have d: "unat (limit f) + unat d \<le> 2 ^ 31 - 1"
    by (auto simp: d_def word_less_nat_alt maxWindow_value)
  have "maybeAdjust n f = (f\<lparr>delta := d\<rparr>, d) \<or> maybeAdjust n f = (f, 0)"
    by (simp add: maybeAdjust_def m_def d_def Let_def)
  with d assms show ?thesis
    by (auto simp: stream_inv_def stream_avail_def maxWindow_value)
qed

lemma in_onRead_ok:
  assumes "stream_inv f" "n \<le> pendingData f"
  shows "stream_inv (fst (in_onRead n f)) \<and>
    stream_avail (fst (in_onRead n f)) = stream_avail f + unat (snd (in_onRead n f))"
proof (cases "pendingData f = 0")
  case False
  define k where "k = (if n > delta f then n - delta f else 0)"
  define e where "e = (if n > delta f then 0 else delta f - n)"
  have pd: "unat (pendingData f - n) = unat (pendingData f) - unat n" "unat n \<le> unat (pendingData f)"
    using assms(2) by (simp_all add: unat_sub_small word_le_nat_alt)
  have ke: "unat k + unat (delta f) = unat n + unat e"
    by (auto simp: k_def e_def unat_sub_small word_less_nat_alt word_le_nat_alt not_less)
  have "unat k \<le> unat n"
    by (auto simp: k_def unat_sub_small word_less_nat_alt word_le_nat_alt)
  then have pu: "unat (pendingUpdate f + k) = unat (pendingUpdate f) + unat k"
    using assms pd(2) by (intro unat_add_small) (auto simp: stream_inv_def maxWindow_value)
  have eq: "in_onRead n f =
      (if pendingUpdate f + k \<ge> limit f div 4 \<or> pendingUpdate f + k > 64 * 1024
       then (f\<lparr>pendingData := pendingData f - n, delta := e, pendingUpdate := 0\<rparr>, pendingUpdate f + k)
       else (f\<lparr>pendingData := pendingData f - n, delta := e, pendingUpdate := pendingUpdate f + k\<rparr>, 0))"
    using False by (simp add: in_onRead_def k_def e_def Let_def)
  have small: "unat e \<le> unat (delta f)"
    by (auto simp: e_def unat_sub_small word_less_nat_alt word_le_nat_alt not_less)
  show ?thesis
    unfolding eq using assms(1) pd ke pu small
    by (auto simp: stream_inv_def stream_avail_def not_le)
qed (use assms in \<open>simp add: in_onRead_def\<close>)

lemma in_newLimit_ok:
  assumes "stream_inv f" "stream_allowed (Limit n) f"
  shows "stream_inv (in_newLimit n f) \<and> stream_avail (in_newLimit n f) = stream_avail f + unat (n - limit f)"
proof -
  have le: "unat (limit f) \<le> unat n" "unat (limit f) div 4 \<le> unat n div 4"
    using assms(2) by (simp_all add: word_le_nat_alt div_le_mono)
  with assms show ?thesis
    by (auto simp: stream_inv_def stream_avail_def in_newLimit_def unat_sub_small word_less_nat_alt word_le_nat_alt unat_div4)
qed

interpretation stream: receive_window stream_inv stream_avail stream_recv stream_allowed stream_grant
proof
  fix f :: inFlow and n :: u32
  assume f: "stream_inv f" "unat n \<le> stream_avail f"
  from stream_recv_ok [OF f]
  show "stream_inv (fst (stream_recv n f))"
    "stream_avail (fst (stream_recv n f)) = stream_avail f - unat n + unat (snd (stream_recv n f))"
    by (simp_all add: stream_recv_def)
next
  fix f :: inFlow and g
  assume "stream_inv f" "stream_allowed g f"
  then have "stream_inv (fst (stream_grant g f)) \<and>
      stream_avail (fst (stream_grant g f)) = stream_avail f + unat (snd (stream_grant g f))"
    using maybeAdjust_ok [of f] in_onRead_ok [of f] in_newLimit_ok [of f] by (cases g) auto
  then show "stream_inv (fst (stream_grant g f))"
    "stream_avail (fst (stream_grant g f)) = stream_avail f + unat (snd (stream_grant g f))" by auto
qed

subsection \<open>Properties\<close>





text \<open>
  A second adjustment overwrites the first, although both were announced to the peer: after two
  adjustments by \<open>n\<close> of an idle stream, a peer that sends what it was granted is refused.
\<close>

theorem double_adjust_refuses_compliant_peer:
  assumes "limit f < n" "unat (limit f) + 2 * unat n < 2 ^ 31" "pendingData f = 0" "pendingUpdate f = 0" "delta f = 0"
    and "maybeAdjust n f = (f1, w1)" "maybeAdjust n f1 = (f2, w2)"
  shows "w1 = n \<and> w2 = n \<and> snd (in_onData (limit f + w1 + w2) f2) \<noteq> None"
proof -
  have l: "unat (limit f) < unat n" using assms(1) by (simp add: word_less_nat_alt)
  have small: "unat (limit f) < 2147483648" "unat n < 2147483648" using l assms(2) by simp_all
  have "unat (limit f + n) = unat (limit f) + unat n"
    using l assms(2) by (intro unat_add_small) simp
  moreover from this have "unat (limit f + n + n) = unat (limit f) + 2 * unat n"
    using assms(2) by (subst unat_add_small) simp_all
  ultimately have sum: "\<not> limit f + n > maxWindowSize" "limit f + n + n > limit f + n"
    using assms(2) l by (simp_all add: word_less_nat_alt maxWindow_value)
  have n: "\<not> n > 0x7fffffff" using small by (simp add: word_less_nat_alt)
  have "maybeAdjust n g = (g\<lparr>delta := n\<rparr>, n)" if "limit g = limit f" "pendingData g = 0" "pendingUpdate g = 0" for g
  proof -
    have "sint (limit f) < sint n" using l small by (simp only: sint_small)
    with that n sum(1) show ?thesis by (simp add: maybeAdjust_def)
  qed
  with assms have "w1 = n" "w2 = n" "f2 = f\<lparr>delta := n\<rparr>" by auto
  then show ?thesis
    using assms(3,4) sum(2) by (simp add: in_onData_def)
qed

theorem double_adjust_refuses_compliant_peer_witness:
  "snd (in_onData (100 + 150 + 150) \<lparr>limit = 100, pendingData = 0, pendingUpdate = 0, delta = 150\<rparr>) \<noteq> None"
proof -
  let ?f = "\<lparr>limit = 100, pendingData = 0, pendingUpdate = 0, delta = 0\<rparr>"
  let ?g = "\<lparr>limit = 100, pendingData = 0, pendingUpdate = 0, delta = 150\<rparr>"
  have "maybeAdjust 150 ?f = (?g, 150)" "maybeAdjust 150 ?g = (?g, 150)"
    by code_simp+
  from double_adjust_refuses_compliant_peer [OF _ _ _ _ _ this] show ?thesis by simp
qed

end
