(* ===== verification/Control_Buffer.thy ===== *)
theory Control_Buffer
  imports Item_List Flow_Control Frame_Types
begin

text \<open>
  The control buffer (\<^verbatim>\<open>h2/controlbuf.go\<close>): the items that the goroutines of a connection hand to the
  loopy writer, the queue they go through, and its throttling. The mutex makes each operation atomic up
  to the channel operations after the unlock, which are separate steps.
\<close>

section \<open>Items\<close>

text \<open>
  Callbacks are represented by whether they are there; that they were called is recorded by whoever
  calls them. \<open>h_initStream\<close> is what the callback answers when it is called. Write quotas are shared
  with the writers of the streams, so that items hold their addresses. The slice of a data frame is
  its bytes \<open>d_d\<close>, with the bytes \<open>d_spare\<close> of the underlying array between its length and its capacity.
\<close>

datatype init_result = InitOk | InitConnClosing | InitOtherError

record cleanupStream =
  c_streamID :: u32
  rst :: bool
  rstCode :: ErrCode
  c_onWrite :: bool

record headerFrame =
  h_streamID :: u32
  h_hf :: "HeaderField list"
  h_endStream :: bool
  h_initStream :: "init_result option"
  h_onWrite :: bool
  h_wq :: "addr option"
  h_cleanup :: "cleanupStream option"
  h_onOrphaned :: bool

record dataFrame =
  d_streamID :: u32
  d_endStream :: bool
  d_d :: bytes
  d_spare :: bytes
  d_start :: int
  d_end :: int
  d_onEachWrite :: bool
  d_onDone :: bool
  d_onDoneFunc :: bool

record goAway =
  g_code :: ErrCode
  g_debugData :: bytes
  g_headsUp :: bool
  g_closeConn :: bool

datatype cbItem =
    RegisterStream u32 "addr option"
  | HeaderItem headerFrame
  | CleanupItem cleanupStream
  | DataItem dataFrame
  | IncomingWindowUpdate u32 u32
  | OutgoingWindowUpdate u32 u32
  | IncomingSettings "Setting list"
  | OutgoingSettings "Setting list"
  | IncomingGoAway
  | GoAwayItem goAway
  | PingItem bool bytes
  | OutFlowControlSizeRequest

fun isTransportResponseFrame :: "cbItem \<Rightarrow> bool" where
  "isTransportResponseFrame (HeaderItem h) = (case h_cleanup h of None \<Rightarrow> False | Some c \<Rightarrow> rst c)"
| "isTransportResponseFrame (CleanupItem c) = rst c"
| "isTransportResponseFrame (IncomingSettings ss) = True"
| "isTransportResponseFrame (PingItem ack d) = True"
| "isTransportResponseFrame _ = False"

definition maxQueuedTransportResponseFrames :: int where
  "maxQueuedTransportResponseFrames = 50"

section \<open>The buffer\<close>

datatype cb_error = ErrConnClosing

text \<open>
  \<open>cb_ch\<close>: the wake-up channel holds its token. The throttling channels have numbers: \<open>trfChan\<close> is the
  current one, those in \<open>closedChans\<close> are closed.
\<close>

record controlBuffer =
  cb_ch :: bool
  cb_done :: bool
  consumerWaiting :: bool
  cb_list :: "cbItem itemList"
  cb_err :: "cb_error option"
  transportResponseFrames :: int
  trfChan :: "nat option"
  freshChan :: nat
  closedChans :: "nat list"

definition newControlBuffer :: controlBuffer where
  "newControlBuffer =
     \<lparr>cb_ch = False, cb_done = False, consumerWaiting = False, cb_list = empty_itemList, cb_err = None,
      transportResponseFrames = 0, trfChan = None, freshChan = 0, closedChans = []\<rparr>"

text \<open>
  \<^verbatim>\<open>throttle\<close> loads the channel and waits until it is closed, or the connection is done:
  \<open>throttleWaits c ch\<close> says that it is still blocked on what it loaded.
\<close>

definition throttleLoad :: "controlBuffer \<Rightarrow> nat option" where
  "throttleLoad c = trfChan c"

definition throttleWaits :: "controlBuffer \<Rightarrow> nat option \<Rightarrow> bool" where
  "throttleWaits c ch = (case ch of None \<Rightarrow> False | Some n \<Rightarrow> n \<notin> set (closedChans c) \<and> \<not> cb_done c)"

text \<open>
  \<^verbatim>\<open>executeAndPut\<close> up to the unlock; \<open>f\<close> runs under the lock, on the state \<open>t\<close> of the transport. The second
  Boolean asks for the wake-up that follows.
\<close>

definition countResponse :: "cbItem \<Rightarrow> controlBuffer \<Rightarrow> controlBuffer" where
  "countResponse item c =
     (if isTransportResponseFrame item then
        let c1 = c\<lparr>transportResponseFrames := transportResponseFrames c + 1\<rparr> in
        if transportResponseFrames c1 = maxQueuedTransportResponseFrames
        then c1\<lparr>trfChan := Some (freshChan c1), freshChan := Suc (freshChan c1)\<rparr>
        else c1
      else c)"

definition executeAndPut ::
    "(cbItem \<Rightarrow> 't \<Rightarrow> 't \<times> bool) option \<Rightarrow> cbItem \<Rightarrow> controlBuffer \<times> 't \<Rightarrow>
     (controlBuffer \<times> 't) \<times> bool \<times> (cb_error + bool)" where
  "executeAndPut f item s =
     (let (c, t) = s in
      case cb_err c of
        Some e \<Rightarrow> ((c, t), False, Inl e)
      | None \<Rightarrow>
          (let (t1, ok) = (case f of None \<Rightarrow> (t, True) | Some g \<Rightarrow> g item t) in
           if \<not> ok then ((c, t1), False, Inr False)
           else
             let c1 = c\<lparr>consumerWaiting := False, cb_list := il_enqueue item (cb_list c)\<rparr>
             in ((countResponse item c1, t1), consumerWaiting c, Inr True)))"

definition cb_put :: "cbItem \<Rightarrow> controlBuffer \<Rightarrow> controlBuffer \<times> bool \<times> cb_error option" where
  "cb_put item c =
     (case executeAndPut None item (c, ()) of
        ((c', _), wake, Inl e) \<Rightarrow> (c', wake, Some e)
      | ((c', _), wake, Inr _) \<Rightarrow> (c', wake, None))"

definition cb_execute ::
    "('i \<Rightarrow> 't \<Rightarrow> 't \<times> bool) \<Rightarrow> 'i \<Rightarrow> controlBuffer \<times> 't \<Rightarrow> 't \<times> (cb_error + bool)" where
  "cb_execute f item s =
     (let (c, t) = s in
      case cb_err c of
        Some e \<Rightarrow> (t, Inl e)
      | None \<Rightarrow> (let (t1, ok) = f item t in (t1, Inr ok)))"

definition wakeUp :: "controlBuffer \<Rightarrow> controlBuffer" where
  "wakeUp c = c\<lparr>cb_ch := True\<rparr>"

text \<open>One round of the loop of \<^verbatim>\<open>get\<close>, under the lock. \<open>GetWait\<close>: on to the select.\<close>

datatype get_result = GetItem cbItem | GetNothing | GetWait | GetError cb_error

definition uncountResponse :: "cbItem \<Rightarrow> controlBuffer \<Rightarrow> controlBuffer" where
  "uncountResponse h c =
     (if isTransportResponseFrame h then
        let c1 = (if transportResponseFrames c = maxQueuedTransportResponseFrames
                  then (case trfChan c of
                          None \<Rightarrow> c
                        | Some ch \<Rightarrow> c\<lparr>closedChans := ch # closedChans c, trfChan := None\<rparr>)
                  else c)
        in c1\<lparr>transportResponseFrames := transportResponseFrames c1 - 1\<rparr>
      else c)"

definition cb_get :: "bool \<Rightarrow> controlBuffer \<Rightarrow> controlBuffer \<times> get_result" where
  "cb_get block c =
     (case cb_err c of
        Some e \<Rightarrow> (c, GetError e)
      | None \<Rightarrow>
          if \<not> il_isEmpty (cb_list c) then
            (case il_dequeue (cb_list c) of
               (l, Some h) \<Rightarrow> (uncountResponse h (c\<lparr>cb_list := l\<rparr>), GetItem h)
             | (l, None) \<Rightarrow> (c, GetNothing))
          else if \<not> block then (c, GetNothing)
          else (c\<lparr>consumerWaiting := True\<rparr>, GetWait))"

text \<open>\<^verbatim>\<open>finish\<close>; the second component lists the headers whose \<^verbatim>\<open>onOrphaned\<close> is called, in order.\<close>

fun orphans :: "cbItem list \<Rightarrow> headerFrame list" where
  "orphans [] = []"
| "orphans (HeaderItem h # xs) = (if h_onOrphaned h then h # orphans xs else orphans xs)"
| "orphans (x # xs) = orphans xs"

definition cb_finish :: "controlBuffer \<Rightarrow> controlBuffer \<times> headerFrame list" where
  "cb_finish c =
     (if cb_err c \<noteq> None then (c, [])
      else
        let (l, h) = il_dequeueAll (cb_list c);
            c1 = c\<lparr>cb_err := Some ErrConnClosing, cb_list := l\<rparr>;
            c2 = (case trfChan c1 of None \<Rightarrow> c1 | Some ch \<Rightarrow> c1\<lparr>closedChans := ch # closedChans c1\<rparr>)
        in (c2\<lparr>trfChan := None\<rparr>, orphans (walk (il_fresh (cb_list c)) (il_store (cb_list c)) h)))"

section \<open>Producers and the consumer\<close>

text \<open>
  The goroutines around a buffer: any number of producers, of which \<open>wakes\<close> are about to send on
  the channel, one consumer (the loopy writer), which is inside the select or not, and the readers
  that wait in \<^verbatim>\<open>throttle\<close>, with what they have loaded. What \<^verbatim>\<open>f\<close> does to the transport does not
  matter here, only what it answers. \<open>taken\<close> and \<open>given\<close> are the histories of
  the items got and put.
\<close>

record cb_sys =
  buf :: controlBuffer
  wakes :: nat
  selecting :: bool
  throttled :: "nat option list"
  given :: "cbItem list"
  taken :: "cbItem list"

definition take_item :: "get_result \<Rightarrow> cb_sys \<Rightarrow> cb_sys" where
  "take_item r s =
     (case r of GetItem h \<Rightarrow> s\<lparr>selecting := False, taken := taken s @ [h]\<rparr>
      | GetWait \<Rightarrow> s\<lparr>selecting := True\<rparr>
      | _ \<Rightarrow> s\<lparr>selecting := False\<rparr>)"

inductive cb_step :: "cb_sys \<Rightarrow> cb_sys \<Rightarrow> bool" where
  put: "executeAndPut f item (buf s, ()) = ((c, ()), wake, Inr True) \<Longrightarrow>
    cb_step s (s\<lparr>buf := c, wakes := wakes s + (if wake then 1 else 0), given := given s @ [item]\<rparr>)"
| put_refused: "executeAndPut f item (buf s, ()) = ((c, ()), wake, r) \<Longrightarrow> r \<noteq> Inr True \<Longrightarrow> cb_step s (s\<lparr>buf := c\<rparr>)"
| wake: "wakes s = Suc n \<Longrightarrow> cb_step s (s\<lparr>buf := wakeUp (buf s), wakes := n\<rparr>)"
| get: "\<not> selecting s \<Longrightarrow> cb_get block (buf s) = (c, r) \<Longrightarrow> cb_step s (take_item r (s\<lparr>buf := c\<rparr>))"
| woken: "selecting s \<Longrightarrow> cb_ch (buf s) \<Longrightarrow> cb_get True ((buf s)\<lparr>cb_ch := False\<rparr>) = (c, r) \<Longrightarrow>
    cb_step s (take_item r (s\<lparr>buf := c\<rparr>))"
| stopped: "selecting s \<Longrightarrow> cb_done (buf s) \<Longrightarrow> cb_step s (s\<lparr>selecting := False\<rparr>)"
| throttle: "cb_step s (s\<lparr>throttled := throttleLoad (buf s) # throttled s\<rparr>)"
| finish: "cb_finish (buf s) = (c, hs) \<Longrightarrow> cb_step s (s\<lparr>buf := c\<rparr>)"
| close: "cb_step s (s\<lparr>buf := (buf s)\<lparr>cb_done := True\<rparr>\<rparr>)"

inductive cb_reach :: "cb_sys \<Rightarrow> bool" where
  start: "cb_reach \<lparr>buf = newControlBuffer, wakes = 0, selecting = False, throttled = [], given = [], taken = []\<rparr>"
| step: "cb_reach s \<Longrightarrow> cb_step s s' \<Longrightarrow> cb_reach s'"

section \<open>Invariant\<close>

definition responses :: "controlBuffer \<Rightarrow> int" where
  "responses c = int (length (filter isTransportResponseFrame (il_items (cb_list c))))"

text \<open>The buffer alone: the counter, and the throttling channel exactly while the limit is reached.\<close>

definition chans :: "nat \<Rightarrow> nat list \<Rightarrow> nat option \<Rightarrow> bool" where
  "chans fresh closed cur \<longleftrightarrow> set closed \<inter> set_option cur = {} \<and> set closed \<union> set_option cur = {..<fresh}"

definition chans_ok :: "controlBuffer \<Rightarrow> bool" where
  "chans_ok c \<longleftrightarrow> chans (freshChan c) (closedChans c) (trfChan c)"

lemma chans_open: "chans n cl None \<Longrightarrow> chans (Suc n) cl (Some n)"
  by (simp add: chans_def lessThan_Suc)

lemma chans_close: "chans n cl (Some ch) \<Longrightarrow> chans n (ch # cl) None"
  by (simp add: chans_def)

definition buffer_ok :: "controlBuffer \<Rightarrow> bool" where
  "buffer_ok c \<longleftrightarrow> il_wf (cb_list c) \<and> chans_ok c \<and>
     (case cb_err c of
        None \<Rightarrow> transportResponseFrames c = responses c \<and>
          (trfChan c \<noteq> None \<longleftrightarrow> responses c \<ge> maxQueuedTransportResponseFrames)
      | Some e \<Rightarrow> trfChan c = None)"

lemma buffer_ok_new: "buffer_ok newControlBuffer"
  by (simp add: buffer_ok_def chans_ok_def chans_def newControlBuffer_def responses_def il.queue_simps
      maxQueuedTransportResponseFrames_def)

lemma buffer_ok_upd [simp]:
  "buffer_ok (c\<lparr>cb_ch := x\<rparr>) = buffer_ok c" "buffer_ok (c\<lparr>consumerWaiting := x\<rparr>) = buffer_ok c"
  "buffer_ok (c\<lparr>cb_done := x\<rparr>) = buffer_ok c"
  by (simp_all add: buffer_ok_def chans_ok_def responses_def split: option.splits)

lemma countResponse_simps [simp]:
  "cb_list (countResponse i c) = cb_list c" "cb_err (countResponse i c) = cb_err c" "cb_ch (countResponse i c) = cb_ch c"
  "consumerWaiting (countResponse i c) = consumerWaiting c" "closedChans (countResponse i c) = closedChans c"
  "cb_done (countResponse i c) = cb_done c"
  by (simp_all add: countResponse_def Let_def)

lemma uncountResponse_simps [simp]:
  "cb_list (uncountResponse i c) = cb_list c" "cb_err (uncountResponse i c) = cb_err c"
  "cb_ch (uncountResponse i c) = cb_ch c" "consumerWaiting (uncountResponse i c) = consumerWaiting c"
  "freshChan (uncountResponse i c) = freshChan c" "cb_done (uncountResponse i c) = cb_done c"
  by (simp_all add: uncountResponse_def Let_def split: option.splits)

lemma uncountResponse_count:
  "transportResponseFrames (uncountResponse h c) = transportResponseFrames c - (if isTransportResponseFrame h then 1 else 0)"
  by (simp add: uncountResponse_def Let_def split: option.splits)

lemma uncountResponse_chans:
  "closedChans (uncountResponse h c) = closedChans c \<and> trfChan (uncountResponse h c) = trfChan c"
  if "\<not> (isTransportResponseFrame h \<and> transportResponseFrames c = 50)"
  using that by (auto simp: uncountResponse_def maxQueuedTransportResponseFrames_def)

lemma uncountResponse_close:
  "closedChans (uncountResponse h c) = ch # closedChans c \<and> trfChan (uncountResponse h c) = None"
  if "isTransportResponseFrame h" "transportResponseFrames c = 50" "trfChan c = Some ch"
  using that by (simp add: uncountResponse_def maxQueuedTransportResponseFrames_def)

lemma put_buffer_ok:
  assumes "buffer_ok c" "cb_err c = None"
  shows "buffer_ok (countResponse i (c\<lparr>consumerWaiting := w, cb_list := il_enqueue i (cb_list c)\<rparr>))"
    (is "buffer_ok ?c")
proof -
  have wf: "il_wf (cb_list c)" using assms(1) by (simp add: buffer_ok_def)
  have r: "responses ?c = responses c + (if isTransportResponseFrame i then 1 else 0)"
    by (simp add: responses_def il.queue_simps wf)
  have n: "transportResponseFrames ?c = transportResponseFrames c + (if isTransportResponseFrame i then 1 else 0)"
    by (simp add: countResponse_def Let_def)
  have old: "transportResponseFrames c = responses c" "trfChan c \<noteq> None \<longleftrightarrow> responses c \<ge> 50" "chans_ok c"
    using assms by (simp_all add: buffer_ok_def maxQueuedTransportResponseFrames_def)
  have "chans_ok ?c \<and> (trfChan ?c \<noteq> None \<longleftrightarrow> responses ?c \<ge> 50)"
  proof (cases "isTransportResponseFrame i \<and> responses c = 49")
    case True
    then have "trfChan c = None" using old(2) by simp
    with True old(1,3) r chans_open show ?thesis
      by (simp add: countResponse_def chans_ok_def maxQueuedTransportResponseFrames_def)
  next
    case False
    then have "trfChan ?c = trfChan c" "freshChan ?c = freshChan c"
      using old(1) by (auto simp: countResponse_def maxQueuedTransportResponseFrames_def)
    with False old r show ?thesis by (auto simp: chans_ok_def)
  qed
  with n r old(1) wf assms(2) show ?thesis
    by (simp add: buffer_ok_def il.queue_simps maxQueuedTransportResponseFrames_def)
qed

lemma get_buffer_ok:
  assumes "buffer_ok c" "cb_err c = None" "il_items (cb_list c) = h # xs"
  shows "buffer_ok (uncountResponse h (c\<lparr>cb_list := fst (il_dequeue (cb_list c))\<rparr>))"
proof -
  define c1 where "c1 = c\<lparr>cb_list := fst (il_dequeue (cb_list c))\<rparr>"
  let ?c = "uncountResponse h c1"
  have wf: "il_wf (cb_list c)" using assms(1) by (simp add: buffer_ok_def)
  have c1: "trfChan c1 = trfChan c" "closedChans c1 = closedChans c" "freshChan c1 = freshChan c" "cb_err c1 = None"
    "transportResponseFrames c1 = transportResponseFrames c" "il_wf (cb_list c1)"
    using assms(2) wf by (simp_all add: c1_def il.queue_simps)
  have r: "responses c = responses ?c + (if isTransportResponseFrame h then 1 else 0)"
    by (simp add: responses_def c1_def il.queue_simps wf assms(3))
  have old: "transportResponseFrames c = responses c" "trfChan c \<noteq> None \<longleftrightarrow> responses c \<ge> 50" "chans_ok c"
    using assms by (simp_all add: buffer_ok_def maxQueuedTransportResponseFrames_def)
  have "chans_ok ?c \<and> (trfChan ?c \<noteq> None \<longleftrightarrow> responses ?c \<ge> 50)"
  proof (cases "isTransportResponseFrame h \<and> responses c = 50")
    case True
    then obtain ch where "trfChan c = Some ch" using old(2) by auto
    moreover have "responses ?c = 49" using True r by (auto split: if_splits)
    ultimately show ?thesis
      using True old(1,3) uncountResponse_close [of h c1 ch] chans_close by (simp add: chans_ok_def c1)
  next
    case False
    with old r uncountResponse_chans [of h c1] show ?thesis by (auto simp: chans_ok_def c1)
  qed
  moreover have "transportResponseFrames ?c = responses ?c"
    using r old(1) by (simp add: uncountResponse_count c1)
  ultimately have "buffer_ok ?c"
    using c1 by (simp add: buffer_ok_def maxQueuedTransportResponseFrames_def)
  then show ?thesis by (simp add: c1_def)
qed

lemma finish_buffer_ok:
  assumes "buffer_ok c" "cb_finish c = (c', hs)"
  shows "buffer_ok c' \<and> cb_err c' \<noteq> None \<and> freshChan c' = freshChan c \<and> set (closedChans c) \<subseteq> set (closedChans c')"
proof (cases "cb_err c")
  case None
  let ?cl = "case trfChan c of None \<Rightarrow> closedChans c | Some ch \<Rightarrow> ch # closedChans c"
  have c': "cb_list c' = fst (il_dequeueAll (cb_list c))" "cb_err c' = Some ErrConnClosing" "trfChan c' = None"
    "freshChan c' = freshChan c" "closedChans c' = ?cl"
    using assms(2) None by (auto simp: cb_finish_def Let_def split: prod.splits option.splits)
  have "chans (freshChan c) ?cl None"
    using assms(1) chans_close by (auto simp: buffer_ok_def chans_ok_def split: option.splits)
  moreover have "il_wf (fst (il_dequeueAll (cb_list c)))"
    using assms(1) il_dequeueAll_ok(1) [of "cb_list c"] unfolding buffer_ok_def by blast
  ultimately show ?thesis
    using c' by (auto simp: buffer_ok_def chans_ok_def split: option.splits)
qed (use assms in \<open>auto simp: cb_finish_def\<close>)

text \<open>The whole system.\<close>

definition cb_inv :: "cb_sys \<Rightarrow> bool" where
  "cb_inv s \<longleftrightarrow> buffer_ok (buf s) \<and>
     (\<forall>n. Some n \<in> set (throttled s) \<longrightarrow> n < freshChan (buf s)) \<and>
     (cb_err (buf s) = None \<longrightarrow>
        given s = taken s @ il_items (cb_list (buf s)) \<and>
        (selecting s \<longrightarrow>
           (if consumerWaiting (buf s) then il_items (cb_list (buf s)) = [] else cb_ch (buf s) \<or> wakes s > 0)))"

lemma put_cases:
  assumes "executeAndPut f item (c, ()) = ((c', ()), wake, r)"
  shows "(r = Inr True \<and> cb_err c = None \<and> wake = consumerWaiting c \<and>
      c' = countResponse item (c\<lparr>consumerWaiting := False, cb_list := il_enqueue item (cb_list c)\<rparr>)) \<or>
    (r \<noteq> Inr True \<and> c' = c \<and> \<not> wake)"
  using assms by (auto simp: executeAndPut_def Let_def split: option.splits prod.splits if_splits)

lemma get_cases:
  assumes "buffer_ok c" "cb_get block c = (c', r)"
  shows "(\<exists>h xs. r = GetItem h \<and> cb_err c = None \<and> il_items (cb_list c) = h # xs \<and>
      c' = uncountResponse h (c\<lparr>cb_list := fst (il_dequeue (cb_list c))\<rparr>)) \<or>
    (r = GetWait \<and> cb_err c = None \<and> il_items (cb_list c) = [] \<and> c' = c\<lparr>consumerWaiting := True\<rparr>) \<or>
    ((r = GetNothing \<or> (\<exists>e. r = GetError e)) \<and> c' = c)"
proof -
  have "il_wf (cb_list c)" using assms(1) by (simp add: buffer_ok_def)
  then show ?thesis
    using assms(2) il.deq_value [of "cb_list c"] il.empty_iff [of "cb_list c"]
    by (cases "il_items (cb_list c)") (auto simp: cb_get_def split: option.splits prod.splits if_splits)
qed

lemma get_keeps_inv:
  assumes inv: "buffer_ok c" "cb_err c = None \<longrightarrow> given s = taken s @ il_items (cb_list c)"
      "\<forall>n. Some n \<in> set (throttled s) \<longrightarrow> n < freshChan c"
    and g: "cb_get block c = (c', r)"
  shows "cb_inv (take_item r (s\<lparr>buf := c'\<rparr>))"
proof -
  have wf: "il_wf (cb_list c)" using inv(1) by (simp add: buffer_ok_def)
  show ?thesis
    using get_cases [OF inv(1) g]
  proof (elim disjE exE conjE)
    fix h xs
    assume 1: "r = GetItem h" "cb_err c = None" "il_items (cb_list c) = h # xs"
      "c' = uncountResponse h (c\<lparr>cb_list := fst (il_dequeue (cb_list c))\<rparr>)"
    with inv get_buffer_ok [OF inv(1) 1(2,3)] wf show ?thesis
      by (simp add: cb_inv_def take_item_def il.queue_simps)
  qed (use inv in \<open>auto simp: cb_inv_def take_item_def\<close>)
qed

lemma countResponse_fresh: "freshChan c \<le> freshChan (countResponse i c)"
  by (simp add: countResponse_def Let_def)

lemma cb_inv_step:
  assumes "cb_step s s'" "cb_inv s"
  shows "cb_inv s'"
  using assms(1)
proof cases
  case (put f item c wake)
  have p: "cb_err (buf s) = None" "wake = consumerWaiting (buf s)"
    "c = countResponse item ((buf s)\<lparr>consumerWaiting := False, cb_list := il_enqueue item (cb_list (buf s))\<rparr>)"
    using put_cases [OF put(2)] by auto
  have wf: "il_wf (cb_list (buf s))" "buffer_ok (buf s)" using assms(2) by (simp_all add: cb_inv_def buffer_ok_def)
  have fresh: "freshChan (buf s) \<le> freshChan c"
    using countResponse_fresh p(3) by (metis controlBuffer.select_convs(8) controlBuffer.surjective controlBuffer.update_convs(3,4))
  have "given s' = taken s' @ il_items (cb_list (buf s'))"
    using put(1) p assms(2) wf(1) by (simp add: cb_inv_def il.queue_simps)
  moreover have "selecting s' \<longrightarrow> (if consumerWaiting (buf s') then il_items (cb_list (buf s')) = []
      else cb_ch (buf s') \<or> wakes s' > 0)"
    using put(1) p assms(2) by (auto simp: cb_inv_def split: if_splits)
  moreover have "\<forall>n. Some n \<in> set (throttled s') \<longrightarrow> n < freshChan (buf s')"
    using put(1) fresh assms(2) by (auto simp: cb_inv_def intro: less_le_trans)
  ultimately show ?thesis
    using put(1) put_buffer_ok [OF wf(2) p(1), of item False] p(3) by (simp add: cb_inv_def)
next
  case (put_refused f item c wake r)
  with put_cases [OF put_refused(2)] assms(2) show ?thesis by simp
next
  case (wake n)
  with assms(2) show ?thesis
    by (simp add: cb_inv_def wakeUp_def)
next
  case (get block c r)
  show ?thesis
    unfolding get(1) by (rule get_keeps_inv [OF _ _ _ get(3)]) (use assms(2) in \<open>simp_all add: cb_inv_def\<close>)
next
  case (woken c r)
  show ?thesis
    unfolding woken(1) by (rule get_keeps_inv [OF _ _ _ woken(4)]) (use assms(2) in \<open>simp_all add: cb_inv_def\<close>)
next
  case stopped
  with assms(2) show ?thesis by (simp add: cb_inv_def)
next
  case throttle
  have "chans_ok (buf s)" using assms(2) by (simp add: cb_inv_def buffer_ok_def)
  then have "n < freshChan (buf s)" if "trfChan (buf s) = Some n" for n
    using that by (auto simp: chans_ok_def chans_def)
  with throttle assms(2) show ?thesis by (auto simp: cb_inv_def throttleLoad_def)
next
  case (finish c hs)
  with assms(2) finish_buffer_ok [of "buf s" c hs] show ?thesis by (auto simp: cb_inv_def)
next
  case close
  with assms(2) show ?thesis by (simp add: cb_inv_def)
qed

lemma cb_reach_inv: "cb_reach s \<Longrightarrow> cb_inv s"
proof (induction rule: cb_reach.induct)
  case start
  show ?case
    using buffer_ok_new by (simp add: cb_inv_def newControlBuffer_def il.queue_simps)
qed (rule cb_inv_step)

text \<open>Reachable states for any contents.\<close>

lemma put_ok:
  "cb_err c = None \<Longrightarrow> executeAndPut None x (c, ()) =
     ((countResponse x (c\<lparr>consumerWaiting := False, cb_list := il_enqueue x (cb_list c)\<rparr>), ()), consumerWaiting c, Inr True)"
  by (simp add: executeAndPut_def Let_def)

lemma reach_puts:
  "cb_reach s \<Longrightarrow> cb_err (buf s) = None \<Longrightarrow> \<exists>s'. cb_reach s' \<and> cb_err (buf s') = None \<and>
     il_items (cb_list (buf s')) = il_items (cb_list (buf s)) @ xs \<and> selecting s' = selecting s \<and>
     cb_done (buf s') = cb_done (buf s) \<and> taken s' = taken s"
proof (induction xs arbitrary: s)
  case (Cons x xs)
  have wf: "il_wf (cb_list (buf s))"
    using cb_reach_inv [OF Cons.prems(1)] by (simp add: cb_inv_def buffer_ok_def)
  let ?c = "countResponse x ((buf s)\<lparr>consumerWaiting := False, cb_list := il_enqueue x (cb_list (buf s))\<rparr>)"
  let ?s = "s\<lparr>buf := ?c, wakes := wakes s + (if consumerWaiting (buf s) then 1 else 0), given := given s @ [x]\<rparr>"
  have "cb_reach ?s"
    by (rule cb_reach.step [OF Cons.prems(1) cb_step.put [OF put_ok [OF Cons.prems(2)]]])
  from Cons.IH [OF this] Cons.prems(2) wf show ?case by (auto simp: il.queue_simps)
qed (rule exI, auto)

lemmas cb_start_simps = newControlBuffer_def il.queue_simps

section \<open>Properties\<close>

text \<open>
  C36: While the connection lives, the control buffer is a first-in first-out queue for any interleaving of
  producers and the consumer: what was put is what was got, followed by what the linked list holds.
\<close>

theorem control_buffer_fifo:
  assumes "cb_reach s" "cb_err (buf s) = None"
  shows "given s = taken s @ il_items (cb_list (buf s))"
  using cb_reach_inv [OF assms(1)] assms(2) by (simp add: cb_inv_def)

theorem control_buffer_fifo_witness:
  "\<exists>s. cb_reach s \<and> given s = [] @ [PingItem True [], IncomingGoAway]"
proof -
  obtain s where s: "cb_reach s" "cb_err (buf s) = None" "il_items (cb_list (buf s)) = [PingItem True [], IncomingGoAway]"
    "taken s = []"
    using reach_puts [OF cb_reach.start, of "[PingItem True [], IncomingGoAway]"] by (auto simp: cb_start_simps)
  with control_buffer_fifo [OF s(1,2)] show ?thesis by auto
qed

text \<open>
  C37: No wake-up is lost: when the consumer waits in \<^verbatim>\<open>get\<close> although there are items, the channel holds a
  token or a producer is about to send one.
\<close>

theorem control_buffer_wakes_consumer:
  assumes "cb_reach s" "cb_err (buf s) = None" "selecting s" "il_items (cb_list (buf s)) \<noteq> []"
  shows "cb_ch (buf s) \<or> wakes s > 0"
  using cb_reach_inv [OF assms(1)] assms(2-4) by (auto simp: cb_inv_def split: if_splits)

theorem control_buffer_wakes_consumer_witness:
  "\<exists>s. cb_reach s \<and> selecting s \<and> il_items (cb_list (buf s)) = [IncomingGoAway] \<and> (cb_ch (buf s) \<or> wakes s > 0)"
proof -
  let ?s0 = "\<lparr>buf = newControlBuffer, wakes = 0, selecting = False, throttled = [], given = [], taken = []\<rparr>"
  let ?s1 = "take_item GetWait (?s0\<lparr>buf := newControlBuffer\<lparr>consumerWaiting := True\<rparr>\<rparr>)"
  have "cb_get True (buf ?s0) = (newControlBuffer\<lparr>consumerWaiting := True\<rparr>, GetWait)"
    by (simp add: cb_get_def cb_start_simps)
  then have "cb_reach ?s1"
    by (intro cb_reach.step [OF cb_reach.start cb_step.get]) simp_all
  then obtain s where s: "cb_reach s" "cb_err (buf s) = None" "il_items (cb_list (buf s)) = [IncomingGoAway]" "selecting s"
    using reach_puts [of ?s1 "[IncomingGoAway]"] by (auto simp: cb_start_simps take_item_def)
  with control_buffer_wakes_consumer [OF s(1,2,4)] show ?thesis by auto
qed



end
