(* ===== verification/Out_Streams.thy ===== *)
theory Out_Streams
  imports Control_Buffer
begin

text \<open>
  The outgoing streams of the loopy writer and their list (\<^verbatim>\<open>outStream\<close>, \<^verbatim>\<open>outStreamList\<close> of
  \<^verbatim>\<open>h2/controlbuf.go\<close>): a doubly linked list between two sentinels, from which a stream can remove
  itself. The streams live in a heap, since the map of established streams and the list share them.
\<close>

section \<open>Streams and lists\<close>

datatype outStreamState = active | empty_stream | waitingOnStreamQuota

record outStream =
  os_id :: u32
  os_state :: outStreamState
  itl :: "cbItem itemList"
  bytesOutStanding :: int
  os_wq :: "addr option"
  os_next :: "addr option"
  os_prev :: "addr option"

type_synonym os_heap = "addr \<Rightarrow> outStream"

definition zero_outStream :: outStream where
  "zero_outStream = \<lparr>os_id = 0, os_state = active, itl = empty_itemList, bytesOutStanding = 0, os_wq = None,
     os_next = None, os_prev = None\<rparr>"

definition set_os_next :: "addr \<Rightarrow> addr option \<Rightarrow> os_heap \<Rightarrow> os_heap" where
  "set_os_next a p h = h(a := (h a)\<lparr>os_next := p\<rparr>)"

definition set_os_prev :: "addr \<Rightarrow> addr option \<Rightarrow> os_heap \<Rightarrow> os_heap" where
  "set_os_prev a p h = h(a := (h a)\<lparr>os_prev := p\<rparr>)"

definition deleteSelf :: "addr \<Rightarrow> os_heap \<Rightarrow> os_heap" where
  "deleteSelf s h =
     (let h1 = (case os_prev (h s) of None \<Rightarrow> h | Some p \<Rightarrow> set_os_next p (os_next (h s)) h);
          h2 = (case os_next (h1 s) of None \<Rightarrow> h1 | Some n \<Rightarrow> set_os_prev n (os_prev (h1 s)) h1)
      in set_os_prev s None (set_os_next s None h2))"

record outStreamList =
  osl_head :: addr
  osl_tail :: addr

text \<open>The sentinels of a new list are two new objects, here at the addresses \<open>a\<close> and \<open>b\<close>.\<close>

definition newOutStreamList :: "addr \<Rightarrow> addr \<Rightarrow> os_heap \<Rightarrow> os_heap \<times> outStreamList" where
  "newOutStreamList a b h =
     (set_os_prev b (Some a) (set_os_next a (Some b) (h(a := zero_outStream, b := zero_outStream))),
      \<lparr>osl_head = a, osl_tail = b\<rparr>)"

text \<open>\<open>None\<close>: a nil pointer is dereferenced.\<close>

definition osl_enqueue :: "outStreamList \<Rightarrow> addr \<Rightarrow> os_heap \<Rightarrow> os_heap option" where
  "osl_enqueue l s h =
     (case os_prev (h (osl_tail l)) of
        None \<Rightarrow> None
      | Some e \<Rightarrow>
          Some (set_os_prev (osl_tail l) (Some s)
                  (set_os_next s (Some (osl_tail l)) (set_os_prev s (Some e) (set_os_next e (Some s) h)))))"

definition osl_dequeue :: "outStreamList \<Rightarrow> os_heap \<Rightarrow> (os_heap \<times> addr option) option" where
  "osl_dequeue l h =
     (case os_next (h (osl_head l)) of
        None \<Rightarrow> None
      | Some b \<Rightarrow> Some (if b = osl_tail l then (h, None) else (deleteSelf b h, Some b)))"

section \<open>The list that the links represent\<close>

fun seg :: "os_heap \<Rightarrow> addr \<Rightarrow> addr list \<Rightarrow> addr \<Rightarrow> bool" where
  "seg h p [] q \<longleftrightarrow> os_next (h p) = Some q \<and> os_prev (h q) = Some p"
| "seg h p (x # xs) q \<longleftrightarrow> os_next (h p) = Some x \<and> os_prev (h x) = Some p \<and> seg h x xs q"

definition osl_repr :: "outStreamList \<Rightarrow> os_heap \<Rightarrow> addr list \<Rightarrow> bool" where
  "osl_repr l h xs \<longleftrightarrow> seg h (osl_head l) xs (osl_tail l) \<and> distinct (osl_head l # osl_tail l # xs)"

text \<open>Only links differ.\<close>

definition same_data :: "os_heap \<Rightarrow> os_heap \<Rightarrow> bool" where
  "same_data h h' \<longleftrightarrow> (\<forall>a. os_id (h' a) = os_id (h a) \<and> os_state (h' a) = os_state (h a) \<and> itl (h' a) = itl (h a) \<and>
     bytesOutStanding (h' a) = bytesOutStanding (h a) \<and> os_wq (h' a) = os_wq (h a))"

definition unlinked :: "os_heap \<Rightarrow> addr \<Rightarrow> bool" where
  "unlinked h a \<longleftrightarrow> os_next (h a) = None \<and> os_prev (h a) = None"

lemma set_links [simp]:
  "os_next (set_os_next a p h b) = (if b = a then p else os_next (h b))" "os_prev (set_os_next a p h b) = os_prev (h b)"
  "os_prev (set_os_prev a p h b) = (if b = a then p else os_prev (h b))" "os_next (set_os_prev a p h b) = os_next (h b)"
  by (simp_all add: set_os_next_def set_os_prev_def)

lemma same_data_links [simp]: "same_data h (set_os_next a p h')  = same_data h h'" "same_data h (set_os_prev a p h') = same_data h h'"
  by (auto simp: same_data_def set_os_next_def set_os_prev_def)

lemma same_data_refl [simp]: "same_data h h"
  by (simp add: same_data_def)

lemma seg_split: "seg h p (xs @ x # ys) q \<longleftrightarrow> seg h p xs x \<and> seg h x ys q"
  by (induction xs arbitrary: p) auto

text \<open>A segment only depends on the next links of its beginning and the previous links of its end.\<close>

lemma seg_cong:
  "(\<And>a. a \<in> set (p # xs) \<Longrightarrow> os_next (h' a) = os_next (h a)) \<Longrightarrow>
   (\<And>a. a \<in> set (q # xs) \<Longrightarrow> os_prev (h' a) = os_prev (h a)) \<Longrightarrow> seg h' p xs q = seg h p xs q"
proof (induction xs arbitrary: p)
  case (Cons x xs)
  have "seg h' x xs q = seg h x xs q"
    by (rule Cons.IH) (use Cons.prems in auto)
  with Cons.prems show ?case by simp
qed simp

lemma seg_prev_last: "seg h p xs q \<Longrightarrow> os_prev (h q) = Some (if xs = [] then p else last xs)"
  by (induction xs arbitrary: p) auto

lemma osl_new:
  assumes "a \<noteq> b" "newOutStreamList a b h = (h', l)"
  shows "osl_repr l h' []"
  using assms by (auto simp: newOutStreamList_def osl_repr_def)

lemma osl_enqueue_ok:
  assumes "osl_repr l h xs" "s \<notin> {osl_head l, osl_tail l} \<union> set xs"
  shows "\<exists>h'. osl_enqueue l s h = Some h' \<and> osl_repr l h' (xs @ [s]) \<and> same_data h h' \<and>
    (\<forall>a. a \<notin> {osl_head l, osl_tail l, s} \<union> set xs \<longrightarrow> h' a = h a)"
proof -
  let ?e = "if xs = [] then osl_head l else last xs"
  have sg: "seg h (osl_head l) xs (osl_tail l)" and dist: "distinct (osl_head l # osl_tail l # xs)"
    using assms(1) by (simp_all add: osl_repr_def)
  note e = seg_prev_last [OF sg]
  define h' where "h' = set_os_prev (osl_tail l) (Some s)
    (set_os_next s (Some (osl_tail l)) (set_os_prev s (Some ?e) (set_os_next ?e (Some s) h)))"
  have enq: "osl_enqueue l s h = Some h'"
    using e by (simp add: osl_enqueue_def h'_def)
  have "seg h' (osl_head l) (xs @ [s]) (osl_tail l)"
  proof (cases xs rule: rev_cases)
    case Nil
    with assms(2) dist show ?thesis by (simp add: h'_def)
  next
    case (snoc ys y)
    have "seg h' (osl_head l) ys y = seg h (osl_head l) ys y"
      using dist assms(2) snoc by (intro seg_cong) (auto simp: h'_def)
    with sg snoc dist assms(2) show ?thesis
      by (simp add: seg_split) (auto simp: h'_def)
  qed
  moreover have "h' a = h a" if "a \<notin> {osl_head l, osl_tail l, s} \<union> set xs" for a
    using that by (auto simp: h'_def set_os_next_def set_os_prev_def)
  ultimately show ?thesis
    using enq dist assms(2) by (auto simp: osl_repr_def h'_def)
qed

lemma seg_next_first: "seg h p xs q \<Longrightarrow> os_next (h p) = Some (if xs = [] then q else hd xs)"
  by (cases xs) auto

text \<open>Linking the last node of one segment to the first node of another.\<close>

lemma seg_relink_left:
  assumes "seg h p xs s" "distinct (p # xs)" "q \<notin> set xs" "q \<noteq> p"
    "\<And>a. a \<in> set (p # xs) \<Longrightarrow> a \<noteq> (if xs = [] then p else last xs) \<Longrightarrow> os_next (h' a) = os_next (h a)"
    "\<And>a. a \<in> set xs \<Longrightarrow> os_prev (h' a) = os_prev (h a)"
    "os_next (h' (if xs = [] then p else last xs)) = Some q" "os_prev (h' q) = Some (if xs = [] then p else last xs)"
  shows "seg h' p xs q"
  using assms
proof (cases xs rule: rev_cases)
  case (snoc ys y)
  have "seg h' p ys y = seg h p ys y"
    using assms(2,5,6) snoc by (intro seg_cong) auto
  with assms snoc show ?thesis by (simp add: seg_split)
qed simp

lemma deleteSelf_ok:
  assumes "osl_repr l h (xs @ s # ys)"
  shows "osl_repr l (deleteSelf s h) (xs @ ys) \<and> same_data h (deleteSelf s h) \<and> unlinked (deleteSelf s h) s \<and>
    (\<forall>a. a \<notin> {osl_head l, osl_tail l} \<union> set (xs @ s # ys) \<longrightarrow> deleteSelf s h a = h a)"
proof -
  define p n where "p = (if xs = [] then osl_head l else last xs)" and "n = (if ys = [] then osl_tail l else hd ys)"
  have sg: "seg h (osl_head l) xs s" "seg h s ys (osl_tail l)" and dist: "distinct (osl_head l # osl_tail l # xs @ s # ys)"
    using assms by (simp_all add: osl_repr_def seg_split)
  have links: "os_prev (h s) = Some p" "os_next (h s) = Some n"
    using seg_prev_last [OF sg(1)] seg_next_first [OF sg(2)] by (simp_all add: p_def n_def)
  have pn: "p \<in> insert (osl_head l) (set xs)" "n \<in> insert (osl_tail l) (set ys)"
    by (auto simp: p_def n_def)
  then have ne: "p \<noteq> s" "n \<noteq> s" "p \<noteq> n" using dist by auto
  define h' where "h' = set_os_prev s None (set_os_next s None (set_os_prev n (Some p) (set_os_next p (Some n) h)))"
  have del: "deleteSelf s h = h'"
    using links ne by (simp add: deleteSelf_def h'_def Let_def)
  have nx: "os_next (h' a) = (if a = s then None else if a = p then Some n else os_next (h a))"
    and pv: "os_prev (h' a) = (if a = s then None else if a = n then Some p else os_prev (h a))" for a
    by (simp_all add: h'_def)
  have left: "seg h' (osl_head l) xs n"
    by (rule seg_relink_left [OF sg(1)]) (use dist pn ne in \<open>auto simp: nx pv simp flip: p_def\<close>)
  have "seg h' (osl_head l) (xs @ ys) (osl_tail l)"
  proof (cases ys)
    case Nil
    with left show ?thesis by (simp add: n_def)
  next
    case (Cons y zs)
    have "seg h' y zs (osl_tail l) = seg h y zs (osl_tail l)"
      using dist pn(1) Cons by (intro seg_cong) (auto simp: nx pv n_def)
    with left sg(2) Cons show ?thesis by (simp add: seg_split n_def)
  qed
  moreover have "h' a = h a" if "a \<notin> {osl_head l, osl_tail l} \<union> set (xs @ s # ys)" for a
  proof -
    from that pn have "a \<noteq> p" "a \<noteq> n" "a \<noteq> s" by auto
    then show ?thesis by (simp add: h'_def set_os_next_def set_os_prev_def)
  qed
  moreover have "unlinked h' s" "same_data h h'" by (simp_all add: h'_def unlinked_def)
  ultimately show ?thesis
    using dist unfolding del by (simp add: osl_repr_def)
qed

lemma deleteSelf_unlinked: "unlinked h s \<Longrightarrow> deleteSelf s h = h"
  by (auto simp: deleteSelf_def unlinked_def set_os_next_def set_os_prev_def fun_eq_iff)

lemma osl_dequeue_ok:
  assumes "osl_repr l h xs"
  shows "case xs of
    [] \<Rightarrow> osl_dequeue l h = Some (h, None)
  | x # ys \<Rightarrow> (\<exists>h'. osl_dequeue l h = Some (h', Some x) \<and> osl_repr l h' ys \<and> same_data h h' \<and> unlinked h' x \<and>
      (\<forall>a. a \<notin> {osl_head l, osl_tail l} \<union> set xs \<longrightarrow> h' a = h a))"
proof (cases xs)
  case (Cons x ys)
  with assms deleteSelf_ok [of l h "[]" x ys] show ?thesis
    by (auto simp: osl_dequeue_def osl_repr_def)
qed (use assms in \<open>simp add: osl_dequeue_def osl_repr_def\<close>)

section \<open>The contract of a list of streams\<close>

text \<open>
  What the scheduler relies on: appending a stream that is not in the list, taking the first one, and
  removing one wherever it is.
\<close>

locale stream_list =
  fixes repr :: "'l \<Rightarrow> 'h \<Rightarrow> addr list \<Rightarrow> bool"
    and outside :: "'l \<Rightarrow> addr \<Rightarrow> bool"
    and free :: "'h \<Rightarrow> addr \<Rightarrow> bool"
    and same :: "'h \<Rightarrow> 'h \<Rightarrow> bool"
    and enq :: "'l \<Rightarrow> addr \<Rightarrow> 'h \<Rightarrow> 'h option"
    and deq :: "'l \<Rightarrow> 'h \<Rightarrow> ('h \<times> addr option) option"
    and del :: "addr \<Rightarrow> 'h \<Rightarrow> 'h"
  assumes enq: "repr l h xs \<Longrightarrow> outside l s \<Longrightarrow> s \<notin> set xs \<Longrightarrow>
      \<exists>h'. enq l s h = Some h' \<and> repr l h' (xs @ [s]) \<and> same h h' \<and>
        (\<forall>a. outside l a \<and> a \<noteq> s \<and> a \<notin> set xs \<and> free h a \<longrightarrow> free h' a)"
    and deq_nil: "repr l h [] \<Longrightarrow> deq l h = Some (h, None)"
    and deq_cons: "repr l h (x # xs) \<Longrightarrow> \<exists>h'. deq l h = Some (h', Some x) \<and> repr l h' xs \<and> same h h' \<and> free h' x \<and>
        (\<forall>a. outside l a \<and> a \<notin> set (x # xs) \<and> free h a \<longrightarrow> free h' a)"
    and del_in: "repr l h (xs @ s # ys) \<Longrightarrow> repr l (del s h) (xs @ ys) \<and> same h (del s h) \<and> free (del s h) s \<and>
        (\<forall>a. outside l a \<and> a \<notin> set (xs @ s # ys) \<and> free h a \<longrightarrow> free (del s h) a)"
    and del_free: "free h s \<Longrightarrow> del s h = h"
begin

text \<open>Removing a stream, whether or not it is in the list.\<close>

lemma del_remove1:
  assumes "repr l h xs" "s \<in> set xs \<or> free h s" "same h h"
  shows "repr l (del s h) (if s \<in> set xs then remove1 s xs else xs) \<and> same h (del s h)"
proof (cases "s \<in> set xs")
  case True
  then obtain us vs where "xs = us @ s # vs" "s \<notin> set us"
    by (meson split_list_first)
  with True del_in [of l h us s vs] assms(1) show ?thesis
    by (simp add: remove1_append)
qed (use assms del_free in simp)

end

interpretation osl: stream_list osl_repr "\<lambda>l a. a \<noteq> osl_head l \<and> a \<noteq> osl_tail l" unlinked same_data osl_enqueue osl_dequeue deleteSelf
proof
  fix l h xs s
  assume "osl_repr l h xs" "s \<noteq> osl_head l \<and> s \<noteq> osl_tail l" "s \<notin> set xs"
  then show "\<exists>h'. osl_enqueue l s h = Some h' \<and> osl_repr l h' (xs @ [s]) \<and> same_data h h' \<and>
      (\<forall>a. (a \<noteq> osl_head l \<and> a \<noteq> osl_tail l) \<and> a \<noteq> s \<and> a \<notin> set xs \<and> unlinked h a \<longrightarrow> unlinked h' a)"
    using osl_enqueue_ok [of l h xs s] by (auto simp: unlinked_def)
next
  fix l h x xs
  assume "osl_repr l h (x # xs)"
  from osl_dequeue_ok [OF this]
  show "\<exists>h'. osl_dequeue l h = Some (h', Some x) \<and> osl_repr l h' xs \<and> same_data h h' \<and> unlinked h' x \<and>
      (\<forall>a. (a \<noteq> osl_head l \<and> a \<noteq> osl_tail l) \<and> a \<notin> set (x # xs) \<and> unlinked h a \<longrightarrow> unlinked h' a)"
    by (auto simp: unlinked_def)
next
  fix l h
  assume "osl_repr l h []"
  from osl_dequeue_ok [OF this] show "osl_dequeue l h = Some (h, None)" by simp
next
  fix l h xs s ys
  assume "osl_repr l h (xs @ s # ys)"
  from deleteSelf_ok [OF this]
  show "osl_repr l (deleteSelf s h) (xs @ ys) \<and> same_data h (deleteSelf s h) \<and> unlinked (deleteSelf s h) s \<and>
      (\<forall>a. (a \<noteq> osl_head l \<and> a \<noteq> osl_tail l) \<and> a \<notin> set (xs @ s # ys) \<and> unlinked h a \<longrightarrow> unlinked (deleteSelf s h) a)"
    by (auto simp: unlinked_def)
qed (rule deleteSelf_unlinked)

end
