(* ===== verification/Bdp.thy ===== *)
theory Bdp
  imports Complex_Main H2_Prelude
begin

text \<open>
  The estimator of the bandwidth-delay product (\<^verbatim>\<open>h2/bdp_estimator.go\<close>). A \<^verbatim>\<open>float64\<close> is its bit
  pattern, and the operations on it are a parameter: nothing below depends on how they round. Times
  are nanoseconds since the zero time, and the clock is an argument.
\<close>

section \<open>The estimator\<close>

type_synonym float64 = u64

record float_ops =
  fl_add :: "float64 \<Rightarrow> float64 \<Rightarrow> float64"
  fl_sub :: "float64 \<Rightarrow> float64 \<Rightarrow> float64"
  fl_mul :: "float64 \<Rightarrow> float64 \<Rightarrow> float64"
  fl_div :: "float64 \<Rightarrow> float64 \<Rightarrow> float64"
  fl_less :: "float64 \<Rightarrow> float64 \<Rightarrow> bool"
  fl_le :: "float64 \<Rightarrow> float64 \<Rightarrow> bool"
  fl_eq :: "float64 \<Rightarrow> float64 \<Rightarrow> bool"
  fl_of_int :: "int \<Rightarrow> float64"
  fl_const :: "rat \<Rightarrow> float64"
  fl_to_u32 :: "float64 \<Rightarrow> u32"

definition bdpLimit :: u32 where "bdpLimit = push_bit 20 1 * 16"
definition alpha :: rat where "alpha = 0.9"
definition beta :: rat where "beta = 0.66"
definition gamma :: rat where "gamma = 2"

definition bdpPing :: bytes where "bdpPing = [2, 4, 16, 16, 9, 14, 7, 7]"

record bdpEstimator =
  sentAt :: int
  bdp :: u32
  sample :: u32
  bwMax :: float64
  isSent :: bool
  sampleCount :: u64
  rtt :: float64

definition timesnap :: "int \<Rightarrow> bytes \<Rightarrow> bdpEstimator \<Rightarrow> bdpEstimator" where
  "timesnap now d b = (if bdpPing \<noteq> d then b else b\<lparr>sentAt := now\<rparr>)"

definition bdp_add :: "u32 \<Rightarrow> bdpEstimator \<Rightarrow> bdpEstimator \<times> bool" where
  "bdp_add n b =
     (if bdp b = bdpLimit then (b, False)
      else if \<not> isSent b then
        (b\<lparr>isSent := True, sample := n, sentAt := 0, sampleCount := sampleCount b + 1\<rparr>, True)
      else (b\<lparr>sample := sample b + n\<rparr>, False))"

text \<open>\<^verbatim>\<open>time.Since(t).Seconds()\<close>: the difference saturates at the bounds of an \<^verbatim>\<open>int64\<close>.\<close>

definition secondsSince :: "float_ops \<Rightarrow> int \<Rightarrow> int \<Rightarrow> float64" where
  "secondsSince fl now t =
     (let d = max (- (2 ^ 63)) (min (2 ^ 63 - 1) (now - t));
          sec = sgn d * (\<bar>d\<bar> div 10 ^ 9);
          nsec = sgn d * (\<bar>d\<bar> mod 10 ^ 9)
      in fl_add fl (fl_of_int fl sec) (fl_div fl (fl_of_int fl nsec) (fl_const fl (10 ^ 9))))"

text \<open>The second component is the argument of the call of \<^verbatim>\<open>updateFlowControl\<close>, if there is one.\<close>

definition calculate :: "float_ops \<Rightarrow> int \<Rightarrow> bytes \<Rightarrow> bdpEstimator \<Rightarrow> bdpEstimator \<times> u32 option" where
  "calculate fl now d b0 =
     (if bdpPing \<noteq> d then (b0, None)
      else
        let rttSample = secondsSince fl now (sentAt b0);
            diff = fl_sub fl rttSample (rtt b0);
            b1 = b0\<lparr>rtt := fl_add fl (rtt b0)
                   (if sampleCount b0 < 10 then fl_div fl diff (fl_of_int fl (uint (sampleCount b0)))
                    else fl_mul fl diff (fl_const fl alpha))\<rparr>;
            b2 = b1\<lparr>isSent := False\<rparr>;
            sampleFloat = fl_of_int fl (uint (sample b2));
            bwCurrent = fl_div fl sampleFloat (fl_mul fl (rtt b2) (fl_const fl 1.5));
            b3 = (if fl_less fl (bwMax b2) bwCurrent then b2\<lparr>bwMax := bwCurrent\<rparr> else b2)
        in if fl_le fl (fl_mul fl (fl_const fl beta) (fl_of_int fl (uint (bdp b3)))) sampleFloat \<and>
              fl_eq fl bwCurrent (bwMax b3) \<and> bdp b3 \<noteq> bdpLimit then
             let v = fl_to_u32 fl (fl_mul fl (fl_const fl gamma) sampleFloat);
                 v' = (if v > bdpLimit then bdpLimit else v)
             in (b3\<lparr>bdp := v'\<rparr>, Some v')
           else (b3, None))"

section \<open>Runs\<close>

text \<open>
  The three calls in any order. A run collects the pings that \<^verbatim>\<open>add\<close> asks for and the window sizes that
  are set.
\<close>

datatype bdp_call = Snap int bytes | Add u32 | Ack int bytes

record bdp_run =
  est :: bdpEstimator
  pings :: nat
  acks :: nat
  windows :: "u32 list"

fun bdp_step :: "float_ops \<Rightarrow> bdp_call \<Rightarrow> bdp_run \<Rightarrow> bdp_run" where
  "bdp_step fl (Snap now d) r = r\<lparr>est := timesnap now d (est r)\<rparr>"
| "bdp_step fl (Add n) r =
     (let (b, p) = bdp_add n (est r) in r\<lparr>est := b, pings := (if p then Suc (pings r) else pings r)\<rparr>)"
| "bdp_step fl (Ack now d) r =
     (let (b, w) = calculate fl now d (est r)
      in r\<lparr>est := b, acks := (if d = bdpPing then Suc (acks r) else acks r),
           windows := windows r @ (case w of None \<Rightarrow> [] | Some v \<Rightarrow> [v])\<rparr>)"

definition bdp_inv :: "u32 \<Rightarrow> bdp_run \<Rightarrow> bool" where
  "bdp_inv w0 r \<longleftrightarrow> bdp (est r) \<le> bdpLimit \<and> pings r \<le> acks r + (if isSent (est r) then 1 else 0) \<and>
     bdp (est r) = last (w0 # windows r) \<and> (\<forall>w \<in> set (windows r). w \<le> bdpLimit) \<and>
     (\<forall>w \<in> set (butlast (windows r)). w \<noteq> bdpLimit) \<and> (w0 = bdpLimit \<longrightarrow> windows r = [])"

lemma calculate_result:
  "calculate fl now d b = (b', w) \<Longrightarrow>
     (case w of None \<Rightarrow> bdp b' = bdp b | Some v \<Rightarrow> bdp b' = v \<and> v \<le> bdpLimit \<and> bdp b \<noteq> bdpLimit) \<and>
     (if d = bdpPing then \<not> isSent b' else b' = b)"
  by (auto simp: calculate_def Let_def split: if_splits)

lemma bdp_inv_step: "bdp_inv w0 r \<Longrightarrow> bdp_inv w0 (bdp_step fl c r)"
proof (cases c)
  case (Ack now d)
  assume inv: "bdp_inv w0 r"
  obtain b w where c: "calculate fl now d (est r) = (b, w)" by fastforce
  show ?thesis
  proof (cases w)
    case None
    with inv Ack c calculate_result [OF c] show ?thesis by (auto simp: bdp_inv_def split: if_splits)
  next
    case (Some v)
    note r = calculate_result [OF c]
    have "u \<noteq> bdpLimit" if "u \<in> set (windows r)" for u
    proof (cases "windows r" rule: rev_cases)
      case (snoc ws x)
      with that inv r Some show ?thesis by (auto simp: bdp_inv_def split: if_splits)
    qed (use that in simp)
    moreover have "w0 \<noteq> bdpLimit" using inv r Some by (auto simp: bdp_inv_def)
    ultimately show ?thesis
      using inv Ack c r Some by (auto simp: bdp_inv_def split: if_splits)
  qed
qed (auto simp: bdp_inv_def timesnap_def bdp_add_def split: if_splits)

lemma bdp_inv_run: "bdp_inv w0 r \<Longrightarrow> bdp_inv w0 (fold (bdp_step fl) cs r)"
  by (induction cs arbitrary: r) (auto intro: bdp_inv_step)

section \<open>Properties\<close>

text \<open>
  C39: For any calls in any order, and however floating-point numbers round: no window above 16 MB is
  ever set, the limit itself is the last window set, the estimate is the last window set, and at most
  one BDP ping is on its way that has not been acknowledged.
\<close>

theorem bdp_estimate_bounds:
  assumes "bdp b \<le> bdpLimit" "\<not> isSent b"
    and "r = fold (bdp_step fl) cs \<lparr>est = b, pings = 0, acks = 0, windows = []\<rparr>"
  shows "(\<forall>w \<in> set (windows r). unat w \<le> 16 * 1024 * 1024) \<and> (\<forall>w \<in> set (butlast (windows r)). w \<noteq> bdpLimit) \<and>
    bdp (est r) = last (bdp b # windows r) \<and> pings r \<le> acks r + 1"
proof -
  have "bdp_inv (bdp b) r"
    unfolding assms(3) by (rule bdp_inv_run) (use assms in \<open>simp add: bdp_inv_def\<close>)
  moreover have "unat w \<le> 16 * 1024 * 1024" if "w \<le> bdpLimit" for w
    using that by (simp add: bdpLimit_def word_le_nat_alt)
  ultimately show ?thesis by (auto simp: bdp_inv_def split: if_splits)
qed

definition int_floats :: float_ops where
  "int_floats = \<lparr>fl_add = (+), fl_sub = (-), fl_mul = (*), fl_div = (div), fl_less = (<), fl_le = (\<le>), fl_eq = (=),
     fl_of_int = word_of_int, fl_const = (\<lambda>q. word_of_int \<lfloor>q\<rfloor>), fl_to_u32 = ucast\<rparr>"

theorem bdp_estimate_bounds_witness:
  "windows (fold (bdp_step int_floats) [Add 30000000, Ack 2000000000 bdpPing]
     \<lparr>est = \<lparr>sentAt = 0, bdp = 65535, sample = 0, bwMax = 0, isSent = False, sampleCount = 0, rtt = 0\<rparr>,
      pings = 0, acks = 0, windows = []\<rparr>) = [bdpLimit] \<and> unat bdpLimit \<le> 16 * 1024 * 1024"
proof -
  let ?b = "\<lparr>sentAt = 0, bdp = 65535, sample = 0, bwMax = 0, isSent = False, sampleCount = 0, rtt = 0\<rparr>"
  let ?r = "fold (bdp_step int_floats) [Add 30000000, Ack 2000000000 bdpPing] \<lparr>est = ?b, pings = 0, acks = 0, windows = []\<rparr>"
  have w: "windows ?r = [bdpLimit]"
    by (simp add: bdp_add_def calculate_def bdpLimit_def int_floats_def secondsSince_def Let_def gamma_def beta_def
        floor_unique [of 1 "3/2 :: rat"] floor_unique [of 0 "33/50 :: rat"])
  have "bdp ?b \<le> bdpLimit" "\<not> isSent ?b" by (simp_all add: bdpLimit_def)
  from bdp_estimate_bounds [OF this refl, of int_floats "[Add 30000000, Ack 2000000000 bdpPing]"] w
  show ?thesis by simp
qed

end
