(* ===== verification/Hpack_Codec.thy ===== *)
theory Hpack_Codec
  imports Hpack_Encoder Hpack_Decoder Huffman_Proofs
begin

text \<open>
  Encoder and decoder together: what \<^verbatim>\<open>WriteField\<close> writes, \<^verbatim>\<open>Write\<close> decodes to the same field,
  and the two dynamic tables stay equal, through whole header blocks and table size updates.
\<close>

section \<open>Strings\<close>

lemma orAt_append: "xs \<noteq> [] \<Longrightarrow> orAt (length dst) flag (dst @ xs @ ys) = dst @ orAt 0 flag xs @ ys"
  by (cases xs) (simp_all add: orAt_def nth_append list_update_append)

lemma appendVarInt_nonempty [simp]: "appendVarInt [] n i \<noteq> []"
  by (simp add: appendVarInt_mask)

lemma orAt_0_nonempty [simp]: "xs \<noteq> [] \<Longrightarrow> orAt 0 flag xs \<noteq> []"
  by (simp add: orAt_def)

lemma appendHpackString_append: "appendHpackString dst s = dst @ appendHpackString [] s"
proof -
  have "appendVarInt dst 7 i = dst @ appendVarInt [] 7 i" for i
    by (rule appendVarInt_append)
  moreover have "AppendHuffmanString (dst @ xs) s = dst @ xs @ AppendHuffmanString [] s" for xs
    by (subst AppendHuffmanString_append) simp
  ultimately show ?thesis
    using orAt_append [of _ dst] orAt_append [of _ "[]"]
    by (simp add: appendHpackString_def Let_def AppendHuffmanString_append [of "appendVarInt _ _ _"])
qed

text \<open>The bits of the first byte above the prefix are the flag's.\<close>

lemma first_byte:
  fixes m :: byte
  assumes "m AND mask n = 0" and "n \<le> 8"
  shows "(orAt 0 flag (appendVarInt [] n i) @ rest) ! 0 AND m = flag AND m"
proof -
  define c :: u64 where "c = (if i < mask n then i else mask n)"
  have hd: "(orAt 0 flag (appendVarInt [] n i) @ rest) ! 0 = ucast c OR flag"
    by (simp add: appendVarInt_mask orAt_def c_def)
  have "unat (mask n :: u64) = 2 ^ n - 1"
    using assms(2) by (intro unat_mask) simp
  moreover have "unat c \<le> unat (mask n :: u64)"
    by (auto simp: c_def word_less_nat_alt)
  ultimately have "unat c < 2 ^ n"
    by (metis less_eq_nat.simps(1) linorder_not_less nat_less_le diff_less le_eq_less_or_eq
        order_le_less_trans zero_less_numeral zero_less_one zero_less_power)
  note c = bit_small [OF this]
  have m: "\<not> bit m b" if "b < n" for b
  proof -
    have "\<not> bit (m AND mask n) b" by (simp add: assms(1))
    with that assms(2) show ?thesis by (simp add: bit_simps)
  qed
  show ?thesis
    unfolding hd by (rule bit_word_eqI) (auto simp: bit_simps m dest: c)
qed

lemma masks:
  "(128 :: byte) AND mask 7 = 0" "(128 :: byte) AND mask 6 = 0" "(192 :: byte) AND mask 6 = 0"
  "(128 :: byte) AND mask 4 = 0" "(192 :: byte) AND mask 4 = 0" "(240 :: byte) AND mask 4 = 0"
  "(128 :: byte) AND mask 5 = 0" "(192 :: byte) AND mask 5 = 0" "(240 :: byte) AND mask 5 \<noteq> 0"
  "(224 :: byte) AND mask 5 = 0" "(64 :: byte) AND mask 6 = 0" "(16 :: byte) AND mask 4 = 0"
  "(32 :: byte) AND mask 5 = 0" "(0 :: byte) AND mask n = 0"
  by (simp_all add: mask_eq_exp_minus_1)

lemma readString_plain:
  assumes "length s < 2 ^ 62" and "maxStrLen d = 0 \<or> length s \<le> maxStrLen d"
  shows "readString d (appendVarInt [] 7 (word_of_nat (length s)) @ bytes_of s @ rest) w =
    Inr (if w then s else [], rest)"
proof -
  let ?v = "appendVarInt [] 7 (word_of_nat (length s))"
  have len: "unat (word_of_nat (length s) :: u64) = length s"
    using assms(1) by (simp add: unat_of_nat)
  have v0: "orAt 0 0 ?v = ?v"
    by (simp add: orAt_def)
  have "readVarInt 7 (?v @ bytes_of s @ rest) = Inr (word_of_nat (length s), bytes_of s @ rest)"
    using readVarInt_appendVarInt [of 7 0 "word_of_nat (length s)" "bytes_of s @ rest"] v0 len assms(1)
    by simp
  moreover have "(?v @ bytes_of s @ rest) ! 0 AND 128 = 0"
    using first_byte [of 128 7 0 "word_of_nat (length s)" "bytes_of s @ rest"] v0 masks by simp
  ultimately show ?thesis
    using assms(2) len by (auto simp: readString_def)
qed

lemma readString_huffman:
  assumes "length (AppendHuffmanString [] s) \<le> length s" and "length s < 2 ^ 58"
    and "maxStrLen d = 0 \<or> length s \<le> maxStrLen d"
  shows "readString d (orAt 0 128 (appendVarInt [] 7 (HuffmanEncodeLength s)) @
      AppendHuffmanString [] s @ rest) w = Inr (if w then s else [], rest)"
proof -
  let ?h = "HuffmanEncodeLength s" and ?x = "AppendHuffmanString [] s"
  let ?v = "orAt 0 128 (appendVarInt [] 7 ?h)"
  have len: "unat ?h = length ?x"
    using assms(2) by (intro HuffmanEncodeLength_eq) simp
  have "readVarInt 7 (?v @ ?x @ rest) = Inr (?h, ?x @ rest)"
    using readVarInt_appendVarInt [of 7 128 ?h "?x @ rest"] masks len assms(1,2) by simp
  moreover have "(?v @ ?x @ rest) ! 0 AND 128 \<noteq> 0"
    using first_byte [of 128 7 128 ?h "?x @ rest"] masks by simp
  moreover have "huffmanDecode (maxStrLen d) ?x = Inr (bytes_of s)"
    using assms(3) by (simp add: huffmanDecode_Inr_iff)
  ultimately show ?thesis
    using assms(1,3) len by (auto simp: readString_def)
qed

lemma readString_appendHpackString:
  assumes "length s < 2 ^ 58" and "maxStrLen d = 0 \<or> length s \<le> maxStrLen d"
  shows "readString d (appendHpackString [] s @ rest) w = Inr (if w then s else [], rest)"
proof (cases "HuffmanEncodeLength s < word_of_nat (length s)")
  case True
  then have "length (AppendHuffmanString [] s) \<le> length s"
    using HuffmanEncodeLength_eq [of s] assms(1) by (simp add: word_less_nat_alt unat_of_nat)
  from readString_huffman [OF this assms] True show ?thesis
    using orAt_append [of "appendVarInt [] 7 (HuffmanEncodeLength s)" "[]" 128 "AppendHuffmanString [] s"]
    by (simp add: appendHpackString_def Let_def AppendHuffmanString_append [of "appendVarInt _ _ _"])
next
  case False
  with readString_plain [OF _ assms(2), of rest w] assms(1) show ?thesis
    by (simp add: appendHpackString_def Let_def)
qed

section \<open>Indices\<close>

definition all_fields :: "dynamicTable \<Rightarrow> HeaderField list" where
  "all_fields dt = ents staticTable @ rev (ents (table dt))"

lemma at_eq:
  "at d i = (if 1 \<le> unat i \<and> unat i \<le> length (all_fields (dec_dynTab d))
    then Some (all_fields (dec_dynTab d) ! (unat i - 1)) else None)"
proof -
  let ?s = "ents staticTable" and ?t = "ents (table (dec_dynTab d))"
  have z: "i = 0 \<longleftrightarrow> unat i = 0" by (simp add: unat_eq_0)
  have "rev ?t ! (unat i - 1 - length ?s) = ?t ! (length ?t - (unat i - length ?s))"
    if "length ?s < unat i" "unat i \<le> length ?s + length ?t"
    using that by (subst rev_nth) (auto simp: Suc_diff_Suc)
  then show ?thesis
    unfolding at_def all_fields_def maxTableIndex_def z
    by (auto simp: Let_def nth_append)
qed

lemma searchTable_ok:
  assumes "table_ok (table (enc_dynTab e))" and "length (ents (table (enc_dynTab e))) < 2 ^ 63"
  shows "\<exists>i m. searchTable e f = Inr (i, m) \<and> match_ok (all_fields (enc_dynTab e)) f i m"
  using hpack_search.search_both [OF staticTable_ok assms(1), of f] assms(2)
  unfolding searchTable_def all_fields_def index_order_def if_True if_False
  by (simp add: staticTable_ents del: and_then_Inr_iff)

text \<open>The two tables agree: everything but the decoder's limit.\<close>

definition same_tab :: "dynamicTable \<Rightarrow> dynamicTable \<Rightarrow> bool" where
  "same_tab a b \<longleftrightarrow> table a = table b \<and> dt_size a = dt_size b \<and> maxSize a = maxSize b"

lemma same_tab_all_fields: "same_tab a b \<Longrightarrow> all_fields a = all_fields b"
  by (simp add: same_tab_def all_fields_def)

lemma evict_same:
  assumes "same_tab a b" and "evict a = Inr a'"
  shows "\<exists>b'. evict b = Inr b' \<and> same_tab a' b' \<and> allowedMaxSize b' = allowedMaxSize b"
  using assms by (auto simp: same_tab_def evict_def split: prod.splits)

lemma dt_add_same:
  assumes "same_tab a b" and "dt_add a f = Inr a'"
  shows "\<exists>b'. dt_add b f = Inr b' \<and> same_tab a' b' \<and> allowedMaxSize b' = allowedMaxSize b"
  using evict_same [OF _ assms(2) [unfolded dt_add_def],
      of "b\<lparr>table := addEntry (table b) f, dt_size := dt_size b + Size f\<rparr>"] assms(1)
  by (simp add: dt_add_def same_tab_def)

lemma setMaxSize_same:
  assumes "same_tab a b" and "setMaxSize a v = Inr a'"
  shows "\<exists>b'. setMaxSize b v = Inr b' \<and> same_tab a' b' \<and> allowedMaxSize b' = allowedMaxSize b"
  using evict_same [OF _ assms(2) [unfolded setMaxSize_def], of "b\<lparr>maxSize := v\<rparr>"] assms(1)
  by (simp add: setMaxSize_def same_tab_def)

lemma few_entries:
  assumes "dt_exact dt"
  shows "length (ents (table dt)) < 2 ^ 32" "table_ok (table dt)"
proof -
  have "length fs \<le> total_size fs" for fs
    by (induction fs) (simp_all add: field_size_def)
  then show "length (ents (table dt)) < 2 ^ 32"
    using assms unat_less [of "maxSize dt"] order_le_less_trans
    by (fastforce simp: dt_exact_def intro: order_le_less_trans)
  show "table_ok (table dt)"
    using assms by (simp add: dt_exact_def dt_ok_def)
qed

section \<open>One field\<close>

text \<open>Fields whose size computation does not overflow and that the decoder accepts.\<close>

definition fits :: "dynamicTable \<Rightarrow> nat \<Rightarrow> HeaderField \<Rightarrow> bool" where
  "fits dt maxLen f \<longleftrightarrow> unat (maxSize dt) + field_size f < 2 ^ 32 \<and>
     (maxLen = 0 \<or> length (Name f) \<le> maxLen \<and> length (Value f) \<le> maxLen)"

lemma fits_lengths:
  assumes "fits dt (maxStrLen d) f"
  shows "length (Name f) < 2 ^ 58" "length (Value f) < 2 ^ 58"
    "maxStrLen d = 0 \<or> length (Name f) \<le> maxStrLen d" "maxStrLen d = 0 \<or> length (Value f) \<le> maxStrLen d"
  using assms by (auto simp: fits_def field_size_def)

lemma appendIndexed_append: "appendIndexed dst i = dst @ appendIndexed [] i"
  using orAt_append [of "appendVarInt [] 7 i" dst 128 "[]"] orAt_append [of "appendVarInt [] 7 i" "[]" 128 "[]"]
  by (simp add: appendIndexed_def appendVarInt_append [of dst])

lemma appendNewName_append: "appendNewName dst f ix = dst @ appendNewName [] f ix"
  by (simp add: appendNewName_def Let_def appendHpackString_append [of "appendHpackString _ _"]
      appendHpackString_append [of "dst @ _"] appendHpackString_append [of "[_]"])

lemma appendIndexedName_eq:
  "appendIndexedName dst f i ix =
     dst @ orAt 0 (encodeTypeByte ix (Sensitive f)) (appendVarInt [] (if ix then 6 else 4) i) @
     appendHpackString [] (Value f)"
proof -
  let ?n = "if ix then 6 else 4 :: nat" and ?t = "encodeTypeByte ix (Sensitive f)"
  have "orAt (length dst) ?t (appendVarInt dst ?n i) = dst @ orAt 0 ?t (appendVarInt [] ?n i)"
    using orAt_append [of "appendVarInt [] ?n i" dst ?t "[]"] by (simp add: appendVarInt_append [of dst])
  then show ?thesis
    by (simp add: appendIndexedName_def Let_def appendHpackString_append [of "dst @ _"])
qed

lemma parse_indexed:
  assumes buf: "dec_buf d = appendIndexed [] i @ rest"
    and i: "1 \<le> unat i" "unat i \<le> length (all_fields (dec_dynTab d))" "unat i < 2 ^ 62"
    and f: "Name (all_fields (dec_dynTab d) ! (unat i - 1)) = Name f"
      "Value (all_fields (dec_dynTab d) ! (unat i - 1)) = Value f" "\<not> Sensitive f"
  shows "parseHeaderFieldRepr d = callEmit (d\<lparr>dec_buf := rest\<rparr>) f"
proof -
  have "dec_buf d ! 0 AND 128 \<noteq> 0"
    using first_byte [of 128 7 128 i rest] masks buf by (simp add: appendIndexed_def)
  moreover have "readVarInt 7 (dec_buf d) = Inr (i, rest)"
    using readVarInt_appendVarInt [of 7 128 i rest] masks buf i(3) by (simp add: appendIndexed_def)
  moreover have "at d i = Some (all_fields (dec_dynTab d) ! (unat i - 1))"
    using i by (simp add: at_eq)
  ultimately show ?thesis
    using f by (cases f) (simp add: parseHeaderFieldRepr_def parseFieldIndexed_def)
qed

text \<open>Which literal representation the type byte stands for.\<close>

definition literal_kind :: "bool \<Rightarrow> bool \<Rightarrow> indexType" where
  "literal_kind ix sens = (if sens then indexedNever else if ix then indexedTrue else indexedFalse)"

lemma parse_literal_dispatch:
  assumes "dec_buf d = orAt 0 (encodeTypeByte ix sens) (appendVarInt [] (if ix then 6 else 4) i) @ rest"
    and "ix \<longrightarrow> \<not> sens"
  shows "parseHeaderFieldRepr d = parseFieldLiteral d (if ix then 6 else 4) (literal_kind ix sens)"
proof -
  note b = first_byte [of _ 6 64 i rest] first_byte [of _ 4 16 i rest] first_byte [of _ 4 0 i rest]
  show ?thesis
    using assms masks
    by (cases ix; cases sens)
      (simp_all add: parseHeaderFieldRepr_def encodeTypeByte_def literal_kind_def Let_def b)
qed

lemma parse_literal:
  assumes buf: "dec_buf d = orAt 0 (encodeTypeByte ix (Sensitive f))
      (appendVarInt [] (if ix then 6 else 4) i) @
      (if i = 0 then appendHpackString [] (Name f) else []) @ appendHpackString [] (Value f) @ rest"
    and ix: "ix \<longrightarrow> \<not> Sensitive f"
    and i: "i \<noteq> 0 \<Longrightarrow> unat i \<le> length (all_fields (dec_dynTab d)) \<and> unat i < 2 ^ 62 \<and>
      Name (all_fields (dec_dynTab d) ! (unat i - 1)) = Name f"
    and fit: "fits dt (maxStrLen d) f" and en: "emitEnabled d"
    and add: "(if ix then dt_add (dec_dynTab d) f else Inr (dec_dynTab d)) = Inr dt'"
  shows "parseHeaderFieldRepr d = callEmit (d\<lparr>dec_buf := rest, dec_dynTab := dt'\<rparr>) f"
proof -
  let ?n = "if ix then 6 else 4 :: nat" and ?flag = "encodeTypeByte ix (Sensitive f)"
  let ?it = "literal_kind ix (Sensitive f)"
  let ?b2 = "appendHpackString [] (Value f) @ rest"
  let ?b1 = "(if i = 0 then appendHpackString [] (Name f) else []) @ ?b2"
  have dispatch: "parseHeaderFieldRepr d = parseFieldLiteral d ?n ?it"
    by (rule parse_literal_dispatch [OF _ ix]) (simp add: buf)
  have flag: "?flag AND mask ?n = 0"
    using ix masks by (auto simp: encodeTypeByte_def)
  have "unat i < 2 ^ 63 + (2 ^ ?n - 1)"
    using i by (cases "i = 0") auto
  then have 1: "readVarInt ?n (dec_buf d) = Inr (i, ?b1)"
    using readVarInt_appendVarInt [OF _ _ flag, of i ?b1] buf by simp
  have 2: "literalName d i ?b1 True = Inr (Name f, ?b2)"
  proof (cases "i = 0")
    case True
    then show ?thesis
      using readString_appendHpackString [of "Name f" d ?b2 True] fits_lengths [OF fit]
      by (simp add: literalName_def)
  next
    case False
    then have "1 \<le> unat i"
      by (simp add: Suc_le_eq unat_gt_0)
    with False i show ?thesis
      by (simp add: literalName_def at_eq word_neq_0_conv)
  qed
  have 3: "readString d ?b2 True = Inr (Value f, rest)"
    using readString_appendHpackString [of "Value f" d rest True] fits_lengths [OF fit] by simp
  have kind: "indexed ?it = ix" "sensitive ?it = Sensitive f"
    using ix by (auto simp: literal_kind_def indexed_def sensitive_def)
  show ?thesis
    unfolding dispatch parseFieldLiteral_def
    using 1 2 3 kind ix add en by (cases f) (auto simp: Let_def)
qed

lemma literal_bytes:
  "(if i = 0 then appendNewName [] f ix else appendIndexedName [] f i ix) =
     orAt 0 (encodeTypeByte ix (Sensitive f)) (appendVarInt [] (if ix then 6 else 4) i) @
     (if i = 0 then appendHpackString [] (Name f) else []) @ appendHpackString [] (Value f)"
proof -
  have "appendVarInt [] n 0 = [0]" if "1 \<le> n" "n \<le> 8" for n
  proof -
    have "unat (mask n :: u64) = 2 ^ n - 1"
      using that by (intro unat_mask) simp
    moreover have "(2 :: nat) ^ 1 \<le> 2 ^ n"
      using that by (intro power_increasing) simp_all
    ultimately have "(0 :: u64) < mask n"
      by (simp add: word_less_nat_alt)
    then show ?thesis by (simp add: appendVarInt_mask)
  qed
  then have "orAt 0 t (appendVarInt [] (if ix then 6 else 4) 0) = [t]" for t
    by (simp add: orAt_def)
  then show ?thesis
    by (simp add: appendIndexedName_eq appendNewName_def Let_def
        appendHpackString_append [of "appendHpackString _ _"] appendHpackString_append [of "[_]"])
qed

text \<open>
  One step of both sides: the encoder writes a field without a pending table size record, the
  decoder reads it in one step and calls the callback on the same field, and both tables make
  the same change.
\<close>

definition lockstep :: "'w Encoder \<Rightarrow> 's Decoder \<Rightarrow> HeaderField \<Rightarrow> 'w Encoder \<Rightarrow> dynamicTable \<Rightarrow> bool" where
  "lockstep e d f e' dt' \<longleftrightarrow>
     encodeField e f = Inr e' \<and> enc_buf e' \<noteq> [] \<and> enc_w e' = enc_w e \<and> \<not> tableSizeUpdate e' \<and>
     minSize e' = minSize e \<and> dt_exact (enc_dynTab e') \<and> maxSize (enc_dynTab e') = maxSize (enc_dynTab e) \<and>
     added (table (enc_dynTab e')) \<le> Suc (added (table (enc_dynTab e))) \<and>
     same_tab (enc_dynTab e') dt' \<and> allowedMaxSize dt' = allowedMaxSize (dec_dynTab d) \<and>
     (\<forall>rest. parseHeaderFieldRepr (d\<lparr>dec_buf := enc_buf e' @ rest\<rparr>) =
       callEmit (d\<lparr>dec_buf := rest, dec_dynTab := dt'\<rparr>) f)"

definition tables_synced :: "'w Encoder \<Rightarrow> 's Decoder \<Rightarrow> bool" where
  "tables_synced e d \<longleftrightarrow>
     \<not> tableSizeUpdate e \<and> minSize e = uint32Max \<and> dt_exact (enc_dynTab e) \<and>
     same_tab (enc_dynTab e) (dec_dynTab d)"

lemma lockstep_indexed:
  assumes sync: "tables_synced e d" and search: "searchTable (e\<lparr>enc_buf := []\<rparr>) f = Inr (i, True)"
    and match: "match_ok (all_fields (enc_dynTab e)) f i True"
  shows "lockstep e d f (e\<lparr>enc_buf := appendIndexed [] i\<rparr>) (dec_dynTab d)"
proof -
  note flds = same_tab_all_fields [of "enc_dynTab e" "dec_dynTab d"]
  have i: "1 \<le> unat i" "unat i \<le> length (all_fields (dec_dynTab d))" "\<not> Sensitive f"
      "Name (all_fields (dec_dynTab d) ! (unat i - 1)) = Name f"
      "Value (all_fields (dec_dynTab d) ! (unat i - 1)) = Value f"
    using match sync flds by (auto simp: match_ok_def tables_synced_def)
  have "unat i < 2 ^ 62"
    using few_entries [of "enc_dynTab e"] sync i(2) flds
    by (simp add: tables_synced_def all_fields_def staticTable_ents)
  then have "parseHeaderFieldRepr (d\<lparr>dec_buf := appendIndexed [] i @ rest\<rparr>) =
      callEmit (d\<lparr>dec_buf := rest\<rparr>) f" for rest
    using parse_indexed [of "d\<lparr>dec_buf := appendIndexed [] i @ rest\<rparr>" i rest f] i by simp
  moreover have "encodeField e f = Inr (e\<lparr>enc_buf := appendIndexed [] i\<rparr>)"
    using search sync by (simp add: encodeField_def encodeRepr_def writeSizeUpdate_def tables_synced_def)
  moreover have "appendIndexed [] i \<noteq> []"
    by (simp add: appendIndexed_def)
  ultimately show ?thesis
    using sync by (cases d) (simp add: lockstep_def tables_synced_def)
qed

lemma add_both:
  assumes sync: "tables_synced e d" and fit: "fits (enc_dynTab e) n f"
    and room: "Suc (added (table (enc_dynTab e))) < 2 ^ 64 - 1"
  obtains dt1 dt2 where
    "(if ix then dt_add (enc_dynTab e) f else Inr (enc_dynTab e)) = Inr dt1"
    "(if ix then dt_add (dec_dynTab d) f else Inr (dec_dynTab d)) = Inr dt2"
    "dt_exact dt1" "maxSize dt1 = maxSize (enc_dynTab e)"
    "added (table dt1) \<le> Suc (added (table (enc_dynTab e)))"
    "same_tab dt1 dt2" "allowedMaxSize dt2 = allowedMaxSize (dec_dynTab d)"
proof (cases ix)
  case True
  have exact: "dt_exact (enc_dynTab e)"
    using sync by (simp add: tables_synced_def)
  obtain dt1 where dt1: "dt_add (enc_dynTab e) f = Inr dt1" "dt_exact dt1"
      "maxSize dt1 = maxSize (enc_dynTab e)"
    using dt_add_exact [OF exact room] fit by (auto simp: fits_def)
  moreover have "added (table dt1) = Suc (added (table (enc_dynTab e)))"
    using dt_add_ok [OF _ room, of f] exact dt1(1) by (auto simp: dt_exact_def)
  ultimately show ?thesis
    using that [of dt1] True dt_add_same [OF _ dt1(1), of "dec_dynTab d"] sync
    by (auto simp: tables_synced_def)
next
  case False
  then show ?thesis
    using that sync by (simp add: tables_synced_def)
qed

lemma lockstep_literal:
  assumes sync: "tables_synced e d" and fit: "fits (enc_dynTab e) (maxStrLen d) f"
    and room: "Suc (added (table (enc_dynTab e))) < 2 ^ 64 - 1" and en: "emitEnabled d"
    and search: "searchTable (e\<lparr>enc_buf := []\<rparr>) f = Inr (i, False)"
    and match: "match_ok (all_fields (enc_dynTab e)) f i False"
  shows "\<exists>e' dt'. lockstep e d f e' dt'"
proof -
  define ix where "ix = shouldIndex (e\<lparr>enc_buf := []\<rparr>) f"
  have ixs: "ix \<longrightarrow> \<not> Sensitive f"
    by (simp add: ix_def shouldIndex_def)
  obtain dt1 dt2 where
    1: "(if ix then dt_add (enc_dynTab e) f else Inr (enc_dynTab e)) = Inr dt1" and
    2: "(if ix then dt_add (dec_dynTab d) f else Inr (dec_dynTab d)) = Inr dt2" and
    3: "dt_exact dt1" "maxSize dt1 = maxSize (enc_dynTab e)"
      "added (table dt1) \<le> Suc (added (table (enc_dynTab e)))"
      "same_tab dt1 dt2" "allowedMaxSize dt2 = allowedMaxSize (dec_dynTab d)"
    by (rule add_both [OF sync fit room, of ix])
  let ?out = "orAt 0 (encodeTypeByte ix (Sensitive f)) (appendVarInt [] (if ix then 6 else 4) i) @
    (if i = 0 then appendHpackString [] (Name f) else []) @ appendHpackString [] (Value f)"
  have "length (all_fields (enc_dynTab e)) < 2 ^ 62"
    using few_entries [of "enc_dynTab e"] sync
    by (simp add: tables_synced_def all_fields_def staticTable_ents)
  then have i: "i \<noteq> 0 \<Longrightarrow> unat i \<le> length (all_fields (dec_dynTab d)) \<and> unat i < 2 ^ 62 \<and>
      Name (all_fields (dec_dynTab d) ! (unat i - 1)) = Name f"
    using match same_tab_all_fields [of "enc_dynTab e" "dec_dynTab d"] sync
    by (auto simp: match_ok_def tables_synced_def)
  have "parseHeaderFieldRepr (d\<lparr>dec_buf := ?out @ rest\<rparr>) =
      callEmit (d\<lparr>dec_buf := rest, dec_dynTab := dt2\<rparr>) f" for rest
  proof -
    let ?d = "d\<lparr>dec_buf := ?out @ rest\<rparr>"
    have "parseHeaderFieldRepr ?d = callEmit (?d\<lparr>dec_buf := rest, dec_dynTab := dt2\<rparr>) f"
      by (rule parse_literal [where dt = "enc_dynTab e" and i = i and ix = ix])
        (use i ixs fit en 2 in \<open>auto split: if_splits\<close>)
    then show ?thesis by simp
  qed
  moreover have "encodeField e f = Inr (e\<lparr>enc_dynTab := dt1, enc_buf := ?out\<rparr>)"
    unfolding literal_bytes [symmetric] using search 1 sync ix_def
    by (cases e; cases ix)
      (simp_all add: encodeField_def encodeRepr_def Let_def tables_synced_def writeSizeUpdate_def)
  ultimately have "lockstep e d f (e\<lparr>enc_dynTab := dt1, enc_buf := ?out\<rparr>) dt2"
    using sync 3 by (simp add: lockstep_def tables_synced_def)
  then show ?thesis by blast
qed

lemma encode_parse_field:
  assumes "tables_synced e d" and "fits (enc_dynTab e) (maxStrLen d) f"
    and "Suc (added (table (enc_dynTab e))) < 2 ^ 64 - 1" and "emitEnabled d"
  obtains e' dt' where "lockstep e d f e' dt'"
proof -
  have exact: "dt_exact (enc_dynTab e)"
    using assms(1) by (simp add: tables_synced_def)
  obtain i m where "searchTable (e\<lparr>enc_buf := []\<rparr>) f = Inr (i, m)"
      and "match_ok (all_fields (enc_dynTab e)) f i m"
    using searchTable_ok [of "e\<lparr>enc_buf := []\<rparr>" f] few_entries [OF exact] by auto
  with lockstep_indexed [OF assms(1)] lockstep_literal [OF assms] that show ?thesis
    by (cases m; simp) blast+
qed

section \<open>Table size records\<close>

lemma appendTableSize_eq: "appendTableSize dst v = dst @ orAt 0 32 (appendVarInt [] 5 (ucast v))"
  using orAt_append [of "appendVarInt [] 5 (ucast v)" dst 32 "[]"]
  by (simp add: appendTableSize_def appendVarInt_append [of dst])

lemma table_size_dispatch:
  "parseHeaderFieldRepr (d\<lparr>dec_buf := appendTableSize [] v @ rest\<rparr>) =
     parseDynamicTableSizeUpdate (d\<lparr>dec_buf := appendTableSize [] v @ rest\<rparr>)"
proof -
  let ?b = "orAt 0 32 (appendVarInt [] 5 (ucast v)) @ rest"
  have m: "?b ! 0 AND 128 = 0" "?b ! 0 AND 192 = 0" "?b ! 0 AND 224 = 32"
    using first_byte [of _ 5 32 "ucast v" rest] masks by simp_all
  have "?b ! 0 AND 240 \<noteq> 0 \<and> ?b ! 0 AND 240 \<noteq> 16"
  proof -
    have "bit (?b ! 0 AND 224) 5"
      unfolding m(3) by (simp add: bit_flag)
    then have b5: "bit (?b ! 0) 5" by (simp add: bit_and_iff)
    have c: "bit (240 :: byte) 5" by code_simp
    from b5 c have "bit (?b ! 0 AND 240) 5" by (simp add: bit_and_iff)
    then show ?thesis by (auto simp: bit_flag)
  qed
  with m show ?thesis
    by (simp add: parseHeaderFieldRepr_def appendTableSize_eq Let_def)
qed

lemma parse_late_update:
  assumes "\<not> firstField d" and "dt_size (dec_dynTab d) > 0" and "dec_buf d = appendTableSize [] v @ rest"
  shows "parseHeaderFieldRepr d = (d, Some (DecodingError TableSizeUpdateNotFirst))"
proof -
  have "d\<lparr>dec_buf := appendTableSize [] v @ rest\<rparr> = d"
    using assms(3) by (cases d) simp
  with table_size_dispatch [where d = d and v = v and rest = rest] assms show ?thesis
    by (simp add: parseDynamicTableSizeUpdate_def)
qed

lemma parse_table_size:
  assumes "firstField d \<or> dt_size (dec_dynTab d) = 0" and "v \<le> allowedMaxSize (dec_dynTab d)"
    and "setMaxSize (dec_dynTab d) v = Inr dt"
  shows "parseHeaderFieldRepr (d\<lparr>dec_buf := appendTableSize [] v @ rest\<rparr>) =
    (d\<lparr>dec_dynTab := dt, dec_buf := rest\<rparr>, None)"
proof -
  let ?v = "ucast v :: u64"
  have "readVarInt 5 (appendTableSize [] v @ rest) = Inr (?v, rest)"
    using readVarInt_appendVarInt [of 5 32 ?v rest] masks unat_less [of v]
    by (simp add: appendTableSize_eq unat_ucast_up)
  moreover have "\<not> ?v > ucast (allowedMaxSize (dec_dynTab d))"
    using assms(2) by (simp add: word_less_nat_alt word_le_nat_alt unat_ucast_up not_less)
  moreover have "(ucast ?v :: u32) = v"
    by (rule bit_word_eqI) (simp add: bit_simps)
  ultimately show ?thesis
    using assms(1,3) unfolding table_size_dispatch
    by (auto simp: parseDynamicTableSizeUpdate_def word_gt_0)
qed

lemma encodeRepr_prefix:
  assumes "encodeRepr (e\<lparr>enc_buf := []\<rparr>) f = Inr e'"
  shows "encodeRepr (e\<lparr>enc_buf := t\<rparr>) f = Inr (e'\<lparr>enc_buf := t @ enc_buf e'\<rparr>)"
proof -
  have "searchTable (e\<lparr>enc_buf := t\<rparr>) f = searchTable (e\<lparr>enc_buf := []\<rparr>) f"
      "shouldIndex (e\<lparr>enc_buf := t\<rparr>) f = shouldIndex (e\<lparr>enc_buf := []\<rparr>) f"
    by (simp_all add: searchTable_def shouldIndex_def cong: if_cong)
  moreover obtain i m where "searchTable (e\<lparr>enc_buf := []\<rparr>) f = Inr (i, m)"
    using assms by (auto simp: encodeRepr_def)
  ultimately show ?thesis
    using assms
    by (cases m; cases "i = 0")
      (auto simp: encodeRepr_def Let_def appendIndexed_append [of t] appendNewName_append [of t]
        appendIndexedName_eq)
qed

lemma encodeField_update:
  assumes "tableSizeUpdate e" and "\<not> minSize e < maxSize (enc_dynTab e)"
    and "encodeField (e\<lparr>tableSizeUpdate := False, minSize := uint32Max\<rparr>) f = Inr e'"
  shows "encodeField e f =
    Inr (e'\<lparr>enc_buf := appendTableSize [] (maxSize (enc_dynTab e)) @ enc_buf e'\<rparr>)"
proof -
  let ?e = "e\<lparr>tableSizeUpdate := False, minSize := uint32Max\<rparr>"
  let ?t = "appendTableSize [] (maxSize (enc_dynTab e))"
  have "writeSizeUpdate (?e\<lparr>enc_buf := []\<rparr>) = ?e\<lparr>enc_buf := []\<rparr>"
    by (simp add: writeSizeUpdate_def)
  moreover have "writeSizeUpdate (e\<lparr>enc_buf := []\<rparr>) = ?e\<lparr>enc_buf := ?t\<rparr>"
    using assms(1,2) by (cases e) (simp add: writeSizeUpdate_def)
  ultimately show ?thesis
    using encodeRepr_prefix [of ?e f e' ?t] assms(3) unfolding encodeField_def by metis
qed

lemma encodeField_double:
  assumes "tableSizeUpdate e" and "minSize e < maxSize (enc_dynTab e)" and "encodeField e f = Inr e'"
  shows "\<exists>rest. enc_buf e' = appendTableSize [] (minSize e) @ appendTableSize [] (maxSize (enc_dynTab e)) @ rest"
proof -
  let ?e = "e\<lparr>tableSizeUpdate := False, minSize := uint32Max\<rparr>"
  let ?t = "appendTableSize [] (minSize e) @ appendTableSize [] (maxSize (enc_dynTab e))"
  have "writeSizeUpdate (e\<lparr>enc_buf := []\<rparr>) = ?e\<lparr>enc_buf := ?t\<rparr>"
    using assms(1,2) by (cases e) (simp add: writeSizeUpdate_def appendTableSize_eq [of "orAt _ _ _"] appendTableSize_eq [of "[]"])
  then have "encodeRepr (?e\<lparr>enc_buf := ?t\<rparr>) f = Inr e'"
    using assms(3) by (simp add: encodeField_def)
  then show ?thesis
    by (auto simp: encodeRepr_def Let_def appendIndexed_append [of ?t] appendNewName_append [of ?t]
        appendIndexedName_eq [of ?t] split: if_splits)
qed

section \<open>Header blocks\<close>

text \<open>\<^verbatim>\<open>bytes.Buffer\<close> as the encoder's writer, and a block of fields written to it.\<close>

definition bufferWrite :: "bytes \<Rightarrow> bytes \<Rightarrow> bytes \<times> nat \<times> io_error option" where
  "bufferWrite w b = (w @ b, length b, None)"

fun WriteFields :: "bytes Encoder \<Rightarrow> HeaderField list \<Rightarrow> hpack_error + bytes Encoder" where
  "WriteFields e [] = Inr e"
| "WriteFields e (f # fs) = and_then (WriteField bufferWrite e f) (\<lambda>(e', err). WriteFields e' fs)"

text \<open>
  The two sides between header blocks. A size record that is still to be written makes the
  decoder's table equal to the encoder's.
\<close>

definition synced :: "'w Encoder \<Rightarrow> 's Decoder \<Rightarrow> bool" where
  "synced e d \<longleftrightarrow> dt_exact (enc_dynTab e) \<and> maxSize (enc_dynTab e) \<le> allowedMaxSize (dec_dynTab d) \<and>
     (if tableSizeUpdate e then
        \<not> minSize e < maxSize (enc_dynTab e) \<and> dt_ok (dec_dynTab d) \<and>
        (\<exists>dt. setMaxSize (dec_dynTab d) (maxSize (enc_dynTab e)) = Inr dt \<and> same_tab (enc_dynTab e) dt \<and>
          allowedMaxSize dt = allowedMaxSize (dec_dynTab d))
      else minSize e = uint32Max \<and> same_tab (enc_dynTab e) (dec_dynTab d))"

text \<open>The parts of a collecting decoder that reading a block leaves alone.\<close>

definition collecting :: "HeaderField list Decoder \<Rightarrow> HeaderField list Decoder \<Rightarrow> bool" where
  "collecting d d' \<longleftrightarrow> emit d' = emit d \<and> emitEnabled d' = emitEnabled d \<and> maxStrLen d' = maxStrLen d \<and>
     saveBuf d' = saveBuf d \<and> allowedMaxSize (dec_dynTab d') = allowedMaxSize (dec_dynTab d)"

lemma WriteField_buffer:
  assumes "encodeField e f = Inr e'"
  shows "WriteField bufferWrite e f = Inr (e'\<lparr>enc_w := enc_w e' @ enc_buf e'\<rparr>, None)"
  using assms by (simp add: WriteField_def bufferWrite_def)

lemma callEmit_collect:
  assumes "emit d = collect" "emitEnabled d" "fits dt (maxStrLen d) f"
  shows "callEmit d f = (d\<lparr>sink := sink d @ [f]\<rparr>, None)"
  using assms by (cases d) (auto simp: callEmit_def collect_def fits_def)

lemma loop_step:
  assumes step: "lockstep e d f e1 dt1" and "emit d = collect" "emitEnabled d" "fits dt (maxStrLen d) f"
  shows "writeLoop (d\<lparr>dec_buf := enc_buf e1 @ out\<rparr>) =
    writeLoop (d\<lparr>dec_dynTab := dt1, sink := sink d @ [f], firstField := False, dec_buf := out\<rparr>)"
proof -
  have "parseHeaderFieldRepr (d\<lparr>dec_buf := enc_buf e1 @ out\<rparr>) =
      (d\<lparr>dec_buf := out, dec_dynTab := dt1, sink := sink d @ [f]\<rparr>, None)"
    using step callEmit_collect [of "d\<lparr>dec_buf := out, dec_dynTab := dt1\<rparr>" dt f] assms(2-4)
    by (simp add: lockstep_def)
  moreover have "writeLoop (d\<lparr>dec_buf := out, dec_dynTab := dt1, sink := sink d @ [f], firstField := False\<rparr>) =
      writeLoop (d\<lparr>dec_dynTab := dt1, sink := sink d @ [f], firstField := False, dec_buf := out\<rparr>)"
    by (rule arg_cong [where f = writeLoop]) simp
  ultimately show ?thesis
    using step by (subst writeLoop.simps) (simp add: lockstep_def)
qed

lemma block_synced:
  assumes "tables_synced e d" and "\<forall>f \<in> set fs. fits (enc_dynTab e) (maxStrLen d) f"
    and "added (table (enc_dynTab e)) + length fs < 2 ^ 64 - 1"
    and "emit d = collect" "emitEnabled d"
  shows "\<exists>e' out d'. WriteFields e fs = Inr e' \<and> enc_w e' = enc_w e @ out \<and>
    writeLoop (d\<lparr>dec_buf := out\<rparr>) = (d', False, None) \<and> tables_synced e' d' \<and>
    sink d' = sink d @ fs \<and> collecting d d' \<and> maxSize (enc_dynTab e') = maxSize (enc_dynTab e) \<and>
    added (table (enc_dynTab e')) \<le> added (table (enc_dynTab e)) + length fs \<and>
    (fs \<noteq> [] \<longrightarrow> out \<noteq> [])"
  using assms
proof (induction fs arbitrary: e d)
  case Nil
  have "writeLoop (d\<lparr>dec_buf := []\<rparr>) = (d\<lparr>dec_buf := []\<rparr>, False, None)"
    by (simp add: writeLoop.simps)
  with Nil show ?case
    by (intro exI [of _ e] exI [of _ "[]"] exI [of _ "d\<lparr>dec_buf := []\<rparr>"])
      (simp add: collecting_def tables_synced_def)
next
  case (Cons f fs)
  have fit: "fits (enc_dynTab e) (maxStrLen d) f" using Cons.prems(2) by simp
  obtain e1 dt1 where step: "lockstep e d f e1 dt1"
    using encode_parse_field [OF Cons.prems(1) fit _ Cons.prems(5)] Cons.prems(3) by auto
  let ?e = "e1\<lparr>enc_w := enc_w e1 @ enc_buf e1\<rparr>"
  let ?d = "d\<lparr>dec_dynTab := dt1, sink := sink d @ [f], firstField := False\<rparr>"
  have "tables_synced ?e ?d" "added (table (enc_dynTab ?e)) + length fs < 2 ^ 64 - 1"
      "\<forall>f \<in> set fs. fits (enc_dynTab ?e) (maxStrLen ?d) f"
    using step Cons.prems by (auto simp: lockstep_def tables_synced_def fits_def)
  from Cons.IH [OF this(1,3,2)] Cons.prems(4,5) obtain e' out d' where
    ih: "WriteFields ?e fs = Inr e'" "enc_w e' = enc_w ?e @ out"
      "writeLoop (?d\<lparr>dec_buf := out\<rparr>) = (d', False, None)" "tables_synced e' d'"
      "sink d' = sink ?d @ fs" "collecting ?d d'" "maxSize (enc_dynTab e') = maxSize (enc_dynTab ?e)"
      "added (table (enc_dynTab e')) \<le> added (table (enc_dynTab ?e)) + length fs"
    by auto
  have "writeLoop (d\<lparr>dec_buf := enc_buf e1 @ out\<rparr>) = (d', False, None)"
    using loop_step [OF step Cons.prems(4,5) fit, of out] ih(3) by simp
  moreover have "WriteFields e (f # fs) = Inr e'"
    using WriteField_buffer [of e f e1] step ih(1) by (simp add: lockstep_def)
  ultimately show ?case
    using ih step
    by (intro exI [of _ e'] exI [of _ "enc_buf e1 @ out"] exI [of _ d'])
      (simp add: lockstep_def collecting_def)
qed

text \<open>With a pending size record: it precedes the first field.\<close>

lemma block_pending:
  assumes sync: "synced e d" and upd: "tableSizeUpdate e" and first: "firstField d" and ne: "fs \<noteq> []"
    and fit: "\<forall>f \<in> set fs. fits (enc_dynTab e) (maxStrLen d) f"
    and room: "added (table (enc_dynTab e)) + length fs < 2 ^ 64 - 1"
    and em: "emit d = collect" "emitEnabled d"
  shows "\<exists>e' out d'. WriteFields e fs = Inr e' \<and> enc_w e' = enc_w e @ out \<and>
    writeLoop (d\<lparr>dec_buf := out\<rparr>) = (d', False, None) \<and> tables_synced e' d' \<and>
    sink d' = sink d @ fs \<and> collecting d d' \<and> maxSize (enc_dynTab e') = maxSize (enc_dynTab e) \<and>
    added (table (enc_dynTab e')) \<le> added (table (enc_dynTab e)) + length fs \<and> out \<noteq> []"
proof -
  obtain dt where dt: "setMaxSize (dec_dynTab d) (maxSize (enc_dynTab e)) = Inr dt"
      "same_tab (enc_dynTab e) dt" "allowedMaxSize dt = allowedMaxSize (dec_dynTab d)"
    using sync upd by (auto simp: synced_def)
  let ?e = "e\<lparr>tableSizeUpdate := False, minSize := uint32Max\<rparr>"
  let ?d = "d\<lparr>dec_dynTab := dt, firstField := False\<rparr>"
  let ?t = "appendTableSize [] (maxSize (enc_dynTab e))"
  obtain f fs' where fs: "fs = f # fs'"
    using ne by (cases fs) auto
  have fit_f: "fits (enc_dynTab e) (maxStrLen d) f"
    using fit fs by simp
  have "tables_synced ?e ?d"
    using sync dt(2) by (simp add: tables_synced_def synced_def)
  then obtain e1 dt1 where step: "lockstep ?e ?d f e1 dt1"
    using encode_parse_field [of ?e ?d f] fit_f room em fs by auto
  let ?e1 = "e1\<lparr>enc_buf := ?t @ enc_buf e1, enc_w := enc_w e1 @ ?t @ enc_buf e1\<rparr>"
  let ?d1 = "?d\<lparr>dec_dynTab := dt1, sink := sink d @ [f], firstField := False\<rparr>"
  have "tables_synced ?e1 ?d1" "added (table (enc_dynTab ?e1)) + length fs' < 2 ^ 64 - 1"
      "\<forall>f \<in> set fs'. fits (enc_dynTab ?e1) (maxStrLen ?d1) f"
    using step fit room fs by (auto simp: lockstep_def tables_synced_def fits_def)
  from block_synced [OF this(1,3,2)] em obtain e' out d' where
    ih: "WriteFields ?e1 fs' = Inr e'" "enc_w e' = enc_w ?e1 @ out"
      "writeLoop (?d1\<lparr>dec_buf := out\<rparr>) = (d', False, None)" "tables_synced e' d'"
      "sink d' = sink ?d1 @ fs'" "collecting ?d1 d'" "maxSize (enc_dynTab e') = maxSize (enc_dynTab ?e1)"
      "added (table (enc_dynTab e')) \<le> added (table (enc_dynTab ?e1)) + length fs'"
    by auto
  have "encodeField e f = Inr (e1\<lparr>enc_buf := ?t @ enc_buf e1\<rparr>)"
    using encodeField_update [OF upd, of f e1] sync upd step by (auto simp: synced_def lockstep_def)
  from WriteField_buffer [OF this] ih(1) fs have "WriteFields e fs = Inr e'"
    by simp
  moreover have "writeLoop (d\<lparr>dec_buf := ?t @ enc_buf e1 @ out\<rparr>) = (d', False, None)"
  proof -
    have "parseHeaderFieldRepr (d\<lparr>dec_buf := ?t @ enc_buf e1 @ out\<rparr>) =
        (d\<lparr>dec_dynTab := dt, dec_buf := enc_buf e1 @ out\<rparr>, None)"
      using parse_table_size [OF _ _ dt(1), of "enc_buf e1 @ out"] first sync by (simp add: synced_def)
    moreover have "writeLoop (d\<lparr>dec_dynTab := dt, dec_buf := enc_buf e1 @ out, firstField := False\<rparr>) =
        writeLoop (?d\<lparr>dec_buf := enc_buf e1 @ out\<rparr>)"
      by (rule arg_cong [where f = writeLoop]) simp
    ultimately show ?thesis
      using loop_step [OF step, of "enc_dynTab e" out] ih(3) em fit_f
      by (subst writeLoop.simps) (simp add: appendTableSize_eq)
  qed
  ultimately show ?thesis
    using ih step fs dt(3)
    by (intro exI [of _ e'] exI [of _ "?t @ enc_buf e1 @ out"] exI [of _ d'])
      (simp add: lockstep_def collecting_def appendTableSize_eq)
qed

text \<open>A whole header block, decoded in one call.\<close>

lemma block_round_trip:
  assumes sync: "synced e d" and first: "firstField d" and save: "saveBuf d = []" and en: "emitEnabled d"
    and fit: "\<forall>f \<in> set fs. fits (enc_dynTab e) (maxStrLen d) f"
    and room: "added (table (enc_dynTab e)) + length fs < 2 ^ 64 - 1"
  shows "\<exists>e' out d'. WriteFields e fs = Inr e' \<and> enc_w e' = enc_w e @ out \<and>
    DecodeFull d out = (d', Inr fs) \<and> synced e' d' \<and> firstField d' \<and> saveBuf d' = [] \<and> emitEnabled d' \<and>
    maxStrLen d' = maxStrLen d \<and> maxSize (enc_dynTab e') = maxSize (enc_dynTab e) \<and>
    added (table (enc_dynTab e')) \<le> added (table (enc_dynTab e)) + length fs"
proof (cases "fs = []")
  case True
  then show ?thesis
    using assms
    by (intro exI [of _ e] exI [of _ "[]"] exI [of _ "d"])
      (simp add: DecodeFull_def Write_def Close_def with_emit_def)
next
  case ne: False
  let ?d = "with_emit d collect []"
  have d: "emit ?d = collect" "emitEnabled ?d" "firstField ?d" "maxStrLen ?d = maxStrLen d"
      "dec_dynTab ?d = dec_dynTab d" "saveBuf ?d = []" "sink ?d = []"
    using en first save by (simp_all add: with_emit_def)
  have "\<exists>e' out d'. WriteFields e fs = Inr e' \<and> enc_w e' = enc_w e @ out \<and>
      writeLoop (?d\<lparr>dec_buf := out\<rparr>) = (d', False, None) \<and> tables_synced e' d' \<and>
      sink d' = sink ?d @ fs \<and> collecting ?d d' \<and> maxSize (enc_dynTab e') = maxSize (enc_dynTab e) \<and>
      added (table (enc_dynTab e')) \<le> added (table (enc_dynTab e)) + length fs \<and> out \<noteq> []"
  proof (cases "tableSizeUpdate e")
    case True
    then show ?thesis
      using block_pending [of e ?d fs] sync fit room ne d by (simp add: synced_def)
  next
    case False
    then have "tables_synced e ?d"
      using sync d by (simp add: synced_def tables_synced_def)
    from block_synced [OF this, of fs] fit room ne d show ?thesis by auto
  qed
  then obtain e' out d1 where
    b: "WriteFields e fs = Inr e'" "enc_w e' = enc_w e @ out"
      "writeLoop (?d\<lparr>dec_buf := out\<rparr>) = (d1, False, None)" "tables_synced e' d1"
      "sink d1 = fs" "collecting ?d d1" "maxSize (enc_dynTab e') = maxSize (enc_dynTab e)"
      "added (table (enc_dynTab e')) \<le> added (table (enc_dynTab e)) + length fs" "out \<noteq> []"
    using d(7) by auto
  let ?d' = "with_emit (d1\<lparr>firstField := True\<rparr>) (emit d) (sink d)"
  have "DecodeFull d out = (?d', Inr fs)"
    using b d by (simp add: DecodeFull_def Write_def Close_def collecting_def)
  moreover have "synced e' ?d'"
    using b sync d by (simp add: synced_def tables_synced_def collecting_def with_emit_def)
  ultimately show ?thesis
    using b d
    by (intro exI [of _ e'] exI [of _ out] exI [of _ ?d']) (simp add: with_emit_def collecting_def)
qed

section \<open>Changing the limit between blocks\<close>

text \<open>A table is determined by its entries and the number of fields ever added.\<close>

lemma table_ok_unique:
  assumes "table_ok s" "table_ok t" "ents s = ents t" "added s = added t"
  shows "s = t"
proof -
  have "evictCount s = evictCount t"
    using assms(3,4) by (simp add: added_def word_unat_eq_iff)
  moreover from this have "uid s = uid t"
    by (simp add: uid_def fun_eq_iff)
  ultimately show ?thesis
    using assms by (auto intro!: headerFieldTable.equality ext simp: table_ok_def)
qed

lemma first_unique:
  assumes "P m" "\<forall>k < m. \<not> P k" "P n" "\<forall>k < n. \<not> P k"
  shows "m = (n :: nat)"
  using assms by (metis linorder_neqE_nat)

text \<open>Shrinking twice is shrinking once to the smaller size.\<close>

lemma setMaxSize_twice:
  assumes ok: "dt_ok dt" and a: "setMaxSize dt v = Inr dt1" and b: "setMaxSize dt1 w = Inr dt2" and "w \<le> v"
  shows "\<exists>dt3. setMaxSize dt w = Inr dt3 \<and> same_tab dt2 dt3 \<and> allowedMaxSize dt3 = allowedMaxSize dt"
proof -
  let ?fs = "ents (table dt)" and ?size = "\<lambda>k. word_of_nat (total_size (drop k (ents (table dt)))) :: u32"
  have pre: "table_ok (table (d\<lparr>maxSize := x\<rparr>))"
      "dt_size (d\<lparr>maxSize := x\<rparr>) = word_of_nat (total_size (ents (table (d\<lparr>maxSize := x\<rparr>))))"
    if "dt_ok d" for d x using that by (auto simp: dt_ok_def)
  obtain n1 where 1: "dt_ok dt1" "maxSize dt1 = v" "added (table dt1) = added (table dt)"
      "n1 \<le> length ?fs" "ents (table dt1) = drop n1 ?fs" "\<forall>k < n1. ?size k > v"
    using evict_spec [OF pre [OF ok], of v] a by (auto simp: setMaxSize_def)
  obtain n2 where 2: "dt_ok dt2" "maxSize dt2 = w" "added (table dt2) = added (table dt1)"
      "ents (table dt2) = drop n2 (ents (table dt1))" "\<forall>k < n2. ?size (n1 + k) > w"
    using evict_spec [OF pre [OF 1(1)], of w] b 1(5) by (auto simp: setMaxSize_def add.commute)
  obtain dt3 n3 where 3: "setMaxSize dt w = Inr dt3" "dt_ok dt3" "maxSize dt3 = w"
      "allowedMaxSize dt3 = allowedMaxSize dt" "added (table dt3) = added (table dt)"
      "ents (table dt3) = drop n3 ?fs" "\<forall>k < n3. ?size k > w"
    using evict_spec [OF pre [OF ok], of w] by (auto simp: setMaxSize_def)
  have "?size k > w" if "k < n1 + n2" for k
  proof (cases "k < n1")
    case True
    with 1(6) \<open>w \<le> v\<close> show ?thesis by (meson order_le_less_trans)
  next
    case False
    with 2(5) that show ?thesis by (metis add_diff_inverse_nat nat_add_left_cancel_less)
  qed
  moreover have "?size (n1 + n2) \<le> w" "?size n3 \<le> w"
    using 1(5) 2(1,2,4) 3(2,3,6) by (auto simp: dt_ok_def add.commute)
  ultimately have "n1 + n2 = n3"
    using 3(7) first_unique [of "\<lambda>k. ?size k \<le> w" "n1 + n2" n3] by (auto simp: not_le)
  then have "ents (table dt2) = ents (table dt3)"
    using 1(5) 2(4) 3(6) by (simp add: add.commute)
  with 1 2 3 have "same_tab dt2 dt3"
    using table_ok_unique [of "table dt2" "table dt3"] by (auto simp: same_tab_def dt_ok_def)
  with 3 show ?thesis by blast
qed

lemma setMaxSize_exact:
  assumes "dt_exact dt" and "setMaxSize dt v = Inr dt'"
  shows "dt_exact dt'"
proof -
  have pre: "table_ok (table (dt\<lparr>maxSize := v\<rparr>))"
      "dt_size (dt\<lparr>maxSize := v\<rparr>) = word_of_nat (total_size (ents (table (dt\<lparr>maxSize := v\<rparr>))))"
    using assms(1) by (auto simp: dt_exact_def dt_ok_def)
  obtain n where n: "dt_ok dt'" "maxSize dt' = v" "ents (table dt') = drop n (ents (table dt))"
    using evict_spec [OF pre] assms(2) by (auto simp: setMaxSize_def)
  have "total_size (ents (table dt')) < 2 ^ 32"
    using total_size_drop [of n "ents (table dt)"] assms(1) unat_less [of "maxSize dt"] n(3)
    by (simp add: dt_exact_def)
  from unat_total_size [OF this] n(1) show ?thesis
    by (auto simp: dt_exact_def dt_ok_def word_le_nat_alt)
qed

lemma synced_dt_ok: "synced e d \<Longrightarrow> dt_ok (dec_dynTab d)"
  by (auto simp: synced_def dt_exact_def dt_ok_def same_tab_def split: if_splits)

lemma limit_synced:
  assumes sync: "synced e d"
  shows "\<exists>e'. SetMaxDynamicTableSizeLimit e v = Inr e' \<and> synced e' d \<and> enc_w e' = enc_w e \<and>
    added (table (enc_dynTab e')) = added (table (enc_dynTab e)) \<and>
    maxSize (enc_dynTab e') = min (maxSize (enc_dynTab e)) v"
proof (cases "maxSize (enc_dynTab e) > v")
  case False
  with sync show ?thesis
    by (auto simp: SetMaxDynamicTableSizeLimit_def synced_def min_def)
next
  case True
  have exact: "dt_exact (enc_dynTab e)"
    using sync by (simp add: synced_def)
  note ok = synced_dt_ok [OF sync]
  obtain dt where dt: "setMaxSize (enc_dynTab e) v = Inr dt" "maxSize dt = v"
      "added (table dt) = added (table (enc_dynTab e))"
    using setMaxSize_ok [of "enc_dynTab e" v] exact by (auto simp: dt_exact_def)
  have "\<exists>dt3. setMaxSize (dec_dynTab d) v = Inr dt3 \<and> same_tab dt dt3 \<and>
      allowedMaxSize dt3 = allowedMaxSize (dec_dynTab d)"
  proof (cases "tableSizeUpdate e")
    case upd: True
    then obtain dt1 where 1: "setMaxSize (dec_dynTab d) (maxSize (enc_dynTab e)) = Inr dt1"
        "same_tab (enc_dynTab e) dt1" "allowedMaxSize dt1 = allowedMaxSize (dec_dynTab d)"
      using sync by (auto simp: synced_def)
    obtain dt2 where 2: "setMaxSize dt1 v = Inr dt2" "same_tab dt dt2"
      using setMaxSize_same [OF 1(2) dt(1)] by blast
    from setMaxSize_twice [OF ok 1(1) 2(1)] True 2(2) show ?thesis
      by (auto simp: same_tab_def)
  next
    case False
    then show ?thesis
      using setMaxSize_same [OF _ dt(1), of "dec_dynTab d"] sync by (auto simp: synced_def)
  qed
  moreover have "\<not> minSize e < v"
    using sync True word_order.extremum [of v]
    by (auto simp: synced_def uint32Max_def not_less split: if_splits)
  moreover have "v \<le> allowedMaxSize (dec_dynTab d)"
    using True sync by (auto simp: synced_def)
  ultimately have "synced (e\<lparr>maxSizeLimit := v, tableSizeUpdate := True, enc_dynTab := dt\<rparr>) d"
    using dt ok setMaxSize_exact [OF exact dt(1)] by (simp add: synced_def)
  then show ?thesis
    using True dt by (auto simp: SetMaxDynamicTableSizeLimit_def min_def)
qed

section \<open>A connection's header blocks\<close>

text \<open>
  What a connection does with its encoder: write header blocks, and lower the table size when the
  peer's settings say so. Every block is decoded with \<^verbatim>\<open>DecodeFull\<close> by the peer.
\<close>

datatype hpack_event = Block "HeaderField list" | Limit u32

fun session_ok :: "bytes Encoder \<Rightarrow> 's Decoder \<Rightarrow> hpack_event list \<Rightarrow> bool" where
  "session_ok e d [] = True"
| "session_ok e d (Limit v # evs) =
     (case SetMaxDynamicTableSizeLimit e v of Inl _ \<Rightarrow> False | Inr e' \<Rightarrow> session_ok e' d evs)"
| "session_ok e d (Block fs # evs) =
     (case WriteFields (e\<lparr>enc_w := []\<rparr>) fs of
        Inl _ \<Rightarrow> False
      | Inr e' \<Rightarrow> (case DecodeFull d (enc_w e') of (d', r) \<Rightarrow> r = Inr fs \<and> session_ok e' d' evs))"

fun event_fields :: "hpack_event list \<Rightarrow> HeaderField list" where
  "event_fields [] = []"
| "event_fields (Limit v # evs) = event_fields evs"
| "event_fields (Block fs # evs) = fs @ event_fields evs"

lemma fits_mono: "fits dt n f \<Longrightarrow> maxSize dt' \<le> maxSize dt \<Longrightarrow> fits dt' n f"
  by (auto simp: fits_def word_le_nat_alt)

lemma session_synced:
  assumes "synced e d" "firstField d" "saveBuf d = []" "emitEnabled d"
    and "\<forall>f \<in> set (event_fields evs). fits (enc_dynTab e) (maxStrLen d) f"
    and "added (table (enc_dynTab e)) + length (event_fields evs) < 2 ^ 64 - 1"
  shows "session_ok e d evs"
  using assms
proof (induction e d evs rule: session_ok.induct)
  case (2 e d v evs)
  from limit_synced [OF 2(2), of v] obtain e' where
    e': "SetMaxDynamicTableSizeLimit e v = Inr e'" "synced e' d"
      "added (table (enc_dynTab e')) = added (table (enc_dynTab e))"
      "maxSize (enc_dynTab e') = min (maxSize (enc_dynTab e)) v" by blast
  have "session_ok e' d evs"
    using 2(1) [OF e'(1)] 2(3-7) e' fits_mono [of "enc_dynTab e" _ _ "enc_dynTab e'"] by simp
  with e'(1) show ?case by simp
next
  case (3 e d fs evs)
  have sync: "synced (e\<lparr>enc_w := []\<rparr>) d"
    using 3(2) by (simp add: synced_def)
  from block_round_trip [OF sync 3(3,4,5), of fs] 3(6,7) obtain e' d' where
    b: "WriteFields (e\<lparr>enc_w := []\<rparr>) fs = Inr e'" "DecodeFull d (enc_w e') = (d', Inr fs)" "synced e' d'"
      "firstField d'" "saveBuf d' = []" "emitEnabled d'" "maxStrLen d' = maxStrLen d"
      "maxSize (enc_dynTab e') = maxSize (enc_dynTab e)"
      "added (table (enc_dynTab e')) \<le> added (table (enc_dynTab e)) + length fs"
    by auto
  have "session_ok e' d' evs"
    using 3(1) [OF b(1) b(2) [symmetric]] 3(6,7) b fits_mono [of "enc_dynTab e" _ _ "enc_dynTab e'"]
    by auto
  with b show ?case by simp
qed simp

lemma new_synced:
  assumes "NewEncoder w = Inr e" and "NewDecoder 4096 em s = Inr d"
  shows "synced e d \<and> firstField d \<and> saveBuf d = [] \<and> emitEnabled d \<and> maxStrLen d = 0 \<and>
    maxSize (enc_dynTab e) = 4096 \<and> added (table (enc_dynTab e)) = 0"
proof -
  let ?i = init_dynamicTable
  obtain a where a: "setMaxSize ?i 4096 = Inr a" "maxSize a = 4096" "added (table a) = added (table ?i)"
    using setMaxSize_ok [OF init_dynamicTable_ok, of 4096] by auto
  have "same_tab ?i (?i\<lparr>allowedMaxSize := 4096\<rparr>)"
    by (simp add: same_tab_def)
  from setMaxSize_same [OF this a(1)] obtain b where
    b: "setMaxSize (?i\<lparr>allowedMaxSize := 4096\<rparr>) 4096 = Inr b" "same_tab a b" "allowedMaxSize b = 4096"
    by auto
  have "dt_exact ?i"
    using init_dynamicTable_ok by (simp add: dt_exact_def init_dynamicTable_def init_table_def)
  from setMaxSize_exact [OF this a(1)] a b assms show ?thesis
    by (auto simp: NewEncoder_def NewDecoder_def initialHeaderTableSize_def synced_def init_dynamicTable_def
        init_table_def added_def)
qed

section \<open>Properties\<close>

text \<open>
  C1: a new encoder and a new decoder, with the table size 4096 both start from, stay in agreement
  for the whole life of a connection: after any sequence of header blocks and reductions of the
  table size, every block that \<^verbatim>\<open>WriteField\<close> produced is decoded by \<^verbatim>\<open>DecodeFull\<close> to exactly the
  fields that were written, names, values and sensitivity, in order. (Fewer than \<open>2 ^ 64 - 1\<close> fields,
  each smaller than 4 GB minus the table, so that no counter overflows.)
\<close>

theorem hpack_session_round_trip:
  assumes "NewEncoder [] = Inr e" and "NewDecoder 4096 em s = Inr d"
    and "\<forall>f \<in> set (event_fields evs). 4096 + field_size f < 2 ^ 32"
    and "length (event_fields evs) < 2 ^ 64 - 1"
  shows "session_ok e d evs"
proof -
  note new = new_synced [OF assms(1,2)]
  then show ?thesis
    using session_synced [of e d evs] assms(3,4) by (auto simp: fits_def)
qed

theorem hpack_session_round_trip_witness:
  "\<exists>e d. NewEncoder [] = Inr e \<and> NewDecoder 4096 collect [] = Inr d \<and>
     session_ok e d [Block [hf '':method'' ''GET'', hf ''a'' ''b''], Limit 0,
       Block [\<lparr>Name = ''a'', Value = ''secret'', Sensitive = True\<rparr>, hf ''a'' ''b'']]"
proof -
  obtain e :: "bytes Encoder" where e: "NewEncoder [] = Inr e"
    using setMaxSize_ok [OF init_dynamicTable_ok, of 4096]
    by (auto simp: NewEncoder_def initialHeaderTableSize_def)
  have "dt_ok (init_dynamicTable\<lparr>allowedMaxSize := 4096\<rparr>)"
    using init_dynamicTable_ok by (auto simp: dt_ok_def)
  then obtain d :: "HeaderField list Decoder" where d: "NewDecoder 4096 collect [] = Inr d"
    using setMaxSize_ok [of "init_dynamicTable\<lparr>allowedMaxSize := 4096\<rparr>" 4096]
    by (auto simp: NewDecoder_def)
  have "session_ok e d [Block [hf '':method'' ''GET'', hf ''a'' ''b''], Limit 0,
       Block [\<lparr>Name = ''a'', Value = ''secret'', Sensitive = True\<rparr>, hf ''a'' ''b'']]"
    by (rule hpack_session_round_trip [OF e d]) (simp_all add: field_size_def)
  with e d show ?thesis by blast
qed

text \<open>
  when the table size was lowered and raised again between two blocks, the encoder writes two
  size records; the decoder accepts the second only if its table is empty by then. Otherwise the
  header block is refused, although RFC 7541, section 4.2, lets an encoder send two records.
\<close>

theorem double_size_update_refused:
  assumes "tableSizeUpdate e" and "minSize e < maxSize (enc_dynTab e)" and "encodeField e f = Inr e'"
    and "dec_buf d = enc_buf e'" and "firstField d" and "minSize e \<le> allowedMaxSize (dec_dynTab d)"
    and "setMaxSize (dec_dynTab d) (minSize e) = Inr dt" and "dt_size dt > 0"
  shows "\<exists>d'. writeLoop d = (d', False, Some (DecodingError TableSizeUpdateNotFirst))"
proof -
  let ?t1 = "appendTableSize [] (minSize e)" and ?t2 = "appendTableSize [] (maxSize (enc_dynTab e))"
  obtain rest where buf: "dec_buf d = ?t1 @ ?t2 @ rest"
    using encodeField_double [OF assms(1-3)] assms(4) by auto
  let ?d = "d\<lparr>dec_dynTab := dt, dec_buf := ?t2 @ rest, firstField := False\<rparr>"
  have "parseHeaderFieldRepr d = (d\<lparr>dec_dynTab := dt, dec_buf := ?t2 @ rest\<rparr>, None)"
    using parse_table_size [OF _ assms(6,7), of "?t2 @ rest"] assms(5) buf
    by (metis Decoder.surjective Decoder.update_convs(5))
  moreover have "parseHeaderFieldRepr ?d = (?d, Some (DecodingError TableSizeUpdateNotFirst))"
    using parse_late_update [of ?d "maxSize (enc_dynTab e)" rest] assms(8) by simp
  moreover have "dec_buf d \<noteq> []" "dec_buf ?d \<noteq> []"
    by (simp_all add: buf appendTableSize_eq)
  ultimately show ?thesis
    by (simp add: writeLoop.simps [of d] writeLoop.simps [of ?d])
qed

text \<open>An encoder whose table size went from 4096 to 40 and back, and a decoder with one entry of 34 bytes.\<close>

definition shrunk_encoder :: "bytes Encoder" where
  "shrunk_encoder = \<lparr>enc_dynTab = init_dynamicTable\<lparr>maxSize := 4096\<rparr>, minSize = 40, maxSizeLimit = 4096,
     tableSizeUpdate = True, enc_w = [], enc_buf = []\<rparr>"

definition one_entry :: dynamicTable where
  "one_entry = (case dt_add (init_dynamicTable\<lparr>maxSize := 4096, allowedMaxSize := 4096\<rparr>) (hf ''a'' ''b'') of
     Inr dt \<Rightarrow> dt | Inl _ \<Rightarrow> init_dynamicTable)"

theorem double_size_update_refused_witness:
  "\<exists>e' d'. encodeField shrunk_encoder (hf '':method'' ''GET'') = Inr e' \<and>
     writeLoop \<lparr>dec_dynTab = one_entry, emit = collect, emitEnabled = True, maxStrLen = 0, dec_buf = enc_buf e',
       saveBuf = [], firstField = True, sink = []\<rparr> = (d', False, Some (DecodingError TableSizeUpdateNotFirst))"
proof -
  have "case encodeField shrunk_encoder (hf '':method'' ''GET'') of Inl _ \<Rightarrow> False | Inr _ \<Rightarrow> True"
    by code_simp
  then obtain e' where e': "encodeField shrunk_encoder (hf '':method'' ''GET'') = Inr e'"
    by (auto split: sum.splits)
  have "case setMaxSize one_entry 40 of Inl _ \<Rightarrow> False | Inr dt \<Rightarrow> dt_size dt > 0"
    by code_simp
  then obtain dt where dt: "setMaxSize one_entry 40 = Inr dt" "dt_size dt > 0"
    by (auto split: sum.splits)
  have "40 \<le> allowedMaxSize one_entry"
    by code_simp
  with double_size_update_refused [OF _ _ e', of "\<lparr>dec_dynTab = one_entry, emit = collect, emitEnabled = True,
      maxStrLen = 0, dec_buf = enc_buf e', saveBuf = [], firstField = True, sink = []\<rparr>" dt] dt e'
  show ?thesis by (simp add: shrunk_encoder_def)
qed

end
