(* ===== verification/Loopy.thy ===== *)
theory Loopy
  imports Out_Streams Bdp Buf_Writer Hpack_Codec "HOL-Library.AList"
begin

text \<open>
  The loopy writer (\<^verbatim>\<open>h2/controlbuf.go\<close>): the only goroutine that writes frames. It takes items from
  the control buffer, keeps the outgoing streams, and sends their data round robin within the windows
  of the peer. The model has the state of the loop and one definition per handler; the goroutine
  itself is the function \<open>loopy_run\<close> over the answers of the control buffer. Header fields are encoded
  with \<^const>\<open>WriteFields\<close>, which writes to a \<^verbatim>\<open>bytes.Buffer\<close>.
\<close>

section \<open>State\<close>

datatype side = clientSide | serverSide

definition defaultWindowSize :: u32 where "defaultWindowSize = 65535"

text \<open>
  \<open>LPanic\<close> and \<open>LStuck\<close> are not errors that a caller sees: the goroutine panics, or never goes on.
\<close>

datatype loopy_error = LConnClosing | LConnectionClosing | LFrame frame_error | LPanic string | LStuck

text \<open>An error of the framer as an error of a handler.\<close>

fun of_frame_error :: "frame_error \<Rightarrow> loopy_error" where
  "of_frame_error (FramePanic s) = LPanic s"
| "of_frame_error NoReturn = LStuck"
| "of_frame_error e = LFrame e"

fun fatal :: "loopy_error \<Rightarrow> bool" where
  "fatal (LPanic s) = True"
| "fatal LStuck = True"
| "fatal _ = False"

text \<open>Calls of callbacks, sends to channels of others, and goroutines that are started, in order.\<close>

datatype loopy_call =
    CallOnWrite u32
  | CallInitStream u32
  | CallOnEachWrite u32
  | SendOnDone dataFrame
  | CallOnDoneFunc bytes
  | SendQuota u32
  | CallMuxEventGoAway
  | GoPutGoAway ErrCode bytes

text \<open>
  What loopy uses of the transport (\<^verbatim>\<open>H2Transport\<close>): the fields that \<^verbatim>\<open>outgoingGoAwayHandler\<close> reads and
  sets. \<open>ss_goAway\<close>: the field \<^verbatim>\<open>ssGoAwayHandler\<close> is set (to that method, on servers).
\<close>

record mux_state =
  mux_closing :: bool
  maxStreamID :: u32
  mux_activeStreams :: "u32 list"

record 'w loopyWriter =
  l_mux :: mux_state
  l_side :: side
  sendQuota :: u32
  oiws :: u32
  estdStreams :: "(u32 \<times> addr) list"
  outStreams :: os_heap
  freshStream :: addr
  activeStreams :: outStreamList
  framer :: "'w Framer"
  hEnc :: "bytes Encoder"
  bdpEst :: "bdpEstimator option"
  draining :: bool
  l_maxFrameSize :: u32
  ss_goAway :: bool
  l_wqs :: "addr \<Rightarrow> writeQuota"
  l_calls :: "loopy_call list"

text \<open>
  The map of the established streams is a list of pairs with distinct keys. The buffer for HPACK is the
  writer of the encoder.
\<close>

definition newLoopyWriter ::
    "mux_state \<Rightarrow> side \<Rightarrow> 'w Framer \<Rightarrow> bdpEstimator option \<Rightarrow> u32 \<Rightarrow> (addr \<Rightarrow> writeQuota) \<Rightarrow> hpack_error + 'w loopyWriter" where
  "newLoopyWriter mux s fr bdpE mfs wqs =
     and_then (NewEncoder []) (\<lambda>enc.
       let (h, lst) = newOutStreamList 0 1 (\<lambda>a. zero_outStream)
       in Inr \<lparr>l_mux = mux, l_side = s, sendQuota = defaultWindowSize, oiws = defaultWindowSize, estdStreams = [],
               outStreams = h, freshStream = 2, activeStreams = lst, framer = fr, hEnc = enc, bdpEst = bdpE,
               draining = False, l_maxFrameSize = mfs, ss_goAway = False, l_wqs = wqs, l_calls = []\<rparr>)"

type_synonym 'w handled = "'w loopyWriter \<times> loopy_error option"

text \<open>The handlers act on the framer through its write methods.\<close>

definition on_framer :: "('w Framer \<Rightarrow> 'w Framer \<times> frame_error option) \<Rightarrow> 'w loopyWriter \<Rightarrow> 'w handled" where
  "on_framer op l = (let (fr, e) = op (framer l) in (l\<lparr>framer := fr\<rparr>, map_option of_frame_error e))"

definition modify_stream :: "addr \<Rightarrow> (outStream \<Rightarrow> outStream) \<Rightarrow> 'w loopyWriter \<Rightarrow> 'w loopyWriter" where
  "modify_stream a f l = l\<lparr>outStreams := (outStreams l)(a := f (outStreams l a))\<rparr>"

definition stream_of :: "'w loopyWriter \<Rightarrow> addr \<Rightarrow> outStream" where
  "stream_of l a = outStreams l a"

definition called :: "loopy_call \<Rightarrow> 'w loopyWriter \<Rightarrow> 'w loopyWriter" where
  "called c l = l\<lparr>l_calls := l_calls l @ [c]\<rparr>"

text \<open>A handler that goes on only after success.\<close>

fun and_go :: "'w handled \<Rightarrow> ('w loopyWriter \<Rightarrow> 'w handled) \<Rightarrow> 'w handled" where
  "and_go (l, Some e) k = (l, Some e)"
| "and_go (l, None) k = k l"

definition activate :: "addr \<Rightarrow> 'w loopyWriter \<Rightarrow> 'w handled" where
  "activate a l =
     (case osl_enqueue (activeStreams l) a (outStreams l) of
        None \<Rightarrow> (l, Some (LPanic ''nil pointer''))
      | Some h \<Rightarrow> (l\<lparr>outStreams := h\<rparr>, None))"

section \<open>Window updates, settings and streams\<close>

definition outgoingWindowUpdateHandler :: "'w writer \<Rightarrow> u32 \<Rightarrow> u32 \<Rightarrow> 'w loopyWriter \<Rightarrow> 'w handled" where
  "outgoingWindowUpdateHandler wr sid incr l = on_framer (WriteWindowUpdate wr sid incr) l"

definition streamQuota :: "'w loopyWriter \<Rightarrow> addr \<Rightarrow> int" where
  "streamQuota l a = int (unat (oiws l)) - bytesOutStanding (stream_of l a)"

definition incomingWindowUpdateHandler :: "u32 \<Rightarrow> u32 \<Rightarrow> 'w loopyWriter \<Rightarrow> 'w handled" where
  "incomingWindowUpdateHandler sid incr l =
     (if sid = 0 then (l\<lparr>sendQuota := sendQuota l + incr\<rparr>, None)
      else case map_of (estdStreams l) sid of
        None \<Rightarrow> (l, None)
      | Some a \<Rightarrow>
          (let l1 = modify_stream a (\<lambda>s. s\<lparr>bytesOutStanding := bytesOutStanding s - int (unat incr)\<rparr>) l in
           if streamQuota l1 a > 0 \<and> os_state (stream_of l1 a) = waitingOnStreamQuota
           then activate a (modify_stream a (os_state_update (\<lambda>_. active)) l1)
           else (l1, None)))"

definition outgoingSettingsHandler :: "'w writer \<Rightarrow> Setting list \<Rightarrow> 'w loopyWriter \<Rightarrow> 'w handled" where
  "outgoingSettingsHandler wr ss l = on_framer (WriteSettings wr ss) l"

text \<open>The loop over the established streams, in the order the map delivers them.\<close>

fun activateWaiting :: "addr list \<Rightarrow> 'w loopyWriter \<Rightarrow> 'w handled" where
  "activateWaiting [] l = (l, None)"
| "activateWaiting (a # as) l =
     (if os_state (stream_of l a) = waitingOnStreamQuota
      then and_go (activate a (modify_stream a (os_state_update (\<lambda>_. active)) l)) (activateWaiting as)
      else activateWaiting as l)"

definition updateHeaderTblSize :: "u32 \<Rightarrow> 'w loopyWriter \<Rightarrow> 'w handled" where
  "updateHeaderTblSize v l =
     (case SetMaxDynamicTableSizeLimit (hEnc l) v of
        Inl e \<Rightarrow> (l, Some (LPanic ''hpack''))
      | Inr enc \<Rightarrow> (l\<lparr>hEnc := enc\<rparr>, None))"

text \<open>\<open>ord\<close> is the order in which Go happens to iterate over the map.\<close>

fun applySettings :: "(addr list \<Rightarrow> addr list) \<Rightarrow> Setting list \<Rightarrow> 'w loopyWriter \<Rightarrow> 'w handled" where
  "applySettings ord [] l = (l, None)"
| "applySettings ord (s # ss) l =
     and_go
       (if ID s = SettingInitialWindowSize then
          let l1 = l\<lparr>oiws := Val s\<rparr>
          in if oiws l < oiws l1 then activateWaiting (ord (map snd (estdStreams l1))) l1 else (l1, None)
        else if ID s = SettingHeaderTableSize then updateHeaderTblSize (Val s) l
        else (l, None))
       (applySettings ord ss)"

definition incomingSettingsHandler ::
    "'w writer \<Rightarrow> (addr list \<Rightarrow> addr list) \<Rightarrow> Setting list \<Rightarrow> 'w loopyWriter \<Rightarrow> 'w handled" where
  "incomingSettingsHandler wr ord ss l =
     and_go (applySettings ord ss l) (on_framer (WriteSettingsAck wr))"

text \<open>A new stream, at a new address.\<close>

definition new_outStream :: "u32 \<Rightarrow> addr option \<Rightarrow> outStream" where
  "new_outStream sid wq = \<lparr>os_id = sid, os_state = empty_stream, itl = empty_itemList, bytesOutStanding = 0,
     os_wq = wq, os_next = None, os_prev = None\<rparr>"

definition alloc_stream :: "outStream \<Rightarrow> 'w loopyWriter \<Rightarrow> 'w loopyWriter \<times> addr" where
  "alloc_stream s l =
     (l\<lparr>outStreams := (outStreams l)(freshStream l := s), freshStream := Suc (freshStream l)\<rparr>, freshStream l)"

definition establish :: "u32 \<Rightarrow> addr \<Rightarrow> 'w loopyWriter \<Rightarrow> 'w loopyWriter" where
  "establish sid a l = l\<lparr>estdStreams := AList.update sid a (estdStreams l)\<rparr>"

definition registerStreamHandler :: "u32 \<Rightarrow> addr option \<Rightarrow> 'w loopyWriter \<Rightarrow> 'w handled" where
  "registerStreamHandler sid wq l =
     (let (l1, a) = alloc_stream (new_outStream sid wq) l in (establish sid a l1, None))"

section \<open>Headers\<close>

text \<open>
  The loop that cuts the block into a HEADERS frame and CONTINUATION frames; \<open>b\<close> is what is left in the
  buffer. With a maximal frame size of 0 it need not end.
\<close>

partial_function (option) writeFragments ::
    "'w writer \<Rightarrow> u32 \<Rightarrow> bool \<Rightarrow> u32 \<Rightarrow> bool \<Rightarrow> bytes \<Rightarrow> 'w Framer \<Rightarrow> ('w Framer \<times> bytes \<times> frame_error option) option" where
  "writeFragments wr sid endStream mfs first b fr =
     (let endHeaders = \<not> length b > unat mfs;
          size = (if length b > unat mfs then unat mfs else length b);
          (fr1, err) = (if first
            then WriteHeaders wr \<lparr>hp_StreamID = sid, hp_BlockFragment = take size b, hp_EndStream = endStream,
                   hp_EndHeaders = endHeaders, hp_PadLength = 0, hp_Priority = zeroPriority\<rparr> fr
            else WriteContinuation wr sid endHeaders (take size b) fr)
      in if err \<noteq> None \<or> endHeaders then Some (fr1, drop size b, err)
         else writeFragments wr sid endStream mfs False (drop size b) fr1)"

definition writeHeader :: "'w writer \<Rightarrow> u32 \<Rightarrow> bool \<Rightarrow> HeaderField list \<Rightarrow> bool \<Rightarrow> 'w loopyWriter \<Rightarrow> 'w handled" where
  "writeHeader wr sid endStream flds onWrite l =
     (let l1 = (if onWrite then called (CallOnWrite sid) l else l) in
      case WriteFields ((hEnc l1)\<lparr>enc_w := []\<rparr>) flds of
        Inl e \<Rightarrow> (l1, Some (LPanic ''hpack''))
      | Inr enc \<Rightarrow>
          (case writeFragments wr sid endStream (l_maxFrameSize l1) True (enc_w enc) (framer l1) of
             None \<Rightarrow> (l1\<lparr>hEnc := enc\<rparr>, Some LStuck)
           | Some (fr, b, err) \<Rightarrow>
               (l1\<lparr>hEnc := enc\<lparr>enc_w := b\<rparr>, framer := fr\<rparr>, map_option of_frame_error err)))"

definition cleanupStreamHandler :: "'w writer \<Rightarrow> cleanupStream option \<Rightarrow> 'w loopyWriter \<Rightarrow> 'w handled" where
  "cleanupStreamHandler wr co l =
     (case co of
        None \<Rightarrow> (l, Some (LPanic ''nil pointer''))
      | Some c \<Rightarrow>
          if \<not> c_onWrite c then (l, Some (LPanic ''nil function''))
          else
            let l1 = called (CallOnWrite (c_streamID c)) l;
                l2 = (case map_of (estdStreams l1) (c_streamID c) of
                        None \<Rightarrow> l1
                      | Some a \<Rightarrow> l1\<lparr>estdStreams := AList.delete (c_streamID c) (estdStreams l1),
                                    outStreams := deleteSelf a (outStreams l1)\<rparr>)
            in and_go
                 (if rst c then on_framer (WriteRSTStream wr (c_streamID c) (rstCode c)) l2 else (l2, None))
                 (\<lambda>l3. (l3, if l_side l3 = clientSide \<and> draining l3 \<and> estdStreams l3 = [] then Some LConnClosing else None)))"

definition headerHandler :: "'w writer \<Rightarrow> headerFrame \<Rightarrow> 'w loopyWriter \<Rightarrow> 'w handled" where
  "headerHandler wr h l =
     (let sid = h_streamID h in
      if l_side l = serverSide \<and> sid mod 2 = 1 then
        case map_of (estdStreams l) sid of
          None \<Rightarrow> (l, None)
        | Some a \<Rightarrow>
            if \<not> h_endStream h then writeHeader wr sid (h_endStream h) (h_hf h) (h_onWrite h) l
            else if os_state (stream_of l a) \<noteq> empty_stream then
              (modify_stream a (\<lambda>s. s\<lparr>itl := il_enqueue (HeaderItem h) (itl s)\<rparr>) l, None)
            else
              and_go (writeHeader wr sid (h_endStream h) (h_hf h) (h_onWrite h) l)
                (cleanupStreamHandler wr (h_cleanup h))
      else
        let (l1, a) = alloc_stream (new_outStream sid (h_wq h)) l;
            l2 = (if h_initStream h = None then l1 else called (CallInitStream sid) l1)
        in if h_initStream h = Some InitConnClosing then (l2, Some LConnClosing)
           else if h_initStream h = Some InitOtherError then (l2, None)
           else
             and_go (writeHeader wr sid (h_endStream h) (h_hf h) (h_onWrite h) l2)
               (\<lambda>l3. (establish sid a l3, None)))"

section \<open>Other items\<close>

definition preprocessData :: "dataFrame \<Rightarrow> 'w loopyWriter \<Rightarrow> 'w handled" where
  "preprocessData df l =
     (case map_of (estdStreams l) (d_streamID df) of
        None \<Rightarrow> (l, None)
      | Some a \<Rightarrow>
          (let l1 = modify_stream a (\<lambda>s. s\<lparr>itl := il_enqueue (DataItem df) (itl s)\<rparr>) l in
           if os_state (stream_of l1 a) = empty_stream
           then activate a (modify_stream a (os_state_update (\<lambda>_. active)) l1)
           else (l1, None)))"

text \<open>The method runs on a nil estimator too, up to the assignment.\<close>

definition pingHandler :: "'w writer \<Rightarrow> int \<Rightarrow> bool \<Rightarrow> bytes \<Rightarrow> 'w loopyWriter \<Rightarrow> 'w handled" where
  "pingHandler wr now ack d l =
     (if \<not> ack \<and> bdpEst l = None \<and> d = bdpPing then (l, Some (LPanic ''nil pointer''))
      else
        let l1 = (if \<not> ack then l\<lparr>bdpEst := map_option (timesnap now d) (bdpEst l)\<rparr> else l)
        in on_framer (WritePing wr ack d) l1)"

definition outFlowControlSizeRequestHandler :: "'w loopyWriter \<Rightarrow> 'w handled" where
  "outFlowControlSizeRequestHandler l = (called (SendQuota (sendQuota l)) l, None)"

definition incomingGoAwayHandler :: "'w loopyWriter \<Rightarrow> 'w handled" where
  "incomingGoAwayHandler l =
     (if l_side l = clientSide then
        (l\<lparr>draining := True\<rparr>, if estdStreams l = [] then Some LConnClosing else None)
      else (l, None))"

definition goAwayPing :: bytes where "goAwayPing = [1, 6, 1, 8, 0, 3, 3, 9]"

text \<open>
  \<open>flush\<close> is \<^verbatim>\<open>framer.writer.Flush\<close>, whose error nobody looks at. The result has the new value of
  \<^verbatim>\<open>draining\<close>.
\<close>

definition outgoingGoAwayHandler ::
    "'w writer \<Rightarrow> ('w \<Rightarrow> 'w) \<Rightarrow> goAway \<Rightarrow> 'w loopyWriter \<Rightarrow> 'w loopyWriter \<times> (loopy_error + bool)" where
  "outgoingGoAwayHandler wr flush g l =
     (if mux_closing (l_mux l) then (l, Inl LConnClosing)
      else if \<not> g_headsUp g then
        let sid = maxStreamID (l_mux l);
            closeConn = (g_closeConn g \<or> mux_activeStreams (l_mux l) = []);
            l1 = l\<lparr>l_mux := (l_mux l)\<lparr>mux_closing := True\<rparr>\<rparr>
        in case on_framer (WriteGoAway wr sid (g_code g) (g_debugData g)) l1 of
             (l2, Some e) \<Rightarrow> (l2, Inl e)
           | (l2, None) \<Rightarrow>
               if closeConn then (l2\<lparr>framer := (framer l2)\<lparr>fr_w := flush (fr_w (framer l2))\<rparr>\<rparr>, Inl LConnectionClosing)
               else (l2, Inr True)
      else
        case on_framer (WriteGoAway wr 0xffffffff ErrCodeNo []) l of
          (l1, Some e) \<Rightarrow> (l1, Inl e)
        | (l1, None) \<Rightarrow>
            (case on_framer (WritePing wr False goAwayPing) l1 of
               (l2, Some e) \<Rightarrow> (l2, Inl e)
             | (l2, None) \<Rightarrow> (called (GoPutGoAway (g_code g) (g_debugData g)) l2, Inr False)))"

definition goAwayHandler :: "'w writer \<Rightarrow> ('w \<Rightarrow> 'w) \<Rightarrow> goAway \<Rightarrow> 'w loopyWriter \<Rightarrow> 'w handled" where
  "goAwayHandler wr flush g l =
     and_go
       (if ss_goAway l then
          case outgoingGoAwayHandler wr flush g l of
            (l1, Inl e) \<Rightarrow> (l1, Some e)
          | (l1, Inr dr) \<Rightarrow> (l1\<lparr>draining := dr\<rparr>, None)
        else (l, None))
       (\<lambda>l2. (called CallMuxEventGoAway l2, None))"

fun handle :: "'w writer \<Rightarrow> ('w \<Rightarrow> 'w) \<Rightarrow> (addr list \<Rightarrow> addr list) \<Rightarrow> int \<Rightarrow> cbItem \<Rightarrow> 'w loopyWriter \<Rightarrow> 'w handled" where
  "handle wr flush ord now (IncomingWindowUpdate sid incr) l = incomingWindowUpdateHandler sid incr l"
| "handle wr flush ord now (OutgoingWindowUpdate sid incr) l = outgoingWindowUpdateHandler wr sid incr l"
| "handle wr flush ord now (IncomingSettings ss) l = incomingSettingsHandler wr ord ss l"
| "handle wr flush ord now (OutgoingSettings ss) l = outgoingSettingsHandler wr ss l"
| "handle wr flush ord now (HeaderItem h) l = headerHandler wr h l"
| "handle wr flush ord now (RegisterStream sid wq) l = registerStreamHandler sid wq l"
| "handle wr flush ord now (CleanupItem c) l = cleanupStreamHandler wr (Some c) l"
| "handle wr flush ord now IncomingGoAway l = incomingGoAwayHandler l"
| "handle wr flush ord now (DataItem df) l = preprocessData df l"
| "handle wr flush ord now (PingItem ack d) l = pingHandler wr now ack d l"
| "handle wr flush ord now (GoAwayItem g) l = goAwayHandler wr flush g l"
| "handle wr flush ord now OutFlowControlSizeRequest l = outFlowControlSizeRequestHandler l"

section \<open>Sending data\<close>

definition enqueue_active :: "addr \<Rightarrow> 'w loopyWriter \<Rightarrow> 'w loopyWriter \<times> (loopy_error + bool)" where
  "enqueue_active a l = (case activate a l of (l1, Some e) \<Rightarrow> (l1, Inl e) | (l1, None) \<Rightarrow> (l1, Inr False))"

definition set_state :: "addr \<Rightarrow> outStreamState \<Rightarrow> 'w loopyWriter \<Rightarrow> 'w loopyWriter" where
  "set_state a st l = modify_stream a (os_state_update (\<lambda>_. st)) l"

text \<open>
  Trailers after the last data item. A failure of the cleanup is passed on after data, but not after an
  empty data frame (\<open>swallow\<close>), where the code returns nil.
\<close>

definition sendTrailer :: "'w writer \<Rightarrow> bool \<Rightarrow> headerFrame \<Rightarrow> 'w loopyWriter \<Rightarrow> 'w loopyWriter \<times> (loopy_error + bool)" where
  "sendTrailer wr swallow h l =
     (case writeHeader wr (h_streamID h) (h_endStream h) (h_hf h) (h_onWrite h) l of
        (l1, Some e) \<Rightarrow> (l1, Inl e)
      | (l1, None) \<Rightarrow>
          (case cleanupStreamHandler wr (h_cleanup h) l1 of
             (l2, Some e) \<Rightarrow> (l2, if swallow \<and> \<not> fatal e then Inr False else Inl e)
           | (l2, None) \<Rightarrow> (l2, Inr False)))"

text \<open>An empty data item, written as an empty DATA frame.\<close>

definition processEmpty :: "'w writer \<Rightarrow> addr \<Rightarrow> dataFrame \<Rightarrow> 'w loopyWriter \<Rightarrow> 'w loopyWriter \<times> (loopy_error + bool)" where
  "processEmpty wr a df l =
     (case on_framer (WriteData wr (d_streamID df) (d_endStream df) []) l of
        (l1, Some e) \<Rightarrow> (l1, Inl e)
      | (l1, None) \<Rightarrow>
          (let l2 = modify_stream a (\<lambda>s. s\<lparr>itl := fst (il_dequeue (itl s))\<rparr>) l1;
               l3 = (if d_onDone df then called (SendOnDone df) l2 else l2);
               l4 = (if d_onDoneFunc df then called (CallOnDoneFunc (d_d df)) l3 else l3)
           in if il_isEmpty (itl (stream_of l4 a)) then (set_state a empty_stream l4, Inr False)
              else case il_peek (itl (stream_of l4 a)) of
                Some (HeaderItem h) \<Rightarrow> sendTrailer wr True h l4
              | _ \<Rightarrow> enqueue_active a l4))"

definition dataSize :: "dataFrame \<Rightarrow> int" where
  "dataSize df = (if d_end df \<noteq> 0 then d_end df - d_start df else int (length (d_d df)))"

text \<open>The largest frame that the frame size and the two windows allow.\<close>

definition sendLimit :: "'w loopyWriter \<Rightarrow> addr \<Rightarrow> int" where
  "sendLimit l a =
     (let m = int (unat (l_maxFrameSize l));
          m1 = (if m > streamQuota l a then streamQuota l a else m)
      in if m1 > int (unat (sendQuota l)) then int (unat (sendQuota l)) else m1)"

text \<open>After a frame: what becomes of the stream.\<close>

definition afterData :: "'w writer \<Rightarrow> addr \<Rightarrow> 'w loopyWriter \<Rightarrow> 'w loopyWriter \<times> (loopy_error + bool)" where
  "afterData wr a l =
     (if il_isEmpty (itl (stream_of l a)) then (set_state a empty_stream l, Inr False)
      else case il_peek (itl (stream_of l a)) of
        Some (HeaderItem h) \<Rightarrow> sendTrailer wr False h l
      | _ \<Rightarrow>
          if streamQuota l a \<le> 0 then (set_state a waitingOnStreamQuota l, Inr False)
          else enqueue_active a l)"

text \<open>
  A frame of \<open>sz\<close> bytes. Slicing goes up to the capacity; cutting off what was sent only up to the
  length.
\<close>

fun set_data :: "bytes \<Rightarrow> cbItem \<Rightarrow> cbItem" where
  "set_data d (DataItem df) = DataItem (df\<lparr>d_d := d\<rparr>)"
| "set_data d i = i"

definition sendChunk :: "'w writer \<Rightarrow> addr \<Rightarrow> dataFrame \<Rightarrow> int \<Rightarrow> 'w loopyWriter \<Rightarrow> 'w loopyWriter \<times> (loopy_error + bool)" where
  "sendChunk wr a df sz l =
     (case os_wq (stream_of l a) of
        None \<Rightarrow> (l, Inl (LPanic ''nil pointer''))
      | Some q \<Rightarrow>
          (let l1 = l\<lparr>l_wqs := (l_wqs l)(q := realReplenish sz (l_wqs l q))\<rparr>;
               endStream = (d_endStream df \<and> dataSize df \<le> sz);
               l2 = (if d_onEachWrite df then called (CallOnEachWrite (d_streamID df)) l1 else l1)
           in if sz < 0 \<or> sz > int (length (d_d df @ d_spare df))
              then (l2, Inl (LPanic ''slice bounds out of range''))
              else case on_framer (WriteData wr (d_streamID df) endStream (take (nat sz) (d_d df @ d_spare df))) l2 of
                (l3, Some e) \<Rightarrow> (l3, Inl e)
              | (l3, None) \<Rightarrow>
                  if sz > int (length (d_d df)) then (l3, Inl (LPanic ''slice bounds out of range''))
                  else
                    let rest = drop (nat sz) (d_d df);
                        l4 = modify_stream a (\<lambda>s. s\<lparr>itl := il_modify_head (set_data rest) (itl s),
                               bytesOutStanding := bytesOutStanding s + sz\<rparr>)
                               (l3\<lparr>sendQuota := sendQuota l3 - word_of_int sz\<rparr>);
                        l5 = (if rest = [] then
                                let l4' = modify_stream a (\<lambda>s. s\<lparr>itl := fst (il_dequeue (itl s))\<rparr>) l4
                                in if d_onDone df then called (SendOnDone (df\<lparr>d_d := rest\<rparr>)) l4' else l4'
                              else l4)
                    in afterData wr a l5))"

text \<open>The Boolean result: there is nothing to send, or no window of the connection to send it in.\<close>

definition processData :: "'w writer \<Rightarrow> 'w loopyWriter \<Rightarrow> 'w loopyWriter \<times> (loopy_error + bool)" where
  "processData wr l0 =
     (if sendQuota l0 = 0 then (l0, Inr True)
      else case osl_dequeue (activeStreams l0) (outStreams l0) of
        None \<Rightarrow> (l0, Inl (LPanic ''nil pointer''))
      | Some (h, None) \<Rightarrow> (l0\<lparr>outStreams := h\<rparr>, Inr True)
      | Some (h, Some a) \<Rightarrow>
          (let l = l0\<lparr>outStreams := h\<rparr> in
           case il_peek (itl (stream_of l a)) of
             None \<Rightarrow> (l, Inl (LPanic ''nil pointer''))
           | Some (DataItem df) \<Rightarrow>
               if dataSize df = 0 then processEmpty wr a df l
               else if streamQuota l a \<le> 0 then (set_state a waitingOnStreamQuota l, Inr False)
               else sendChunk wr a df (min (sendLimit l a) (dataSize df)) l
           | Some i \<Rightarrow> (l, Inl (LPanic ''type assertion''))))"

section \<open>The goroutine\<close>

text \<open>
  What the control buffer answers to the calls of \<^verbatim>\<open>get\<close>, in order: an item, nothing (only if the call
  does not block), or an error. The order of the map and the clock may differ from one item to the next.
\<close>

datatype answer = Got cbItem "addr list \<Rightarrow> addr list" int | Nothing | Failed

definition minBatchSize :: nat where "minBatchSize = 1000"

definition loopyFlush :: "'c writer \<Rightarrow> 'c bufWriter \<Rightarrow> 'c bufWriter" where
  "loopyFlush wr w = fst (bufFlush wr w)"

text \<open>
  The two nested loops; \<open>inner\<close> and \<open>gosched\<close> say where the goroutine is. A run ends with the error that
  \<^verbatim>\<open>run\<close> returns, where \<^verbatim>\<open>ErrConnClosing\<close> is turned into nil, or with the answers.
\<close>

datatype run_end = Done "loopy_error option" | OutOfAnswers

definition end_with :: "loopy_error \<Rightarrow> run_end" where
  "end_with e = Done (if e = LConnClosing then None else Some e)"

fun loopy_run ::
    "'c writer \<Rightarrow> bool \<Rightarrow> bool \<Rightarrow> answer list \<Rightarrow> 'c bufWriter loopyWriter \<Rightarrow> 'c bufWriter loopyWriter \<times> run_end" where
  "loopy_run wr inner gosched [] l = (l, OutOfAnswers)"
| "loopy_run wr inner gosched (Failed # as) l = (l, end_with LConnClosing)"
| "loopy_run wr inner gosched (Got i ord now # as) l =
     (case handle (bufWriter_Write wr) (loopyFlush wr) ord now i l of
        (l1, Some e) \<Rightarrow> (l1, end_with e)
      | (l1, None) \<Rightarrow>
          (case processData (bufWriter_Write wr) l1 of
             (l2, Inl e) \<Rightarrow> (l2, end_with e)
           | (l2, Inr b) \<Rightarrow> loopy_run wr True (if inner then gosched else True) as l2))"
| "loopy_run wr False gosched (Nothing # as) l = loopy_run wr False gosched as l"
| "loopy_run wr True gosched (Nothing # as) l =
     (case processData (bufWriter_Write wr) l of
        (l1, Inl e) \<Rightarrow> (l1, end_with e)
      | (l1, Inr False) \<Rightarrow> loopy_run wr True gosched as l1
      | (l1, Inr True) \<Rightarrow>
          if gosched \<and> offset (fr_w (framer l1)) < minBatchSize then loopy_run wr True False as l1
          else loopy_run wr False True as
                 (l1\<lparr>framer := (framer l1)\<lparr>fr_w := loopyFlush wr (fr_w (framer l1))\<rparr>\<rparr>))"

end
