(* ===== verification/Loopy_Streams.thy ===== *)
theory Loopy_Streams
  imports Loopy Frame_Round_Trip
begin

text \<open>
  The invariant of the loopy writer's streams: the list of active streams is well linked and holds
  only streams that are active and have data at the head of their queue; an established stream is in
  that list, or it is empty, or it waits for window. Every operation on the streams that the handlers
  use keeps the invariant.
\<close>

section \<open>The invariant\<close>

text \<open>
  Trailers have a cleanup with a callback and without a reset, data is cut off by its length only, and header blocks are
  small enough for the counters of HPACK.
\<close>

definition cleanup_ok :: "cleanupStream option \<Rightarrow> bool" where
  "cleanup_ok co \<longleftrightarrow> (case co of None \<Rightarrow> False | Some c \<Rightarrow> c_onWrite c \<and> \<not> rst c)"

definition fields_ok :: "HeaderField list \<Rightarrow> bool" where
  "fields_ok flds \<longleftrightarrow> length flds \<le> 2 ^ 20 \<and> (\<forall>f \<in> set flds. 4096 + field_size f < 2 ^ 32)"

fun queued_ok :: "u32 \<Rightarrow> cbItem \<Rightarrow> bool" where
  "queued_ok sid (DataItem df) \<longleftrightarrow> d_end df = 0 \<and> d_streamID df = sid"
| "queued_ok sid (HeaderItem h) \<longleftrightarrow> cleanup_ok (h_cleanup h) \<and> fields_ok (h_hf h)"
| "queued_ok sid _ \<longleftrightarrow> False"

definition data_first :: "outStream \<Rightarrow> bool" where
  "data_first s \<longleftrightarrow> (\<exists>df r. il_items (itl s) = DataItem df # r)"

definition trailer_first :: "outStream \<Rightarrow> bool" where
  "trailer_first s \<longleftrightarrow> (\<exists>h r. il_items (itl s) = HeaderItem h # r)"

definition stream_ok :: "outStream \<Rightarrow> bool" where
  "stream_ok s \<longleftrightarrow> il_wf (itl s) \<and> list_all (queued_ok (os_id s)) (il_items (itl s)) \<and> os_wq s \<noteq> None"

definition held :: "addr \<Rightarrow> outStreamList \<Rightarrow> os_heap \<Rightarrow> addr list \<Rightarrow> addr \<Rightarrow> bool" where
  "held n al h xs a \<longleftrightarrow> a < n \<and> a \<noteq> osl_head al \<and> a \<noteq> osl_tail al \<and> stream_ok (h a) \<and> (a \<in> set xs \<or> unlinked h a)"

definition settled :: "os_heap \<Rightarrow> addr list \<Rightarrow> addr \<Rightarrow> bool" where
  "settled h xs a \<longleftrightarrow> (case os_state (h a) of
     empty_stream \<Rightarrow> il_items (itl (h a)) = []
   | waitingOnStreamQuota \<Rightarrow> data_first (h a)
   | active \<Rightarrow> a \<in> set xs \<or> trailer_first (h a))"

text \<open>
  The streams in \<open>E\<close> are being worked on. If no stream identifier is ever used twice (\<open>st\<close>), the active
  streams are established.
\<close>

definition sbase :: "bool \<Rightarrow> (u32 \<times> addr) list \<Rightarrow> os_heap \<Rightarrow> addr \<Rightarrow> outStreamList \<Rightarrow> addr list \<Rightarrow> bool" where
  "sbase st es h n al xs \<longleftrightarrow> osl_repr al h xs \<and> (st \<longrightarrow> set xs \<subseteq> snd ` set es) \<and>
     osl_head al < n \<and> osl_tail al < n \<and> distinct (map fst es) \<and>
     (\<forall>a \<in> set xs. held n al h xs a \<and> os_state (h a) = active \<and> data_first (h a))"

definition sinv :: "bool \<Rightarrow> addr set \<Rightarrow> (u32 \<times> addr) list \<Rightarrow> os_heap \<Rightarrow> addr \<Rightarrow> outStreamList \<Rightarrow> addr list \<Rightarrow> bool" where
  "sinv st E es h n al xs \<longleftrightarrow> sbase st es h n al xs \<and>
     (\<forall>(k, a) \<in> set es. os_id (h a) = k \<and> held n al h xs a \<and> (a \<in> E \<or> settled h xs a))"

lemma sinv_repr: "sinv st E es h n al xs \<Longrightarrow> osl_repr al h xs"
  by (simp add: sinv_def sbase_def)

lemma sinv_active: "sinv st E es h n al xs \<Longrightarrow> a \<in> set xs \<Longrightarrow> held n al h xs a \<and> os_state (h a) = active \<and> data_first (h a)"
  by (auto simp: sinv_def sbase_def)

lemma sinv_estd: "sinv st E es h n al xs \<Longrightarrow> map_of es k = Some a \<Longrightarrow> os_id (h a) = k \<and> held n al h xs a \<and> (a \<in> E \<or> settled h xs a)"
  by (auto simp: sinv_def sbase_def dest: map_of_SomeD)

lemma sinv_settle:
  assumes "sinv st (insert a E) es h n al xs" "a \<in> snd ` set es \<Longrightarrow> settled h xs a"
  shows "sinv st E es h n al xs"
  using assms by (fastforce simp: sinv_def)

lemma sinv_mono: "sinv st E es h n al xs \<Longrightarrow> E \<subseteq> E' \<Longrightarrow> sinv st E' es h n al xs"
  by (fastforce simp: sinv_def)

text \<open>The data of a stream does not depend on its links.\<close>

lemma same_data_stream:
  assumes "same_data h h'"
  shows "stream_ok (h' a) = stream_ok (h a)" "data_first (h' a) = data_first (h a)" "trailer_first (h' a) = trailer_first (h a)" "os_state (h' a) = os_state (h a)"
    "os_id (h' a) = os_id (h a)" "itl (h' a) = itl (h a)" "os_wq (h' a) = os_wq (h a)" "bytesOutStanding (h' a) = bytesOutStanding (h a)"
  using assms by (simp_all add: same_data_def stream_ok_def data_first_def trailer_first_def)

lemma osl_repr_links:
  assumes "\<And>b. os_next (h' b) = os_next (h b)" "\<And>b. os_prev (h' b) = os_prev (h b)"
  shows "osl_repr al h' xs = osl_repr al h xs"
  using seg_cong [of "osl_head al" xs h' h "osl_tail al"] assms by (simp add: osl_repr_def)

section \<open>Operations on streams\<close>

lemma sinv_modify:
  assumes inv: "sinv st E es h n al xs"
    and links: "os_next s' = os_next (h a)" "os_prev s' = os_prev (h a)" "os_id s' = os_id (h a)"
    and ok: "stream_ok (h a) \<Longrightarrow> stream_ok s'"
    and act: "a \<in> set xs \<Longrightarrow> os_state s' = active \<and> data_first s'"
  shows "sinv st (insert a E) es (h(a := s')) n al xs"
proof -
  let ?h = "h(a := s')"
  have l: "os_next (?h b) = os_next (h b)" "os_prev (?h b) = os_prev (h b)" "os_id (?h b) = os_id (h b)" for b
    using links by simp_all
  have r: "osl_repr al ?h xs = osl_repr al h xs" by (rule osl_repr_links) (use l in simp_all)
  have hd: "held n al h xs b \<Longrightarrow> held n al ?h xs b" for b
    using ok links by (auto simp: held_def unlinked_def)
  have st: "b \<noteq> a \<Longrightarrow> settled ?h xs b = settled h xs b" for b
    by (simp add: settled_def split: outStreamState.splits)
  show ?thesis
    unfolding sinv_def sbase_def
  proof (intro conjI ballI)
    fix b assume "b \<in> set xs"
    with sinv_active [OF inv this] hd act show "held n al ?h xs b" "os_state (?h b) = active" "data_first (?h b)"
      by auto
  next
    fix p assume "p \<in> set es"
    moreover obtain k b where "p = (k, b)" by fastforce
    ultimately show "case p of (k, b) \<Rightarrow> os_id (?h b) = k \<and> held n al ?h xs b \<and> (b \<in> insert a E \<or> settled ?h xs b)"
      using inv hd [of b] st [of b] l(3) [of b] by (auto simp: sinv_def sbase_def simp del: fun_upd_apply)
  qed (use inv r in \<open>simp_all add: sinv_def sbase_def\<close>)
qed

lemma sinv_activate:
  assumes inv: "sinv st (insert a E) es h n al xs" and a: "held n al h xs a" "a \<notin> set xs"
    and act: "os_state (h a) = active" "data_first (h a)" and es: "st \<longrightarrow> a \<in> snd ` set es"
  shows "\<exists>h'. osl_enqueue al a h = Some h' \<and> sinv st E es h' n al (xs @ [a]) \<and> same_data h h'"
proof -
  obtain h' where h': "osl_enqueue al a h = Some h'" "osl_repr al h' (xs @ [a])" "same_data h h'"
    "\<forall>b. (b \<noteq> osl_head al \<and> b \<noteq> osl_tail al) \<and> b \<noteq> a \<and> b \<notin> set xs \<and> unlinked h b \<longrightarrow> unlinked h' b"
    using osl.enq [of al h xs a] sinv_repr [OF inv] a by (auto simp: held_def)
  have hd: "held n al h xs b \<Longrightarrow> held n al h' (xs @ [a]) b" for b
    using h'(4) by (auto simp: held_def same_data_stream [OF h'(3)])
  moreover have "b \<noteq> a \<Longrightarrow> settled h xs b \<Longrightarrow> settled h' (xs @ [a]) b" for b
    by (auto simp: settled_def same_data_stream [OF h'(3)] split: outStreamState.splits)
  moreover have "settled h' (xs @ [a]) a"
    using act by (simp add: settled_def same_data_stream [OF h'(3)])
  ultimately have e: "\<forall>(k, b) \<in> set es. os_id (h' b) = k \<and> held n al h' (xs @ [a]) b \<and> (b \<in> E \<or> settled h' (xs @ [a]) b)"
    using inv unfolding sinv_def by (fastforce simp: same_data_stream [OF h'(3)])
  have "sbase st es h' n al (xs @ [a])"
    using inv h'(2) a act es hd by (auto simp: sinv_def sbase_def same_data_stream [OF h'(3)])
  with e have "sinv st E es h' n al (xs @ [a])" by (simp add: sinv_def)
  with h' show ?thesis by blast
qed

lemma sinv_dequeue:
  assumes inv: "sinv st E es h n al (a # xs)"
  shows "\<exists>h'. osl_dequeue al h = Some (h', Some a) \<and> sinv st (insert a E) es h' n al xs \<and> same_data h h' \<and>
    held n al h' xs a \<and> unlinked h' a \<and> a \<notin> set xs"
proof -
  obtain h' where h': "osl_dequeue al h = Some (h', Some a)" "osl_repr al h' xs" "same_data h h'" "unlinked h' a"
    "\<forall>b. (b \<noteq> osl_head al \<and> b \<noteq> osl_tail al) \<and> b \<notin> set (a # xs) \<and> unlinked h b \<longrightarrow> unlinked h' b"
    using osl.deq_cons [OF sinv_repr [OF inv]] by auto
  have hd: "held n al h (a # xs) b \<Longrightarrow> held n al h' xs b" for b
    using h'(4,5) by (auto simp: held_def same_data_stream [OF h'(3)])
  moreover have "b \<noteq> a \<Longrightarrow> settled h (a # xs) b \<Longrightarrow> settled h' xs b" for b
    by (auto simp: settled_def same_data_stream [OF h'(3)] split: outStreamState.splits)
  ultimately have e: "\<forall>(k, b) \<in> set es. os_id (h' b) = k \<and> held n al h' xs b \<and> (b \<in> insert a E \<or> settled h' xs b)"
    using inv unfolding sinv_def by (fastforce simp: same_data_stream [OF h'(3)])
  have "sbase st es h' n al xs"
    using inv h'(2) hd by (auto simp: sinv_def sbase_def same_data_stream [OF h'(3)])
  with e have "sinv st (insert a E) es h' n al xs" by (simp add: sinv_def)
  moreover have "a \<notin> set xs" using sinv_repr [OF inv] by (auto simp: osl_repr_def)
  ultimately show ?thesis
    using h' hd sinv_active [OF inv, of a] by simp
qed

lemma sinv_delete:
  assumes inv: "sinv st E es h n al xs" and k: "map_of es k = Some a"
  shows "\<exists>ys. sinv st E (AList.delete k es) (deleteSelf a h) n al ys \<and> same_data h (deleteSelf a h)"
proof -
  let ?h = "deleteSelf a h" and ?ys = "if a \<in> set xs then remove1 a xs else xs"
  have a: "held n al h xs a" "os_id (h a) = k" using sinv_estd [OF inv k] by simp_all
  have dist: "distinct xs" using sinv_repr [OF inv] by (simp add: osl_repr_def)
  have d: "osl_repr al ?h ?ys" "same_data h ?h"
    using osl.del_remove1 [OF sinv_repr [OF inv], of a] a(1) by (auto simp: held_def)
  have ul: "unlinked ?h b" if "b \<noteq> osl_head al" "b \<noteq> osl_tail al" "b \<notin> set xs \<or> b = a" "unlinked h b \<or> b = a" for b
  proof (cases "a \<in> set xs")
    case True
    then obtain us vs where "xs = us @ a # vs" by (meson split_list)
    with osl.del_in [of al h us a vs] sinv_repr [OF inv] that show ?thesis by auto
  next
    case False
    then have "unlinked h a" using a(1) by (simp add: held_def)
    with deleteSelf_unlinked [OF this] that show ?thesis by auto
  qed
  have hd: "held n al h xs b \<Longrightarrow> held n al ?h ?ys b" for b
    using ul [of b] dist by (auto simp: held_def same_data_stream [OF d(2)])
  have st: "b \<noteq> a \<Longrightarrow> settled h xs b \<Longrightarrow> settled ?h ?ys b" for b
    by (auto simp: settled_def same_data_stream [OF d(2)] split: outStreamState.splits)
  have es: "(k', b) \<in> set (AList.delete k es) \<Longrightarrow> (k', b) \<in> set es \<and> k' \<noteq> k" for k' b
    by (auto simp: AList.delete_eq)
  have "sinv st E (AList.delete k es) ?h n al ?ys"
    unfolding sinv_def sbase_def
  proof (intro conjI ballI)
    fix p assume p: "p \<in> set (AList.delete k es)"
    obtain k' b where kb: "p = (k', b)" by fastforce
    with es p have m: "(k', b) \<in> set es" "k' \<noteq> k" by blast+
    then have "os_id (h b) = k'" "held n al h xs b" "b \<in> E \<or> settled h xs b"
      using inv by (auto simp: sinv_def sbase_def)
    moreover from this m a(2) have "b \<noteq> a" by auto
    ultimately show "case p of (k, a) \<Rightarrow> os_id (?h a) = k \<and> held n al ?h ?ys a \<and> (a \<in> E \<or> settled ?h ?ys a)"
      using hd st kb by (auto simp: same_data_stream [OF d(2)])
  next
    fix b assume "b \<in> set ?ys"
    then have "b \<in> set xs" by (auto split: if_splits dest: notin_set_remove1 set_remove1_subset [THEN subsetD])
    from sinv_active [OF inv this] hd
    show "held n al ?h ?ys b" "os_state (?h b) = active" "data_first (?h b)"
      by (simp_all add: same_data_stream [OF d(2)])
  next
    show "st \<longrightarrow> set ?ys \<subseteq> snd ` set (AList.delete k es)"
    proof (intro impI subsetI)
      fix b assume "st" "b \<in> set ?ys"
      then have b: "b \<in> set xs" "b \<noteq> a" using dist by (auto split: if_splits dest: set_remove1_subset [THEN subsetD])
      with \<open>st\<close> inv obtain k' where k': "(k', b) \<in> set es" by (auto simp: sinv_def sbase_def)
      have "distinct (map fst es)" using inv by (simp add: sinv_def sbase_def)
      with k k' b(2) have "k' \<noteq> k" by (metis map_of_is_SomeI option.inject)
      with k' show "b \<in> snd ` set (AList.delete k es)" by (force simp: AList.delete_eq)
    qed
  qed (use inv d in \<open>auto simp: sinv_def sbase_def distinct_delete\<close>)
  with d(2) show ?thesis by blast
qed

lemma sinv_alloc:
  assumes inv: "sinv st E es h n al xs"
  shows "sinv st E es (h(n := s)) (Suc n) al xs"
proof -
  have lt: "osl_head al < n" "osl_tail al < n" "\<And>a. a \<in> set xs \<Longrightarrow> a < n" "\<And>k a. (k, a) \<in> set es \<Longrightarrow> a < n"
    using inv by (auto simp: sinv_def sbase_def held_def)
  have "osl_repr al (h(n := s)) xs = osl_repr al h xs"
  proof -
    have "seg (h(n := s)) (osl_head al) xs (osl_tail al) = seg h (osl_head al) xs (osl_tail al)"
      by (rule seg_cong) (use lt(1-3) in force)+
    then show ?thesis by (simp add: osl_repr_def)
  qed
  moreover have "held n al h xs a \<Longrightarrow> held (Suc n) al (h(n := s)) xs a" "settled h xs a \<Longrightarrow> a < n \<Longrightarrow> settled (h(n := s)) xs a" for a
    by (auto simp: held_def unlinked_def settled_def split: outStreamState.splits)
  ultimately show ?thesis
    using inv lt unfolding sinv_def sbase_def by (fastforce simp: held_def)
qed

lemma sinv_establish:
  assumes inv: "sinv st E es h n al xs" and a: "held n al h xs a" "os_id (h a) = k" "settled h xs a"
    and new: "st \<longrightarrow> k \<notin> fst ` set es"
  shows "sinv st E (AList.update k a es) h n al xs"
proof -
  have up: "k \<notin> fst ` set es \<Longrightarrow> AList.update k a es = es @ [(k, a)]"
    by (induction es) auto
  have "st \<longrightarrow> set xs \<subseteq> snd ` set (AList.update k a es)"
    using inv new up by (auto simp: sinv_def sbase_def)
  moreover  have "(k', b) \<in> set (AList.update k a es) \<Longrightarrow> (k', b) \<in> set es \<or> k' = k \<and> b = a" for k' b
    by (induction es) (auto split: if_splits)
  ultimately show ?thesis
    using inv a distinct_update [of es k a] unfolding sinv_def sbase_def by fastforce
qed

lemma sinv_new:
  assumes "newOutStreamList 0 1 (\<lambda>a. zero_outStream) = (h, al)"
  shows "sinv st {} [] h 2 al []"
  using assms osl_new [OF _ assms] by (auto simp: sinv_def sbase_def newOutStreamList_def)

end
