(* ===== verification/Loopy_Wire.thy ===== *)
theory Loopy_Wire
  imports Loopy_Streams
begin

text \<open>
  What the loopy writer does to the framer: every handler performs a list of frame operations, and the
  header blocks are cut into HEADERS and CONTINUATION frames that carry the HPACK block.
\<close>

section \<open>Writers that fail without a panic\<close>

text \<open>
  A weaker contract than that of a working writer: it may fail, but it returns, and it does not panic.
\<close>

locale calm_writer =
  fixes wr :: "'w writer"
    and good :: "'w \<Rightarrow> bool"
  assumes calm: "good w \<Longrightarrow> wr w b = (w', n, e) \<Longrightarrow> good w' \<and> (\<forall>x. e = Some x \<longrightarrow> \<not> fatal (of_frame_error x))"
begin

definition calm_result :: "'w Framer \<times> frame_error option \<Rightarrow> bool" where
  "calm_result r \<longleftrightarrow> good (fr_w (fst r)) \<and> (\<forall>x. snd r = Some x \<longrightarrow> \<not> fatal (of_frame_error x))"

lemma endWrite_calm:
  assumes "good (fr_w f)" "endWrite wr f = (f', e)"
  shows "good (fr_w f') \<and> (\<forall>x. e = Some x \<longrightarrow> \<not> fatal (of_frame_error x))"
  using assms calm [of "fr_w f"]
  by (auto simp: endWrite_def Let_def split: if_splits prod.splits)

lemmas write_defs = WriteDataPadded_def WriteHeaders_def WritePriority_def WriteRSTStream_def WriteSettings_def
  WriteSettingsAck_def WritePing_def WriteGoAway_def WriteWindowUpdate_def WriteContinuation_def WritePushPromise_def
  WriteRawFrame_def

lemma fr_w_builders [simp]:
  "fr_w (startWrite t fl s f) = fr_w f" "fr_w (writeByte v f) = fr_w f" "fr_w (writeBytes bs f) = fr_w f"
  "fr_w (writeUint16 v16 f) = fr_w f" "fr_w (writeUint32 v32 f) = fr_w f"
  by (simp_all add: startWrite_def writeByte_def writeBytes_def writeUint16_def writeUint32_def)

lemma fr_w_settings [simp]:
  "fr_w (foldl (\<lambda>f s. writeUint32 (Val s) (writeUint16 (ID s) f)) f ss) = fr_w f"
  by (induction ss arbitrary: f) simp_all

lemma fr_w_if [simp]: "fr_w (if b then f else g) = (if b then fr_w f else fr_w g)"
  by simp

lemma calm_parts:
  assumes "good (fr_w f)"
  shows "calm_result (endWrite wr f)" "\<not> fatal (of_frame_error x) \<Longrightarrow> calm_result (f, Some x)"
    "calm_result r \<Longrightarrow> calm_result r' \<Longrightarrow> calm_result (if b then r else r')"
  using assms endWrite_calm [OF assms] by (cases "endWrite wr f"; simp add: calm_result_def)+

lemma perform_calm:
  assumes "good (fr_w f)"
  shows "calm_result (perform wr op f)"
  using assms by (cases op) (simp_all only: perform.simps write_defs Let_def, (intro calm_parts; simp)+)

lemma performAll_calm:
  assumes "good (fr_w f)" "performAll wr ops f = (f', e)"
  shows "good (fr_w f') \<and> (\<forall>x. e = Some x \<longrightarrow> \<not> fatal (of_frame_error x))"
  using assms
proof (induction ops arbitrary: f)
  case (Cons op ops)
  obtain f1 e1 where op: "perform wr op f = (f1, e1)" by fastforce
  with perform_calm [OF Cons.prems(1), of op] Cons show ?case by (cases e1) (auto simp: calm_result_def)
qed simp

end

lemma byte_writer_calm:
  assumes "byte_writer wr good written"
  shows "calm_writer wr good"
proof -
  note w = byte_writer.write_ok [OF assms] byte_writer.write_good [OF assms]
  show ?thesis
  proof
    fix w b w' n e
    assume "good w" "wr w b = (w', n, e)"
    with w(1) [OF this(1), of b] w(2) [OF this(1), of b] show "good w' \<and> (\<forall>x. e = Some x \<longrightarrow> \<not> fatal (of_frame_error x))"
      by simp
  qed
qed

sublocale byte_writer \<subseteq> calm_writer wr good
  by (rule byte_writer_calm) (rule byte_writer_axioms)

interpretation calm_pipe: calm_writer "bufWriter_Write pipeWrite" "buf_good (\<lambda>c. True)"
  by (rule byte_writer_calm) (rule buffered_pipe.byte_writer_axioms)

section \<open>Operations of the handlers\<close>

lemma performAll_append:
  "performAll wr (xs @ ys) f = (case performAll wr xs f of (f', Some e) \<Rightarrow> (f', Some e) | (f', None) \<Rightarrow> performAll wr ys f')"
  by (induction xs arbitrary: f) (auto split: prod.splits option.splits)

lemma on_framer_ops:
  "on_framer (WriteWindowUpdate wr sid i) = on_framer (performAll wr [OpWindowUpdate sid i])"
  "on_framer (WriteSettings wr ss) = on_framer (performAll wr [OpSettings ss])"
  "on_framer (WriteSettingsAck wr) = on_framer (performAll wr [OpSettingsAck])"
  "on_framer (WritePing wr ack d) = on_framer (performAll wr [OpPing ack d])"
  "on_framer (WriteGoAway wr sid c d) = on_framer (performAll wr [OpGoAway sid c d])"
  "on_framer (WriteRSTStream wr sid c) = on_framer (performAll wr [OpRSTStream sid c])"
  "on_framer (WriteData wr sid es d) = on_framer (performAll wr [OpData sid es d None])"
  by (auto simp: on_framer_def WriteData_def fun_eq_iff split: prod.splits option.splits)

section \<open>Header blocks\<close>

function (sequential) frags :: "nat \<Rightarrow> bytes \<Rightarrow> bytes list" where
  "frags n b = (if n = 0 \<or> length b \<le> n then [b] else take n b # frags n (drop n b))"
  by pat_completeness auto
termination by (relation "measure (\<lambda>(n, b). length b)") auto

declare frags.simps [simp del]

definition headers_param :: "u32 \<Rightarrow> bool \<Rightarrow> bool \<Rightarrow> bytes \<Rightarrow> HeadersFrameParam" where
  "headers_param sid es eh b = \<lparr>hp_StreamID = sid, hp_BlockFragment = b, hp_EndStream = es, hp_EndHeaders = eh,
     hp_PadLength = 0, hp_Priority = zeroPriority\<rparr>"

fun cont_ops :: "u32 \<Rightarrow> bytes list \<Rightarrow> frame_op list" where
  "cont_ops sid [] = []"
| "cont_ops sid (b # bs) = OpContinuation sid (bs = []) b # cont_ops sid bs"

fun header_ops :: "u32 \<Rightarrow> bool \<Rightarrow> bytes list \<Rightarrow> frame_op list" where
  "header_ops sid es [] = []"
| "header_ops sid es (b # bs) = OpHeaders (headers_param sid es (bs = []) b) # cont_ops sid bs"

lemma frags_nonempty [simp]: "frags n b \<noteq> []"
  by (subst frags.simps) simp

lemma frags_concat [simp]: "concat (frags n b) = b"
  by (induction n b rule: frags.induct) (subst frags.simps, auto)

lemma frags_bound: "n > 0 \<Longrightarrow> x \<in> set (frags n b) \<Longrightarrow> length x \<le> n"
proof (induction n b rule: frags.induct)
  case (1 n b)
  then show ?case by (subst (asm) (2) frags.simps) (auto split: if_splits)
qed

text \<open>The loop of \<^verbatim>\<open>writeHeader\<close> ends and performs exactly these operations.\<close>

lemma writeFragments_ops:
  assumes "mfs \<noteq> 0"
  shows "\<exists>r. writeFragments wr sid es mfs first b fr =
    (let ops = (if first then header_ops sid es (frags (unat mfs) b) else cont_ops sid (frags (unat mfs) b));
         (fr', e) = performAll wr ops fr
     in Some (fr', r, e))"
proof (induction "length b" arbitrary: b first fr rule: less_induct)
  case less
  have pos: "unat mfs > 0" using assms by (simp add: unat_gt_0)
  show ?case
  proof (cases "length b \<le> unat mfs")
    case True
    then have "frags (unat mfs) b = [b]" by (subst frags.simps) simp
    then show ?thesis
      using True by (subst writeFragments.simps) (auto simp: headers_param_def Let_def split: prod.splits option.splits)
  next
    case False
    let ?op = "if first then OpHeaders (headers_param sid es False (take (unat mfs) b))
      else OpContinuation sid False (take (unat mfs) b)"
    obtain fr1 e1 where op: "perform wr ?op fr = (fr1, e1)" by fastforce
    have f: "frags (unat mfs) b = take (unat mfs) b # frags (unat mfs) (drop (unat mfs) b)"
      using False pos by (subst frags.simps) simp
    have step: "writeFragments wr sid es mfs first b fr =
        (if e1 \<noteq> None then Some (fr1, drop (unat mfs) b, e1)
         else writeFragments wr sid es mfs False (drop (unat mfs) b) fr1)"
      using False op by (subst writeFragments.simps) (auto simp: headers_param_def Let_def split: prod.splits if_splits)
    have "\<exists>r. writeFragments wr sid es mfs False (drop (unat mfs) b) fr1 =
      (let (fr', e) = performAll wr (cont_ops sid (frags (unat mfs) (drop (unat mfs) b))) fr1 in Some (fr', r, e))"
      using less [of "drop (unat mfs) b" False fr1] False pos by simp
    then show ?thesis
      unfolding step f using op by (cases e1) (auto simp: Let_def split: prod.splits if_splits)
  qed
qed

section \<open>The encoder\<close>

text \<open>
  The peer's decoder \<open>d\<close> agrees with the encoder, and \<open>n\<close> more fields can be encoded before a counter of
  HPACK overflows.
\<close>

definition peer_ready :: "'s Decoder \<Rightarrow> bool" where
  "peer_ready d \<longleftrightarrow> firstField d \<and> saveBuf d = [] \<and> emitEnabled d \<and> maxStrLen d = 0"

definition enc_sync :: "nat \<Rightarrow> 'w Encoder \<Rightarrow> 's Decoder \<Rightarrow> bool" where
  "enc_sync n e d \<longleftrightarrow> synced e d \<and> peer_ready d \<and> maxSize (enc_dynTab e) \<le> 4096 \<and>
     added (table (enc_dynTab e)) + n < 2 ^ 64 - 1"

lemma enc_sync_less: "enc_sync n e d \<Longrightarrow> m \<le> n \<Longrightarrow> enc_sync m e d"
  by (simp add: enc_sync_def)

lemma WriteFields_sync:
  assumes "enc_sync (n + 2 ^ 20) e d" "fields_ok flds"
  shows "\<exists>e' d'. WriteFields (e\<lparr>enc_w := []\<rparr>) flds = Inr e' \<and> DecodeFull d (enc_w e') = (d', Inr flds) \<and> enc_sync n e' d'"
proof -
  let ?e = "e\<lparr>enc_w := []\<rparr>"
  have s: "synced ?e d" "firstField d" "saveBuf d = []" "emitEnabled d" "maxStrLen d = 0"
    "unat (maxSize (enc_dynTab ?e)) \<le> 4096" "added (table (enc_dynTab ?e)) + length flds < 2 ^ 64 - 1"
    using assms by (auto simp: enc_sync_def synced_def peer_ready_def fields_ok_def word_le_nat_alt)
  then have "\<forall>f \<in> set flds. fits (enc_dynTab ?e) (maxStrLen d) f"
    using assms(2) by (force simp: fits_def fields_ok_def)
  from block_round_trip [OF s(1-4) this s(7)] assms show ?thesis
    by (auto simp: enc_sync_def peer_ready_def fields_ok_def)
qed

lemma limit_sync:
  assumes "enc_sync n e d"
  shows "\<exists>e'. SetMaxDynamicTableSizeLimit e v = Inr e' \<and> enc_sync n e' d"
  using limit_synced [of e d v] assms by (auto simp: enc_sync_def intro: min.coboundedI1)

text \<open>\<^verbatim>\<open>writeHeader\<close>: the fields as one block, in frames of at most the maximal size.\<close>

definition header_calls :: "u32 \<Rightarrow> bool \<Rightarrow> loopy_call list" where
  "header_calls sid onWrite = (if onWrite then [CallOnWrite sid] else [])"

lemma writeHeader_ok:
  assumes "enc_sync (n + 2 ^ 20) (hEnc l) d" "fields_ok flds" "l_maxFrameSize l \<noteq> 0"
  shows "\<exists>enc block d' fr e. writeHeader wr sid es flds onWrite l =
      (l\<lparr>hEnc := enc, framer := fr, l_calls := l_calls l @ header_calls sid onWrite\<rparr>, map_option of_frame_error e) \<and>
    performAll wr (header_ops sid es (frags (unat (l_maxFrameSize l)) block)) (framer l) = (fr, e) \<and>
    DecodeFull d block = (d', Inr flds) \<and> enc_sync n enc d'"
proof -
  let ?l = "if onWrite then called (CallOnWrite sid) l else l"
  obtain enc d' where w: "WriteFields ((hEnc l)\<lparr>enc_w := []\<rparr>) flds = Inr enc" "DecodeFull d (enc_w enc) = (d', Inr flds)"
    "enc_sync n enc d'"
    using WriteFields_sync [OF assms(1,2)] by blast
  let ?ops = "header_ops sid es (frags (unat (l_maxFrameSize l)) (enc_w enc))"
  obtain fr e where p: "performAll wr ?ops (framer l) = (fr, e)" by fastforce
  obtain r where f: "writeFragments wr sid es (l_maxFrameSize l) True (enc_w enc) (framer l) = Some (fr, r, e)"
    using writeFragments_ops [OF assms(3), of wr sid es True "enc_w enc" "framer l"] p by (auto simp: Let_def)
  have "writeHeader wr sid es flds onWrite l =
      (l\<lparr>hEnc := enc\<lparr>enc_w := r\<rparr>, framer := fr, l_calls := l_calls l @ header_calls sid onWrite\<rparr>, map_option of_frame_error e)"
    using w(1) f by (simp add: writeHeader_def called_def header_calls_def Let_def)
  moreover have "enc_sync n (enc\<lparr>enc_w := r\<rparr>) d'"
    using w(3) by (simp add: enc_sync_def synced_def)
  ultimately show ?thesis
    using p w(2) by blast
qed

end
