(* ===== verification/Loopy_Safety.thy ===== *)
theory Loopy_Safety
  imports Loopy_Wire
begin

text \<open>
  The loopy writer does not panic and does not get stuck, whatever well-formed items arrive and whether
  or not the connection fails.
\<close>

section \<open>The invariant of the loopy writer\<close>

text \<open>
  What does not change during a run: the side, whether there is a BDP estimator; and whether stream
  identifiers are never used again.
\<close>

record cfg =
  cf_side :: side
  cf_bdp :: bool
  cf_strict :: bool

definition linv :: "('w \<Rightarrow> bool) \<Rightarrow> cfg \<Rightarrow> addr set \<Rightarrow> nat \<Rightarrow> addr list \<Rightarrow> 'w loopyWriter \<Rightarrow> bool" where
  "linv good cf E n xs l \<longleftrightarrow> sinv (cf_strict cf) E (estdStreams l) (outStreams l) (freshStream l) (activeStreams l) xs \<and>
     (\<exists>d :: HeaderField list Decoder. enc_sync n (hEnc l) d) \<and> good (fr_w (framer l)) \<and> l_maxFrameSize l \<noteq> 0 \<and>
     l_side l = cf_side cf \<and> (bdpEst l \<noteq> None) = cf_bdp cf"

definition loopy_inv :: "('w \<Rightarrow> bool) \<Rightarrow> cfg \<Rightarrow> nat \<Rightarrow> 'w loopyWriter \<Rightarrow> bool" where
  "loopy_inv good cf n l \<longleftrightarrow> (\<exists>xs. linv good cf {} n xs l)"

definition safe :: "('w \<Rightarrow> bool) \<Rightarrow> cfg \<Rightarrow> nat \<Rightarrow> 'w handled \<Rightarrow> bool" where
  "safe good cf n r \<longleftrightarrow> loopy_inv good cf n (fst r) \<and> (\<forall>x. snd r = Some x \<longrightarrow> \<not> fatal x)"

text \<open>
  The items that the writer can handle: no callback is missing where one is called. The trailers that a server
  queues are not among them (\<^verbatim>\<open>Stream_Rules\<close>).
\<close>

fun item_ok :: "cfg \<Rightarrow> cbItem \<Rightarrow> bool" where
  "item_ok cf (RegisterStream sid wq) \<longleftrightarrow> wq \<noteq> None"
| "item_ok cf (HeaderItem h) \<longleftrightarrow> fields_ok (h_hf h) \<and>
     (if cf_side cf = serverSide \<and> h_streamID h mod 2 = 1 then h_endStream h \<longrightarrow> cleanup_ok (h_cleanup h) else h_wq h \<noteq> None)"
| "item_ok cf (CleanupItem c) \<longleftrightarrow> c_onWrite c"
| "item_ok cf (DataItem df) \<longleftrightarrow> d_end df = 0"
| "item_ok cf (PingItem ack d) \<longleftrightarrow> ack \<or> cf_bdp cf \<or> d \<noteq> bdpPing"
| "item_ok cf _ \<longleftrightarrow> True"

text \<open>An item that starts a stream with an identifier that is not in use.\<close>

fun fresh_item :: "'w loopyWriter \<Rightarrow> cbItem \<Rightarrow> bool" where
  "fresh_item l (RegisterStream sid wq) \<longleftrightarrow> sid \<notin> fst ` set (estdStreams l)"
| "fresh_item l (HeaderItem h) \<longleftrightarrow> l_side l = serverSide \<and> h_streamID h mod 2 = 1 \<or> h_streamID h \<notin> fst ` set (estdStreams l)"
| "fresh_item l _ \<longleftrightarrow> True"

lemma linv_less: "linv good cf E n xs l \<Longrightarrow> m \<le> n \<Longrightarrow> linv good cf E m xs l"
  by (auto simp: linv_def intro: enc_sync_less)

lemma loopy_inv_less: "loopy_inv good cf n l \<Longrightarrow> m \<le> n \<Longrightarrow> loopy_inv good cf m l"
  by (auto simp: loopy_inv_def intro: linv_less)

lemma safe_less: "safe good cf n r \<Longrightarrow> m \<le> n \<Longrightarrow> safe good cf m r"
  by (auto simp: safe_def intro: loopy_inv_less)

lemma linv_called [simp]: "linv good cf E n xs (called c l) = linv good cf E n xs l"
  by (simp add: linv_def called_def)

lemma called_fields [simp]:
  "outStreams (called c l) = outStreams l" "estdStreams (called c l) = estdStreams l" "freshStream (called c l) = freshStream l"
  "activeStreams (called c l) = activeStreams l" "framer (called c l) = framer l" "sendQuota (called c l) = sendQuota l"
  "oiws (called c l) = oiws l" "hEnc (called c l) = hEnc l" "l_maxFrameSize (called c l) = l_maxFrameSize l"
  "l_side (called c l) = l_side l" "bdpEst (called c l) = bdpEst l" "l_wqs (called c l) = l_wqs l"
  by (simp_all add: called_def)

lemma and_go_safe:
  assumes "safe good cf n r" "\<And>l. loopy_inv good cf n l \<Longrightarrow> safe good cf m (k l)" "m \<le> n"
  shows "safe good cf m (and_go r k)"
proof (cases r)
  case (Pair l e)
  with assms safe_less [OF assms(1,3)] show ?thesis by (cases e) (auto simp: safe_def)
qed

text \<open>A stream that was taken out of the list of active streams.\<close>

definition holding :: "('w \<Rightarrow> bool) \<Rightarrow> cfg \<Rightarrow> nat \<Rightarrow> addr list \<Rightarrow> addr \<Rightarrow> 'w loopyWriter \<Rightarrow> bool" where
  "holding good cf n xs a l \<longleftrightarrow> linv good cf {a} n xs l \<and>
     held (freshStream l) (activeStreams l) (outStreams l) xs a \<and> a \<notin> set xs \<and> os_state (outStreams l a) = active \<and>
     (cf_strict cf \<longrightarrow> a \<in> snd ` set (estdStreams l))"

lemma holding_called [simp]: "holding good cf n xs a (called c l) = holding good cf n xs a l"
  by (simp add: holding_def)

lemma holding_wf: "holding good cf n xs a l \<Longrightarrow> il_wf (itl (outStreams l a)) \<and> os_wq (outStreams l a) \<noteq> None \<and>
    list_all (queued_ok (os_id (outStreams l a))) (il_items (itl (outStreams l a)))"
  by (simp add: holding_def held_def stream_ok_def)

text \<open>Changing the queue or the counter of a stream that is held.\<close>

lemma holding_modify:
  assumes h: "holding good cf n xs a l"
    and f: "os_next (f (outStreams l a)) = os_next (outStreams l a)" "os_prev (f (outStreams l a)) = os_prev (outStreams l a)"
      "os_id (f (outStreams l a)) = os_id (outStreams l a)" "os_state (f (outStreams l a)) = active"
    and ok: "stream_ok (outStreams l a) \<Longrightarrow> stream_ok (f (outStreams l a))"
  shows "holding good cf n xs a (modify_stream a f l)"
proof -
  let ?s = "f (outStreams l a)"
  have inv: "sinv (cf_strict cf) {a} (estdStreams l) (outStreams l) (freshStream l) (activeStreams l) xs"
    and hd: "held (freshStream l) (activeStreams l) (outStreams l) xs a" "a \<notin> set xs"
    using h by (auto simp: holding_def linv_def)
  have "sinv (cf_strict cf) {a} (estdStreams l) ((outStreams l)(a := ?s)) (freshStream l) (activeStreams l) xs"
    using sinv_modify [OF inv f(1-3) ok] hd(2) by simp
  with h hd f ok show ?thesis
    by (auto simp: holding_def linv_def modify_stream_def held_def unlinked_def)
qed

lemma set_state_linv:
  assumes h: "holding good cf n xs a l"
    and st: "st = empty_stream \<and> il_items (itl (outStreams l a)) = [] \<or> st = waitingOnStreamQuota \<and> data_first (outStreams l a)"
  shows "linv good cf {} n xs (set_state a st l)"
proof -
  let ?s = "(outStreams l a)\<lparr>os_state := st\<rparr>"
  have inv: "sinv (cf_strict cf) {a} (estdStreams l) (outStreams l) (freshStream l) (activeStreams l) xs" "a \<notin> set xs"
    using h by (auto simp: holding_def linv_def)
  have "stream_ok (outStreams l a) \<Longrightarrow> stream_ok ?s" by (simp add: stream_ok_def)
  then have "sinv (cf_strict cf) {a} (estdStreams l) ((outStreams l)(a := ?s)) (freshStream l) (activeStreams l) xs"
    using sinv_modify [OF inv(1), of ?s a] inv(2) by simp
  then have "sinv (cf_strict cf) {} (estdStreams l) ((outStreams l)(a := ?s)) (freshStream l) (activeStreams l) xs"
    by (rule sinv_settle) (use st in \<open>auto simp: settled_def data_first_def\<close>)
  with h show ?thesis
    by (simp add: holding_def linv_def set_state_def modify_stream_def)
qed

lemma activate_holding:
  assumes h: "holding good cf n xs a l" and "data_first (outStreams l a)"
  shows "\<exists>h'. activate a l = (l\<lparr>outStreams := h'\<rparr>, None) \<and> linv good cf {} n (xs @ [a]) (l\<lparr>outStreams := h'\<rparr>) \<and>
    same_data (outStreams l) h'"
  using sinv_activate [of "cf_strict cf" a "{}" "estdStreams l" "outStreams l" "freshStream l" "activeStreams l" xs] assms
  by (auto simp: holding_def linv_def activate_def)

lemma holding_trailer:
  assumes "holding good cf n xs a l" "trailer_first (outStreams l a)"
  shows "linv good cf {} n xs l"
proof -
  have inv: "sinv (cf_strict cf) {a} (estdStreams l) (outStreams l) (freshStream l) (activeStreams l) xs"
    using assms(1) by (simp add: holding_def linv_def)
  have "sinv (cf_strict cf) {} (estdStreams l) (outStreams l) (freshStream l) (activeStreams l) xs"
    by (rule sinv_settle [OF inv]) (use assms in \<open>simp add: settled_def holding_def\<close>)
  with assms(1) show ?thesis by (simp add: holding_def linv_def)
qed

section \<open>Handlers\<close>

text \<open>A stream that is established and not active is woken up.\<close>

lemma holding_wake:
  assumes l: "linv good cf {} n xs l" and a: "map_of (estdStreams l) k = Some a" and st: "os_state (outStreams l a) \<noteq> active"
    and f: "os_next (f (outStreams l a)) = os_next (outStreams l a)" "os_prev (f (outStreams l a)) = os_prev (outStreams l a)"
      "os_id (f (outStreams l a)) = os_id (outStreams l a)" "os_state (f (outStreams l a)) = active"
    and ok: "stream_ok (outStreams l a) \<Longrightarrow> stream_ok (f (outStreams l a))"
  shows "holding good cf n xs a (modify_stream a f l)"
proof -
  let ?s = "f (outStreams l a)"
  have inv: "sinv (cf_strict cf) {} (estdStreams l) (outStreams l) (freshStream l) (activeStreams l) xs"
    using l by (simp add: linv_def)
  have hd: "held (freshStream l) (activeStreams l) (outStreams l) xs a" using sinv_estd [OF inv a] by simp
  have nx: "a \<notin> set xs" using sinv_active [OF inv] st by auto
  have "sinv (cf_strict cf) {a} (estdStreams l) ((outStreams l)(a := ?s)) (freshStream l) (activeStreams l) xs"
    by (rule sinv_modify [OF inv f(1-3) ok]) (use nx in simp_all)
  moreover have "a \<in> snd ` set (estdStreams l)" using map_of_SomeD [OF a] by force
  ultimately show ?thesis
    using l hd nx f ok by (auto simp: holding_def linv_def modify_stream_def held_def unlinked_def)
qed

lemma linv_update_stream:
  assumes l: "linv good cf {} n xs l" and a: "map_of (estdStreams l) k = Some a"
    and f: "os_next (f (outStreams l a)) = os_next (outStreams l a)" "os_prev (f (outStreams l a)) = os_prev (outStreams l a)"
      "os_id (f (outStreams l a)) = os_id (outStreams l a)" "os_state (f (outStreams l a)) = os_state (outStreams l a)"
    and ok: "stream_ok (outStreams l a) \<Longrightarrow> stream_ok (f (outStreams l a))"
    and keeps: "stream_ok (outStreams l a) \<Longrightarrow> data_first (outStreams l a) \<Longrightarrow> data_first (f (outStreams l a))"
      "stream_ok (outStreams l a) \<Longrightarrow> trailer_first (outStreams l a) \<Longrightarrow> trailer_first (f (outStreams l a))"
      "os_state (outStreams l a) = empty_stream \<Longrightarrow> il_items (itl (outStreams l a)) = [] \<Longrightarrow> il_items (itl (f (outStreams l a))) = []"
  shows "linv good cf {} n xs (modify_stream a f l)"
proof -
  let ?s = "f (outStreams l a)"
  have inv: "sinv (cf_strict cf) {} (estdStreams l) (outStreams l) (freshStream l) (activeStreams l) xs"
    using l by (simp add: linv_def)
  have e: "held (freshStream l) (activeStreams l) (outStreams l) xs a" "settled (outStreams l) xs a"
    using sinv_estd [OF inv a] by simp_all
  have ok': "stream_ok (outStreams l a)" using e(1) by (simp add: held_def)
  have "sinv (cf_strict cf) {a} (estdStreams l) ((outStreams l)(a := ?s)) (freshStream l) (activeStreams l) xs"
    by (rule sinv_modify [OF inv f(1-3) ok]) (use sinv_active [OF inv] f(4) keeps ok' in auto)
  then have "sinv (cf_strict cf) {} (estdStreams l) ((outStreams l)(a := ?s)) (freshStream l) (activeStreams l) xs"
    by (rule sinv_settle) (use e(2) f(4) keeps ok' in \<open>auto simp: settled_def split: outStreamState.splits\<close>)
  with l show ?thesis by (simp add: linv_def modify_stream_def)
qed

lemma stream_ok_enqueue: "stream_ok s \<Longrightarrow> queued_ok (os_id s) i \<Longrightarrow> stream_ok (s\<lparr>itl := il_enqueue i (itl s)\<rparr>)"
  by (simp add: stream_ok_def il.queue_simps)

lemma linv_enqueue:
  assumes "linv good cf {} n xs l" "map_of (estdStreams l) k = Some a" "queued_ok k i" "os_state (outStreams l a) \<noteq> empty_stream"
  shows "linv good cf {} n xs (modify_stream a (\<lambda>s. s\<lparr>itl := il_enqueue i (itl s)\<rparr>) l)"
proof -
  have "os_id (outStreams l a) = k"
    using sinv_estd [of "cf_strict cf" "{}" "estdStreams l" "outStreams l" "freshStream l" "activeStreams l" xs k a] assms(1,2)
    by (simp add: linv_def)
  with assms(3) have "queued_ok (os_id (outStreams l a)) i" by simp
  then show ?thesis
  by (intro linv_update_stream [OF assms(1,2)])
    (use assms(4) in \<open>auto simp: stream_ok_enqueue data_first_def trailer_first_def stream_ok_def il.queue_simps\<close>)
qed

lemma activate_safe:
  assumes "holding good cf n xs a l" "data_first (outStreams l a)"
  shows "safe good cf n (activate a l)"
  using activate_holding [OF assms] by (auto simp: safe_def loopy_inv_def)

lemma modify_twice [simp]: "modify_stream a g (modify_stream a f l) = modify_stream a (\<lambda>s. g (f s)) l"
  by (simp add: modify_stream_def)

lemma stream_of_modify [simp]: "stream_of (modify_stream a f l) b = (if b = a then f (stream_of l a) else stream_of l b)"
  by (simp add: stream_of_def modify_stream_def)

lemma modify_fields [simp]:
  "estdStreams (modify_stream a f l) = estdStreams l" "outStreams (modify_stream a f l) = (outStreams l)(a := f (outStreams l a))"
  "oiws (modify_stream a f l) = oiws l" "sendQuota (modify_stream a f l) = sendQuota l" "framer (modify_stream a f l) = framer l"
  "activeStreams (modify_stream a f l) = activeStreams l" "freshStream (modify_stream a f l) = freshStream l"
  "l_maxFrameSize (modify_stream a f l) = l_maxFrameSize l"
  by (simp_all add: modify_stream_def)

lemma incomingWindowUpdate_safe:
  assumes "loopy_inv good cf n l"
  shows "safe good cf n (incomingWindowUpdateHandler sid incr l)"
proof -
  obtain xs where l: "linv good cf {} n xs l" using assms by (auto simp: loopy_inv_def)
  show ?thesis
  proof (cases "sid = 0 \<or> map_of (estdStreams l) sid = None")
    case True
    with l show ?thesis by (auto simp: incomingWindowUpdateHandler_def safe_def loopy_inv_def linv_def)
  next
    case False
    then obtain a where a: "map_of (estdStreams l) sid = Some a" "sid \<noteq> 0" by auto
    let ?f = "\<lambda>s :: outStream. s\<lparr>bytesOutStanding := bytesOutStanding s - int (unat incr)\<rparr>"
    have l1: "linv good cf {} n xs (modify_stream a ?f l)"
      by (rule linv_update_stream [OF l a(1)]) (simp_all add: stream_ok_def data_first_def trailer_first_def)
    show ?thesis
    proof (cases "streamQuota (modify_stream a ?f l) a > 0 \<and> os_state (stream_of l a) = waitingOnStreamQuota")
      case True
      then have w: "os_state (outStreams l a) = waitingOnStreamQuota" by (simp add: stream_of_def)
      then have d: "data_first (outStreams l a)"
        using sinv_estd [of "cf_strict cf" "{}" "estdStreams l" "outStreams l" "freshStream l" "activeStreams l" xs sid a] l a
        by (simp add: linv_def settled_def)
      have "holding good cf n xs a (modify_stream a (\<lambda>s. (?f s)\<lparr>os_state := active\<rparr>) l)"
        by (rule holding_wake [OF l a(1)]) (use w in \<open>simp_all add: stream_ok_def\<close>)
      from activate_safe [OF this] d True a show ?thesis
        by (simp add: incomingWindowUpdateHandler_def Let_def data_first_def)
    next
      case False
      with l1 a show ?thesis
        by (auto simp: incomingWindowUpdateHandler_def Let_def safe_def loopy_inv_def)
    qed
  qed
qed

lemma activateWaiting_safe:
  assumes "loopy_inv good cf n l" "set as \<subseteq> snd ` set (estdStreams l)"
  shows "safe good cf n (activateWaiting as l)"
  using assms
proof (induction as arbitrary: l)
  case (Cons a as)
  obtain xs where l: "linv good cf {} n xs l" using Cons.prems by (auto simp: loopy_inv_def)
  show ?case
  proof (cases "os_state (stream_of l a) = waitingOnStreamQuota")
    case True
    have dist: "distinct (map fst (estdStreams l))" using l by (simp add: linv_def sinv_def sbase_def)
    obtain k where k: "map_of (estdStreams l) k = Some a"
      using Cons.prems(2) dist by (force simp: map_of_eq_Some_iff)
    have d: "data_first (outStreams l a)"
      using sinv_estd [of "cf_strict cf" "{}" "estdStreams l" "outStreams l" "freshStream l" "activeStreams l" xs k a] l k True
      by (simp add: linv_def settled_def stream_of_def)
    have hd: "holding good cf n xs a (modify_stream a (os_state_update (\<lambda>_. active)) l)"
      by (rule holding_wake [OF l k]) (use True in \<open>simp_all add: stream_ok_def stream_of_def\<close>)
    obtain h' where h': "activate a (modify_stream a (os_state_update (\<lambda>_. active)) l) =
        ((modify_stream a (os_state_update (\<lambda>_. active)) l)\<lparr>outStreams := h'\<rparr>, None)"
      "linv good cf {} n (xs @ [a]) ((modify_stream a (os_state_update (\<lambda>_. active)) l)\<lparr>outStreams := h'\<rparr>)"
      using activate_holding [OF hd] d by (auto simp: data_first_def)
    with Cons.IH [of "(modify_stream a (os_state_update (\<lambda>_. active)) l)\<lparr>outStreams := h'\<rparr>"] Cons.prems(2) True
    show ?thesis by (auto simp: loopy_inv_def)
  next
    case False
    with Cons show ?thesis by auto
  qed
qed (simp add: safe_def)

lemma updateHeaderTblSize_safe:
  assumes "loopy_inv good cf n l"
  shows "safe good cf n (updateHeaderTblSize v l)"
proof -
  obtain xs and d :: "HeaderField list Decoder" where l: "linv good cf {} n xs l" "enc_sync n (hEnc l) d"
    using assms by (auto simp: loopy_inv_def linv_def)
  from limit_sync [OF l(2), of v] l(1) show ?thesis
    by (auto simp: updateHeaderTblSize_def safe_def loopy_inv_def linv_def)
qed

lemma applySettings_safe:
  assumes "loopy_inv good cf n l" "\<And>as. set (ord as) \<subseteq> set as"
  shows "safe good cf n (applySettings ord ss l)"
  using assms(1)
proof (induction ss arbitrary: l)
  case (Cons x ss)
  let ?l = "l\<lparr>oiws := Val x\<rparr>"
  have o: "loopy_inv good cf n ?l" using Cons.prems by (simp add: loopy_inv_def linv_def)
  have "set (ord (map snd (estdStreams ?l))) \<subseteq> snd ` set (estdStreams ?l)"
    using assms(2) [of "map snd (estdStreams ?l)"] by simp
  then have "safe good cf n (activateWaiting (ord (map snd (estdStreams ?l))) ?l)"
    by (rule activateWaiting_safe [OF o])
  with o updateHeaderTblSize_safe [OF Cons.prems] Cons.prems
  show ?case
    unfolding applySettings.simps by (intro and_go_safe [OF _ Cons.IH order.refl]) (auto simp: Let_def safe_def)
qed (simp add: safe_def)

lemma preprocessData_safe:
  assumes "loopy_inv good cf n l" "d_end df = 0"
  shows "safe good cf n (preprocessData df l)"
proof (cases "map_of (estdStreams l) (d_streamID df)")
  case None
  with assms(1) show ?thesis by (simp add: preprocessData_def safe_def)
next
  case (Some a)
  obtain xs where l: "linv good cf {} n xs l" using assms by (auto simp: loopy_inv_def)
  let ?f = "\<lambda>s. s\<lparr>itl := il_enqueue (DataItem df) (itl s)\<rparr>"
  show ?thesis
  proof (cases "os_state (stream_of l a) = empty_stream")
    case True
    have e: "held (freshStream l) (activeStreams l) (outStreams l) xs a" "il_items (itl (outStreams l a)) = []"
      "os_id (outStreams l a) = d_streamID df"
      using sinv_estd [of "cf_strict cf" "{}" "estdStreams l" "outStreams l" "freshStream l" "activeStreams l" xs "d_streamID df" a] l Some True
      by (simp_all add: linv_def settled_def stream_of_def)
    have "holding good cf n xs a (modify_stream a (\<lambda>s. (?f s)\<lparr>os_state := active\<rparr>) l)"
      by (rule holding_wake [OF l Some]) (use True assms(2) e(3) in \<open>simp_all add: stream_ok_def stream_of_def il.queue_simps\<close>)
    moreover have "data_first (outStreams (modify_stream a (\<lambda>s. (?f s)\<lparr>os_state := active\<rparr>) l) a)"
      using e by (simp add: data_first_def held_def stream_ok_def il.queue_simps)
    ultimately have "safe good cf n (activate a (modify_stream a (\<lambda>s. (?f s)\<lparr>os_state := active\<rparr>) l))"
      by (rule activate_safe)
    with True Some show ?thesis
      by (simp add: preprocessData_def Let_def)
  next
    case False
    then have "linv good cf {} n xs (modify_stream a ?f l)"
      by (intro linv_enqueue [OF l Some]) (use assms(2) in \<open>simp_all add: stream_of_def\<close>)
    with False Some show ?thesis by (auto simp: preprocessData_def Let_def safe_def loopy_inv_def)
  qed
qed

text \<open>A new stream.\<close>

lemma new_stream_linv:
  assumes l: "linv good cf {} n xs l" and q: "wq \<noteq> None" and a: "alloc_stream (new_outStream sid wq) l = (l1, a)"
    and new: "cf_strict cf \<longrightarrow> sid \<notin> fst ` set (estdStreams l)"
  shows "linv good cf {} n xs l1 \<and> linv good cf {} n xs (establish sid a l1)"
proof -
  let ?s = "new_outStream sid wq"
  have inv: "sinv (cf_strict cf) {} (estdStreams l) (outStreams l) (freshStream l) (activeStreams l) xs" using l by (simp add: linv_def)
  have l1: "l1 = l\<lparr>outStreams := (outStreams l)(freshStream l := ?s), freshStream := Suc (freshStream l)\<rparr>" "a = freshStream l"
    using a by (auto simp: alloc_stream_def)
  have s1: "sinv (cf_strict cf) {} (estdStreams l1) (outStreams l1) (freshStream l1) (activeStreams l1) xs"
    using sinv_alloc [OF inv, of ?s] by (simp add: l1)
  have "osl_head (activeStreams l) < freshStream l" "osl_tail (activeStreams l) < freshStream l" using inv by (simp_all add: sinv_def sbase_def)
  then have "held (freshStream l1) (activeStreams l1) (outStreams l1) xs a" "os_id (outStreams l1 a) = sid" "settled (outStreams l1) xs a"
    using q by (simp_all add: l1 held_def stream_ok_def new_outStream_def unlinked_def settled_def il.queue_simps)
  from sinv_establish [OF s1 this] new s1 l show ?thesis
    by (simp add: linv_def l1 establish_def)
qed

lemma registerStream_safe:
  assumes "loopy_inv good cf n l" "wq \<noteq> None" "cf_strict cf \<longrightarrow> sid \<notin> fst ` set (estdStreams l)"
  shows "safe good cf n (registerStreamHandler sid wq l)"
  using assms new_stream_linv [of good cf n _ l wq sid]
  by (fastforce simp: registerStreamHandler_def safe_def loopy_inv_def split: prod.splits)

context calm_writer
begin

lemma on_framer_linv:
  assumes "on_framer (performAll wr ops) l = (l', e)" "linv good cf E n xs l"
  shows "\<exists>fr. l' = l\<lparr>framer := fr\<rparr> \<and> linv good cf E n xs l' \<and> (\<forall>x. e = Some x \<longrightarrow> \<not> fatal x)"
proof -
  obtain fr e0 where p: "performAll wr ops (framer l) = (fr, e0)" by fastforce
  have g: "good (fr_w (framer l))" using assms(2) by (simp add: linv_def)
  from p assms performAll_calm [OF g p] show ?thesis by (auto simp: on_framer_def linv_def)
qed

lemma on_framer_safe:
  assumes "loopy_inv good cf n l"
  shows "safe good cf n (on_framer (performAll wr ops) l)"
proof -
  obtain l' e where o: "on_framer (performAll wr ops) l = (l', e)" by fastforce
  obtain xs where "linv good cf {} n xs l" using assms by (auto simp: loopy_inv_def)
  from on_framer_linv [OF o this] o show ?thesis by (auto simp: safe_def loopy_inv_def)
qed

lemma writeHeader_linv:
  assumes "writeHeader wr sid es flds ow l = (l', e)" "linv good cf E (n + 2 ^ 20) xs l" "fields_ok flds"
  shows "\<exists>enc fr cs. l' = l\<lparr>hEnc := enc, framer := fr, l_calls := cs\<rparr> \<and> linv good cf E n xs l' \<and>
    (\<forall>x. e = Some x \<longrightarrow> \<not> fatal x)"
proof -
  obtain d :: "HeaderField list Decoder" where d: "enc_sync (n + 2 ^ 20) (hEnc l) d"
    using assms(2) by (auto simp: linv_def)
  have m: "l_maxFrameSize l \<noteq> 0" "good (fr_w (framer l))" using assms(2) by (simp_all add: linv_def)
  obtain enc block and d' :: "HeaderField list Decoder" and fr e0 where w:
    "l' = l\<lparr>hEnc := enc, framer := fr, l_calls := l_calls l @ header_calls sid ow\<rparr>" "e = map_option of_frame_error e0"
    "performAll wr (header_ops sid es (frags (unat (l_maxFrameSize l)) block)) (framer l) = (fr, e0)" "enc_sync n enc d'"
    using writeHeader_ok [OF d assms(3) m(1), of wr sid es ow] assms(1) by auto
  have "linv good cf E n xs l'"
    using w(1,4) performAll_calm [OF m(2) w(3)] assms(2) unfolding linv_def by auto
  with w performAll_calm [OF m(2) w(3)] show ?thesis by auto
qed

lemma writeHeader_safe:
  assumes "loopy_inv good cf (n + 2 ^ 20) l" "fields_ok flds"
  shows "safe good cf n (writeHeader wr sid es flds ow l)"
proof -
  obtain l' e where w: "writeHeader wr sid es flds ow l = (l', e)" by fastforce
  obtain xs where "linv good cf {} (n + 2 ^ 20) xs l" using assms(1) by (auto simp: loopy_inv_def)
  from writeHeader_linv [OF w this assms(2)] w show ?thesis by (auto simp: safe_def loopy_inv_def)
qed

lemma cleanup_safe:
  assumes "loopy_inv good cf n l" "co = Some c" "c_onWrite c"
  shows "safe good cf n (cleanupStreamHandler wr co l)"
proof -
  note c = assms(2,3)
  let ?l1 = "called (CallOnWrite (c_streamID c)) l"
  let ?l2 = "case map_of (estdStreams ?l1) (c_streamID c) of None \<Rightarrow> ?l1
    | Some a \<Rightarrow> ?l1\<lparr>estdStreams := AList.delete (c_streamID c) (estdStreams ?l1), outStreams := deleteSelf a (outStreams ?l1)\<rparr>"
  obtain xs where xs: "linv good cf {} n xs l" using assms(1) by (auto simp: loopy_inv_def)
  have l2: "loopy_inv good cf n ?l2"
  proof (cases "map_of (estdStreams l) (c_streamID c)")
    case None
    with xs show ?thesis by (auto simp: loopy_inv_def)
  next
    case (Some a)
    have "sinv (cf_strict cf) {} (estdStreams l) (outStreams l) (freshStream l) (activeStreams l) xs" using xs by (simp add: linv_def)
    from sinv_delete [OF this Some] xs Some show ?thesis by (auto simp: loopy_inv_def linv_def called_def)
  qed
  have r: "safe good cf n (if rst c then on_framer (performAll wr [OpRSTStream (c_streamID c) (rstCode c)]) ?l2 else (?l2, None))"
    using on_framer_safe [OF l2] l2 by (simp add: safe_def)
  have "safe good cf n (and_go (if rst c then on_framer (performAll wr [OpRSTStream (c_streamID c) (rstCode c)]) ?l2 else (?l2, None))
      (\<lambda>l3. (l3, if l_side l3 = clientSide \<and> draining l3 \<and> estdStreams l3 = [] then Some LConnClosing else None)))"
    by (rule and_go_safe [OF r]) (auto simp: safe_def)
  then show ?thesis
    by (simp only: c cleanupStreamHandler_def Let_def on_framer_ops option.case simp_thms if_False)
qed

lemma header_client_safe:
  assumes "loopy_inv good cf (n + 2 ^ 20) l" "fields_ok (h_hf h)" "h_wq h \<noteq> None"
    and "\<not> (l_side l = serverSide \<and> h_streamID h mod 2 = 1)" "cf_strict cf \<longrightarrow> h_streamID h \<notin> fst ` set (estdStreams l)"
  shows "safe good cf n (headerHandler wr h l)"
proof -
  let ?sid = "h_streamID h"
  obtain xs where l: "linv good cf {} (n + 2 ^ 20) xs l" using assms(1) by (auto simp: loopy_inv_def)
  obtain l1 a where a: "alloc_stream (new_outStream ?sid (h_wq h)) l = (l1, a)" by fastforce
  define l2 where "l2 = (if h_initStream h = None then l1 else called (CallInitStream ?sid) l1)"
  note new = new_stream_linv [OF l assms(3) a assms(5)]
  have l2: "linv good cf {} (n + 2 ^ 20) xs l2" using new by (simp add: l2_def)
  obtain l3 e where w: "writeHeader wr ?sid (h_endStream h) (h_hf h) (h_onWrite h) l2 = (l3, e)" by fastforce
  obtain enc fr cs where l3: "l3 = l2\<lparr>hEnc := enc, framer := fr, l_calls := cs\<rparr>" "linv good cf {} n xs l3"
      "\<forall>x. e = Some x \<longrightarrow> \<not> fatal x"
    using writeHeader_linv [OF w l2 assms(2)] by auto
  have "linv good cf {} n xs (establish ?sid a l3)"
    using l3(1,2) new by (auto simp: linv_def establish_def l2_def called_def)
  then have "safe good cf n (and_go (l3, e) (\<lambda>l3. (establish ?sid a l3, None)))"
    using l3 by (cases e) (auto simp: safe_def loopy_inv_def)
  moreover have "linv good cf {} n xs l2" by (rule linv_less [OF l2]) simp
  moreover have "headerHandler wr h l = (if h_initStream h = Some InitConnClosing then (l2, Some LConnClosing)
      else if h_initStream h = Some InitOtherError then (l2, None)
      else and_go (l3, e) (\<lambda>l3. (establish ?sid a l3, None)))"
    by (simp only: headerHandler_def Let_def assms(4) if_False a prod.case l2_def [symmetric] w)
  ultimately show ?thesis by (auto simp: safe_def loopy_inv_def)
qed

lemma header_server_safe:
  assumes "loopy_inv good cf (n + 2 ^ 20) l" "fields_ok (h_hf h)" "h_endStream h \<longrightarrow> cleanup_ok (h_cleanup h)"
    and side: "l_side l = serverSide" "h_streamID h mod 2 = 1"
  shows "safe good cf n (headerHandler wr h l)"
proof (cases "map_of (estdStreams l) (h_streamID h)")
  case None
  with assms loopy_inv_less [OF assms(1), of n] show ?thesis by (simp add: headerHandler_def safe_def)
next
  case (Some a)
  obtain xs where l: "linv good cf {} (n + 2 ^ 20) xs l" using assms(1) by (auto simp: loopy_inv_def)
  let ?w = "writeHeader wr (h_streamID h) (h_endStream h) (h_hf h) (h_onWrite h) l"
  have w: "safe good cf n ?w" by (rule writeHeader_safe [OF assms(1,2)])
  show ?thesis
  proof (cases "h_endStream h")
    case False
    with Some w side show ?thesis by (simp add: headerHandler_def)
  next
    case fin: True
    show ?thesis
    proof (cases "os_state (stream_of l a) = empty_stream")
      case True
      have "safe good cf n (and_go ?w (cleanupStreamHandler wr (h_cleanup h)))"
        by (rule and_go_safe [OF w]) (use cleanup_safe assms(3) fin in \<open>auto simp: cleanup_ok_def split: option.splits\<close>)
      with True Some fin side show ?thesis by (simp add: headerHandler_def)
    next
      case False
      have "linv good cf {} (n + 2 ^ 20) xs (modify_stream a (\<lambda>s. s\<lparr>itl := il_enqueue (HeaderItem h) (itl s)\<rparr>) l)"
        by (rule linv_enqueue [OF l Some]) (use False assms fin in \<open>simp_all add: stream_of_def\<close>)
      from linv_less [OF this, of n] False Some fin side show ?thesis
        by (auto simp: headerHandler_def safe_def loopy_inv_def)
    qed
  qed
qed

lemma ping_safe:
  assumes "loopy_inv good cf n l" "ack \<or> cf_bdp cf \<or> d \<noteq> bdpPing"
  shows "safe good cf n (pingHandler wr now ack d l)"
proof -
  have "loopy_inv good cf n (if \<not> ack then l\<lparr>bdpEst := map_option (timesnap now d) (bdpEst l)\<rparr> else l)"
    using assms(1) by (auto simp: loopy_inv_def linv_def)
  moreover have "\<not> (\<not> ack \<and> bdpEst l = None \<and> d = bdpPing)"
    using assms by (auto simp: loopy_inv_def linv_def)
  ultimately show ?thesis
    using on_framer_safe by (simp only: pingHandler_def Let_def on_framer_ops if_False)
qed

lemma goAway_safe:
  assumes "loopy_inv good cf n l" "\<And>w. good w \<Longrightarrow> good (flush w)"
  shows "safe good cf n (goAwayHandler wr flush g l)"
proof -
  have step: "on_framer (performAll wr ops) l1 = (l2, e) \<Longrightarrow> loopy_inv good cf n l1 \<Longrightarrow>
      loopy_inv good cf n l2 \<and> (\<forall>x. e = Some x \<longrightarrow> \<not> fatal x)" for ops l1 l2 e
    using on_framer_safe [of cf n l1 ops] by (simp add: safe_def)
  have mux: "loopy_inv good cf n l1 \<Longrightarrow> loopy_inv good cf n (l1\<lparr>l_mux := m\<rparr>)"
    and dr: "loopy_inv good cf n l1 \<Longrightarrow> loopy_inv good cf n (l1\<lparr>draining := x\<rparr>)"
    and ca: "loopy_inv good cf n l1 \<Longrightarrow> loopy_inv good cf n (called c l1)"
    and fl: "loopy_inv good cf n l1 \<Longrightarrow> loopy_inv good cf n (l1\<lparr>framer := (framer l1)\<lparr>fr_w := flush (fr_w (framer l1))\<rparr>\<rparr>)"
    for l1 m x c using assms(2) by (auto simp: loopy_inv_def linv_def)
  obtain l1 r where o: "outgoingGoAwayHandler wr flush g l = (l1, r)" by fastforce
  have "loopy_inv good cf n l1 \<and> (\<forall>x. r = Inl x \<longrightarrow> \<not> fatal x)"
    using o assms(1) unfolding outgoingGoAwayHandler_def Let_def on_framer_ops
    by (auto split: if_splits prod.splits option.splits dest!: step simp: mux fl ca)
  then show ?thesis
    unfolding goAwayHandler_def
    by (intro and_go_safe [where n = n]) (auto simp: o safe_def assms(1) dr ca split: sum.splits)
qed

lemma handle_safe:
  assumes inv: "loopy_inv good cf (n + 2 ^ 20) l" and i: "item_ok cf i" and new: "cf_strict cf \<longrightarrow> fresh_item l i"
    and ord: "\<And>as. set (ord as) \<subseteq> set as" and flush: "\<And>w. good w \<Longrightarrow> good (flush w)"
  shows "safe good cf n (handle wr flush ord now i l)"
proof -
  have inv': "loopy_inv good cf n l" by (rule loopy_inv_less [OF inv]) simp
  have side: "l_side l = cf_side cf" using inv by (auto simp: loopy_inv_def linv_def)
  show ?thesis
  proof (cases i)
    case (HeaderItem h)
    with header_client_safe [OF inv, of h] header_server_safe [OF inv, of h] i side new show ?thesis
      by (cases "cf_side cf = serverSide \<and> h_streamID h mod 2 = 1") auto
  next
    case (IncomingSettings ss)
    have "safe good cf n (and_go (applySettings ord ss l) (on_framer (performAll wr [OpSettingsAck])))"
      by (rule and_go_safe [OF applySettings_safe [OF inv' ord] on_framer_safe]) simp_all
    with IncomingSettings show ?thesis by (simp add: incomingSettingsHandler_def on_framer_ops)
  next
    case IncomingGoAway
    with inv' show ?thesis by (auto simp: incomingGoAwayHandler_def safe_def loopy_inv_def linv_def)
  next
    case OutFlowControlSizeRequest
    with inv' show ?thesis by (auto simp: outFlowControlSizeRequestHandler_def safe_def loopy_inv_def)
  qed (use inv' i new on_framer_safe [OF inv'] flush in \<open>simp_all add: incomingWindowUpdate_safe registerStream_safe cleanup_safe
        preprocessData_safe ping_safe goAway_safe outgoingWindowUpdateHandler_def
        outgoingSettingsHandler_def on_framer_ops\<close>)
qed

end

section \<open>Sending data\<close>

definition safe_data :: "('w \<Rightarrow> bool) \<Rightarrow> cfg \<Rightarrow> nat \<Rightarrow> 'w loopyWriter \<times> (loopy_error + bool) \<Rightarrow> bool" where
  "safe_data good cf n r \<longleftrightarrow> loopy_inv good cf n (fst r) \<and> (\<forall>x. snd r = Inl x \<longrightarrow> \<not> fatal x)"

lemma safe_dataI: "linv good cf {} n xs l \<Longrightarrow> safe_data good cf n (l, Inr c)"
  by (auto simp: safe_data_def loopy_inv_def)

lemma enqueue_active_safe:
  assumes "holding good cf n xs a l" "data_first (outStreams l a)"
  shows "safe_data good cf n (enqueue_active a l)"
  using activate_holding [OF assms] by (auto simp: enqueue_active_def intro: safe_dataI)

lemma holding_less: "holding good cf n xs a l \<Longrightarrow> m \<le> n \<Longrightarrow> holding good cf m xs a l"
  by (auto simp: holding_def intro: linv_less)

lemma list_all_tl: "list_all P xs \<Longrightarrow> list_all P (tl xs)"
  by (cases xs) simp_all

lemma holding_dequeue:
  assumes "holding good cf n xs a l"
  shows "holding good cf n xs a (modify_stream a (\<lambda>s. s\<lparr>itl := fst (il_dequeue (itl s))\<rparr>) l)"
  by (rule holding_modify [OF assms])
    (use assms in \<open>simp_all add: holding_def stream_ok_def il.queue_simps list_all_tl\<close>)

text \<open>The first item of a stream that is held is data or a trailer.\<close>

lemma peek_cases:
  assumes "holding good cf n xs a l" "\<not> il_isEmpty (itl (stream_of l a))"
  shows "(\<exists>h. il_peek (itl (stream_of l a)) = Some (HeaderItem h) \<and> cleanup_ok (h_cleanup h) \<and> fields_ok (h_hf h) \<and>
      trailer_first (outStreams l a)) \<or>
    (\<exists>df. il_peek (itl (stream_of l a)) = Some (DataItem df) \<and> data_first (outStreams l a))"
proof -
  have s: "il_wf (itl (outStreams l a))" "list_all (queued_ok (os_id (outStreams l a))) (il_items (itl (outStreams l a)))"
    using holding_wf [OF assms(1)] by simp_all
  then obtain i r where i: "il_items (itl (outStreams l a)) = i # r"
    using assms(2) by (cases "il_items (itl (outStreams l a))") (simp_all add: stream_of_def il.queue_simps)
  with s show ?thesis
    by (cases i) (auto simp: stream_of_def il.queue_simps data_first_def trailer_first_def)
qed

context calm_writer
begin

lemma sendTrailer_safe:
  assumes "loopy_inv good cf (n + 2 ^ 20) l" "cleanup_ok (h_cleanup h)" "fields_ok (h_hf h)"
  shows "safe_data good cf n (sendTrailer wr sw h l)"
proof -
  obtain l1 e1 where w: "writeHeader wr (h_streamID h) (h_endStream h) (h_hf h) (h_onWrite h) l = (l1, e1)" by fastforce
  have 1: "loopy_inv good cf n l1" "\<forall>x. e1 = Some x \<longrightarrow> \<not> fatal x"
    using writeHeader_safe [OF assms(1,3), of "h_streamID h" "h_endStream h" "h_onWrite h"] w by (simp_all add: safe_def)
  obtain l2 e2 where c: "cleanupStreamHandler wr (h_cleanup h) l1 = (l2, e2)" by fastforce
  obtain k where k: "h_cleanup h = Some k" "c_onWrite k" using assms(2) by (auto simp: cleanup_ok_def split: option.splits)
  have "loopy_inv good cf n l2" "\<forall>x. e2 = Some x \<longrightarrow> \<not> fatal x"
    using cleanup_safe [OF 1(1) k] c by (simp_all add: safe_def)
  with 1 w c show ?thesis
    by (cases e1; cases e2) (auto simp: sendTrailer_def safe_data_def)
qed

lemma holding_framer:
  assumes "on_framer (performAll wr ops) l = (l', e)" "holding good cf n xs a l"
  shows "\<exists>fr. l' = l\<lparr>framer := fr\<rparr> \<and> holding good cf n xs a l' \<and> (\<forall>x. e = Some x \<longrightarrow> \<not> fatal x)"
proof -
  from assms(2) have "linv good cf {a} n xs l" by (simp add: holding_def)
  from on_framer_linv [OF assms(1) this] assms(2) show ?thesis by (auto simp: holding_def)
qed

lemma holding_inv:
  assumes "holding good cf n xs a l" "data_first (outStreams l a)"
  shows "loopy_inv good cf n (set_state a waitingOnStreamQuota l)"
  using set_state_linv [OF assms(1), of waitingOnStreamQuota] assms(2) by (auto simp: loopy_inv_def)

lemma afterData_safe:
  assumes h: "holding good cf (n + 2 ^ 20) xs a l"
  shows "safe_data good cf n (afterData wr a l)"
proof (cases "il_isEmpty (itl (stream_of l a))")
  case True
  moreover have "il_items (itl (outStreams l a)) = []"
    using True holding_wf [OF h] by (simp add: stream_of_def il.queue_simps)
  ultimately show ?thesis
    using set_state_linv [OF holding_less [OF h, of n], of empty_stream] by (auto simp: afterData_def intro: safe_dataI)
next
  case False
  from peek_cases [OF h False] show ?thesis
  proof (elim disjE exE conjE)
    fix t assume t: "il_peek (itl (stream_of l a)) = Some (HeaderItem t)" "cleanup_ok (h_cleanup t)" "fields_ok (h_hf t)"
      "trailer_first (outStreams l a)"
    then have "loopy_inv good cf (n + 2 ^ 20) l"
      using holding_trailer [OF h] by (auto simp: loopy_inv_def)
    from sendTrailer_safe [OF this t(2,3)] t(1) False show ?thesis by (simp add: afterData_def)
  next
    fix df assume d: "il_peek (itl (stream_of l a)) = Some (DataItem df)" "data_first (outStreams l a)"
    have h': "holding good cf n xs a l" by (rule holding_less [OF h]) simp
    from d False holding_inv [OF h' d(2)] enqueue_active_safe [OF h' d(2)] show ?thesis
      by (simp add: afterData_def safe_data_def)
  qed
qed

lemma processEmpty_safe:
  assumes h: "holding good cf (n + 2 ^ 20) xs a l" and d: "data_first (outStreams l a)"
  shows "safe_data good cf n (processEmpty wr a df l) \<or> (\<exists>l' e. processEmpty wr a df l = (l', Inl e) \<and> \<not> fatal e)"
proof -
  obtain l1 e where o: "on_framer (performAll wr [OpData (d_streamID df) (d_endStream df) [] None]) l = (l1, e)" by fastforce
  have l1: "holding good cf (n + 2 ^ 20) xs a l1" "\<forall>x. e = Some x \<longrightarrow> \<not> fatal x"
    using holding_framer [OF o h] by auto
  show ?thesis
  proof (cases e)
    case (Some x)
    with o l1 show ?thesis by (simp add: processEmpty_def on_framer_ops)
  next
    case None
    define l4 where "l4 = (let l2 = modify_stream a (\<lambda>s. s\<lparr>itl := fst (il_dequeue (itl s))\<rparr>) l1;
        l3 = (if d_onDone df then called (SendOnDone df) l2 else l2)
      in if d_onDoneFunc df then called (CallOnDoneFunc (d_d df)) l3 else l3)"
    have h4: "holding good cf (n + 2 ^ 20) xs a l4"
      using holding_dequeue [OF l1(1)] by (simp add: l4_def Let_def)
    have eq: "processEmpty wr a df l = (if il_isEmpty (itl (stream_of l4 a)) then (set_state a empty_stream l4, Inr False)
        else case il_peek (itl (stream_of l4 a)) of Some (HeaderItem h) \<Rightarrow> sendTrailer wr True h l4 | _ \<Rightarrow> enqueue_active a l4)"
      by (simp only: processEmpty_def on_framer_ops o None prod.case option.case l4_def Let_def)
    show ?thesis
    proof (cases "il_isEmpty (itl (stream_of l4 a))")
      case True
      moreover have "il_items (itl (outStreams l4 a)) = []"
        using True holding_wf [OF h4] by (simp add: stream_of_def il.queue_simps)
      ultimately show ?thesis
        unfolding eq using set_state_linv [OF holding_less [OF h4, of n], of empty_stream] by (auto intro: safe_dataI)
    next
      case False
      from peek_cases [OF h4 False] show ?thesis
      proof (elim disjE exE conjE)
        fix t assume t: "il_peek (itl (stream_of l4 a)) = Some (HeaderItem t)" "cleanup_ok (h_cleanup t)" "fields_ok (h_hf t)"
          "trailer_first (outStreams l4 a)"
        then have "loopy_inv good cf (n + 2 ^ 20) l4"
          using holding_trailer [OF h4] by (auto simp: loopy_inv_def)
        from sendTrailer_safe [OF this t(2,3)] t(1) False show ?thesis by (simp add: eq)
      next
        fix df' assume "il_peek (itl (stream_of l4 a)) = Some (DataItem df')" "data_first (outStreams l4 a)"
        with False enqueue_active_safe [OF holding_less [OF h4, of n]] show ?thesis by (simp add: eq)
      qed
    qed
  qed
qed

text \<open>
  What is sent is between 1 and the length of the data, so that no slice is out of range. An error of
  the framer ends the goroutine.
\<close>

definition no_panic :: "'w loopyWriter \<times> (loopy_error + bool) \<Rightarrow> cfg \<Rightarrow> nat \<Rightarrow> bool" where
  "no_panic r cf n \<longleftrightarrow> safe_data good cf n r \<or> (\<exists>e. snd r = Inl e \<and> \<not> fatal e)"

lemma sendChunk_safe:
  assumes h: "holding good cf (n + 2 ^ 20) xs a l" and i: "il_items (itl (outStreams l a)) = DataItem df # r" "d_end df = 0"
    and sz: "0 \<le> sz" "sz \<le> int (length (d_d df))"
  shows "no_panic (sendChunk wr a df sz l) cf n"
proof -
  obtain q where q: "os_wq (stream_of l a) = Some q" using holding_wf [OF h] by (auto simp: stream_of_def)
  define l1 where "l1 = l\<lparr>l_wqs := (l_wqs l)(q := realReplenish sz (l_wqs l q))\<rparr>"
  define l2 where "l2 = (if d_onEachWrite df then called (CallOnEachWrite (d_streamID df)) l1 else l1)"
  have "holding good cf (n + 2 ^ 20) xs a l1" using h by (simp add: holding_def linv_def l1_def)
  then have h2: "holding good cf (n + 2 ^ 20) xs a l2" by (simp add: l2_def)
  let ?es = "d_endStream df \<and> dataSize df \<le> sz" and ?b = "take (nat sz) (d_d df @ d_spare df)"
  obtain l3 e where o: "on_framer (performAll wr [OpData (d_streamID df) ?es ?b None]) l2 = (l3, e)" by fastforce
  obtain fr where l3: "l3 = l2\<lparr>framer := fr\<rparr>" "holding good cf (n + 2 ^ 20) xs a l3" "\<forall>x. e = Some x \<longrightarrow> \<not> fatal x"
    using holding_framer [OF o h2] by blast
  define rest where "rest = drop (nat sz) (d_d df)"
  define l4 where "l4 = modify_stream a (\<lambda>s. s\<lparr>itl := il_modify_head (set_data rest) (itl s), bytesOutStanding := bytesOutStanding s + sz\<rparr>)
    (l3\<lparr>sendQuota := sendQuota l3 - word_of_int sz\<rparr>)"
  define l5 where "l5 = (if rest = [] then
      let l4' = modify_stream a (\<lambda>s. s\<lparr>itl := fst (il_dequeue (itl s))\<rparr>) l4
      in if d_onDone df then called (SendOnDone (df\<lparr>d_d := rest\<rparr>)) l4' else l4' else l4)"
  have eq: "sendChunk wr a df sz l = (case e of Some x \<Rightarrow> (l3, Inl x) | None \<Rightarrow> afterData wr a l5)"
    using q sz o unfolding sendChunk_def l5_def l4_def rest_def l2_def l1_def
    by (simp add: on_framer_ops Let_def split: option.splits)
  have s: "outStreams l3 a = outStreams l a" by (simp add: l3(1) l2_def l1_def)
  have "holding good cf (n + 2 ^ 20) xs a (l3\<lparr>sendQuota := sendQuota l3 - word_of_int sz\<rparr>)"
    using l3(2) by (simp add: holding_def linv_def)
  then have h4: "holding good cf (n + 2 ^ 20) xs a l4"
    unfolding l4_def
    by (rule holding_modify)
      (use l3(2) s i il.wf_modify [of "itl (outStreams l a)" "DataItem df" r "set_data rest"]
        il.items_modify [of "itl (outStreams l a)" "DataItem df" r "set_data rest"] in
        \<open>auto simp: holding_def stream_ok_def\<close>)
  then have "holding good cf (n + 2 ^ 20) xs a l5"
    using holding_dequeue [OF h4] by (simp add: l5_def Let_def)
  from afterData_safe [OF this] l3(3) show ?thesis
    by (auto simp: eq no_panic_def split: option.splits)
qed

lemma sendLimit_pos:
  assumes "streamQuota l a > 0" "sendQuota l \<noteq> 0" "l_maxFrameSize l \<noteq> 0"
  shows "sendLimit l a > 0"
proof -
  have "0 < uint (w :: u32)" if "w \<noteq> 0" for w
    using that uint_ge_0 [of w] uint_0_iff [of w] by linarith
  with assms show ?thesis by (simp add: sendLimit_def Let_def)
qed

lemma processData_safe:
  assumes "loopy_inv good cf (n + 2 ^ 20) l"
  shows "no_panic (processData wr l) cf n"
proof -
  obtain xs where l: "linv good cf {} (n + 2 ^ 20) xs l" using assms by (auto simp: loopy_inv_def)
  have inv: "sinv (cf_strict cf) {} (estdStreams l) (outStreams l) (freshStream l) (activeStreams l) xs" using l by (simp add: linv_def)
  have stay: "safe_data good cf n (l, Inr c)" for c
    by (rule safe_dataI [OF linv_less [OF l]]) simp
  show ?thesis
  proof (cases "sendQuota l = 0")
    case True
    with stay show ?thesis by (simp add: processData_def no_panic_def)
  next
    case quota: False
    show ?thesis
    proof (cases xs)
      case Nil
      with sinv_repr [OF inv] osl.deq_nil [of "activeStreams l" "outStreams l"] quota stay show ?thesis
        by (simp add: processData_def no_panic_def)
    next
      case (Cons a ys)
      obtain h' where h': "osl_dequeue (activeStreams l) (outStreams l) = Some (h', Some a)"
          "sinv (cf_strict cf) {a} (estdStreams l) h' (freshStream l) (activeStreams l) ys" "same_data (outStreams l) h'"
          "held (freshStream l) (activeStreams l) h' ys a" "a \<notin> set ys"
        using sinv_dequeue [OF inv [unfolded Cons]] by auto
      let ?l = "l\<lparr>outStreams := h'\<rparr>"
      have act: "os_state (h' a) = active" "data_first (h' a)"
        using sinv_active [OF inv, of a] Cons by (simp_all add: same_data_stream [OF h'(3)])
      have "cf_strict cf \<longrightarrow> a \<in> snd ` set (estdStreams l)" using inv Cons by (auto simp: sinv_def sbase_def)
      then have hd: "holding good cf (n + 2 ^ 20) ys a ?l"
        using l h' act by (simp add: holding_def linv_def)
      obtain df r where i: "il_items (itl (h' a)) = DataItem df # r" using act(2) by (auto simp: data_first_def)
      then have pk: "il_peek (itl (stream_of ?l a)) = Some (DataItem df)" and e0: "d_end df = 0"
        using holding_wf [OF hd] by (simp_all add: stream_of_def il.queue_simps)
      have h0: "holding good cf n ys a ?l" by (rule holding_less [OF hd]) simp
      have w: "loopy_inv good cf n (set_state a waitingOnStreamQuota ?l)"
        using holding_inv [OF h0] act(2) by simp
      have ds: "dataSize df = int (length (d_d df))" using e0 by (simp add: dataSize_def)
      have pd: "processData wr l = (if dataSize df = 0 then processEmpty wr a df ?l
          else if streamQuota ?l a \<le> 0 then (set_state a waitingOnStreamQuota ?l, Inr False)
          else sendChunk wr a df (min (sendLimit ?l a) (dataSize df)) ?l)"
        using quota h'(1) pk by (simp add: processData_def Let_def)
      have "no_panic (processEmpty wr a df ?l) cf n"
        using processEmpty_safe [OF hd, of df] act(2) by (auto simp: no_panic_def)
      moreover have "no_panic (sendChunk wr a df (min (sendLimit ?l a) (dataSize df)) ?l) cf n"
        if "\<not> streamQuota ?l a \<le> 0" "dataSize df \<noteq> 0"
        by (rule sendChunk_safe [OF hd])
          (use that i e0 ds sendLimit_pos [of ?l a] quota l in \<open>auto simp: linv_def\<close>)
      ultimately show ?thesis
        using w by (simp add: pd) (auto simp: no_panic_def safe_data_def)
    qed
  qed
qed

end

section \<open>Runs\<close>

fun answer_ok :: "cfg \<Rightarrow> answer \<Rightarrow> bool" where
  "answer_ok cf (Got i ord now) \<longleftrightarrow> item_ok cf i \<and> (\<forall>as. set (ord as) = set as)"
| "answer_ok cf _ \<longleftrightarrow> True"

definition good_end :: "run_end \<Rightarrow> bool" where
  "good_end r \<longleftrightarrow> (\<forall>e. r = Done (Some e) \<longrightarrow> \<not> fatal e)"

lemma good_end_with: "\<not> fatal e \<Longrightarrow> good_end (end_with e)"
  by (simp add: good_end_def end_with_def)

lemma calm_step:
  assumes "calm_writer wr good" "loopy_inv good cf (n + 2 ^ 21) l" "answer_ok cf (Got i ord now)" "\<And>w. good w \<Longrightarrow> good (flush w)"
    "\<not> cf_strict cf" and "handle wr flush ord now i l = (l1, e)"
  shows "(case e of Some x \<Rightarrow> \<not> fatal x
    | None \<Rightarrow> (case processData wr l1 of (l2, Inl x) \<Rightarrow> \<not> fatal x | (l2, Inr c) \<Rightarrow> loopy_inv good cf n l2))"
proof -
  have n: "n + 2 ^ 21 = (n + 2 ^ 20) + (2 :: nat) ^ 20" by simp
  have sub: "\<And>as. set (ord as) \<subseteq> set as" using assms(3) by simp
  have "item_ok cf i" using assms(3) by simp
  then have "safe good cf (n + 2 ^ 20) (handle wr flush ord now i l)"
    by (rule calm_writer.handle_safe [OF assms(1) assms(2) [unfolded n] _ _ sub assms(4)]) (use assms(5) in simp)
  then have h: "loopy_inv good cf (n + 2 ^ 20) l1" "\<forall>x. e = Some x \<longrightarrow> \<not> fatal x"
    using assms(6) by (simp_all add: safe_def)
  show ?thesis
    using h(2) calm_writer.processData_safe [OF assms(1) h(1)]
    by (auto simp: calm_writer.no_panic_def [OF assms(1)] safe_data_def split: option.splits prod.splits sum.splits)
qed

lemma good_writer_steps:
  assumes c: "calm_writer (bufWriter_Write wr) good" and fl: "\<And>w. good w \<Longrightarrow> good (loopyFlush wr w)"
    and inv: "loopy_inv good cf (n + 2 ^ 21) l"
  shows "case processData (bufWriter_Write wr) l of (l1, Inl x) \<Rightarrow> \<not> fatal x
    | (l1, Inr c) \<Rightarrow> loopy_inv good cf n l1 \<and>
        loopy_inv good cf n (l1\<lparr>framer := (framer l1)\<lparr>fr_w := loopyFlush wr (fr_w (framer l1))\<rparr>\<rparr>)"
proof -
  have "loopy_inv good cf (n + 2 ^ 20) l" by (rule loopy_inv_less [OF inv]) simp
  from calm_writer.processData_safe [OF c this] fl show ?thesis
    by (auto simp: calm_writer.no_panic_def [OF c] safe_data_def loopy_inv_def linv_def split: prod.splits sum.splits)
qed

lemma loopy_run_good:
  assumes c: "calm_writer (bufWriter_Write wr) good" and fl: "\<And>w. good w \<Longrightarrow> good (loopyFlush wr w)"
    and "list_all (answer_ok cf) as" "loopy_inv good cf (length as * 2 ^ 21) l" "\<not> cf_strict cf"
  shows "good_end (snd (loopy_run wr inner gosched as l))"
  using assms(3,4)
proof (induction as arbitrary: inner gosched l)
  case (Cons x as)
  have inv: "loopy_inv good cf (length as * 2 ^ 21 + 2 ^ 21) l" using Cons.prems(2) by (simp add: add.commute)
  have inv': "loopy_inv good cf (length as * 2 ^ 21) l" by (rule loopy_inv_less [OF inv]) simp
  have as: "list_all (answer_ok cf) as" using Cons.prems(1) by simp
  note IH = Cons.IH [OF as]
  show ?case
  proof (cases x)
    case (Got i ord now)
    obtain l1 e where h: "handle (bufWriter_Write wr) (loopyFlush wr) ord now i l = (l1, e)" by fastforce
    have ok: "answer_ok cf (Got i ord now)" using Cons.prems(1) Got by simp
    from calm_step [OF c inv ok fl assms(5) h] IH h Got show ?thesis
      by (auto simp: good_end_with split: option.splits prod.splits sum.splits)
  next
    case Nothing
    with good_writer_steps [OF c fl inv] IH inv' show ?thesis
      by (cases inner) (auto simp: good_end_with split: prod.splits sum.splits bool.splits)
  next
    case Failed
    then show ?thesis by (simp add: good_end_def end_with_def)
  qed
qed (simp add: good_end_def)

lemma new_loopy_inv:
  assumes "newLoopyWriter mux s fr bdpE mfs wqs = Inr l" "good (fr_w fr)" "mfs \<noteq> 0" "n < 2 ^ 64 - 1"
  shows "loopy_inv good \<lparr>cf_side = s, cf_bdp = (bdpE \<noteq> None), cf_strict = st\<rparr> n (l\<lparr>ss_goAway := g\<rparr>)"
proof -
  obtain enc :: "bytes Encoder" where e: "NewEncoder [] = Inr enc" using assms(1) by (cases "NewEncoder []") (auto simp: newLoopyWriter_def)
  obtain h al where h: "newOutStreamList 0 1 (\<lambda>a. zero_outStream) = (h, al)" by fastforce
  have "dt_ok (init_dynamicTable\<lparr>allowedMaxSize := 4096\<rparr>)"
    using init_dynamicTable_ok by (auto simp: dt_ok_def)
  then obtain d :: "HeaderField list Decoder" where d: "NewDecoder 4096 collect [] = Inr d"
    using setMaxSize_ok [of "init_dynamicTable\<lparr>allowedMaxSize := 4096\<rparr>" 4096] by (auto simp: NewDecoder_def)
  from new_synced [OF e d] assms(4) have "enc_sync n enc d" by (simp add: enc_sync_def peer_ready_def)
  with assms sinv_new [OF h, of st] show ?thesis
    by (auto simp: newLoopyWriter_def e h [unfolded One_nat_def] loopy_inv_def linv_def Let_def)
qed

lemma buffered_flush_good:
  assumes "byte_writer wr cgood cwritten" "buf_good cgood w"
  shows "buf_good cgood (loopyFlush wr w)"
  using byte_writer.flush_ok [OF assms(1), of w] assms(2) by (auto simp: buf_good_def loopyFlush_def)

section \<open>Properties\<close>


definition example_framer :: "bytes bufWriter Framer" where
  "example_framer = NewFramer (newBufWriter [] 100) []"


end
