(* ===== verification/Loopy_Flow.thy ===== *)
theory Loopy_Flow
  imports Loopy_Safety "HOL-Library.Sublist"
begin

text \<open>
  What the loopy writer puts on the wire: the data of every stream in the order in which it was handed
  over, nothing twice and nothing else, and never more than the windows of the peer allow.
\<close>

section \<open>Data in the queues and data on the wire\<close>

fun item_data :: "cbItem \<Rightarrow> bytes" where
  "item_data (DataItem df) = d_d df"
| "item_data _ = []"

definition pend :: "outStream \<Rightarrow> bytes" where
  "pend s = concat (map item_data (il_items (itl s)))"

fun op_data :: "u32 \<Rightarrow> frame_op \<Rightarrow> bytes" where
  "op_data sid (OpData s es d pad) = (if s = sid then d else [])"
| "op_data sid _ = []"

fun op_len :: "frame_op \<Rightarrow> nat" where
  "op_len (OpData s es d pad) = length d"
| "op_len _ = 0"

definition sent :: "u32 \<Rightarrow> frame_op list \<Rightarrow> bytes" where
  "sent sid ops = concat (map (op_data sid) ops)"

definition total :: "frame_op list \<Rightarrow> nat" where
  "total ops = sum_list (map op_len ops)"

fun is_data :: "frame_op \<Rightarrow> bool" where
  "is_data (OpData s es d pad) = True"
| "is_data _ = False"

lemma sent_append [simp]: "sent sid (xs @ ys) = sent sid xs @ sent sid ys" "sent sid [] = []"
  by (simp_all add: sent_def)

lemma total_append [simp]: "total (xs @ ys) = total xs + total ys" "total [] = 0"
  by (simp_all add: total_def)

lemma no_data: "\<forall>op \<in> set ops. \<not> is_data op \<Longrightarrow> sent sid ops = [] \<and> total ops = 0 \<and> (\<forall>op \<in> set ops. op_len op = 0)"
proof (induction ops)
  case (Cons op ops)
  then show ?case by (cases op) (simp_all add: sent_def total_def)
qed (simp add: sent_def total_def)

lemma header_ops_no_data: "\<forall>op \<in> set (cont_ops sid bs). \<not> is_data op" "\<forall>op \<in> set (header_ops sid es bs). \<not> is_data op"
proof -
  show c: "\<forall>op \<in> set (cont_ops sid bs). \<not> is_data op" for bs by (induction bs) auto
  show "\<forall>op \<in> set (header_ops sid es bs). \<not> is_data op" using c by (cases bs) auto
qed

lemma unat_word_of_int_small:
  assumes "0 \<le> k" "k \<le> int (unat (w :: u32))"
  shows "unat (word_of_int k :: u32) = nat k"
proof -
  have "word_of_int k = (word_of_nat (nat k) :: u32)" using assms(1) by simp
  moreover have "unat w < 2 ^ 32" using unsigned_less [of w, where ?'a = nat] by simp
  then have "nat k < 2 ^ 32" using assms(2) by linarith
  ultimately show ?thesis by (simp add: unat_of_nat)
qed

section \<open>Steps without data\<close>

definition emits :: "'w writer \<Rightarrow> 'w loopyWriter \<Rightarrow> 'w loopyWriter \<Rightarrow> frame_op list \<Rightarrow> bool" where
  "emits wr l l' ops \<longleftrightarrow> performAll wr ops (framer l) = (framer l', None)"

lemma emits_trans: "emits wr l l1 xs \<Longrightarrow> emits wr l1 l2 ys \<Longrightarrow> emits wr l l2 (xs @ ys)"
  by (simp add: emits_def performAll_append)

lemma emits_refl: "framer l' = framer l \<Longrightarrow> emits wr l l' []"
  by (simp add: emits_def)

lemma emits_framer: "on_framer (performAll wr ops) l = (l', None) \<Longrightarrow> emits wr l l' ops"
  by (auto simp: on_framer_def emits_def simp del: performAll.simps split: prod.splits)

text \<open>
  No data is sent, queued or lost; streams with an identifier in \<open>K\<close> may be new.
\<close>

definition quiet :: "'w writer \<Rightarrow> u32 set \<Rightarrow> 'w loopyWriter \<Rightarrow> 'w loopyWriter \<Rightarrow> bool" where
  "quiet wr K l l' \<longleftrightarrow>
     (\<exists>ops. emits wr l l' ops \<and> (\<forall>op \<in> set ops. \<not> is_data op)) \<and> sendQuota l' = sendQuota l \<and>
     l_maxFrameSize l' = l_maxFrameSize l \<and> freshStream l \<le> freshStream l' \<and>
     (\<forall>a < freshStream l. os_id (outStreams l' a) = os_id (outStreams l a) \<and> pend (outStreams l' a) = pend (outStreams l a)) \<and>
     (\<forall>a. freshStream l \<le> a \<and> a < freshStream l' \<longrightarrow> pend (outStreams l' a) = []) \<and>
     (\<forall>k a. map_of (estdStreams l') k = Some a \<longrightarrow>
        map_of (estdStreams l) k = Some a \<or> k \<in> K \<and> freshStream l \<le> a \<and> a < freshStream l')"

lemma quiet_same:
  assumes "framer l' = framer l" "sendQuota l' = sendQuota l" "l_maxFrameSize l' = l_maxFrameSize l"
    "freshStream l' = freshStream l" "estdStreams l' = estdStreams l"
    "\<And>a. os_id (outStreams l' a) = os_id (outStreams l a) \<and> pend (outStreams l' a) = pend (outStreams l a)"
  shows "quiet wr K l l'"
  using assms emits_refl [of l' l wr] unfolding quiet_def by fastforce

lemma quiet_trans:
  assumes 1: "quiet wr K l l1" and 2: "quiet wr K l1 l2"
  shows "quiet wr K l l2"
proof -
  obtain xs ys where "emits wr l l1 xs" "emits wr l1 l2 ys" "\<forall>op \<in> set (xs @ ys). \<not> is_data op"
    using 1 2 by (auto simp: quiet_def)
  then have "\<exists>ops. emits wr l l2 ops \<and> (\<forall>op \<in> set ops. \<not> is_data op)"
    using emits_trans by blast
  moreover have "sendQuota l2 = sendQuota l" "l_maxFrameSize l2 = l_maxFrameSize l" "freshStream l \<le> freshStream l2"
    using 1 2 by (auto simp: quiet_def)
  moreover have "os_id (outStreams l2 a) = os_id (outStreams l a) \<and> pend (outStreams l2 a) = pend (outStreams l a)"
    if "a < freshStream l" for a
    using 1 2 that by (auto simp: quiet_def)
  moreover have "pend (outStreams l2 a) = []" if "freshStream l \<le> a \<and> a < freshStream l2" for a
    using 1 2 that by (cases "a < freshStream l1") (auto simp: quiet_def)
  moreover have "map_of (estdStreams l) k = Some a \<or> k \<in> K \<and> freshStream l \<le> a \<and> a < freshStream l2"
    if "map_of (estdStreams l2) k = Some a" for k a
  proof -
    have le: "freshStream l \<le> freshStream l1" "freshStream l1 \<le> freshStream l2" using 1 2 by (auto simp: quiet_def)
    from that 2 have "map_of (estdStreams l1) k = Some a \<or> k \<in> K \<and> freshStream l1 \<le> a \<and> a < freshStream l2"
      by (auto simp: quiet_def)
    with 1 le show ?thesis by (fastforce simp: quiet_def)
  qed
  ultimately show ?thesis
    by (simp add: quiet_def)
qed

lemma and_go_None: "and_go r k = (l', None) \<longleftrightarrow> (\<exists>l1. r = (l1, None) \<and> k l1 = (l', None))"
  by (cases r; cases "snd r") auto

lemma pend_same_data: "same_data h h' \<Longrightarrow> os_id (h' a) = os_id (h a) \<and> pend (h' a) = pend (h a)"
  by (simp add: same_data_def pend_def)

lemma quiet_called [simp]: "quiet wr K l (called c l)"
  by (rule quiet_same) (simp_all)

lemma quiet_framer:
  assumes "on_framer (performAll wr ops) l = (l', None)" "\<forall>op \<in> set ops. \<not> is_data op"
  shows "quiet wr K l l'"
proof -
  obtain fr where "performAll wr ops (framer l) = (fr, None)" "l' = l\<lparr>framer := fr\<rparr>"
    using assms(1) by (auto simp: on_framer_def split: prod.splits)
  with assms(2) show ?thesis by (auto simp: quiet_def emits_def)
qed

lemma quiet_modify:
  assumes "os_id (f (outStreams l a)) = os_id (outStreams l a)" "pend (f (outStreams l a)) = pend (outStreams l a)"
  shows "quiet wr K l (modify_stream a f l)"
  by (rule quiet_same) (use assms in \<open>simp_all\<close>)

lemma enqueue_same: "osl_enqueue al a h = Some h' \<Longrightarrow> same_data h h'"
  by (auto simp: osl_enqueue_def split: option.splits)

lemma deleteSelf_same: "same_data h (deleteSelf a h)"
  by (simp add: deleteSelf_def Let_def split: option.split)

lemma dequeue_same: "osl_dequeue al h = Some (h', r) \<Longrightarrow> same_data h h'"
  by (auto simp: osl_dequeue_def deleteSelf_same split: option.splits if_splits)

lemma quiet_streams: "same_data (outStreams l) h' \<Longrightarrow> quiet wr K l (l\<lparr>outStreams := h'\<rparr>)"
  by (rule quiet_same) (simp_all add: pend_same_data)

lemma quiet_activate: "activate a l = (l', None) \<Longrightarrow> quiet wr K l l'"
  by (auto simp: activate_def split: option.splits intro: quiet_streams enqueue_same)

lemma quiet_wake:
  assumes "activate a (modify_stream a f l) = (l', None)" "\<And>s. os_id (f s) = os_id s" "\<And>s. pend (f s) = pend s"
  shows "quiet wr K l l'"
  by (rule quiet_trans [OF quiet_modify quiet_activate [OF assms(1)]]) (simp_all add: assms)

lemma pend_updates [simp]: "pend (s\<lparr>os_state := st\<rparr>) = pend s" "pend (s\<lparr>bytesOutStanding := n\<rparr>) = pend s"
  by (simp_all add: pend_def)

lemma quiet_writeHeader:
  assumes "writeHeader wr sid es flds ow l = (l', None)" "l_maxFrameSize l \<noteq> 0"
  shows "quiet wr K l l' \<and> l_maxFrameSize l' \<noteq> 0"
proof -
  let ?l = "if ow then called (CallOnWrite sid) l else l"
  obtain enc where enc: "WriteFields ((hEnc ?l)\<lparr>enc_w := []\<rparr>) flds = Inr enc"
    using assms(1) by (auto simp: writeHeader_def Let_def split: sum.splits if_splits)
  let ?ops = "header_ops sid es (frags (unat (l_maxFrameSize l)) (enc_w enc))"
  obtain r where r: "writeFragments wr sid es (l_maxFrameSize l) True (enc_w enc) (framer l) =
      Some (fst (performAll wr ?ops (framer l)), r, snd (performAll wr ?ops (framer l)))"
    using writeFragments_ops [OF assms(2), of wr sid es True "enc_w enc" "framer l"]
    by (cases "performAll wr ?ops (framer l)") (auto simp: Let_def)
  have l': "l' = ?l\<lparr>hEnc := enc\<lparr>enc_w := r\<rparr>, framer := fst (performAll wr ?ops (framer l))\<rparr>"
    "snd (performAll wr ?ops (framer l)) = None"
    using assms(1) enc r by (auto simp: writeHeader_def Let_def split: if_splits)
  have "emits wr l l' ?ops"
    using l' by (simp add: emits_def prod_eq_iff)
  moreover have "outStreams l' = outStreams l" "estdStreams l' = estdStreams l" "freshStream l' = freshStream l"
      "sendQuota l' = sendQuota l" "l_maxFrameSize l' = l_maxFrameSize l"
    by (simp_all add: l'(1))
  ultimately show ?thesis
    using header_ops_no_data(2) [of sid es] assms(2) unfolding quiet_def by auto
qed

lemma quiet_cleanup:
  assumes "cleanupStreamHandler wr co l = (l', None)"
  shows "quiet wr K l l'"
proof -
  obtain c where c: "co = Some c" "c_onWrite c"
    using assms by (cases co) (auto simp: cleanupStreamHandler_def split: if_splits)
  let ?l1 = "called (CallOnWrite (c_streamID c)) l"
  define l2 where "l2 = (case map_of (estdStreams ?l1) (c_streamID c) of None \<Rightarrow> ?l1
    | Some a \<Rightarrow> ?l1\<lparr>estdStreams := AList.delete (c_streamID c) (estdStreams ?l1), outStreams := deleteSelf a (outStreams ?l1)\<rparr>)"
  have "quiet wr K l l2"
  proof (cases "map_of (estdStreams l) (c_streamID c)")
    case None
    then show ?thesis by (simp add: l2_def)
  next
    case (Some a)
    then have l2: "framer l2 = framer l" "sendQuota l2 = sendQuota l" "l_maxFrameSize l2 = l_maxFrameSize l"
      "freshStream l2 = freshStream l" "outStreams l2 = deleteSelf a (outStreams l)"
      "estdStreams l2 = AList.delete (c_streamID c) (estdStreams l)"
      by (simp_all add: l2_def)
    then show ?thesis
      using emits_refl [of l2 l wr] pend_same_data [OF deleteSelf_same [of "outStreams l" a]]
      by (auto simp: quiet_def AList.delete_conv' split: if_splits intro!: exI [of _ "[]"])
  qed
  moreover have "(if rst c then on_framer (performAll wr [OpRSTStream (c_streamID c) (rstCode c)]) l2 else (l2, None)) = (l', None)"
    using assms unfolding c cleanupStreamHandler_def Let_def on_framer_ops option.case l2_def [symmetric]
    by (auto simp: c and_go_None split: if_splits)
  then have "quiet wr K l2 l'"
    using quiet_framer [of wr "[OpRSTStream (c_streamID c) (rstCode c)]" l2 l' K] by (auto split: if_splits intro: quiet_same)
  ultimately show ?thesis by (rule quiet_trans)
qed

section \<open>Handlers\<close>

text \<open>The identifiers of the streams that an item starts.\<close>

fun new_id :: "side \<Rightarrow> cbItem \<Rightarrow> u32 list" where
  "new_id s (RegisterStream sid wq) = [sid]"
| "new_id s (HeaderItem h) = (if s = serverSide \<and> h_streamID h mod 2 = 1 then [] else [h_streamID h])"
| "new_id s _ = []"

lemma pend_new [simp]: "pend (new_outStream sid wq) = []"
  by (simp add: pend_def new_outStream_def il.queue_simps)

lemma quiet_alloc:
  assumes "alloc_stream (new_outStream sid wq) l = (l1, a)"
  shows "quiet wr K l l1 \<and> a = freshStream l \<and> freshStream l1 = Suc (freshStream l) \<and> estdStreams l1 = estdStreams l"
  using assms emits_refl [of l1 l wr]
  by (auto simp: alloc_stream_def quiet_def less_Suc_eq intro!: exI [of _ "[]"])

lemma quiet_establish:
  assumes "quiet wr K l l1" "freshStream l \<le> a" "a < freshStream l1" "k \<in> K"
  shows "quiet wr K l (establish k a l1)"
  using assms by (auto simp: quiet_def establish_def emits_def update_conv')

lemma activateWaiting_quiet: "activateWaiting as l = (l', None) \<Longrightarrow> quiet wr K l l'"
proof (induction as arbitrary: l)
  case Nil
  then show ?case by (auto intro: quiet_same)
next
  case (Cons a as)
  show ?case
  proof (cases "os_state (stream_of l a) = waitingOnStreamQuota")
    case True
    then obtain l1 where "activate a (modify_stream a (os_state_update (\<lambda>_. active)) l) = (l1, None)" "activateWaiting as l1 = (l', None)"
      using Cons.prems by (auto simp: and_go_None)
    then show ?thesis using Cons.IH quiet_trans [OF quiet_wake] by (metis (no_types) pend_updates(1) outStream.select_convs(1) outStream.surjective outStream.update_convs(2))
  next
    case False
    with Cons show ?thesis by simp
  qed
qed

lemma applySettings_quiet: "applySettings ord ss l = (l', None) \<Longrightarrow> quiet wr K l l'"
proof (induction ss arbitrary: l)
  case Nil
  then show ?case by (auto intro: quiet_same)
next
  case (Cons s ss)
  let ?l = "l\<lparr>oiws := Val s\<rparr>"
  have q: "quiet wr K l ?l" by (rule quiet_same) simp_all
  obtain l1 where l1: "(if ID s = SettingInitialWindowSize
      then if oiws l < oiws ?l then activateWaiting (ord (map snd (estdStreams ?l))) ?l else (?l, None)
      else if ID s = SettingHeaderTableSize then updateHeaderTblSize (Val s) l else (l, None)) = (l1, None)"
    and rest: "applySettings ord ss l1 = (l', None)"
    using Cons.prems unfolding applySettings.simps and_go_None Let_def by blast
  have "quiet wr K l l1"
    using l1 q quiet_trans [OF q activateWaiting_quiet]
    by (auto simp: updateHeaderTblSize_def split: if_splits sum.splits intro: quiet_same)
  from quiet_trans [OF this Cons.IH [OF rest]] show ?case .
qed

lemma quiet_enqueue_header:
  assumes "il_wf (itl (outStreams l a))"
  shows "quiet wr K l (modify_stream a (\<lambda>s. s\<lparr>itl := il_enqueue (HeaderItem h) (itl s)\<rparr>) l)"
  by (rule quiet_modify) (use assms in \<open>simp_all add: pend_def il.queue_simps\<close>)

lemma estd_wf:
  assumes "loopy_inv good cf n l" "map_of (estdStreams l) k = Some a"
  shows "il_wf (itl (outStreams l a)) \<and> os_id (outStreams l a) = k \<and> a < freshStream l"
proof -
  obtain xs where "sinv (cf_strict cf) {} (estdStreams l) (outStreams l) (freshStream l) (activeStreams l) xs"
    using assms(1) by (auto simp: loopy_inv_def linv_def)
  from sinv_estd [OF this assms(2)] show ?thesis by (simp add: held_def stream_ok_def)
qed

lemma headerHandler_quiet:
  assumes "headerHandler wr h l = (l', None)" "loopy_inv good cf n l"
  shows "quiet wr (set (new_id (l_side l) (HeaderItem h))) l l'"
proof -
  have mfs: "l_maxFrameSize l \<noteq> 0" using assms(2) by (auto simp: loopy_inv_def linv_def)
  let ?sid = "h_streamID h" and ?w = "writeHeader wr (h_streamID h) (h_endStream h) (h_hf h) (h_onWrite h)"
  show ?thesis
  proof (cases "l_side l = serverSide \<and> ?sid mod 2 = 1")
    case True
    show ?thesis
    proof (cases "map_of (estdStreams l) ?sid")
      case None
      with True assms(1) show ?thesis by (auto simp: headerHandler_def intro: quiet_same)
    next
      case (Some a)
      have h: "headerHandler wr h l = (if \<not> h_endStream h then ?w l
          else if os_state (stream_of l a) \<noteq> empty_stream
          then (modify_stream a (\<lambda>s. s\<lparr>itl := il_enqueue (HeaderItem h) (itl s)\<rparr>) l, None)
          else and_go (?w l) (cleanupStreamHandler wr (h_cleanup h)))"
        using True Some by (simp add: headerHandler_def)
      have "quiet wr K l l'" for K
        using assms(1) quiet_writeHeader [of wr ?sid "h_endStream h" "h_hf h" "h_onWrite h" l] mfs
          quiet_enqueue_header [of l a wr K h] estd_wf [OF assms(2) Some]
        unfolding h by (auto simp: and_go_None split: if_splits intro: quiet_trans [OF _ quiet_cleanup])
      then show ?thesis .
    qed
  next
    case False
    obtain l1 a where a: "alloc_stream (new_outStream ?sid (h_wq h)) l = (l1, a)" by fastforce
    define l2 where "l2 = (if h_initStream h = None then l1 else called (CallInitStream ?sid) l1)"
    have q: "quiet wr {?sid} l l2" "a = freshStream l" "freshStream l2 = Suc (freshStream l)"
      using quiet_alloc [OF a, of wr "{?sid}"] quiet_trans [of wr "{?sid}" l l1 l2] by (auto simp: l2_def)
    have m2: "l_maxFrameSize l2 \<noteq> 0" using mfs q(1) by (simp add: quiet_def)
    have eq: "headerHandler wr h l = (if h_initStream h = Some InitConnClosing then (l2, Some LConnClosing)
        else if h_initStream h = Some InitOtherError then (l2, None)
        else and_go (?w l2) (\<lambda>l3. (establish ?sid a l3, None)))"
      by (simp only: headerHandler_def Let_def False if_False a prod.case l2_def [symmetric])
    have "quiet wr {?sid} l l'"
    proof (cases "h_initStream h = Some InitOtherError")
      case True
      with assms(1) q(1) show ?thesis by (simp add: eq)
    next
      case other: False
      then obtain l3 where l3: "?w l2 = (l3, None)" "l' = establish ?sid a l3"
        using assms(1) by (auto simp: eq and_go_None split: if_splits)
      have w: "quiet wr {?sid} l2 l3" using quiet_writeHeader [OF l3(1) m2] by simp
      from quiet_establish [OF quiet_trans [OF q(1) w], of a ?sid] q w l3(2) show ?thesis
        by (simp add: quiet_def)
    qed
    moreover have "new_id (l_side l) (HeaderItem h) = [?sid]" by (simp only: new_id.simps False if_False)
    ultimately show ?thesis by simp
  qed
qed

lemma handle_quiet:
  assumes "handle wr flush ord now i l = (l', None)" "loopy_inv good cf n l"
    and "\<forall>df. i \<noteq> DataItem df" "\<forall>incr. i \<noteq> IncomingWindowUpdate 0 incr"
  shows "quiet wr (set (new_id (l_side l) i)) l l'"
proof (cases i)
  case (IncomingWindowUpdate sid incr)
  have q: "quiet wr K l (modify_stream a (\<lambda>s. s\<lparr>bytesOutStanding := bytesOutStanding s - int (unat incr)\<rparr>) l)" for a K
    by (rule quiet_modify) simp_all
  have "sid \<noteq> 0" using assms(4) IncomingWindowUpdate by auto
  with assms(1) IncomingWindowUpdate q show ?thesis
    by (auto simp: incomingWindowUpdateHandler_def Let_def split: option.splits if_splits
        intro: quiet_same quiet_wake)
next
  case (HeaderItem h)
  with headerHandler_quiet [OF _ assms(2)] assms(1) show ?thesis by simp
next
  case (RegisterStream sid wq)
  obtain l1 a where a: "alloc_stream (new_outStream sid wq) l = (l1, a)" by fastforce
  note q = quiet_alloc [OF a, of wr "{sid}"]
  from quiet_establish [of wr "{sid}" l l1 a sid] q assms(1) RegisterStream a show ?thesis
    by (simp add: registerStreamHandler_def)
next
  case (IncomingSettings ss)
  with assms(1) show ?thesis
    by (auto simp: incomingSettingsHandler_def and_go_None on_framer_ops intro: quiet_trans [OF applySettings_quiet quiet_framer])
next
  case (PingItem ack d)
  let ?l = "if \<not> ack then l\<lparr>bdpEst := map_option (timesnap now d) (bdpEst l)\<rparr> else l"
  have "quiet wr {} l ?l" by (rule quiet_same) simp_all
  moreover have "on_framer (performAll wr [OpPing ack d]) ?l = (l', None)"
    using assms(1) PingItem by (auto simp: pingHandler_def on_framer_ops Let_def split: if_splits)
  ultimately show ?thesis
    using PingItem quiet_framer [of wr "[OpPing ack d]" ?l l' "{}"] by (auto intro: quiet_trans)
next
  case (GoAwayItem g)
  then obtain l1 where l1: "(if ss_goAway l then case outgoingGoAwayHandler wr flush g l of (l1, Inl e) \<Rightarrow> (l1, Some e)
      | (l1, Inr dr) \<Rightarrow> (l1\<lparr>draining := dr\<rparr>, None) else (l, None)) = (l1, None)" "l' = called CallMuxEventGoAway l1"
    using assms(1) by (auto simp: goAwayHandler_def and_go_None)
  have "quiet wr {} l l1"
  proof (cases "ss_goAway l")
    case True
    then obtain l2 dr where o: "outgoingGoAwayHandler wr flush g l = (l2, Inr dr)" "l1 = l2\<lparr>draining := dr\<rparr>"
      using l1(1) by (auto split: prod.splits sum.splits)
    have m: "quiet wr {} l (l\<lparr>l_mux := x\<rparr>)" for x by (rule quiet_same) simp_all
    have d: "quiet wr {} l2 l1" unfolding o(2) by (rule quiet_same) simp_all
    have "quiet wr {} l l2"
      using o(1) unfolding outgoingGoAwayHandler_def Let_def on_framer_ops
      by (auto split: if_splits prod.splits option.splits
          intro: quiet_trans [OF m quiet_framer] quiet_trans [OF quiet_framer quiet_framer] quiet_trans [OF quiet_framer quiet_trans [OF quiet_framer quiet_called]])
    from quiet_trans [OF this d] show ?thesis .
  next
    case False
    with l1 show ?thesis by (auto intro: quiet_same)
  qed
  with GoAwayItem l1(2) show ?thesis by (auto intro: quiet_trans)
next
  case IncomingGoAway
  with assms(1) show ?thesis by (auto simp: incomingGoAwayHandler_def split: if_splits intro: quiet_same)
qed (use assms in \<open>auto simp: outgoingWindowUpdateHandler_def outgoingSettingsHandler_def outFlowControlSizeRequestHandler_def
      on_framer_ops intro: quiet_framer quiet_cleanup\<close>)

section \<open>Sending data\<close>

text \<open>One DATA frame: the next bytes of stream \<open>a\<close>, within the frame size and both windows.\<close>

definition chunk :: "'w writer \<Rightarrow> 'w loopyWriter \<Rightarrow> 'w loopyWriter \<Rightarrow> addr \<Rightarrow> bool \<Rightarrow> bytes \<Rightarrow> bool" where
  "chunk wr l l' a es d \<longleftrightarrow> emits wr l l' [OpData (os_id (outStreams l a)) es d None] \<and>
     unat (sendQuota l') + length d = unat (sendQuota l) \<and> length d \<le> unat (l_maxFrameSize l) \<and>
     (d \<noteq> [] \<longrightarrow> int (length d) \<le> streamQuota l a) \<and>
     l_maxFrameSize l' = l_maxFrameSize l \<and> freshStream l' = freshStream l \<and> estdStreams l' = estdStreams l \<and>
     (\<forall>b. os_id (outStreams l' b) = os_id (outStreams l b)) \<and>
     pend (outStreams l a) = d @ pend (outStreams l' a) \<and>
     (\<forall>b. b \<noteq> a \<longrightarrow> pend (outStreams l' b) = pend (outStreams l b))"

lemma chunk_streams:
  assumes "chunk wr (l\<lparr>outStreams := h\<rparr>) l' a es d" "same_data (outStreams l) h"
  shows "chunk wr l l' a es d"
  using assms pend_same_data [OF assms(2)]
  by (simp add: chunk_def emits_def streamQuota_def stream_of_def same_data_stream [OF assms(2)])

lemma quiet_cleanup_ok:
  assumes "cleanupStreamHandler wr co l = (l', e)" "cleanup_ok co"
  shows "quiet wr K l l'"
proof (cases e)
  case (Some x)
  obtain c where c: "co = Some c" "c_onWrite c" "\<not> rst c" using assms(2) by (auto simp: cleanup_ok_def split: option.splits)
  have "(l', e) = and_go (l', None) (\<lambda>l3. (l3, if l_side l3 = clientSide \<and> draining l3 \<and> estdStreams l3 = [] then Some LConnClosing else None))"
    using assms(1) c by (auto simp: cleanupStreamHandler_def Let_def)
  then have e: "l_side l' = clientSide" "draining l'" using Some by (auto split: if_splits)
  let ?l = "l\<lparr>draining := False\<rparr>"
  have "cleanupStreamHandler wr co ?l = (l'\<lparr>draining := False\<rparr>, None)"
    using assms(1) c by (auto simp: cleanupStreamHandler_def Let_def called_def split: option.splits)
  from quiet_cleanup [OF this, of K]
  show ?thesis by (simp add: quiet_def emits_def)
qed (use assms quiet_cleanup in blast)

lemma quiet_trailer:
  assumes "sendTrailer wr sw h l = (l', Inr c)" "l_maxFrameSize l \<noteq> 0" "cleanup_ok (h_cleanup h)"
  shows "quiet wr K l l'"
proof -
  obtain l1 where w: "writeHeader wr (h_streamID h) (h_endStream h) (h_hf h) (h_onWrite h) l = (l1, None)"
    using assms(1) by (auto simp: sendTrailer_def split: prod.splits option.splits)
  obtain e where "cleanupStreamHandler wr (h_cleanup h) l1 = (l', e)"
    using assms(1) w by (auto simp: sendTrailer_def split: prod.splits option.splits)
  from quiet_trans [OF _ quiet_cleanup_ok [OF this assms(3)]] quiet_writeHeader [OF w assms(2)] show ?thesis by blast
qed

lemma quiet_enqueue: "enqueue_active a l = (l', Inr c) \<Longrightarrow> quiet wr K l l'"
  by (auto simp: enqueue_active_def split: prod.splits option.splits intro: quiet_activate)

lemma quiet_set_state: "quiet wr K l (set_state a st l)"
  unfolding set_state_def by (rule quiet_modify) simp_all

lemma quiet_after:
  assumes "(if il_isEmpty (itl (stream_of l a)) then (set_state a empty_stream l, Inr False)
      else case il_peek (itl (stream_of l a)) of Some (HeaderItem h) \<Rightarrow> sendTrailer wr sw h l | _ \<Rightarrow> k) = (l', Inr c)"
    and h: "holding good cf n xs a l" and k: "k = (l', Inr c) \<Longrightarrow> quiet wr K l l'"
  shows "quiet wr K l l'"
proof (cases "il_isEmpty (itl (stream_of l a))")
  case True
  with assms(1) quiet_set_state show ?thesis by auto
next
  case False
  have "l_maxFrameSize l \<noteq> 0" using h by (simp add: holding_def linv_def)
  with assms(1) False peek_cases [OF h False] k quiet_trailer show ?thesis by fastforce
qed

lemma quiet_afterData:
  assumes "afterData wr a l = (l', Inr c)" "holding good cf n xs a l"
  shows "quiet wr K l l'"
proof (rule quiet_after [OF _ assms(2)])
  show "(if il_isEmpty (itl (stream_of l a)) then (set_state a empty_stream l, Inr False)
      else case il_peek (itl (stream_of l a)) of Some (HeaderItem h) \<Rightarrow> sendTrailer wr False h l
      | _ \<Rightarrow> if streamQuota l a \<le> 0 then (set_state a waitingOnStreamQuota l, Inr False) else enqueue_active a l) = (l', Inr c)"
    using assms(1) by (simp add: afterData_def)
qed (auto split: if_splits intro: quiet_set_state quiet_enqueue)

context calm_writer
begin

lemma processEmpty_chunk:
  assumes p: "processEmpty wr a df l = (l', Inr c)" and h: "holding good cf n xs a l"
    and i: "il_items (itl (outStreams l a)) = DataItem df # r" "d_d df = []"
  shows "\<exists>lm. chunk wr l lm a (d_endStream df) [] \<and> quiet wr K lm l'"
proof -
  obtain l1 where o: "on_framer (performAll wr [OpData (d_streamID df) (d_endStream df) [] None]) l = (l1, None)"
    using p by (auto simp: processEmpty_def on_framer_ops split: prod.splits option.splits)
  define l2 where "l2 = modify_stream a (\<lambda>s. s\<lparr>itl := fst (il_dequeue (itl s))\<rparr>) l1"
  define l4 where "l4 = (let l3 = (if d_onDone df then called (SendOnDone df) l2 else l2)
      in if d_onDoneFunc df then called (CallOnDoneFunc (d_d df)) l3 else l3)"
  obtain fr where l1: "l1 = l\<lparr>framer := fr\<rparr>" "holding good cf n xs a l1" using holding_framer [OF o h] by auto
  have h4: "holding good cf n xs a l4" using holding_dequeue [OF l1(2)] by (simp add: l4_def l2_def Let_def)
  have wf: "il_wf (itl (outStreams l a))" "d_streamID df = os_id (outStreams l a)"
    using holding_wf [OF h] i by simp_all
  have "(if il_isEmpty (itl (stream_of l4 a)) then (set_state a empty_stream l4, Inr False)
      else case il_peek (itl (stream_of l4 a)) of Some (HeaderItem h) \<Rightarrow> sendTrailer wr True h l4 | _ \<Rightarrow> enqueue_active a l4) = (l', Inr c)"
    using p by (simp only: processEmpty_def on_framer_ops o prod.case option.case l4_def l2_def Let_def)
  then have quiet: "quiet wr K l4 l'" by (rule quiet_after [OF _ h4]) (rule quiet_enqueue)
  have "pend (outStreams l4 a) = pend (outStreams l a)"
    using wf(1) i l1(1) by (simp add: l4_def l2_def Let_def pend_def il.queue_simps)
  moreover have "emits wr l l4 [OpData (os_id (outStreams l a)) (d_endStream df) [] None]"
    using emits_framer [OF o] wf(2) by (simp add: emits_def l4_def l2_def Let_def del: performAll.simps)
  ultimately have "chunk wr l l4 a (d_endStream df) []"
    using l1(1) unfolding chunk_def by (simp add: l4_def l2_def Let_def)
  with quiet show ?thesis by blast
qed

lemma sendChunk_chunk:
  assumes p: "sendChunk wr a df sz l = (l', Inr c)" and h: "holding good cf n xs a l"
    and i: "il_items (itl (outStreams l a)) = DataItem df # r"
    and sz: "0 < sz" "sz \<le> int (length (d_d df))" "sz \<le> sendLimit l a"
  shows "\<exists>lm es. chunk wr l lm a es (take (nat sz) (d_d df)) \<and> quiet wr K lm l'"
proof -
  obtain q where q: "os_wq (stream_of l a) = Some q" using holding_wf [OF h] by (auto simp: stream_of_def)
  have wf: "il_wf (itl (outStreams l a))" "d_streamID df = os_id (outStreams l a)"
    using holding_wf [OF h] i by simp_all
  define l2 where "l2 = (let l1 = l\<lparr>l_wqs := (l_wqs l)(q := realReplenish sz (l_wqs l q))\<rparr>
    in if d_onEachWrite df then called (CallOnEachWrite (d_streamID df)) l1 else l1)"
  let ?es = "d_endStream df \<and> dataSize df \<le> sz" and ?b = "take (nat sz) (d_d df)"
  have b: "take (nat sz) (d_d df @ d_spare df) = ?b" using sz by simp
  define rest where "rest = drop (nat sz) (d_d df)"
  obtain l3 e where o: "on_framer (performAll wr [OpData (d_streamID df) ?es ?b None]) l2 = (l3, e)" by fastforce
  define l4 where "l4 = modify_stream a (\<lambda>s. s\<lparr>itl := il_modify_head (set_data rest) (itl s), bytesOutStanding := bytesOutStanding s + sz\<rparr>)
    (l3\<lparr>sendQuota := sendQuota l3 - word_of_int sz\<rparr>)"
  define l5 where "l5 = (if rest = [] then
      let l4' = modify_stream a (\<lambda>s. s\<lparr>itl := fst (il_dequeue (itl s))\<rparr>) l4
      in if d_onDone df then called (SendOnDone (df\<lparr>d_d := rest\<rparr>)) l4' else l4' else l4)"
  have eq: "sendChunk wr a df sz l = (case e of Some x \<Rightarrow> (l3, Inl x) | None \<Rightarrow> afterData wr a l5)"
    using q sz o unfolding sendChunk_def l5_def l4_def rest_def l2_def
    by (simp add: on_framer_ops Let_def b split: option.splits)
  have e: "e = None" "afterData wr a l5 = (l', Inr c)" using p by (auto simp: eq split: option.splits)
  have "holding good cf n xs a l2" using h by (simp add: holding_def linv_def l2_def Let_def)
  then obtain fr where l3: "l3 = l2\<lparr>framer := fr\<rparr>" "holding good cf n xs a l3"
    using holding_framer [OF o, of cf n xs a] by blast
  have s: "outStreams l3 = outStreams l" "sendQuota l3 = sendQuota l" "estdStreams l3 = estdStreams l"
    "freshStream l3 = freshStream l" "l_maxFrameSize l3 = l_maxFrameSize l"
    by (simp_all add: l3(1) l2_def Let_def)
  note m = il.wf_modify [OF wf(1) i, of "set_data rest"] il.items_modify [OF wf(1) i, of "set_data rest"]
  have "holding good cf n xs a (l3\<lparr>sendQuota := sendQuota l3 - word_of_int sz\<rparr>)"
    using l3(2) by (simp add: holding_def linv_def)
  then have h4: "holding good cf n xs a l4"
    unfolding l4_def by (rule holding_modify) (use l3(2) s(1) i m in \<open>auto simp: holding_def stream_ok_def\<close>)
  then have "holding good cf n xs a l5" using holding_dequeue [OF h4] by (simp add: l5_def Let_def)
  from quiet_afterData [OF e(2) this] have quiet: "quiet wr K l5 l'" .
  have lim: "sz \<le> int (unat (sendQuota l))" "sz \<le> int (unat (l_maxFrameSize l))" "sz \<le> streamQuota l a"
    using sz(3) by (auto simp: sendLimit_def Let_def split: if_splits)
  have u: "unat (word_of_int sz :: u32) = nat sz"
    by (rule unat_word_of_int_small [of sz "sendQuota l"]) (use sz lim in linarith)+
  moreover have "nat sz \<le> unat (sendQuota l)" using lim(1) by linarith
  ultimately have quota: "unat (sendQuota l - word_of_int sz) + nat sz = unat (sendQuota l)"
    using unat_sub_small [of "word_of_int sz" "sendQuota l"] by (simp add: word_le_nat_alt)
  have "framer l5 = framer l3" "sendQuota l5 = sendQuota l - word_of_int sz" "estdStreams l5 = estdStreams l"
    "freshStream l5 = freshStream l" "l_maxFrameSize l5 = l_maxFrameSize l" "\<forall>b. b \<noteq> a \<longrightarrow> outStreams l5 b = outStreams l b"
    "os_id (outStreams l5 a) = os_id (outStreams l a)"
    by (simp_all add: l5_def l4_def Let_def s)
  moreover have "pend (outStreams l a) = ?b @ pend (outStreams l5 a)"
  proof -
    have br: "?b @ rest = d_d df" by (simp add: rest_def)
    then have "pend (outStreams l a) = ?b @ rest @ concat (map item_data r)"
      using i by (metis append.assoc concat.simps(2) item_data.simps(1) list.simps(9) pend_def)
    moreover have "pend (outStreams l5 a) = rest @ concat (map item_data r)"
      using m by (cases "rest = []") (simp_all add: l5_def l4_def Let_def s pend_def il.queue_simps)
    ultimately show ?thesis by simp
  qed
  moreover have "emits wr l l5 [OpData (os_id (outStreams l a)) ?es ?b None]"
  proof -
    have "framer l2 = framer l" by (simp add: l2_def Let_def)
    with emits_framer [OF o [unfolded e(1)]] wf(2) calculation(1) show ?thesis
      by (simp add: emits_def del: performAll.simps)
  qed
  moreover have len: "length ?b = nat sz" "nat sz \<le> unat (l_maxFrameSize l)" "int (nat sz) \<le> streamQuota l a"
    using sz lim by (simp, linarith, simp)
  ultimately have "chunk wr l l5 a ?es ?b"
    using quota unfolding chunk_def len(1) by auto
  with quiet show ?thesis by blast
qed

lemma processData_chunk:
  assumes "loopy_inv good cf n l" "processData wr l = (l', Inr c)"
  shows "quiet wr K l l' \<or> (\<exists>lm a es d. chunk wr l lm a es d \<and> quiet wr K lm l' \<and> a < freshStream l \<and>
    (cf_strict cf \<longrightarrow> map_of (estdStreams l) (os_id (outStreams l a)) = Some a))"
proof -
  obtain xs where l: "linv good cf {} n xs l" using assms(1) by (auto simp: loopy_inv_def)
  have inv: "sinv (cf_strict cf) {} (estdStreams l) (outStreams l) (freshStream l) (activeStreams l) xs" using l by (simp add: linv_def)
  show ?thesis
  proof (cases "sendQuota l = 0 \<or> xs = []")
    case True
    have "quiet wr K l l" by (rule quiet_same) simp_all
    moreover have "l' = l" using True assms(2) sinv_repr [OF inv] osl.deq_nil [of "activeStreams l" "outStreams l"]
      by (auto simp: processData_def split: if_splits)
    ultimately show ?thesis by blast
  next
    case False
    then obtain a ys where xs: "xs = a # ys" and quota: "sendQuota l \<noteq> 0" by (cases xs) auto
    obtain h' where h': "osl_dequeue (activeStreams l) (outStreams l) = Some (h', Some a)"
        "sinv (cf_strict cf) {a} (estdStreams l) h' (freshStream l) (activeStreams l) ys" "same_data (outStreams l) h'"
        "held (freshStream l) (activeStreams l) h' ys a" "a \<notin> set ys"
      using sinv_dequeue [OF inv [unfolded xs]] by auto
    let ?l = "l\<lparr>outStreams := h'\<rparr>"
    have act: "os_state (h' a) = active" "data_first (h' a)"
      using sinv_active [OF inv, of a] xs by (simp_all add: same_data_stream [OF h'(3)])
    have es: "cf_strict cf \<longrightarrow> a \<in> snd ` set (estdStreams l)" using inv xs by (auto simp: sinv_def sbase_def)
    then have hd: "holding good cf n ys a ?l" using l h' act by (simp add: holding_def linv_def)
    have "cf_strict cf \<longrightarrow> map_of (estdStreams l) (os_id (outStreams l a)) = Some a"
      using es inv by (auto simp: sinv_def sbase_def map_of_eq_Some_iff)
    moreover have "a < freshStream l" using h'(4) by (simp add: held_def)
    moreover obtain df r where i: "il_items (itl (h' a)) = DataItem df # r" using act(2) by (auto simp: data_first_def)
    then have pk: "il_peek (itl (stream_of ?l a)) = Some (DataItem df)" and e0: "d_end df = 0"
      using holding_wf [OF hd] by (simp_all add: stream_of_def il.queue_simps)
    have ds: "dataSize df = int (length (d_d df))" using e0 by (simp add: dataSize_def)
    have pd: "processData wr l = (if dataSize df = 0 then processEmpty wr a df ?l
        else if streamQuota ?l a \<le> 0 then (set_state a waitingOnStreamQuota ?l, Inr False)
        else sendChunk wr a df (min (sendLimit ?l a) (dataSize df)) ?l)"
      using quota h'(1) pk by (simp add: processData_def Let_def)
    have "quiet wr K l l' \<or> (\<exists>lm es d. chunk wr ?l lm a es d \<and> quiet wr K lm l')"
    proof (cases "dataSize df = 0")
      case True
      with processEmpty_chunk [of a df ?l l' c cf n ys r K] hd i ds assms(2) pd show ?thesis by auto
    next
      case ne: False
      show ?thesis
      proof (cases "streamQuota ?l a \<le> 0")
        case True
        then have "l' = set_state a waitingOnStreamQuota ?l" using ne assms(2) pd by simp
        with quiet_trans [OF quiet_streams [OF h'(3)] quiet_set_state] show ?thesis by blast
      next
        case False
        have "sendLimit ?l a > 0" using sendLimit_pos [of ?l a] False quota l by (auto simp: linv_def)
        with sendChunk_chunk [of a df "min (sendLimit ?l a) (dataSize df)" ?l l' c cf n ys r K] hd i ds ne False assms(2) pd
        show ?thesis by auto
      qed
    qed
    ultimately show ?thesis using chunk_streams [OF _ h'(3)] by blast
  qed
qed

end

section \<open>Sessions\<close>

text \<open>
  The calls that \<^verbatim>\<open>run\<close> makes, in any order: items of the control buffer and rounds of \<^verbatim>\<open>processData\<close>.
\<close>

datatype loopy_event = Handle cbItem "addr list \<Rightarrow> addr list" int | Pump

fun loopy_step :: "'w writer \<Rightarrow> ('w \<Rightarrow> 'w) \<Rightarrow> loopy_event \<Rightarrow> 'w loopyWriter \<Rightarrow> 'w loopyWriter option" where
  "loopy_step wr flush (Handle i ord now) l = (case handle wr flush ord now i l of (l', None) \<Rightarrow> Some l' | _ \<Rightarrow> None)"
| "loopy_step wr flush Pump l = (case processData wr l of (l', Inr c) \<Rightarrow> Some l' | _ \<Rightarrow> None)"

fun loopy_session :: "'w writer \<Rightarrow> ('w \<Rightarrow> 'w) \<Rightarrow> loopy_event list \<Rightarrow> 'w loopyWriter \<Rightarrow> 'w loopyWriter option" where
  "loopy_session wr flush [] l = Some l"
| "loopy_session wr flush (ev # evs) l =
     (case loopy_step wr flush ev l of None \<Rightarrow> None | Some l' \<Rightarrow> loopy_session wr flush evs l')"

text \<open>The data handed over for a stream while it is established.\<close>

fun ev_data :: "u32 \<Rightarrow> loopy_event \<Rightarrow> 'w loopyWriter \<Rightarrow> bytes" where
  "ev_data sid (Handle (DataItem df) ord now) l =
     (if d_streamID df = sid \<and> map_of (estdStreams l) sid \<noteq> None then d_d df else [])"
| "ev_data sid _ l = []"

fun accepted :: "'w writer \<Rightarrow> ('w \<Rightarrow> 'w) \<Rightarrow> u32 \<Rightarrow> loopy_event list \<Rightarrow> 'w loopyWriter \<Rightarrow> bytes" where
  "accepted wr flush sid [] l = []"
| "accepted wr flush sid (ev # evs) l =
     ev_data sid ev l @ (case loopy_step wr flush ev l of None \<Rightarrow> [] | Some l' \<Rightarrow> accepted wr flush sid evs l')"

text \<open>The window that the peer grants for the connection.\<close>

fun ev_grant :: "loopy_event \<Rightarrow> nat" where
  "ev_grant (Handle (IncomingWindowUpdate sid incr) ord now) = (if sid = 0 then unat incr else 0)"
| "ev_grant _ = 0"

fun ev_ids :: "side \<Rightarrow> loopy_event \<Rightarrow> u32 list" where
  "ev_ids s (Handle i ord now) = new_id s i"
| "ev_ids s Pump = []"

fun ev_ok :: "cfg \<Rightarrow> loopy_event \<Rightarrow> bool" where
  "ev_ok cf (Handle i ord now) \<longleftrightarrow> item_ok cf i \<and> (\<forall>as. set (ord as) = set as)"
| "ev_ok cf Pump \<longleftrightarrow> True"

text \<open>
  What has been written (\<open>ops\<close>) and what was handed over (\<open>acc\<close>) agree up to what is still queued; the
  identifiers in \<open>R\<close> have been used; \<open>W\<close> is the window of the connection granted so far.
\<close>

definition track ::
    "'w writer \<Rightarrow> 'w Framer \<Rightarrow> nat \<Rightarrow> u32 set \<Rightarrow> (u32 \<Rightarrow> bytes) \<Rightarrow> frame_op list \<Rightarrow> nat \<Rightarrow> 'w loopyWriter \<Rightarrow> bool" where
  "track wr fr m R acc ops W l \<longleftrightarrow> performAll wr ops fr = (framer l, None) \<and> total ops + unat (sendQuota l) = W \<and>
     unat (l_maxFrameSize l) = m \<and> (\<forall>op \<in> set ops. op_len op \<le> m) \<and>
     (\<forall>sid. map_of (estdStreams l) sid \<noteq> None \<longrightarrow> sid \<in> R) \<and>
     (\<forall>sid. sid \<notin> R \<longrightarrow> sent sid ops = [] \<and> acc sid = []) \<and>
     (\<forall>sid a. map_of (estdStreams l) sid = Some a \<longrightarrow> sent sid ops @ pend (outStreams l a) = acc sid) \<and>
     (\<forall>sid. prefix (sent sid ops) (acc sid))"

lemma track_quiet:
  assumes t: "track wr fr m R acc ops W l" and q: "quiet wr K l l'" and K: "K \<inter> R = {}"
    and lt: "\<And>k a. map_of (estdStreams l) k = Some a \<Longrightarrow> a < freshStream l"
  shows "\<exists>ops'. track wr fr m (R \<union> K) acc ops' W l'"
proof -
  obtain ops1 where o: "performAll wr ops1 (framer l) = (framer l', None)" "\<forall>op \<in> set ops1. \<not> is_data op"
    using q by (auto simp: quiet_def emits_def)
  note nd = no_data [OF o(2)]
  have all: "sent sid (ops @ ops1) = sent sid ops" "total (ops @ ops1) = total ops" for sid
    using nd by simp_all
  have e: "map_of (estdStreams l) k = Some a \<or> k \<in> K \<and> pend (outStreams l' a) = []" if "map_of (estdStreams l') k = Some a" for k a
    using q that unfolding quiet_def by meson
  have "sent k ops @ pend (outStreams l' a) = acc k" if "map_of (estdStreams l') k = Some a" for k a
    using e [OF that]
  proof
    assume a: "map_of (estdStreams l) k = Some a"
    then have "pend (outStreams l' a) = pend (outStreams l a)" using q lt by (simp add: quiet_def)
    with t a show ?thesis by (simp add: track_def)
  next
    assume "k \<in> K \<and> pend (outStreams l' a) = []"
    with t K show ?thesis by (auto simp: track_def)
  qed
  moreover have "k \<in> R \<union> K" if "map_of (estdStreams l') k = Some a" for k a
    using e [OF that] t by (auto simp: track_def)
  ultimately have "track wr fr m (R \<union> K) acc (ops @ ops1) W l'"
    using t q o(1) nd unfolding track_def all by (auto simp: performAll_append quiet_def)
  then show ?thesis ..
qed

lemma track_chunk:
  assumes t: "track wr fr m R acc ops W l" and c: "chunk wr l l' a es d"
    and a: "map_of (estdStreams l) (os_id (outStreams l a)) = Some a"
    and ids: "\<And>k b. map_of (estdStreams l) k = Some b \<Longrightarrow> os_id (outStreams l b) = k"
  shows "track wr fr m R acc (ops @ [OpData (os_id (outStreams l a)) es d None]) W l'"
proof -
  let ?op = "OpData (os_id (outStreams l a)) es d None"
  have pe: "performAll wr (ops @ [?op]) fr = (framer l', None)"
    using t c by (simp add: track_def chunk_def emits_def performAll_append)
  have s: "sent sid [?op] = (if sid = os_id (outStreams l a) then d else [])" "total [?op] = length d" for sid
    by (auto simp: sent_def total_def)
  have est: "estdStreams l' = estdStreams l" using c by (simp add: chunk_def)
  have acc: "sent (os_id (outStreams l a)) ops @ d @ pend (outStreams l' a) = acc (os_id (outStreams l a))"
  proof -
    have "sent (os_id (outStreams l a)) ops @ pend (outStreams l a) = acc (os_id (outStreams l a))"
      using t a unfolding track_def by blast
    with c show ?thesis by (simp add: chunk_def)
  qed
  have eq: "sent k (ops @ [?op]) @ pend (outStreams l' b) = acc k" if "map_of (estdStreams l) k = Some b" for k b
  proof (cases "b = a")
    case True
    with ids [OF that] acc show ?thesis by (auto simp: sent_def)
  next
    case False
    then have "k \<noteq> os_id (outStreams l a)" using that a by auto
    with False that t c show ?thesis by (simp add: s track_def chunk_def)
  qed
  moreover have "prefix (sent k (ops @ [?op])) (acc k)" for k
  proof (cases "k = os_id (outStreams l a)")
    case True
    then have "acc k = sent k (ops @ [?op]) @ pend (outStreams l' a)" using acc s(1) [of k] by simp
    then show ?thesis by (rule prefixI)
  next
    case False
    with t s(1) [of k] show ?thesis by (simp add: track_def)
  qed
  moreover have "os_id (outStreams l a) \<in> R" using t a by (auto simp: track_def)
  ultimately show ?thesis
    using t c pe est unfolding track_def chunk_def
    by (auto simp: s)
qed

lemma track_data:
  assumes t: "track wr fr m R acc ops W l" and p: "preprocessData df l = (l', None)"
    and inv: "loopy_inv good cf n l"
  shows "track wr fr m R (\<lambda>sid. acc sid @ ev_data sid (Handle (DataItem df) ord now) l) ops W l'"
proof (cases "map_of (estdStreams l) (d_streamID df)")
  case None
  then have "l' = l" "(\<lambda>sid. acc sid @ ev_data sid (Handle (DataItem df) ord now) l) = acc"
    using p by (auto simp: preprocessData_def fun_eq_iff)
  with t show ?thesis by simp
next
  case (Some a)
  let ?f = "\<lambda>s. s\<lparr>itl := il_enqueue (DataItem df) (itl s)\<rparr>"
  note w = estd_wf [OF inv]
  have l': "framer l' = framer l" "sendQuota l' = sendQuota l" "l_maxFrameSize l' = l_maxFrameSize l" "estdStreams l' = estdStreams l"
    "\<forall>b. pend (outStreams l' b) = pend (outStreams l b) @ (if b = a then d_d df else [])"
  proof -
    have pa: "pend (?f (outStreams l a)) = pend (outStreams l a) @ d_d df"
      using w [OF Some] by (simp add: pend_def il.queue_simps)
    have ac: "activate a (modify_stream a g l) = (l', None) \<Longrightarrow>
        \<exists>h'. l' = l\<lparr>outStreams := h'\<rparr> \<and> same_data ((outStreams l)(a := g (outStreams l a))) h'" for g
      by (auto simp: activate_def modify_stream_def split: option.splits dest: enqueue_same)
    consider (1) "l' = modify_stream a ?f l" | (2) h' where "l' = l\<lparr>outStreams := h'\<rparr>"
        "same_data ((outStreams l)(a := (?f (outStreams l a))\<lparr>os_state := active\<rparr>)) h'"
      using p Some ac [of "\<lambda>s. (?f s)\<lparr>os_state := active\<rparr>"] by (auto simp: preprocessData_def Let_def split: if_splits)
    then have "framer l' = framer l \<and> sendQuota l' = sendQuota l \<and> l_maxFrameSize l' = l_maxFrameSize l \<and> estdStreams l' = estdStreams l \<and>
      (\<forall>b. pend (outStreams l' b) = pend (outStreams l b) @ (if b = a then d_d df else []))"
    proof cases
      case 1
      with pa show ?thesis by simp
    next
      case 2
      with pa pend_same_data [OF 2(2)] show ?thesis by simp
    qed
    then show "framer l' = framer l" "sendQuota l' = sendQuota l" "l_maxFrameSize l' = l_maxFrameSize l" "estdStreams l' = estdStreams l"
      "\<forall>b. pend (outStreams l' b) = pend (outStreams l b) @ (if b = a then d_d df else [])" by blast+
  qed
  have k: "b = a \<longleftrightarrow> d_streamID df = sid" if "map_of (estdStreams l) sid = Some b" for sid b
    using w [OF that] w [OF Some] that Some by (metis option.inject)
  let ?acc = "\<lambda>sid. acc sid @ ev_data sid (Handle (DataItem df) ord now) l"
  have "sent sid ops @ pend (outStreams l' b) = ?acc sid" if "map_of (estdStreams l') sid = Some b" for sid b
  proof -
    have b: "map_of (estdStreams l) sid = Some b" using that l'(4) by simp
    then have "sent sid ops @ pend (outStreams l b) = acc sid" using t unfolding track_def by blast
    with k [OF b] b l'(5) show ?thesis by simp
  qed
  moreover have "sent sid ops = [] \<and> ?acc sid = []" if "sid \<notin> R" for sid
    using t that unfolding track_def by auto
  moreover have "prefix (sent sid ops) (?acc sid)" for sid
    using t unfolding track_def by (blast intro: prefix_prefix)
  ultimately show ?thesis
    using t l' unfolding track_def by simp
qed

lemma track_grant:
  assumes "track wr fr m R acc ops W l" "W + unat incr < 2 ^ 32"
  shows "track wr fr m R acc ops (W + unat incr) (l\<lparr>sendQuota := sendQuota l + incr\<rparr>)"
proof -
  have "unat (sendQuota l) + unat incr < 2 ^ 32" using assms by (auto simp: track_def)
  then have "unat (sendQuota l + incr) = unat (sendQuota l) + unat incr"
    by (subst unat_add_small) simp_all
  with assms(1) show ?thesis by (auto simp: track_def)
qed

lemma fresh_itemI:
  assumes "track wr fr m R acc ops W l" "set (new_id (l_side l) i) \<inter> R = {}"
  shows "fresh_item l i"
proof -
  have "k \<in> R" if "k \<in> fst ` set (estdStreams l)" for k
    using assms(1) that unfolding track_def by (metis map_of_eq_None_iff)
  with assms(2) show ?thesis by (cases i) (auto split: if_splits)
qed

context calm_writer
begin

lemma step_inv:
  assumes "loopy_inv good cf (n + 2 ^ 20) l" "ev_ok cf ev" "loopy_step wr flush ev l = Some l1"
    and "\<And>w. good w \<Longrightarrow> good (flush w)" "\<forall>i ord now. ev = Handle i ord now \<longrightarrow> fresh_item l i"
  shows "loopy_inv good cf n l1"
proof (cases ev)
  case (Handle i ord now)
  have o: "\<And>as. set (ord as) \<subseteq> set as" using assms(2) Handle by simp
  have "safe good cf n (handle wr flush ord now i l)"
    by (rule handle_safe [OF assms(1) _ _ o assms(4)]) (use assms Handle in simp_all)
  with assms(3) Handle show ?thesis by (auto simp: safe_def split: prod.splits option.splits)
next
  case Pump
  with assms(3) processData_safe [OF assms(1)] show ?thesis
    by (auto simp: no_panic_def safe_data_def split: prod.splits sum.splits)
qed

lemma step_track:
  assumes inv: "loopy_inv good cf n l" and st: "cf_strict cf" and s: "loopy_step wr flush ev l = Some l1"
    and t: "track wr fr m R acc ops W l" and ids: "set (ev_ids (cf_side cf) ev) \<inter> R = {}" and W: "W + ev_grant ev < 2 ^ 32"
  shows "\<exists>ops'. track wr fr m (R \<union> set (ev_ids (cf_side cf) ev)) (\<lambda>sid. acc sid @ ev_data sid ev l) ops' (W + ev_grant ev) l1"
proof -
  have lt: "map_of (estdStreams l) k = Some a \<Longrightarrow> a < freshStream l" "map_of (estdStreams l) k = Some a \<Longrightarrow> os_id (outStreams l a) = k"
    for k a using estd_wf [OF inv] by auto
  have side: "l_side l = cf_side cf" using inv by (auto simp: loopy_inv_def linv_def)
  show ?thesis
  proof (cases ev)
    case (Handle i ord now)
    have h: "handle wr flush ord now i l = (l1, None)" using s Handle by (auto split: prod.splits option.splits)
    show ?thesis
    proof (cases "(\<exists>df. i = DataItem df) \<or> (\<exists>incr. i = IncomingWindowUpdate 0 incr)")
      case True
      then show ?thesis
      proof (elim disjE exE)
        fix df assume "i = DataItem df"
        with track_data [OF t _ inv, of df l1 ord now] h Handle show ?thesis by (auto intro!: exI [of _ ops])
      next
        fix incr assume "i = IncomingWindowUpdate 0 incr"
        with track_grant [OF t, of incr] h Handle W show ?thesis
          by (auto simp: incomingWindowUpdateHandler_def intro!: exI [of _ ops])
      qed
    next
      case False
      have q: "quiet wr (set (new_id (cf_side cf) i)) l l1"
        using handle_quiet [OF h inv] False side by auto
      have "(\<lambda>sid. acc sid @ ev_data sid ev l) = acc" "ev_grant ev = 0"
        using Handle False by (cases i; simp)+
      with track_quiet [OF t q _ lt(1)] ids Handle show ?thesis by simp
    qed
  next
    case Pump
    obtain c where p: "processData wr l = (l1, Inr c)" using s Pump by (auto split: prod.splits sum.splits)
    have "\<exists>ops'. track wr fr m (R \<union> {}) acc ops' W l1"
      using processData_chunk [OF inv p, of "{}"]
    proof (elim disjE exE conjE)
      assume "quiet wr {} l l1"
      from track_quiet [OF t this _ lt(1)] show ?thesis by simp
    next
      fix lm a es d
      assume c: "chunk wr l lm a es d" and q: "quiet wr {} lm l1"
        and "cf_strict cf \<longrightarrow> map_of (estdStreams l) (os_id (outStreams l a)) = Some a"
      with st have a: "map_of (estdStreams l) (os_id (outStreams l a)) = Some a" by simp
      have "map_of (estdStreams lm) k = Some b \<Longrightarrow> b < freshStream lm" for k b
        using c lt(1) by (simp add: chunk_def)
      from track_quiet [OF track_chunk [OF t c a lt(2)] q _ this] show ?thesis by simp
    qed
    with Pump show ?thesis by simp
  qed
qed

lemma session_track:
  assumes "loopy_inv good cf (length evs * 2 ^ 20) l" and st: "cf_strict cf" and "list_all (ev_ok cf) evs"
    and "track wr fr m R acc ops W l" and "distinct (concat (map (ev_ids (cf_side cf)) evs))"
    and "set (concat (map (ev_ids (cf_side cf)) evs)) \<inter> R = {}" and "W + sum_list (map ev_grant evs) < 2 ^ 32"
    and "loopy_session wr flush evs l = Some l'" and fl: "\<And>w. good w \<Longrightarrow> good (flush w)"
  shows "\<exists>R' ops'. track wr fr m R' (\<lambda>sid. acc sid @ accepted wr flush sid evs l) ops' (W + sum_list (map ev_grant evs)) l'"
  using assms(1,3-8)
proof (induction evs arbitrary: l R acc ops W)
  case (Cons ev evs)
  obtain l1 where l1: "loopy_step wr flush ev l = Some l1" "loopy_session wr flush evs l1 = Some l'"
    using Cons.prems(7) by (auto split: option.splits)
  have inv: "loopy_inv good cf (length evs * 2 ^ 20 + 2 ^ 20) l" using Cons.prems(1) by (simp add: add.commute)
  have side: "l_side l = cf_side cf" using inv by (auto simp: loopy_inv_def linv_def)
  have fresh: "\<forall>i ord now. ev = Handle i ord now \<longrightarrow> fresh_item l i"
    using fresh_itemI [OF Cons.prems(3)] Cons.prems(5) side by (auto simp: Int_Un_distrib2)
  have inv1: "loopy_inv good cf (length evs * 2 ^ 20) l1"
    by (rule step_inv [OF inv _ l1(1) fl fresh]) (use Cons.prems(2) in simp)
  obtain ops1 where t1: "track wr fr m (R \<union> set (ev_ids (cf_side cf) ev)) (\<lambda>sid. acc sid @ ev_data sid ev l) ops1 (W + ev_grant ev) l1"
    using step_track [OF inv st l1(1) Cons.prems(3)] Cons.prems(5,6) by fastforce
  have "\<exists>R' ops'. track wr fr m R' (\<lambda>sid. (acc sid @ ev_data sid ev l) @ accepted wr flush sid evs l1) ops'
      (W + ev_grant ev + sum_list (map ev_grant evs)) l'"
    by (rule Cons.IH [OF inv1 _ t1 _ _ _ l1(2)]) (use Cons.prems(2,4,5,6) in auto)
  with l1(1) show ?case by (simp add: add.assoc)
qed auto

end

section \<open>Properties\<close>


definition example_data :: dataFrame where
  "example_data = \<lparr>d_streamID = 1, d_endStream = True, d_d = [1, 2, 3], d_spare = [], d_start = 0, d_end = 0,
     d_onEachWrite = False, d_onDone = False, d_onDoneFunc = False\<rparr>"

definition example_events :: "loopy_event list" where
  "example_events = [Handle (RegisterStream 1 (Some 0)) (\<lambda>as. as) 0, Handle (DataItem example_data) (\<lambda>as. as) 0, Pump]"

text \<open>The definitions that evaluate a run on a pipe.\<close>

lemmas loopy_eval = registerStreamHandler_def alloc_stream_def new_outStream_def establish_def preprocessData_def modify_stream_def
  stream_of_def activate_def osl_enqueue_def set_os_next_def set_os_prev_def zero_outStream_def processData_def osl_dequeue_def
  deleteSelf_def empty_itemList_def il_enqueue_def il_peek_def dataSize_def streamQuota_def sendLimit_def sendChunk_def
  realReplenish_def replenishAdd_def replenishNotify_def newWriteQuota_def on_framer_def WriteData_def WriteDataPadded_def
  NewFramer_def SetMaxReadFrameSize_def startWrite_def writeBytes_def endWrite_def put_uint24_def put_uint32_def pipeWrite_def
  frameHeaderLen_def validStreamID_def afterData_def il_isEmpty_def il_modify_head_def il_dequeue_def set_state_def pend_def
  il_items_def Let_def FlagDataEndStream_def FrameData_def

text \<open>A run that evaluates: a server sends three bytes on stream 1.\<close>

lemma example_session:
  assumes "newLoopyWriter \<lparr>mux_closing = False, maxStreamID = 0, mux_activeStreams = []\<rparr> serverSide (NewFramer ([] :: bytes) []) None 16384
       (\<lambda>a. newWriteQuota 0) = Inr l"
  shows "\<exists>l' a. loopy_session pipeWrite (\<lambda>w. w) example_events (l\<lparr>ss_goAway := True\<rparr>) = Some l' \<and>
    accepted pipeWrite (\<lambda>w. w) 1 example_events (l\<lparr>ss_goAway := True\<rparr>) = [1, 2, 3] \<and>
    map_of (estdStreams l') 1 = Some a \<and> pend (outStreams l' a) = []"
proof -
  obtain enc where l: "l = \<lparr>l_mux = \<lparr>mux_closing = False, maxStreamID = 0, mux_activeStreams = []\<rparr>, l_side = serverSide,
      sendQuota = 65535, oiws = 65535, estdStreams = [],
      outStreams = set_os_prev 1 (Some 0) (set_os_next 0 (Some 1) ((\<lambda>a. zero_outStream)(0 := zero_outStream, 1 := zero_outStream))),
      freshStream = 2, activeStreams = \<lparr>osl_head = 0, osl_tail = 1\<rparr>, framer = NewFramer [] [], hEnc = enc, bdpEst = None,
      draining = False, l_maxFrameSize = 16384, ss_goAway = False, l_wqs = (\<lambda>a. newWriteQuota 0), l_calls = []\<rparr>"
    using assms by (auto simp: newLoopyWriter_def newOutStreamList_def defaultWindowSize_def)
  show ?thesis
    unfolding l example_events_def example_data_def
    by (simp add: loopy_eval)
qed


end
