(* ===== verification/Loopy_Limits.thy ===== *)
theory Loopy_Limits
  imports Loopy_Flow
begin

text \<open>
  An item that the transport really produces and the loopy writer does not handle: a data frame with a
  range, as \<^verbatim>\<open>SendRaw\<close> makes it. The safety theorem of the loopy writer excludes it; here is what happens
  to it.
\<close>

section \<open>A run with a range\<close>

text \<open>The data frame of \<^verbatim>\<open>SendRaw([]byte("123456789hello"), 9, 14, true)\<close>, with any spare capacity.\<close>

definition ranged_data :: "bytes \<Rightarrow> dataFrame" where
  "ranged_data spare = \<lparr>d_streamID = 1, d_endStream = True, d_d = bytes_of ''123456789hello'', d_spare = spare, d_start = 9, d_end = 14,
     d_onEachWrite = True, d_onDone = False, d_onDoneFunc = True\<rparr>"

definition ranged_events :: "bytes \<Rightarrow> loopy_event list" where
  "ranged_events spare =
     [Handle (RegisterStream 1 (Some 0)) (\<lambda>as. as) 0, Handle (DataItem (ranged_data spare)) (\<lambda>as. as) 0, Pump, Pump]"

lemma ranged_bytes: "bytes_of ''123456789hello'' = [49, 50, 51, 52, 53, 54, 55, 56, 57, 104, 101, 108, 108, 111]"
  by (simp add: bytes_of_def byte_of_def)

text \<open>
  Sending a range of a buffer does not work: for the call of the test of the repository, which means to
  send the last five of fourteen bytes, loopy sends the first five, with END_STREAM, then the next five,
  with END_STREAM again, and then panics, whatever the capacity of the buffer.
\<close>

theorem ranged_send_panics:
  assumes "newLoopyWriter \<lparr>mux_closing = False, maxStreamID = 0, mux_activeStreams = []\<rparr> serverSide (NewFramer ([] :: bytes) []) None 16384
       (\<lambda>a. newWriteQuota 0) = Inr l"
  shows "\<exists>l2 l3. loopy_session pipeWrite (\<lambda>w. w) (ranged_events spare) l = Some l2 \<and>
    fr_w (framer l2) = [0, 0, 5, 0, 1, 0, 0, 0, 1] @ bytes_of ''12345'' @ [0, 0, 5, 0, 1, 0, 0, 0, 1] @ bytes_of ''6789h'' \<and>
    processData pipeWrite l2 = (l3, Inl (LPanic ''slice bounds out of range''))"
proof -
  obtain enc where l: "l = \<lparr>l_mux = \<lparr>mux_closing = False, maxStreamID = 0, mux_activeStreams = []\<rparr>, l_side = serverSide,
      sendQuota = 65535, oiws = 65535, estdStreams = [],
      outStreams = set_os_prev 1 (Some 0) (set_os_next 0 (Some 1) ((\<lambda>a. zero_outStream)(0 := zero_outStream, 1 := zero_outStream))),
      freshStream = 2, activeStreams = \<lparr>osl_head = 0, osl_tail = 1\<rparr>, framer = NewFramer [] [], hEnc = enc, bdpEst = None,
      draining = False, l_maxFrameSize = 16384, ss_goAway = False, l_wqs = (\<lambda>a. newWriteQuota 0), l_calls = []\<rparr>"
    using assms by (auto simp: newLoopyWriter_def newOutStreamList_def defaultWindowSize_def)
  show ?thesis
    unfolding l ranged_events_def ranged_data_def ranged_bytes
    by (cases spare) (simp_all add: loopy_eval called_def enqueue_active_def bytes_of_def byte_of_def)
qed

theorem ranged_send_panics_witness:
  "\<exists>l l2 l3. loopy_session pipeWrite (\<lambda>w. w) (ranged_events []) l = Some l2 \<and>
     processData pipeWrite l2 = (l3, Inl (LPanic ''slice bounds out of range''))"
proof -
  let ?mux = "\<lparr>mux_closing = False, maxStreamID = 0, mux_activeStreams = []\<rparr>"
  obtain enc :: "bytes Encoder" where "NewEncoder [] = Inr enc"
    using setMaxSize_ok [OF init_dynamicTable_ok, of 4096] by (auto simp: NewEncoder_def initialHeaderTableSize_def)
  then obtain l where "newLoopyWriter ?mux serverSide (NewFramer ([] :: bytes) []) None 16384 (\<lambda>a. newWriteQuota 0) = Inr l"
    by (auto simp: newLoopyWriter_def newOutStreamList_def)
  from ranged_send_panics [OF this] show ?thesis by blast
qed

end
