(* ===== verification/Go_Strings.thy ===== *)
theory Go_Strings
  imports H2_Prelude
begin

text \<open>
  What the header code uses of Go's packages \<^verbatim>\<open>strconv\<close>, \<^verbatim>\<open>encoding/base64\<close> and \<^verbatim>\<open>unicode/utf8\<close>,
  with the lemmas that say how the two directions of each fit together.
\<close>

section \<open>Decimal numbers (strconv)\<close>

definition digit :: "nat \<Rightarrow> char" where
  "digit d = char_of (48 + d)"

text \<open>\<^verbatim>\<open>strconv.FormatInt(n, 10)\<close> for a number that is not negative.\<close>

fun FormatInt :: "nat \<Rightarrow> string" where
  "FormatInt n = (if n < 10 then [digit n] else FormatInt (n div 10) @ [digit (n mod 10)])"

declare FormatInt.simps [simp del]

datatype num_error = ErrSyntax | ErrRange

definition digit_val :: "char \<Rightarrow> nat option" where
  "digit_val c = (if 48 \<le> (of_char c :: nat) \<and> (of_char c :: nat) \<le> 57 then Some (of_char c - 48) else None)"

text \<open>The loop of \<^verbatim>\<open>ParseUint\<close> for base 10; \<open>n\<close> is the number read so far.\<close>

fun parseDigits :: "nat \<Rightarrow> string \<Rightarrow> num_error + nat" where
  "parseDigits n [] = Inr n"
| "parseDigits n (c # cs) =
     (case digit_val c of
        None \<Rightarrow> Inl ErrSyntax
      | Some d \<Rightarrow> if n * 10 + d > 2 ^ 64 - 1 then Inl ErrRange else parseDigits (n * 10 + d) cs)"

definition parseUint :: "string \<Rightarrow> num_error + nat" where
  "parseUint s = (if s = [] then Inl ErrSyntax else parseDigits 0 s)"

text \<open>\<^verbatim>\<open>strconv.ParseInt(s, 10, 64)\<close>.\<close>

definition ParseInt :: "string \<Rightarrow> num_error + int" where
  "ParseInt s =
     (case s of
        [] \<Rightarrow> Inl ErrSyntax
      | c # cs \<Rightarrow>
          if c = CHR ''-'' then
            and_then (parseUint cs) (\<lambda>n. if n > 2 ^ 63 then Inl ErrRange else Inr (- int n))
          else
            and_then (parseUint (if c = CHR ''+'' then cs else s))
              (\<lambda>n. if n \<ge> 2 ^ 63 then Inl ErrRange else Inr (int n)))"

lemma digit_val_digit [simp]: "d < 10 \<Longrightarrow> digit_val (digit d) = Some d"
  by (simp add: digit_val_def digit_def of_char_of)

lemma parseDigits_append:
  "parseDigits n (xs @ ys) = and_then (parseDigits n xs) (\<lambda>m. parseDigits m ys)"
  by (induction n xs rule: parseDigits.induct) (auto split: option.splits)

lemma parseDigits_FormatInt: "n < 2 ^ 64 \<Longrightarrow> parseDigits 0 (FormatInt n) = Inr n"
proof (induction n rule: FormatInt.induct)
  case (1 n)
  show ?case
  proof (cases "n < 10")
    case True
    then show ?thesis by (subst FormatInt.simps) simp
  next
    case False
    have "n div 10 < 2 ^ 64" using 1(2) by linarith
    with False 1(1) have "parseDigits 0 (FormatInt (n div 10)) = Inr (n div 10)" by simp
    with False 1(2) show ?thesis by (subst FormatInt.simps) (simp add: parseDigits_append)
  qed
qed

lemma FormatInt_first: "\<exists>d cs. FormatInt n = digit d # cs \<and> d < 10"
proof (induction n rule: FormatInt.induct)
  case (1 n)
  show ?case
    by (cases "n < 10") (use 1 in \<open>subst FormatInt.simps; fastforce\<close>)+
qed

lemma digit_not_sign: "d < 10 \<Longrightarrow> digit d \<noteq> CHR ''-'' \<and> digit d \<noteq> CHR ''+''"
proof -
  assume d: "d < 10"
  have "(of_char (digit d) :: nat) = 48 + d" using d by (simp add: digit_def of_char_of)
  then show ?thesis using d by auto
qed

lemma ParseInt_FormatInt: "n < 2 ^ 63 \<Longrightarrow> ParseInt (FormatInt n) = Inr (int n)"
proof -
  assume n: "n < 2 ^ 63"
  obtain d cs where f: "FormatInt n = digit d # cs" "d < 10" using FormatInt_first by blast
  have "parseDigits 0 (digit d # cs) = Inr n" using parseDigits_FormatInt [of n] n f by simp
  then show ?thesis
    using n f digit_not_sign [of d] by (simp add: ParseInt_def parseUint_def del: parseDigits.simps)
qed

lemma length_FormatInt: "0 < k \<Longrightarrow> n < 10 ^ k \<Longrightarrow> length (FormatInt n) \<le> k"
proof (induction n arbitrary: k rule: FormatInt.induct)
  case (1 n)
  show ?case
  proof (cases "n < 10")
    case True
    then show ?thesis using 1(2) by (subst FormatInt.simps) simp
  next
    case False
    obtain j where k: "k = Suc j" using 1(2) by (cases k) auto
    have "0 < j" using False 1(3) k by (cases j) auto
    moreover have "n div 10 < 10 ^ j" using 1(3) k by (simp add: less_mult_imp_div_less mult.commute)
    ultimately show ?thesis using 1(1) [OF False] False k by (subst FormatInt.simps) simp
  qed
qed

section \<open>Base64\<close>

definition alphabet :: string where
  "alphabet = ''ABCDEFGHIJKLMNOPQRSTUVWXYZabcdefghijklmnopqrstuvwxyz0123456789+/''"

definition sextet :: "nat \<Rightarrow> char" where
  "sextet n = alphabet ! n"

fun index_of :: "'a \<Rightarrow> 'a list \<Rightarrow> nat option" where
  "index_of x [] = None"
| "index_of x (y # ys) = (if x = y then Some 0 else map_option Suc (index_of x ys))"

text \<open>\<^verbatim>\<open>base64.RawStdEncoding.EncodeToString\<close>.\<close>

fun encode64 :: "string \<Rightarrow> string" where
  "encode64 [] = []"
| "encode64 [a] = (let x = of_char a in [sextet (x div 4), sextet (x mod 4 * 16)])"
| "encode64 [a, b] =
     (let x = of_char a; y = of_char b
      in [sextet (x div 4), sextet (x mod 4 * 16 + y div 16), sextet (y mod 16 * 4)])"
| "encode64 (a # b # c # r) =
     (let x = of_char a; y = of_char b; z = of_char c
      in [sextet (x div 4), sextet (x mod 4 * 16 + y div 16), sextet (y mod 16 * 4 + z div 64), sextet (z mod 64)]
         @ encode64 r)"

text \<open>
  Three bytes from four groups of six bits. A \<^verbatim>\<open>CorruptInputError\<close> is \<open>None\<close>; the bytes that were
  decoded before it are dropped, as every caller here does.
\<close>

definition octets :: "nat \<Rightarrow> nat \<Rightarrow> nat \<Rightarrow> nat \<Rightarrow> string" where
  "octets a b c d =
     (let v = a * 2 ^ 18 + b * 2 ^ 12 + c * 2 ^ 6 + d
      in [char_of (v div 2 ^ 16), char_of (v div 2 ^ 8), char_of v])"

fun decodeQuanta :: "bool \<Rightarrow> string \<Rightarrow> string option" where
  "decodeQuanta padded [] = Some []"
| "decodeQuanta padded [a] = None"
| "decodeQuanta padded [a, b] =
     (case (index_of a alphabet, index_of b alphabet) of
        (Some i, Some j) \<Rightarrow> if padded then None else Some (take 1 (octets i j 0 0))
      | _ \<Rightarrow> None)"
| "decodeQuanta padded [a, b, c] =
     (case (index_of a alphabet, index_of b alphabet, index_of c alphabet) of
        (Some i, Some j, Some k) \<Rightarrow> if padded then None else Some (take 2 (octets i j k 0))
      | _ \<Rightarrow> None)"
| "decodeQuanta padded (a # b # c # d # r) =
     (case (index_of a alphabet, index_of b alphabet) of
        (Some i, Some j) \<Rightarrow>
          if padded \<and> c = CHR ''='' then (if d = CHR ''='' \<and> r = [] then Some (take 1 (octets i j 0 0)) else None)
          else (case index_of c alphabet of
              None \<Rightarrow> None
            | Some k \<Rightarrow>
                if padded \<and> d = CHR ''='' then (if r = [] then Some (take 2 (octets i j k 0)) else None)
                else (case index_of d alphabet of
                    None \<Rightarrow> None
                  | Some m \<Rightarrow> map_option (\<lambda>s. octets i j k m @ s) (decodeQuanta padded r)))
      | _ \<Rightarrow> None)"

text \<open>\<^verbatim>\<open>DecodeString\<close>; line ends are skipped wherever they are.\<close>

definition decode64 :: "bool \<Rightarrow> string \<Rightarrow> string option" where
  "decode64 padded s = decodeQuanta padded (filter (\<lambda>c. c \<noteq> char_of (10 :: nat) \<and> c \<noteq> char_of (13 :: nat)) s)"

lemma index_of_nth: "distinct xs \<Longrightarrow> n < length xs \<Longrightarrow> index_of (xs ! n) xs = Some n"
proof (induction xs arbitrary: n)
  case (Cons x xs)
  then show ?case by (cases n) auto
qed simp

lemma alphabet_facts: "distinct alphabet" "length alphabet = 64" "CHR ''='' \<notin> set alphabet"
    "char_of (10 :: nat) \<notin> set alphabet" "char_of (13 :: nat) \<notin> set alphabet"
  by code_simp+

lemma index_of_sextet [simp]: "n < 64 \<Longrightarrow> index_of (sextet n) alphabet = Some n"
  unfolding sextet_def by (rule index_of_nth) (simp_all add: alphabet_facts)

lemma sextet_in: "n < 64 \<Longrightarrow> sextet n \<in> set alphabet"
  unfolding sextet_def by (rule nth_mem) (simp add: alphabet_facts)

lemma sextet_not_pad [simp]: "n < 64 \<Longrightarrow> sextet n \<noteq> CHR ''=''"
  using sextet_in alphabet_facts(3) by metis

lemma char_parts [simp]:
  "of_char c div 4 < (64 :: nat)" "of_char c mod 4 * 16 + of_char b div 16 < (64 :: nat)" "of_char c mod 4 * 16 < (64 :: nat)"
  "of_char c mod 16 * 4 + of_char b div 64 < (64 :: nat)" "of_char c mod 16 * 4 < (64 :: nat)" "of_char c mod 64 < (64 :: nat)"
  using nat_of_char_less_256 [of c] nat_of_char_less_256 [of b] by linarith+

lemma char_of_shift: "char_of (k * 256 + n :: nat) = char_of n"
  using char_of_mod_256 [of "k * 256 + n"] char_of_mod_256 [of n] by (simp add: mod_mult_self3)

lemma octets_join:
  fixes x y z :: nat
  assumes "x < 256" "y < 256" "z < 256"
  shows "octets (x div 4) (x mod 4 * 16 + y div 16) (y mod 16 * 4 + z div 64) (z mod 64) = [char_of x, char_of y, char_of z]"
proof -
  have "p * 2 ^ 18 + (q * 16 + r) * 2 ^ 12 + (s * 4 + t) * 2 ^ 6 + u = ((p * 4 + q) * 256 + (r * 16 + s)) * 256 + (t * 64 + u)"
    for p q r s t u :: nat by simp
  from this [of "x div 4" "x mod 4" "y div 16" "y mod 16" "z div 64" "z mod 64"]
  have v: "x div 4 * 2 ^ 18 + (x mod 4 * 16 + y div 16) * 2 ^ 12 + (y mod 16 * 4 + z div 64) * 2 ^ 6 + z mod 64
      = (x * 256 + y) * 256 + z" by (simp only: div_mult_mod_eq)
  have "((x * 256 + y) * 256 + z) div 2 ^ 8 = x * 256 + y" "((x * 256 + y) * 256 + z) div 2 ^ 16 = x"
    using assms by simp_all
  then show ?thesis unfolding octets_def v Let_def by (simp only: char_of_shift)
qed

lemma octets_join2: "y < 256 \<Longrightarrow> x < 256 \<Longrightarrow>
    take 2 (octets (x div 4) (x mod 4 * 16 + y div 16) (y mod 16 * 4) 0) = [char_of x, char_of (y :: nat)]"
  using octets_join [of x y 0] by simp

lemma octets_join1: "x < 256 \<Longrightarrow> take 1 (octets (x div 4) (x mod 4 * 16) 0 0) = [char_of (x :: nat)]"
  using octets_join [of x 0 0] by simp

text \<open>Without padding, every string is decoded to itself; with padding, every string that needs none.\<close>

lemma decodeQuanta_encode64: "padded \<longrightarrow> length s mod 3 = 0 \<Longrightarrow> decodeQuanta padded (encode64 s) = Some s"
proof (induction s rule: encode64.induct)
  case (2 a)
  then show ?case using octets_join1 [of "of_char a"] by (simp add: Let_def)
next
  case (3 a b)
  then show ?case using octets_join2 [of "of_char b" "of_char a"] by (simp add: Let_def)
next
  case (4 a b c r)
  then have "decodeQuanta padded (encode64 r) = Some r" by (simp add: mod_Suc split: if_splits)
  then show ?case using octets_join [of "of_char a" "of_char b" "of_char c"] by (simp add: Let_def)
qed simp

lemma encode64_chars: "set (encode64 s) \<subseteq> set alphabet"
  by (induction s rule: encode64.induct) (simp_all add: Let_def sextet_in)

lemma length_encode64: "length (encode64 s) mod 4 = 0 \<longleftrightarrow> length s mod 3 = 0"
proof (induction s rule: encode64.induct)
  case (4 a b c r)
  have "Suc (Suc (Suc (Suc k))) mod 4 = k mod 4" "Suc (Suc (Suc j)) mod 3 = j mod 3" for k j :: nat by presburger+
  with 4 show ?case by (simp add: Let_def)
qed (simp_all add: Let_def)

lemma decode64_encode64: "padded \<longrightarrow> length s mod 3 = 0 \<Longrightarrow> decode64 padded (encode64 s) = Some s"
proof -
  have "filter (\<lambda>c. c \<noteq> char_of (10 :: nat) \<and> c \<noteq> char_of (13 :: nat)) (encode64 s) = encode64 s"
    using encode64_chars [of s] alphabet_facts(4,5) by (auto intro!: filter_True)
  then show "padded \<longrightarrow> length s mod 3 = 0 \<Longrightarrow> decode64 padded (encode64 s) = Some s"
    unfolding decode64_def by (simp add: decodeQuanta_encode64)
qed

section \<open>UTF-8\<close>

definition between :: "nat \<Rightarrow> char \<Rightarrow> nat \<Rightarrow> bool" where
  "between lo c hi \<longleftrightarrow> lo \<le> of_char c \<and> of_char c \<le> hi"

definition RuneError :: nat where "RuneError = 0xFFFD"

text \<open>
  \<^verbatim>\<open>utf8.DecodeRuneInString\<close>: the rune and its width, where a byte that starts no valid encoding is
  \<^verbatim>\<open>RuneError\<close> of width 1.
\<close>

fun bits6 :: "char list \<Rightarrow> nat \<Rightarrow> nat" where
  "bits6 [] r = r"
| "bits6 (c # cs) r = bits6 cs (r * 64 + of_char c mod 64)"

definition utf8_width :: "string \<Rightarrow> nat option" where
  "utf8_width s =
     (case s of
        [] \<Rightarrow> None
      | c # r \<Rightarrow>
          if between 0 c 0x7F then Some 1
          else if between 0xC2 c 0xDF then
            (case r of x # _ \<Rightarrow> if between 0x80 x 0xBF then Some 2 else None | _ \<Rightarrow> None)
          else if between 0xE0 c 0xEF then
            (case r of x # y # _ \<Rightarrow>
               if between (if of_char c = (0xE0 :: nat) then 0xA0 else 0x80) x (if of_char c = (0xED :: nat) then 0x9F else 0xBF)
                  \<and> between 0x80 y 0xBF then Some 3 else None
             | _ \<Rightarrow> None)
          else if between 0xF0 c 0xF4 then
            (case r of x # y # z # _ \<Rightarrow>
               if between (if of_char c = (0xF0 :: nat) then 0x90 else 0x80) x (if of_char c = (0xF4 :: nat) then 0x8F else 0xBF)
                  \<and> between 0x80 y 0xBF \<and> between 0x80 z 0xBF then Some 4 else None
             | _ \<Rightarrow> None)
          else None)"

definition DecodeRune :: "string \<Rightarrow> nat \<times> nat" where
  "DecodeRune s =
     (case utf8_width s of
        None \<Rightarrow> (RuneError, if s = [] then 0 else 1)
      | Some w \<Rightarrow>
          (bits6 (take (w - 1) (tl s)) (of_char (hd s) mod (if w = 1 then 128 else if w = 2 then 32 else if w = 3 then 16 else 8)), w))"

text \<open>\<^verbatim>\<open>string(r)\<close> for a rune.\<close>

definition EncodeRune :: "nat \<Rightarrow> string" where
  "EncodeRune r =
     (let r' = (if r > 0x10FFFF \<or> 0xD800 \<le> r \<and> r \<le> 0xDFFF then RuneError else r) in
      if r' < 0x80 then [char_of r']
      else if r' < 0x800 then [char_of (0xC0 + r' div 64), char_of (0x80 + r' mod 64)]
      else if r' < 0x10000 then [char_of (0xE0 + r' div 4096), char_of (0x80 + r' div 64 mod 64), char_of (0x80 + r' mod 64)]
      else [char_of (0xF0 + r' div 262144), char_of (0x80 + r' div 4096 mod 64), char_of (0x80 + r' div 64 mod 64),
            char_of (0x80 + r' mod 64)])"

definition replacement :: string where
  "replacement = [char_of (0xEF :: nat), char_of (0xBF :: nat), char_of (0xBD :: nat)]"

lemma EncodeRune_error: "EncodeRune RuneError = replacement"
  by (simp add: EncodeRune_def RuneError_def replacement_def Let_def)

lemma char_ofI: "n = of_char c \<Longrightarrow> char_of (n :: nat) = c"
  by simp

lemma mod_offset: "n < k \<Longrightarrow> (q * k + n) mod k = (n :: nat)"
  by (simp add: mod_mult_self3)

lemma base64_digits: "m < 64 \<Longrightarrow> (q * 64 + m) div 64 = q" "m < 64 \<Longrightarrow> (q * 64 + m) mod 64 = (m :: nat)"
  by (simp_all add: mod_mult_self3)

lemma EncodeRune_1: "r < 0x80 \<Longrightarrow> EncodeRune r = [char_of r]"
  by (simp add: EncodeRune_def Let_def)

lemma EncodeRune_2:
  assumes "0xC2 \<le> a" "a \<le> 0xDF" "0x80 \<le> b" "b \<le> 0xBF"
  shows "EncodeRune (a mod 32 * 64 + b mod 64) = [char_of a, char_of (b :: nat)]"
proof -
  define i j where "i = a - 0xC0" and "j = b - 0x80"
  have ab: "a = 0xC0 + i" "b = 0x80 + j" "i < 32" "j < 64" "2 \<le> i" using assms by (auto simp: i_def j_def)
  then have "a mod 32 = i" "b mod 64 = j" using mod_offset [of i 32 6] mod_offset [of j 64 2] by simp_all
  then have r: "a mod 32 * 64 + b mod 64 = i * 64 + j" by simp
  have "\<not> i * 64 + j < 0x80" "i * 64 + j < 0x800" "(i * 64 + j) div 64 = i" "(i * 64 + j) mod 64 = j" using ab by auto
  then show ?thesis unfolding r using ab by (simp add: EncodeRune_def Let_def)
qed

lemma EncodeRune_mid:
  "\<not> r < 0x800 \<Longrightarrow> r < 0x10000 \<Longrightarrow> \<not> (0xD800 \<le> r \<and> r \<le> 0xDFFF) \<Longrightarrow>
   EncodeRune r = [char_of (0xE0 + r div 4096), char_of (0x80 + r div 64 mod 64), char_of (0x80 + r mod 64)]"
  by (auto simp: EncodeRune_def Let_def)

lemma EncodeRune_3:
  assumes "0xE0 \<le> a" "a \<le> 0xEF" "0x80 \<le> b" "b \<le> 0xBF" "0x80 \<le> c" "c \<le> 0xBF" "a = 0xE0 \<Longrightarrow> 0xA0 \<le> b" "a = 0xED \<Longrightarrow> b \<le> 0x9F"
  shows "EncodeRune ((a mod 16 * 64 + b mod 64) * 64 + c mod 64) = [char_of a, char_of b, char_of (c :: nat)]"
proof -
  define i j k where "i = a - 0xE0" and "j = b - 0x80" and "k = c - 0x80"
  have abc: "a = 0xE0 + i" "b = 0x80 + j" "c = 0x80 + k" "i < 16" "j < 64" "k < 64"
    using assms(1-6) by (auto simp: i_def j_def k_def)
  have special: "i = 0 \<Longrightarrow> 32 \<le> j" "i = 13 \<Longrightarrow> j < 32" using assms(7,8) abc by auto
  let ?r = "(i * 64 + j) * 64 + k"
  have "a mod 16 = i" "b mod 64 = j" "c mod 64 = k"
    using abc mod_offset [of i 16 14] mod_offset [of j 64 2] mod_offset [of k 64 2] by simp_all
  then have r: "(a mod 16 * 64 + b mod 64) * 64 + c mod 64 = ?r" by simp
  have "\<not> ?r < 0x800" using abc special by (cases "i = 0") auto
  moreover have "\<not> (0xD800 \<le> ?r \<and> ?r \<le> 0xDFFF)" using abc special by (cases "i = 13") auto
  moreover have "?r < 0x10000" "?r div 4096 = i" using abc by auto
  moreover note base64_digits [OF abc(6), of "i * 64 + j"] base64_digits [OF abc(5), of i]
  ultimately have "EncodeRune ?r = [char_of (0xE0 + i), char_of (0x80 + j), char_of (0x80 + k)]" using EncodeRune_mid [of ?r] by metis
  then show ?thesis unfolding r by (simp only: abc(1-3))
qed

lemma EncodeRune_4:
  assumes "0xF0 \<le> a" "a \<le> 0xF4" "0x80 \<le> b" "b \<le> 0xBF" "0x80 \<le> c" "c \<le> 0xBF" "0x80 \<le> d" "d \<le> 0xBF"
    "a = 0xF0 \<Longrightarrow> 0x90 \<le> b" "a = 0xF4 \<Longrightarrow> b \<le> 0x8F"
  shows "EncodeRune (((a mod 8 * 64 + b mod 64) * 64 + c mod 64) * 64 + d mod 64) =
    [char_of a, char_of b, char_of c, char_of (d :: nat)]"
proof -
  define i j k m where "i = a - 0xF0" and "j = b - 0x80" and "k = c - 0x80" and "m = d - 0x80"
  have abc: "a = 0xF0 + i" "b = 0x80 + j" "c = 0x80 + k" "d = 0x80 + m" "i < 5" "j < 64" "k < 64" "m < 64"
    using assms(1-8) by (auto simp: i_def j_def k_def m_def)
  have special: "i = 0 \<Longrightarrow> 16 \<le> j" "i = 4 \<Longrightarrow> j < 16" using assms(9,10) abc by auto
  let ?s = "(i * 64 + j) * 64 + k"
  let ?r = "?s * 64 + m"
  have "a mod 8 = i" "b mod 64 = j" "c mod 64 = k" "d mod 64 = m"
    using abc mod_offset [of i 8 30] mod_offset [of j 64 2] mod_offset [of k 64 2] mod_offset [of m 64 2] by simp_all
  then have r: "((a mod 8 * 64 + b mod 64) * 64 + c mod 64) * 64 + d mod 64 = ?r" by simp
  have "\<not> ?r < 0x10000" using abc special by (cases "i = 0") auto
  moreover have "\<not> ?r > 0x10FFFF" using abc special by (cases "i = 4") auto
  moreover have "?r div 4096 = i * 64 + j" "?r div 262144 = i" using abc by auto
  moreover note base64_digits [OF abc(8), of ?s] base64_digits [OF abc(7), of "i * 64 + j"] base64_digits [OF abc(6), of i]
  ultimately show ?thesis unfolding r using abc by (simp add: EncodeRune_def Let_def)
qed

text \<open>Decoding and encoding a rune gives the bytes it was made of, or the replacement character.\<close>

lemma utf8_width_cases:
  assumes "utf8_width s = Some w"
  obtains (one) c r where "s = c # r" "w = 1" "of_char c < (0x80 :: nat)"
  | (two) c x r where "s = c # x # r" "w = 2" "between 0xC2 c 0xDF" "between 0x80 x 0xBF"
  | (three) c x y r where "s = c # x # y # r" "w = 3" "between 0xE0 c 0xEF" "between 0x80 y 0xBF"
      "between (if of_char c = (0xE0 :: nat) then 0xA0 else 0x80) x (if of_char c = (0xED :: nat) then 0x9F else 0xBF)"
  | (four) c x y z r where "s = c # x # y # z # r" "w = 4" "between 0xF0 c 0xF4" "between 0x80 y 0xBF" "between 0x80 z 0xBF"
      "between (if of_char c = (0xF0 :: nat) then 0x90 else 0x80) x (if of_char c = (0xF4 :: nat) then 0x8F else 0xBF)"
proof -
  have "between 0 c 0x7F \<longleftrightarrow> of_char c < (0x80 :: nat)" for c by (auto simp: between_def)
  with assms that show thesis
    unfolding utf8_width_def by (simp split: list.splits if_split_asm)
qed

lemma EncodeRune_DecodeRune:
  "EncodeRune (fst (DecodeRune s)) = (case utf8_width s of None \<Rightarrow> replacement | Some w \<Rightarrow> take w s)"
proof (cases "utf8_width s")
  case (Some w)
  from Some show ?thesis
  proof (cases rule: utf8_width_cases)
    case (one c r)
    with Some show ?thesis by (simp add: DecodeRune_def EncodeRune_1)
  next
    case (two c x r)
    with Some show ?thesis by (simp add: DecodeRune_def between_def EncodeRune_2)
  next
    case (three c x y r)
    then have "of_char c = (0xE0 :: nat) \<Longrightarrow> 0xA0 \<le> (of_char x :: nat)" "of_char c = (0xED :: nat) \<Longrightarrow> of_char x \<le> (0x9F :: nat)"
      "0x80 \<le> (of_char x :: nat)" "of_char x \<le> (0xBF :: nat)" by (auto simp: between_def split: if_splits)
    with three Some show ?thesis
      using EncodeRune_3 [of "of_char c" "of_char x" "of_char y"] by (simp add: DecodeRune_def between_def)
  next
    case (four c x y z r)
    then have "of_char c = (0xF0 :: nat) \<Longrightarrow> 0x90 \<le> (of_char x :: nat)" "of_char c = (0xF4 :: nat) \<Longrightarrow> of_char x \<le> (0x8F :: nat)"
      "0x80 \<le> (of_char x :: nat)" "of_char x \<le> (0xBF :: nat)" by (auto simp: between_def split: if_splits)
    with four Some show ?thesis
      using EncodeRune_4 [of "of_char c" "of_char x" "of_char y" "of_char z"] by (simp add: DecodeRune_def between_def)
  qed
qed (simp add: DecodeRune_def EncodeRune_error)

lemma utf8_width_bounds: "utf8_width s = Some w \<Longrightarrow> 1 \<le> w \<and> w \<le> length s"
  by (erule utf8_width_cases) auto

end
