(* ===== verification/Grpc_Util.thy ===== *)
theory Grpc_Util
  imports Go_Strings Frame_Types
begin

text \<open>
  The header values of gRPC (\<^verbatim>\<open>h2/http_util.go\<close>, \<^verbatim>\<open>h2/grpcutil/encode_duration.go\<close>): which headers are
  reserved, binary metadata, timeouts, percent-encoded messages, and the tables of status codes. Each
  pair of functions that writes and reads a value is shown to be a round trip.
\<close>

section \<open>Status codes\<close>

type_synonym Code = u32

definition Canceled :: Code where "Canceled = 1"
definition Unknown :: Code where "Unknown = 2"
definition DeadlineExceeded :: Code where "DeadlineExceeded = 4"
definition PermissionDenied :: Code where "PermissionDenied = 7"
definition ResourceExhausted :: Code where "ResourceExhausted = 8"
definition Unimplemented :: Code where "Unimplemented = 12"
definition Internal :: Code where "Internal = 13"
definition Unavailable :: Code where "Unavailable = 14"
definition Unauthenticated :: Code where "Unauthenticated = 16"

definition http2ErrConvTab :: "ErrCode \<rightharpoonup> Code" where
  "http2ErrConvTab = [ErrCodeNo \<mapsto> Internal, ErrCodeProtocol \<mapsto> Internal, ErrCodeInternal \<mapsto> Internal,
     ErrCodeFlowControl \<mapsto> ResourceExhausted, ErrCodeSettingsTimeout \<mapsto> Internal, ErrCodeStreamClosed \<mapsto> Internal,
     ErrCodeFrameSize \<mapsto> Internal, ErrCodeRefusedStream \<mapsto> Unavailable, ErrCodeCancel \<mapsto> Canceled,
     ErrCodeCompression \<mapsto> Internal, ErrCodeConnect \<mapsto> Internal, ErrCodeEnhanceYourCalm \<mapsto> ResourceExhausted,
     ErrCodeInadequateSecurity \<mapsto> PermissionDenied, ErrCodeHTTP11Required \<mapsto> Internal]"

definition HTTPStatusConvTab :: "int \<rightharpoonup> Code" where
  "HTTPStatusConvTab = [400 \<mapsto> Internal, 401 \<mapsto> Unauthenticated, 403 \<mapsto> PermissionDenied, 404 \<mapsto> Unimplemented,
     429 \<mapsto> Unavailable, 502 \<mapsto> Unavailable, 503 \<mapsto> Unavailable, 504 \<mapsto> Unavailable]"

section \<open>Reserved headers\<close>

definition isReservedHeader :: "string \<Rightarrow> bool" where
  "isReservedHeader hdr \<longleftrightarrow>
     (hdr \<noteq> [] \<and> hd hdr = CHR '':'') \<or>
     hdr \<in> set [''content-type'', ''user-agent'', ''grpc-message-type'', ''grpc-encoding'', ''grpc-message'',
       ''grpc-status'', ''grpc-timeout'', ''grpc-status-details-bin'', ''te'']"

text \<open>
  \<^verbatim>\<open>strings.ToLower\<close> on ASCII. The two words compared with have no letter that a character outside
  ASCII is mapped to.
\<close>

definition to_lower :: "char \<Rightarrow> char" where
  "to_lower c = (if 65 \<le> (of_char c :: nat) \<and> (of_char c :: nat) \<le> 90 then char_of (of_char c + 32 :: nat) else c)"

definition isReservedHeaderReq :: "string \<Rightarrow> bool" where
  "isReservedHeaderReq hdr \<longleftrightarrow>
     (hdr \<noteq> [] \<and> hd hdr = CHR '':'') \<or> map to_lower hdr \<in> set [''content-type'', ''te'']"

definition isWhitelistedHeader :: "string \<Rightarrow> bool" where
  "isWhitelistedHeader hdr \<longleftrightarrow> hdr \<in> set ['':authority'', ''user-agent'']"

section \<open>Binary metadata\<close>

definition binHdrSuffix :: string where "binHdrSuffix = ''-bin''"

definition HasSuffix :: "string \<Rightarrow> string \<Rightarrow> bool" where
  "HasSuffix s suf \<longleftrightarrow> length suf \<le> length s \<and> drop (length s - length suf) s = suf"

definition encodeBinHeader :: "string \<Rightarrow> string" where
  "encodeBinHeader v = encode64 v"

definition decodeBinHeader :: "string \<Rightarrow> string option" where
  "decodeBinHeader v = (if length v mod 4 = 0 then decode64 True v else decode64 False v)"

definition encodeMetadataHeader :: "string \<Rightarrow> string \<Rightarrow> string" where
  "encodeMetadataHeader k v = (if HasSuffix k binHdrSuffix then encodeBinHeader v else v)"

definition decodeMetadataHeader :: "string \<Rightarrow> string \<Rightarrow> string option" where
  "decodeMetadataHeader k v = (if HasSuffix k binHdrSuffix then decodeBinHeader v else Some v)"

section \<open>Timeouts\<close>

text \<open>A \<^verbatim>\<open>time.Duration\<close> is a number of nanoseconds in the range of an \<^verbatim>\<open>int64\<close>.\<close>

type_synonym Duration = int

definition wrap64 :: "int \<Rightarrow> int" where
  "wrap64 k = (k + 2 ^ 63) mod 2 ^ 64 - 2 ^ 63"

definition Nanosecond :: Duration where "Nanosecond = 1"
definition Microsecond :: Duration where "Microsecond = 1000 * Nanosecond"
definition Millisecond :: Duration where "Millisecond = 1000 * Microsecond"
definition Second :: Duration where "Second = 1000 * Millisecond"
definition Minute :: Duration where "Minute = 60 * Second"
definition Hour :: Duration where "Hour = 60 * Minute"

lemmas duration_defs = Nanosecond_def Microsecond_def Millisecond_def Second_def Minute_def Hour_def

definition timeoutUnitToDuration :: "char \<Rightarrow> Duration option" where
  "timeoutUnitToDuration u =
     (if u = CHR ''H'' then Some Hour
      else if u = CHR ''M'' then Some Minute
      else if u = CHR ''S'' then Some Second
      else if u = CHR ''m'' then Some Millisecond
      else if u = CHR ''u'' then Some Microsecond
      else if u = CHR ''n'' then Some Nanosecond
      else None)"

datatype timeout_error = TooShort | TooLong | UnknownUnit | BadNumber num_error

definition decodeTimeout :: "string \<Rightarrow> timeout_error + Duration" where
  "decodeTimeout s =
     (let n = length s in
      if n < 2 then Inl TooShort
      else if n > 9 then Inl TooLong
      else case timeoutUnitToDuration (s ! (n - 1)) of
        None \<Rightarrow> Inl UnknownUnit
      | Some d \<Rightarrow>
          (case ParseInt (take (n - 1) s) of
             Inl e \<Rightarrow> Inl (BadNumber e)
           | Inr t \<Rightarrow>
               let maxHours = (2 ^ 63 - 1) div Hour in
               if d = Hour \<and> t > maxHours then Inr (2 ^ 63 - 1)
               else Inr (wrap64 (d * t))))"

definition maxTimeoutValue :: int where "maxTimeoutValue = 100000000 - 1"

text \<open>Go's division truncates towards zero; the divisor is positive here.\<close>

definition div_up :: "Duration \<Rightarrow> Duration \<Rightarrow> int" where
  "div_up d r = (if sgn d * (\<bar>d\<bar> mod r) > 0 then sgn d * (\<bar>d\<bar> div r) + 1 else sgn d * (\<bar>d\<bar> div r))"

definition EncodeDuration :: "Duration \<Rightarrow> string" where
  "EncodeDuration t =
     (if t \<le> 0 then ''0n''
      else if div_up t Nanosecond \<le> maxTimeoutValue then FormatInt (nat (div_up t Nanosecond)) @ ''n''
      else if div_up t Microsecond \<le> maxTimeoutValue then FormatInt (nat (div_up t Microsecond)) @ ''u''
      else if div_up t Millisecond \<le> maxTimeoutValue then FormatInt (nat (div_up t Millisecond)) @ ''m''
      else if div_up t Second \<le> maxTimeoutValue then FormatInt (nat (div_up t Second)) @ ''S''
      else if div_up t Minute \<le> maxTimeoutValue then FormatInt (nat (div_up t Minute)) @ ''M''
      else FormatInt (nat (div_up t Hour)) @ ''H'')"

section \<open>Messages\<close>

definition plainByte :: "char \<Rightarrow> bool" where
  "plainByte c \<longleftrightarrow> 32 \<le> (of_char c :: nat) \<and> (of_char c :: nat) \<le> 126 \<and> c \<noteq> CHR ''%''"

definition hexDigit :: "nat \<Rightarrow> char" where
  "hexDigit n = ''0123456789ABCDEF'' ! n"

text \<open>\<^verbatim>\<open>fmt.Sprintf("%%%02X", b)\<close>.\<close>

definition escape :: "char \<Rightarrow> string" where
  "escape c = [CHR ''%'', hexDigit (of_char c div 16), hexDigit (of_char c mod 16)]"

definition encodeByte :: "nat \<Rightarrow> char \<Rightarrow> string" where
  "encodeByte w b = (if w > 1 then escape b else if plainByte b then [b] else escape b)"

lemma DecodeRune_width: "s \<noteq> [] \<Longrightarrow> 1 \<le> snd (DecodeRune s) \<and> snd (DecodeRune s) \<le> length s"
  using utf8_width_bounds [of s] by (cases s) (auto simp: DecodeRune_def split: option.splits)

function encodeGrpcMessageUnchecked :: "string \<Rightarrow> string" where
  "encodeGrpcMessageUnchecked msg =
     (if msg = [] then []
      else let (r, w) = DecodeRune msg
           in concat (map (encodeByte w) (EncodeRune r)) @ encodeGrpcMessageUnchecked (drop w msg))"
  by pat_completeness auto

termination
proof (relation "measure length")
  fix msg :: string and p and r w :: nat
  assume *: "msg \<noteq> []" "p = DecodeRune msg" "(r, w) = p"
  then have "1 \<le> w" using DecodeRune_width [of msg] by (metis snd_conv)
  with *(1) show "(drop w msg, msg) \<in> measure length" by (cases msg) auto
qed simp

declare encodeGrpcMessageUnchecked.simps [simp del]

definition encodeGrpcMessage :: "string \<Rightarrow> string" where
  "encodeGrpcMessage msg = (if list_all plainByte msg then msg else encodeGrpcMessageUnchecked msg)"

definition hexVal :: "char \<Rightarrow> nat option" where
  "hexVal c =
     (let n = of_char c in
      if 48 \<le> n \<and> n \<le> 57 then Some (n - 48)
      else if 65 \<le> n \<and> n \<le> 70 then Some (n - 55)
      else if 97 \<le> n \<and> n \<le> 102 then Some (n - 87)
      else None)"

text \<open>\<^verbatim>\<open>strconv.ParseUint\<close> of two characters, in base 16.\<close>

definition parseHex :: "char \<Rightarrow> char \<Rightarrow> char option" where
  "parseHex h l =
     (case (hexVal h, hexVal l) of (Some a, Some b) \<Rightarrow> Some (char_of (a * 16 + b)) | _ \<Rightarrow> None)"

fun decodeGrpcMessageUnchecked :: "string \<Rightarrow> string" where
  "decodeGrpcMessageUnchecked (c # h # l # r) =
     (if c = CHR ''%'' then
        (case parseHex h l of
           None \<Rightarrow> c # decodeGrpcMessageUnchecked (h # l # r)
         | Some b \<Rightarrow> b # decodeGrpcMessageUnchecked r)
      else c # decodeGrpcMessageUnchecked (h # l # r))"
| "decodeGrpcMessageUnchecked (c # cs) = c # decodeGrpcMessageUnchecked cs"
| "decodeGrpcMessageUnchecked [] = []"

text \<open>The test of the first loop: a percent sign with two more characters after it.\<close>

fun hasEscape :: "string \<Rightarrow> bool" where
  "hasEscape (c # cs) \<longleftrightarrow> c = CHR ''%'' \<and> length cs \<ge> 2 \<or> hasEscape cs"
| "hasEscape [] \<longleftrightarrow> False"

definition decodeGrpcMessage :: "string \<Rightarrow> string" where
  "decodeGrpcMessage msg = (if hasEscape msg then decodeGrpcMessageUnchecked msg else msg)"

section \<open>Metadata and timeouts round trip\<close>

text \<open>
  A metadata value that was encoded for a header is decoded to itself, whatever the key and the
  value, binary or not.
\<close>

lemma metadata_round_trip: "decodeMetadataHeader k (encodeMetadataHeader k v) = Some v"
  using decode64_encode64 [of True v] decode64_encode64 [of False v] length_encode64 [of v]
  by (simp add: encodeMetadataHeader_def decodeMetadataHeader_def encodeBinHeader_def decodeBinHeader_def)

lemma div_up_bounds:
  assumes "0 < t" "0 < r"
  shows "t \<le> div_up t r * r" "div_up t r * r < t + r" "0 < div_up t r"
proof -
  define q m where "q = t div r" and "m = t mod r"
  have t: "t = q * r + m" "0 \<le> m" "m < r" using assms(2) by (simp_all add: q_def m_def)
  have up: "div_up t r = (if 0 < m then q + 1 else q)" using assms(1) by (simp add: div_up_def q_def m_def)
  have "0 \<le> q" using assms by (simp add: q_def pos_imp_zdiv_nonneg_iff)
  moreover have "m = 0 \<Longrightarrow> q \<noteq> 0" using t assms(1) by auto
  ultimately show "t \<le> div_up t r * r" "div_up t r * r < t + r" "0 < div_up t r"
    unfolding up using t by (auto simp: distrib_right)
qed

lemma wrap64_id: "- (2 ^ 63) \<le> k \<Longrightarrow> k < 2 ^ 63 \<Longrightarrow> wrap64 k = k"
  by (simp add: wrap64_def)

text \<open>What \<^const>\<open>decodeTimeout\<close> makes of a number and a unit.\<close>

lemma decodeTimeout_number:
  assumes "timeoutUnitToDuration u = Some d" "0 < n" "n \<le> maxTimeoutValue"
  shows "decodeTimeout (FormatInt (nat n) @ [u]) =
    Inr (if d = Hour \<and> n > (2 ^ 63 - 1) div Hour then 2 ^ 63 - 1 else wrap64 (d * n))"
proof -
  have "nat n < 10 ^ 8" using assms(3) by (simp add: maxTimeoutValue_def)
  then have "length (FormatInt (nat n)) \<le> 8" using length_FormatInt [of 8] by simp
  moreover have "FormatInt (nat n) \<noteq> []" using FormatInt_first [of "nat n"] by auto
  moreover have "ParseInt (FormatInt (nat n)) = Inr n"
    using ParseInt_FormatInt [of "nat n"] assms(2,3) by (simp add: maxTimeoutValue_def)
  ultimately show ?thesis using assms(1) by (simp add: decodeTimeout_def Let_def nth_append Suc_le_eq)
qed

lemma small_unit_round_trip:
  assumes "timeoutUnitToDuration u = Some d" "0 < d" "d \<le> Minute" "0 < t" "div_up t d \<le> maxTimeoutValue"
  shows "\<exists>d'. decodeTimeout (FormatInt (nat (div_up t d)) @ [u]) = Inr d' \<and> t \<le> d' \<and> d' < t + d"
proof -
  note b = div_up_bounds [OF assms(4,2)]
  have "d * div_up t d \<le> Minute * maxTimeoutValue" using assms b(3) by (intro mult_mono) auto
  then have "wrap64 (d * div_up t d) = div_up t d * d"
    using b assms(2,4) by (subst wrap64_id) (auto simp: maxTimeoutValue_def duration_defs algebra_simps)
  moreover have "d \<noteq> Hour" using assms(3) by (auto simp: duration_defs)
  ultimately show ?thesis using decodeTimeout_number [OF assms(1) b(3) assms(5)] b by simp
qed

lemma hour_round_trip:
  assumes "0 < t" "t < 2 ^ 63"
  shows "\<exists>d'. decodeTimeout (FormatInt (nat (div_up t Hour)) @ ''H'') = Inr d' \<and> t \<le> d' \<and> d' < t + Hour"
proof -
  have h: "Hour = 3600000000000" by (simp add: duration_defs)
  note b = div_up_bounds [OF assms(1), of Hour, unfolded h, simplified]
  have "div_up t Hour \<le> maxTimeoutValue" using b(2) assms by (simp add: maxTimeoutValue_def h)
  from decodeTimeout_number [of "CHR ''H''" Hour, OF _ _ this] b(3)
  have d: "decodeTimeout (FormatInt (nat (div_up t Hour)) @ ''H'') =
      Inr (if div_up t Hour > 2562047 then 2 ^ 63 - 1 else wrap64 (Hour * div_up t Hour))"
    by (simp add: timeoutUnitToDuration_def h)
  show ?thesis
  proof (cases "div_up t Hour > 2562047")
    case True
    then show ?thesis using d b(2) assms(2) by (simp add: h)
  next
    case False
    then have "wrap64 (Hour * div_up t Hour) = Hour * div_up t Hour"
      using b(3) by (subst wrap64_id) (simp_all add: h)
    then show ?thesis using False d b(1,2) by (simp add: h)
  qed
qed

lemma div_up_large: "0 < t \<Longrightarrow> 0 < r \<Longrightarrow> \<not> div_up t r \<le> maxTimeoutValue \<Longrightarrow> 99999999 * r < t"
proof -
  assume *: "0 < t" "0 < r" "\<not> div_up t r \<le> maxTimeoutValue"
  then have "100000000 * r \<le> div_up t r * r" by (intro mult_right_mono) (auto simp: maxTimeoutValue_def)
  with div_up_bounds(2) [OF *(1,2)] show "99999999 * r < t" by linarith
qed

lemma encoded_timeout:
  assumes "t < 2 ^ 63"
  shows "\<exists>d. decodeTimeout (EncodeDuration t) = Inr d \<and> max 0 t \<le> d \<and> (d - max 0 t) * 99999 \<le> max 0 t"
proof (cases "0 < t")
  case False
  then show ?thesis
    by (simp add: EncodeDuration_def decodeTimeout_def timeoutUnitToDuration_def ParseInt_def parseUint_def digit_val_def
        wrap64_id duration_defs)
next
  case True
  have units: "timeoutUnitToDuration (CHR ''n'') = Some Nanosecond" "timeoutUnitToDuration (CHR ''u'') = Some Microsecond"
    "timeoutUnitToDuration (CHR ''m'') = Some Millisecond" "timeoutUnitToDuration (CHR ''S'') = Some Second"
    "timeoutUnitToDuration (CHR ''M'') = Some Minute" by (simp_all add: timeoutUnitToDuration_def)
  have vals: "Nanosecond = 1" "Microsecond = 1000" "Millisecond = 1000000" "Second = 1000000000" "Minute = 60000000000"
    "Hour = 3600000000000" by (simp_all add: duration_defs)
  have close: "\<exists>d'. x = Inr d' \<and> t \<le> d' \<and> (d' - t) * 99999 \<le> t"
    if "\<exists>d'. x = Inr d' \<and> t \<le> d' \<and> d' < t + r" "99999 * (r - 1) \<le> t" for x and r :: int
  proof -
    from that obtain d' where "x = Inr d'" "t \<le> d'" "d' - t \<le> r - 1" by auto
    moreover from this(3) have "(d' - t) * 99999 \<le> (r - 1) * 99999" by simp
    with that(2) have "(d' - t) * 99999 \<le> t" by simp
    ultimately show ?thesis by blast
  qed
  note small = close [OF small_unit_round_trip [OF units(1) _ _ True]] close [OF small_unit_round_trip [OF units(2) _ _ True]]
    close [OF small_unit_round_trip [OF units(3) _ _ True]] close [OF small_unit_round_trip [OF units(4) _ _ True]]
    close [OF small_unit_round_trip [OF units(5) _ _ True]] close [OF hour_round_trip [OF True assms]]
  have large: "\<not> div_up t 1 \<le> maxTimeoutValue \<Longrightarrow> 99899001 \<le> t" "\<not> div_up t 1000 \<le> maxTimeoutValue \<Longrightarrow> 99998900001 \<le> t"
    "\<not> div_up t 1000000 \<le> maxTimeoutValue \<Longrightarrow> 99998999900001 \<le> t"
    "\<not> div_up t 1000000000 \<le> maxTimeoutValue \<Longrightarrow> 5999939999900001 \<le> t"
    "\<not> div_up t 60000000000 \<le> maxTimeoutValue \<Longrightarrow> 359996399999900001 \<le> t"
    using div_up_large [OF True, of 1] div_up_large [OF True, of 1000] div_up_large [OF True, of 1000000]
      div_up_large [OF True, of 1000000000] div_up_large [OF True, of 60000000000] by auto
  have "max 0 t = t" "\<not> t \<le> 0" using True by auto
  then show ?thesis
    unfolding EncodeDuration_def using small large by (simp add: vals)
qed

text \<open>
  The \<^verbatim>\<open>grpc-timeout\<close> that a client writes is accepted by the server, which waits at least as long as
  the client and at most 0.001 percent longer. A timeout of the past becomes 0.
\<close>

theorem timeout_round_trip:
  assumes "t < 2 ^ 63"
  shows "\<exists>d. decodeTimeout (EncodeDuration t) = Inr d \<and> max 0 t \<le> d \<and> (d - max 0 t) * 99999 \<le> max 0 t"
  by (rule encoded_timeout [OF assms])

theorem timeout_round_trip_witness:
  "\<exists>d. decodeTimeout (EncodeDuration 100000000001) = Inr d \<and> 100000000001 \<le> d \<and> d \<le> 100001000012"
  using timeout_round_trip [of 100000000001] by auto

text \<open>
  A timeout header of the peer may be negative, against the specification of the header: the number is
  read with a sign, and a large negative number of hours even wraps around to a positive timeout of more
  than ten days.
\<close>

theorem negative_timeout_accepted:
  "decodeTimeout ''-5S'' = Inr (- 5 * Second) \<and> decodeTimeout ''-9999999H'' = Inr 893491747419103232 \<and>
   893491747419103232 > 10 * 24 * Hour"
  by (simp add: decodeTimeout_def timeoutUnitToDuration_def ParseInt_def parseUint_def digit_val_def wrap64_def duration_defs
      Let_def)

section \<open>Messages round trip\<close>

text \<open>The text with every byte that starts no valid UTF-8 encoding replaced by U+FFFD.\<close>

function to_valid :: "string \<Rightarrow> string" where
  "to_valid s =
     (if s = [] then []
      else case utf8_width s of
        None \<Rightarrow> replacement @ to_valid (tl s)
      | Some w \<Rightarrow> take w s @ to_valid (drop w s))"
  by pat_completeness auto

termination
  by (relation "measure length") (use utf8_width_bounds in fastforce)+

declare to_valid.simps [simp del]

function valid_utf8 :: "string \<Rightarrow> bool" where
  "valid_utf8 s \<longleftrightarrow>
     (s = [] \<or> (case utf8_width s of None \<Rightarrow> False | Some w \<Rightarrow> valid_utf8 (drop w s)))"
  by pat_completeness auto

termination
  by (relation "measure length") (use utf8_width_bounds in fastforce)+

declare valid_utf8.simps [simp del]

lemma to_valid_id: "valid_utf8 s \<Longrightarrow> to_valid s = s"
proof (induction s rule: valid_utf8.induct)
  case (1 s)
  show ?case
  proof (cases "s = []")
    case False
    then obtain w where "utf8_width s = Some w" "valid_utf8 (drop w s)"
      using 1(2) by (subst (asm) valid_utf8.simps) (auto split: option.splits)
    with 1(1) False show ?thesis by (subst to_valid.simps) simp
  qed (simp add: to_valid.simps)
qed

lemma plain_not_wide: "plainByte c \<Longrightarrow> utf8_width (c # s) = Some 1"
  by (simp add: utf8_width_def between_def plainByte_def)

lemma plain_to_valid: "list_all plainByte s \<Longrightarrow> to_valid s = s"
proof (induction s)
  case (Cons c s)
  then show ?case using plain_not_wide [of c s] by (subst to_valid.simps) simp
qed (simp add: to_valid.simps)

lemma parseHex_escape [simp]: "parseHex (hexDigit (of_char c div 16)) (hexDigit (of_char c mod 16)) = Some c"
proof -
  have "hexVal (hexDigit n) = Some n" if "n < 16" for n
  proof -
    have "list_all (\<lambda>n. hexVal (hexDigit n) = Some n) [0..<16]" by code_simp
    then show ?thesis using that by (simp add: list_all_iff del: upt_rec_numeral)
  qed
  moreover have "of_char c div 16 < (16 :: nat)" using nat_of_char_less_256 [of c] by linarith
  ultimately show ?thesis by (simp add: parseHex_def)
qed

lemma decode_escape [simp]: "decodeGrpcMessageUnchecked (escape c @ s) = c # decodeGrpcMessageUnchecked s"
  by (simp add: escape_def)

lemma decode_plain: "c \<noteq> CHR ''%'' \<Longrightarrow> decodeGrpcMessageUnchecked (c # s) = c # decodeGrpcMessageUnchecked s"
  by (cases s; cases "tl s") auto

lemma decode_encodeByte [simp]: "decodeGrpcMessageUnchecked (encodeByte w c @ s) = c # decodeGrpcMessageUnchecked s"
  by (simp add: encodeByte_def decode_plain plainByte_def)

lemma decode_encodeBytes: "decodeGrpcMessageUnchecked (concat (map (encodeByte w) cs) @ s) = cs @ decodeGrpcMessageUnchecked s"
  by (induction cs) simp_all

lemma decode_encode_unchecked: "decodeGrpcMessageUnchecked (encodeGrpcMessageUnchecked msg) = to_valid msg"
proof (induction msg rule: encodeGrpcMessageUnchecked.induct)
  case (1 msg)
  show ?case
  proof (cases "msg = []")
    case False
    obtain r w where rw: "DecodeRune msg = (r, w)" by fastforce
    with False 1 have IH: "decodeGrpcMessageUnchecked (encodeGrpcMessageUnchecked (drop w msg)) = to_valid (drop w msg)" by simp
    have "EncodeRune r = (case utf8_width msg of None \<Rightarrow> replacement | Some w \<Rightarrow> take w msg)"
      "w = (case utf8_width msg of None \<Rightarrow> 1 | Some w \<Rightarrow> w)"
      using EncodeRune_DecodeRune [of msg] rw False by (auto simp: DecodeRune_def split: option.splits)
    with False rw IH show ?thesis
      by (subst encodeGrpcMessageUnchecked.simps, subst to_valid.simps)
        (auto simp: decode_encodeBytes drop_Suc split: option.splits)
  qed (simp add: encodeGrpcMessageUnchecked.simps to_valid.simps)
qed

text \<open>The scan before decoding is only an optimisation.\<close>

lemma decodeGrpcMessage_unchecked: "decodeGrpcMessage msg = decodeGrpcMessageUnchecked msg"
proof -
  have "\<not> hasEscape msg \<Longrightarrow> decodeGrpcMessageUnchecked msg = msg"
    by (induction msg rule: decodeGrpcMessageUnchecked.induct) auto
  then show ?thesis by (simp add: decodeGrpcMessage_def)
qed

lemma decode_plain_list: "list_all plainByte s \<Longrightarrow> decodeGrpcMessageUnchecked s = s"
  by (induction s) (simp_all add: decode_plain plainByte_def)

definition printable :: "char \<Rightarrow> bool" where
  "printable c \<longleftrightarrow> 32 \<le> (of_char c :: nat) \<and> (of_char c :: nat) \<le> 126"

lemma encodeByte_printable: "list_all printable (encodeByte w c)"
proof -
  have "printable (hexDigit n)" if "n < 16" for n
  proof -
    have "list_all (\<lambda>n. printable (hexDigit n)) [0..<16]" by code_simp
    then show ?thesis using that by (simp add: list_all_iff del: upt_rec_numeral)
  qed
  moreover have "of_char c div 16 < (16 :: nat)" using nat_of_char_less_256 [of c] by linarith
  ultimately show ?thesis by (simp add: encodeByte_def escape_def plainByte_def printable_def)
qed

lemma encodeGrpcMessageUnchecked_printable: "list_all printable (encodeGrpcMessageUnchecked msg)"
proof (induction msg rule: encodeGrpcMessageUnchecked.induct)
  case (1 msg)
  then show ?case
    by (subst encodeGrpcMessageUnchecked.simps)
      (auto simp: list_all_iff split: prod.splits dest!: encodeByte_printable [unfolded list_all_iff, rule_format])
qed

text \<open>
  A status message survives its header: what the peer decodes is the message with every invalid byte
  replaced by U+FFFD, so that a valid UTF-8 text comes back as it was; and the header value consists of
  printable ASCII characters only.
\<close>

theorem grpc_message_round_trip:
  "decodeGrpcMessage (encodeGrpcMessage msg) = to_valid msg \<and> list_all printable (encodeGrpcMessage msg) \<and>
   (valid_utf8 msg \<longrightarrow> to_valid msg = msg)"
proof -
  have "list_all plainByte msg \<Longrightarrow> list_all printable msg" by (auto simp: list_all_iff plainByte_def printable_def)
  then show ?thesis
    using decode_encode_unchecked [of msg] plain_to_valid [of msg] decode_plain_list [of msg]
    by (simp add: decodeGrpcMessage_unchecked encodeGrpcMessage_def to_valid_id encodeGrpcMessageUnchecked_printable)
qed

text \<open>A text with an umlaut and a percent sign.\<close>

theorem grpc_message_round_trip_witness:
  "decodeGrpcMessage (encodeGrpcMessage (''5% '' @ [char_of (0xC3 :: nat), char_of (0xBC :: nat)])) =
     ''5% '' @ [char_of (0xC3 :: nat), char_of (0xBC :: nat)]"
proof -
  have "valid_utf8 (''5% '' @ [char_of (0xC3 :: nat), char_of (0xBC :: nat)])" by code_simp
  then show ?thesis using grpc_message_round_trip by metis
qed

end
