(* ===== verification/Requests.thy ===== *)
theory Requests
  imports Grpc_Util Hpack_Table
begin

text \<open>
  Requests and their header fields: \<^verbatim>\<open>CreateHeader\<close> (\<^verbatim>\<open>h2/h2_connection.go\<close>) writes the fields of a request, and
  the loop over the fields in \<^verbatim>\<open>operateAcceptHeaders\<close> (\<^verbatim>\<open>h2/h2_connection_server.go\<close>) reads them. Of
  \<^verbatim>\<open>net/http\<close> the model has what they use: the fields of a request, and headers with their canonical keys.
\<close>

section \<open>Headers of net/http\<close>

text \<open>A map from keys to their values, as a list of pairs with distinct keys.\<close>

type_synonym http_header = "(string \<times> string list) list"

definition to_upper :: "char \<Rightarrow> char" where
  "to_upper c = (if 97 \<le> (of_char c :: nat) \<and> (of_char c :: nat) \<le> 122 then char_of (of_char c - 32 :: nat) else c)"

text \<open>The bytes allowed in a header name (RFC 7230, tchar).\<close>

definition token_char :: "char \<Rightarrow> bool" where
  "token_char c \<longleftrightarrow>
     (let n = of_char c :: nat in
      48 \<le> n \<and> n \<le> 57 \<or> 65 \<le> n \<and> n \<le> 90 \<or> 97 \<le> n \<and> n \<le> 122) \<or> c \<in> set ''!#$%&*+-.^_`|~'' \<or> of_char c = (39 :: nat)"

fun canonical :: "bool \<Rightarrow> string \<Rightarrow> string" where
  "canonical up [] = []"
| "canonical up (c # cs) = (if up then to_upper c else to_lower c) # canonical (c = CHR ''-'') cs"

text \<open>\<^verbatim>\<open>textproto.CanonicalMIMEHeaderKey\<close>.\<close>

definition CanonicalKey :: "string \<Rightarrow> string" where
  "CanonicalKey k = (if list_all token_char k then canonical True k else k)"

fun header_append :: "string \<Rightarrow> string \<Rightarrow> http_header \<Rightarrow> http_header" where
  "header_append k v [] = [(k, [v])]"
| "header_append k v ((j, vs) # h) = (if j = k then (j, vs @ [v]) # h else (j, vs) # header_append k v h)"

definition header_Add :: "string \<Rightarrow> string \<Rightarrow> http_header \<Rightarrow> http_header" where
  "header_Add k v h = header_append (CanonicalKey k) v h"

definition header_Get :: "string \<Rightarrow> http_header \<Rightarrow> string" where
  "header_Get k h = (case map_of h (CanonicalKey k) of Some (v # vs) \<Rightarrow> v | _ \<Rightarrow> [])"

record Request =
  Method :: string
  URL_Path :: string
  URL_RawQuery :: string
  URL_Host :: string
  URL_Scheme :: string
  Host :: string
  ReqHeader :: http_header

section \<open>Writing a request\<close>

definition HasPrefix :: "string \<Rightarrow> string \<Rightarrow> bool" where
  "HasPrefix s pre \<longleftrightarrow> take (length pre) s = pre"

text \<open>
  The fields of the metadata, for the loops of \<^verbatim>\<open>CreateHeader\<close> and of \<^verbatim>\<open>appendHeaderFieldsFromMD\<close>. The keys
  are lower-cased; a key of an \<^verbatim>\<open>http.Header\<close> has no character outside ASCII.
\<close>

definition metadataFields :: "(string \<Rightarrow> bool) \<Rightarrow> http_header \<Rightarrow> HeaderField list" where
  "metadataFields reserved h =
     concat (map (\<lambda>(k, vs). if reserved k then [] else map (\<lambda>v. hf (map to_lower k) (encodeMetadataHeader k v)) vs) h)"

definition appendHeaderFieldsFromMD :: "HeaderField list \<Rightarrow> http_header \<Rightarrow> HeaderField list" where
  "appendHeaderFieldsFromMD flds md = flds @ metadataFields isReservedHeader md"

text \<open>
  \<open>timeout\<close>: the time until the deadline of the context, if it has one. \<open>ord\<close>: the order in which Go
  iterates over the header. A request of \<^verbatim>\<open>net/http\<close> always has a URL.
\<close>

definition CreateHeader :: "(http_header \<Rightarrow> http_header) \<Rightarrow> Duration option \<Rightarrow> Request \<Rightarrow> HeaderField list" where
  "CreateHeader ord timeout r =
     (let host = (if Host r = [] then URL_Host r else Host r);
          ct = header_Get ''content-type'' (ReqHeader r);
          protocol = header_Get '':protocol'' (ReqHeader r)
      in [hf '':authority'' host, hf '':method'' (Method r)]
         @ (if Method r \<noteq> ''CONNECT'' then [hf '':path'' (URL_Path r), hf '':scheme'' ''https'']
            else if protocol \<noteq> [] then [hf '':protocol'' protocol] else [])
         @ (if ct \<noteq> [] then
              hf ''content-type'' ct # (if HasPrefix ct ''application/grpc'' then [hf ''te'' ''trailers''] else [])
            else [])
         @ (case timeout of None \<Rightarrow> [] | Some d \<Rightarrow> [hf ''grpc-timeout'' (EncodeDuration d)])
         @ metadataFields isReservedHeaderReq (ord (ReqHeader r)))"

section \<open>Reading a request\<close>

record accepted_request =
  ar_req :: Request
  ar_grpc :: bool
  ar_headerError :: bool
  ar_timeout :: "Duration option"

definition new_request :: accepted_request where
  "new_request = \<lparr>ar_req = \<lparr>Method = ''POST'', URL_Path = ''/'', URL_RawQuery = [], URL_Host = [], URL_Scheme = ''https'',
     Host = [], ReqHeader = []\<rparr>, ar_grpc = False, ar_headerError = False, ar_timeout = None\<rparr>"

text \<open>\<^verbatim>\<open>strings.SplitN(s, "?", 2)\<close>: the part before the first question mark, and the part after it.\<close>

definition split_query :: "string \<Rightarrow> string \<times> string option" where
  "split_query s =
     (case dropWhile (\<lambda>c. c \<noteq> CHR ''?'') s of
        [] \<Rightarrow> (s, None)
      | q # rest \<Rightarrow> (takeWhile (\<lambda>c. c \<noteq> CHR ''?'') s, Some rest))"

definition add_header :: "string \<Rightarrow> string \<Rightarrow> Request \<Rightarrow> Request" where
  "add_header k v r = r\<lparr>ReqHeader := header_Add k v (ReqHeader r)\<rparr>"

definition set_host :: "string \<Rightarrow> Request \<Rightarrow> Request" where
  "set_host v r = r\<lparr>Host := v, URL_Host := v\<rparr>"

definition acceptField :: "HeaderField \<Rightarrow> accepted_request \<Rightarrow> accepted_request" where
  "acceptField f a =
     (let n = Name f; v = Value f; r = ar_req a in
      if n = ''content-type'' then
        a\<lparr>ar_req := add_header n v r, ar_grpc := ar_grpc a \<or> HasPrefix v ''application/grpc''\<rparr>
      else if n = '':method'' then a\<lparr>ar_req := r\<lparr>Method := v\<rparr>\<rparr>
      else if n = '':path'' then
        (let (p, q) = split_query v
         in a\<lparr>ar_req := (case q of None \<Rightarrow> r\<lparr>URL_Path := p\<rparr> | Some x \<Rightarrow> r\<lparr>URL_Path := p, URL_RawQuery := x\<rparr>)\<rparr>)
      else if n = '':authority'' then a\<lparr>ar_req := set_host v r\<rparr>
      else if n = '':scheme'' then a\<lparr>ar_req := r\<lparr>URL_Scheme := v\<rparr>\<rparr>
      else if n = ''host'' then a\<lparr>ar_req := set_host v r\<rparr>
      else if n = ''grpc-timeout'' then
        (case decodeTimeout v of
           Inl e \<Rightarrow> a\<lparr>ar_timeout := Some 0, ar_headerError := True\<rparr>
         | Inr d \<Rightarrow> a\<lparr>ar_timeout := Some d\<rparr>)
      else
        (case decodeMetadataHeader n v of
           None \<Rightarrow> a\<lparr>ar_headerError := True\<rparr>
         | Some x \<Rightarrow> a\<lparr>ar_req := add_header n x r\<rparr>))"

definition acceptFields :: "HeaderField list \<Rightarrow> accepted_request" where
  "acceptFields fs = fold acceptField fs new_request"

section \<open>What the server reads is what the client wrote\<close>

text \<open>
  Headers as \<^verbatim>\<open>net/http\<close> keeps them: canonical keys, each with a value. Not covered are the keys with a
  meaning of their own, and those of binary metadata.
\<close>

definition entry_ok :: "string \<times> string list \<Rightarrow> bool" where
  "entry_ok e \<longleftrightarrow>
     (let k = fst e; l = map to_lower k in
      list_all token_char k \<and> CanonicalKey l = k \<and> snd e \<noteq> [] \<and> \<not> HasSuffix l binHdrSuffix \<and>
      l \<notin> set [''te'', ''host'', ''grpc-timeout''] \<and> (l = ''content-type'' \<longrightarrow> length (snd e) = 1 \<and> hd (snd e) \<noteq> []))"

definition header_ok :: "http_header \<Rightarrow> bool" where
  "header_ok h \<longleftrightarrow> distinct (map fst h) \<and> list_all entry_ok h"

lemma to_lower_simps [simp]: "to_lower CHR ''-'' = CHR ''-''" "to_lower CHR ''b'' = CHR ''b''" "to_lower CHR ''i'' = CHR ''i''"
    "to_lower CHR ''n'' = CHR ''n''"
  by (simp_all add: to_lower_def)

lemma HasSuffix_lower: "HasSuffix k binHdrSuffix \<Longrightarrow> HasSuffix (map to_lower k) binHdrSuffix"
  by (simp add: HasSuffix_def binHdrSuffix_def drop_map)

lemma token_not_colon: "list_all token_char k \<Longrightarrow> k \<noteq> [] \<Longrightarrow> hd k \<noteq> CHR '':''"
  by (cases k) (auto simp: token_char_def)

lemma lower_colon: "map to_lower k = c # cs \<Longrightarrow> c = CHR '':'' \<Longrightarrow> hd k = CHR '':''"
proof -
  assume a: "map to_lower k = c # cs" "c = CHR '':''"
  then obtain d ds where k: "k = d # ds" "to_lower d = CHR '':''" by auto
  then have c: "(of_char (to_lower d) :: nat) = 58" by simp
  have "\<not> (65 \<le> (of_char d :: nat) \<and> (of_char d :: nat) \<le> 90)"
  proof
    assume d: "65 \<le> (of_char d :: nat) \<and> (of_char d :: nat) \<le> 90"
    then have "(of_char (to_lower d) :: nat) = of_char d + 32" by (simp add: to_lower_def of_char_of)
    with c d show False by simp
  qed
  then have "d = CHR '':''" using k(2) by (auto simp: to_lower_def)
  with k show ?thesis by simp
qed

text \<open>A field of ordinary metadata is added under the key it came from.\<close>

lemma acceptField_metadata:
  assumes "entry_ok (k, vs)" "\<not> isReservedHeaderReq k"
  shows "acceptField (hf (map to_lower k) (encodeMetadataHeader k v)) a =
    a\<lparr>ar_req := (ar_req a)\<lparr>ReqHeader := header_append k v (ReqHeader (ar_req a))\<rparr>\<rparr>"
proof -
  have k: "list_all token_char k" "CanonicalKey (map to_lower k) = k" "\<not> HasSuffix (map to_lower k) binHdrSuffix"
      "map to_lower k \<notin> set [''te'', ''host'', ''grpc-timeout'']"
    using assms(1) by (simp_all add: entry_ok_def Let_def)
  have "map to_lower k \<noteq> ''content-type''" using assms(2) by (simp add: isReservedHeaderReq_def)
  moreover have "map to_lower k \<noteq> CHR '':'' # cs" for cs
    using lower_colon [of k "CHR '':''" cs] token_not_colon [OF k(1)] by (cases k) auto
  moreover have "encodeMetadataHeader k v = v" using k(3) HasSuffix_lower by (auto simp: encodeMetadataHeader_def)
  ultimately show ?thesis
    using k by (simp add: acceptField_def Let_def decodeMetadataHeader_def add_header_def header_Add_def)
qed

lemma header_append_new: "k \<notin> fst ` set h \<Longrightarrow> header_append k v h = h @ [(k, [v])]"
  by (induction k v h rule: header_append.induct) auto

lemma header_append_last: "k \<notin> fst ` set h \<Longrightarrow> header_append k v (h @ [(k, vs)]) = h @ [(k, vs @ [v])]"
  by (induction k v h rule: header_append.induct) auto

lemma accept_more_values:
  assumes "entry_ok (k, ws)" "\<not> isReservedHeaderReq k" "k \<notin> fst ` set h" "ReqHeader (ar_req a) = h @ [(k, us)]"
  shows "fold acceptField (map (\<lambda>v. hf (map to_lower k) (encodeMetadataHeader k v)) vs) a =
    a\<lparr>ar_req := (ar_req a)\<lparr>ReqHeader := h @ [(k, us @ vs)]\<rparr>\<rparr>"
  using assms(4)
proof (induction vs arbitrary: us a)
  case (Cons v vs)
  have "acceptField (hf (map to_lower k) (encodeMetadataHeader k v)) a = a\<lparr>ar_req := (ar_req a)\<lparr>ReqHeader := h @ [(k, us @ [v])]\<rparr>\<rparr>"
    using Cons.prems assms(3) by (simp add: acceptField_metadata [OF assms(1,2)] header_append_last)
  with Cons.IH [of "a\<lparr>ar_req := (ar_req a)\<lparr>ReqHeader := h @ [(k, us @ [v])]\<rparr>\<rparr>" "us @ [v]"] show ?case by simp
qed simp

lemma accept_entry:
  assumes "entry_ok (k, vs)" "\<not> isReservedHeaderReq k" "k \<notin> fst ` set (ReqHeader (ar_req a))"
  shows "fold acceptField (map (\<lambda>v. hf (map to_lower k) (encodeMetadataHeader k v)) vs) a =
    a\<lparr>ar_req := (ar_req a)\<lparr>ReqHeader := ReqHeader (ar_req a) @ [(k, vs)]\<rparr>\<rparr>"
proof (cases vs)
  case Nil
  then show ?thesis using assms(1) by (simp add: entry_ok_def)
next
  case (Cons u us)
  let ?a = "a\<lparr>ar_req := (ar_req a)\<lparr>ReqHeader := ReqHeader (ar_req a) @ [(k, [u])]\<rparr>\<rparr>"
  have "acceptField (hf (map to_lower k) (encodeMetadataHeader k u)) a = ?a"
    using assms(3) by (simp add: acceptField_metadata [OF assms(1,2)] header_append_new)
  with accept_more_values [OF assms(1,2,3), of ?a "[u]" us] Cons show ?thesis by simp
qed

lemma accept_metadata:
  assumes "list_all entry_ok h" "distinct (map fst h)" "\<forall>e \<in> set h. \<not> isReservedHeaderReq (fst e) \<longrightarrow> fst e \<notin> fst ` set (ReqHeader (ar_req a))"
  shows "fold acceptField (metadataFields isReservedHeaderReq h) a =
    a\<lparr>ar_req := (ar_req a)\<lparr>ReqHeader := ReqHeader (ar_req a) @ filter (\<lambda>e. \<not> isReservedHeaderReq (fst e)) h\<rparr>\<rparr>"
  using assms
proof (induction h arbitrary: a)
  case (Cons e h)
  obtain k vs where e: "e = (k, vs)" by fastforce
  show ?case
  proof (cases "isReservedHeaderReq k")
    case True
    with Cons e show ?thesis by (simp add: metadataFields_def)
  next
    case False
    let ?a = "a\<lparr>ar_req := (ar_req a)\<lparr>ReqHeader := ReqHeader (ar_req a) @ [(k, vs)]\<rparr>\<rparr>"
    have "fold acceptField (map (\<lambda>v. hf (map to_lower k) (encodeMetadataHeader k v)) vs) a = ?a"
      using Cons.prems e False by (intro accept_entry) auto
    moreover have "fold acceptField (metadataFields isReservedHeaderReq h) ?a =
        ?a\<lparr>ar_req := (ar_req ?a)\<lparr>ReqHeader := ReqHeader (ar_req ?a) @ filter (\<lambda>e. \<not> isReservedHeaderReq (fst e)) h\<rparr>\<rparr>"
      using Cons.prems e False by (intro Cons.IH) auto
    ultimately show ?thesis using e False by (simp add: metadataFields_def)
  qed
qed (simp add: metadataFields_def)

text \<open>The fields before the metadata.\<close>

lemma accept_simps [simp]:
  "acceptField (hf '':authority'' v) a = a\<lparr>ar_req := set_host v (ar_req a)\<rparr>"
  "acceptField (hf '':method'' v) a = a\<lparr>ar_req := (ar_req a)\<lparr>Method := v\<rparr>\<rparr>"
  "acceptField (hf '':scheme'' v) a = a\<lparr>ar_req := (ar_req a)\<lparr>URL_Scheme := v\<rparr>\<rparr>"
  "acceptField (hf ''content-type'' v) a =
     a\<lparr>ar_req := add_header ''content-type'' v (ar_req a), ar_grpc := ar_grpc a \<or> HasPrefix v ''application/grpc''\<rparr>"
  "acceptField (hf ''te'' v) a = a\<lparr>ar_req := add_header ''te'' v (ar_req a)\<rparr>"
  by (simp_all add: acceptField_def Let_def decodeMetadataHeader_def HasSuffix_def binHdrSuffix_def)

lemma accept_path: "CHR ''?'' \<notin> set v \<Longrightarrow> acceptField (hf '':path'' v) a = a\<lparr>ar_req := (ar_req a)\<lparr>URL_Path := v\<rparr>\<rparr>"
proof -
  assume "CHR ''?'' \<notin> set v"
  then have "split_query v = (v, None)"
    using dropWhile_eq_Nil_conv [of "\<lambda>c. c \<noteq> CHR ''?''" v] by (metis (mono_tags, lifting) list.case(1) split_query_def)
  then show ?thesis by (simp add: acceptField_def)
qed

lemma accept_timeout: "d < 2 ^ 63 \<Longrightarrow>
    \<exists>d'. acceptField (hf ''grpc-timeout'' (EncodeDuration d)) a = a\<lparr>ar_timeout := Some d'\<rparr> \<and> decodeTimeout (EncodeDuration d) = Inr d'"
  using encoded_timeout [of d] by (auto simp: acceptField_def)

lemma lower_keys: "map to_lower ''Content-Type'' = ''content-type''" "map to_lower ''Te'' = ''te''"
  by code_simp+

lemma canonical_keys: "CanonicalKey ''content-type'' = ''Content-Type''" "CanonicalKey ''te'' = ''Te''"
    "CanonicalKey '':protocol'' = '':protocol''"
  by code_simp+

definition pseudoFields :: "Request \<Rightarrow> HeaderField list" where
  "pseudoFields r = [hf '':authority'' (if Host r = [] then URL_Host r else Host r), hf '':method'' (Method r)]
     @ (if Method r \<noteq> ''CONNECT'' then [hf '':path'' (URL_Path r), hf '':scheme'' ''https''] else [])"

definition contentFields :: "string \<Rightarrow> HeaderField list" where
  "contentFields ct = (if ct \<noteq> [] then
     hf ''content-type'' ct # (if HasPrefix ct ''application/grpc'' then [hf ''te'' ''trailers''] else []) else [])"

definition contentHeader :: "string \<Rightarrow> http_header" where
  "contentHeader ct = (if ct \<noteq> [] then
     (''Content-Type'', [ct]) # (if HasPrefix ct ''application/grpc'' then [(''Te'', [''trailers''])] else []) else [])"

lemma accept_pseudo:
  assumes "CHR ''?'' \<notin> set (URL_Path r)"
  shows "\<exists>q. fold acceptField (pseudoFields r) new_request = new_request\<lparr>ar_req := q\<rparr> \<and> Method q = Method r \<and>
    Host q = (if Host r = [] then URL_Host r else Host r) \<and> URL_RawQuery q = [] \<and> ReqHeader q = [] \<and>
    URL_Path q = (if Method r = ''CONNECT'' then ''/'' else URL_Path r)"
  using assms by (simp add: pseudoFields_def accept_path set_host_def new_request_def)

lemma accept_content:
  assumes "ReqHeader (ar_req a) = []"
  shows "\<exists>g. fold acceptField (contentFields ct) a = a\<lparr>ar_req := (ar_req a)\<lparr>ReqHeader := contentHeader ct\<rparr>, ar_grpc := g\<rparr>"
proof (cases "ct = []")
  case True
  have "ar_req a\<lparr>ReqHeader := []\<rparr> = ar_req a" using assms by (intro Request.equality) simp_all
  with True show ?thesis by (auto simp: contentFields_def contentHeader_def intro!: exI [of _ "ar_grpc a"] accepted_request.equality)
next
  case False
  then show ?thesis
    using assms by (auto simp: contentFields_def contentHeader_def add_header_def header_Add_def canonical_keys
        intro!: exI [of _ "ar_grpc a \<or> HasPrefix ct ''application/grpc''"] accepted_request.equality)
qed

lemma accept_deadline:
  assumes "\<forall>d. timeout = Some d \<longrightarrow> d < 2 ^ 63"
  shows "\<exists>x. fold acceptField (case timeout of None \<Rightarrow> [] | Some d \<Rightarrow> [hf ''grpc-timeout'' (EncodeDuration d)]) a = a\<lparr>ar_timeout := x\<rparr> \<and>
    (\<forall>d. timeout = Some d \<longrightarrow> (\<exists>d'. x = Some d' \<and> decodeTimeout (EncodeDuration d) = Inr d'))"
  using assms accept_timeout [of "the timeout" a] by (cases timeout) (auto intro: exI [of _ "ar_timeout a"])

lemma reserved_entry: "entry_ok e \<Longrightarrow> isReservedHeaderReq (fst e) \<longleftrightarrow> fst e = ''Content-Type''"
proof -
  assume e: "entry_ok e"
  have "fst e \<noteq> [] \<Longrightarrow> hd (fst e) \<noteq> CHR '':''" using e token_not_colon by (auto simp: entry_ok_def Let_def)
  moreover have "map to_lower (fst e) = ''content-type'' \<longleftrightarrow> fst e = ''Content-Type''"
  proof
    assume "map to_lower (fst e) = ''content-type''"
    then show "fst e = ''Content-Type''" using e canonical_keys(1) by (metis entry_ok_def)
  qed (simp only: lower_keys)
  moreover have "map to_lower (fst e) \<noteq> ''te''" using e by (simp add: entry_ok_def Let_def)
  ultimately show ?thesis unfolding isReservedHeaderReq_def by auto
qed

lemma content_type_entry:
  assumes "header_ok h"
  shows "map_of h ''Content-Type'' = (let ct = header_Get ''content-type'' h in if ct = [] then None else Some [ct])"
proof (cases "map_of h ''Content-Type''")
  case (Some vs)
  then have "entry_ok (''Content-Type'', vs)" using assms by (auto simp: header_ok_def list_all_iff dest: map_of_SomeD)
  then have "length vs = 1 \<and> hd vs \<noteq> []" using lower_keys(1) by (simp add: entry_ok_def Let_def)
  with Some show ?thesis by (cases vs) (auto simp: header_Get_def canonical_keys)
qed (simp add: header_Get_def canonical_keys)

lemma no_protocol: "header_ok h \<Longrightarrow> header_Get '':protocol'' h = []"
proof -
  assume h: "header_ok h"
  have "\<not> entry_ok ('':protocol'', vs)" for vs by (simp add: entry_ok_def token_char_def)
  moreover have "entry_ok ('':protocol'', vs)" if "map_of h '':protocol'' = Some vs" for vs
    using h map_of_SomeD [OF that] by (simp add: header_ok_def list_all_iff)
  ultimately have "map_of h '':protocol'' = None" by (cases "map_of h '':protocol''") auto
  then show ?thesis by (simp add: header_Get_def canonical_keys)
qed

lemma map_of_rest:
  assumes "header_ok h" "set h' = set h" "distinct (map fst h')" "k \<noteq> ''Content-Type''"
  shows "map_of (filter (\<lambda>e. \<not> isReservedHeaderReq (fst e)) h') k = map_of h k"
proof -
  have "filter (\<lambda>e. \<not> isReservedHeaderReq (fst e)) h' = filter (\<lambda>e. fst e \<noteq> ''Content-Type'') h'"
    using assms(1,2) by (intro filter_cong) (auto simp: header_ok_def list_all_iff reserved_entry)
  moreover have "map_of (filter (\<lambda>e. fst e \<noteq> ''Content-Type'') h') k = map_of h' k"
    using assms(4) by (induction h') auto
  moreover have "map_of h' k = map_of h k"
    using assms(1-3) map_of_eq_Some_iff [of h' k] map_of_eq_Some_iff [of h k] by (cases "map_of h k"; cases "map_of h' k") (auto simp: header_ok_def)
  ultimately show ?thesis by simp
qed


definition example_request :: Request where
  "example_request = \<lparr>Method = ''GET'', URL_Path = ''/a'', URL_RawQuery = ''q=1'', URL_Host = ''h'', URL_Scheme = ''https'', Host = [],
     ReqHeader = [(''X-A'', [''1'', ''2'']), (''Content-Type'', [''application/grpc''])]\<rparr>"


lemma bin_key: "CanonicalKey ''trace-bin'' = ''Trace-Bin''" "map to_lower ''Trace-Bin'' = ''trace-bin''"
    "HasSuffix ''Trace-Bin'' binHdrSuffix = False" "HasSuffix ''trace-bin'' binHdrSuffix = True" "isReservedHeaderReq ''Trace-Bin'' = False"
  by code_simp+

lemma accept_bin: "acceptField (hf ''trace-bin'' v) a =
    (case decodeBinHeader v of None \<Rightarrow> a\<lparr>ar_headerError := True\<rparr> | Some x \<Rightarrow> a\<lparr>ar_req := add_header ''trace-bin'' x (ar_req a)\<rparr>)"
  using bin_key(4) by (simp add: acceptField_def decodeMetadataHeader_def)

lemma accept_any_path: "\<exists>q. acceptField (hf '':path'' p) a = a\<lparr>ar_req := q\<rparr> \<and> ReqHeader q = ReqHeader (ar_req a)"
proof -
  obtain u x where "split_query p = (u, x)" by fastforce
  then show ?thesis by (cases x) (auto simp: acceptField_def Let_def)
qed

text \<open>
  Binary metadata does not survive a request: the client looks for the suffix in the canonical key,
  where it is written differently, and sends the value as it is; the server sees the suffix in the
  lower-case name and decodes the value, which makes it another value, or refuses the request.
\<close>

theorem binary_request_header_broken:
  "case decodeBinHeader v of
     None \<Rightarrow> ar_headerError (acceptFields (CreateHeader (\<lambda>h. h) None (r\<lparr>ReqHeader := header_Add ''trace-bin'' v []\<rparr>)))
   | Some x \<Rightarrow> map_of (ReqHeader (ar_req (acceptFields (CreateHeader (\<lambda>h. h) None
       (r\<lparr>ReqHeader := header_Add ''trace-bin'' v []\<rparr>))))) ''Trace-Bin'' = Some [x]"
proof -
  let ?r = "r\<lparr>ReqHeader := header_Add ''trace-bin'' v []\<rparr>"
  have h: "header_Add ''trace-bin'' v [] = [(''Trace-Bin'', [v])]" by (simp only: header_Add_def bin_key header_append.simps)
  have m: "metadataFields isReservedHeaderReq [(''Trace-Bin'', [v])] = [hf ''trace-bin'' v]"
    using bin_key by (simp add: metadataFields_def encodeMetadataHeader_def)
  have "CreateHeader (\<lambda>h. h) None ?r = pseudoFields ?r @ [hf ''trace-bin'' v]"
    by (simp add: CreateHeader_def pseudoFields_def h m header_Get_def canonical_keys Let_def)
  moreover obtain q where q: "fold acceptField (pseudoFields ?r) new_request = new_request\<lparr>ar_req := q\<rparr>" "ReqHeader q = []"
  proof (cases "Method r = ''CONNECT''")
    case True
    then show ?thesis using that by (simp add: pseudoFields_def new_request_def set_host_def)
  next
    case False
    let ?b = "new_request\<lparr>ar_req := (set_host (if Host r = [] then URL_Host r else Host r) (ar_req new_request))\<lparr>Method := Method r\<rparr>\<rparr>"
    obtain q where "acceptField (hf '':path'' (URL_Path r)) ?b = ?b\<lparr>ar_req := q\<rparr>" "ReqHeader q = []"
      using accept_any_path [of "URL_Path r" ?b] by (auto simp: set_host_def new_request_def)
    then have "fold acceptField (pseudoFields ?r) new_request = new_request\<lparr>ar_req := q\<lparr>URL_Scheme := ''https''\<rparr>\<rparr>"
      using False by (cases "Host r = []") (simp_all add: pseudoFields_def)
    then show ?thesis using that \<open>ReqHeader q = []\<close> by simp
  qed
  ultimately show ?thesis
    using bin_key(1) by (auto simp: acceptFields_def accept_bin add_header_def header_Add_def split: option.splits)
qed

end
