(* ===== verification/Event_Hooks.thy ===== *)
theory Event_Hooks
  imports H2_Prelude
begin

text \<open>
  The event hooks of a connection (\<^verbatim>\<open>h2/events.go\<close>): a table with one slot per kind of event. A handler of
  the application is a number; what a dispatch does is the list of the handlers it calls, each with the
  event it is given.
\<close>

section \<open>Kinds of events\<close>

type_synonym EventType = int

definition Event_Unknown :: EventType where "Event_Unknown = 0"
definition Event_Connect_Start :: EventType where "Event_Connect_Start = 1"
definition Event_Connect_Done :: EventType where "Event_Connect_Done = 2"
definition Event_Settings :: EventType where "Event_Settings = 3"
definition Event_GoAway :: EventType where "Event_GoAway = 4"
definition Event_ConnClose :: EventType where "Event_ConnClose = 5"
definition Event_Response :: EventType where "Event_Response = 6"
definition EventStreamRequestStart :: EventType where "EventStreamRequestStart = 7"
definition EventStreamStart :: EventType where "EventStreamStart = 8"
definition Event_WroteHeaders :: EventType where "Event_WroteHeaders = 9"
definition EventGotFirstResponseByte :: EventType where "EventGotFirstResponseByte = 10"
definition EventSendDone :: EventType where "EventSendDone = 11"
definition EventReceiveDone :: EventType where "EventReceiveDone = 12"
definition EventStreamClosed :: EventType where "EventStreamClosed = 13"
definition Event_FrameReceived :: EventType where "Event_FrameReceived = 14"
definition Event_FrameSent :: EventType where "Event_FrameSent = 15"
definition EventLAST :: EventType where "EventLAST = 16"

section \<open>Handlers\<close>

datatype EventHandler = EventHandlerFunc nat | eventChain "EventHandler list"

fun HandleEvent :: "EventType \<Rightarrow> EventHandler \<Rightarrow> (nat \<times> EventType) list" where
  "HandleEvent evt (EventHandlerFunc f) = [(f, evt)]"
| "HandleEvent evt (eventChain hs) = concat (map (HandleEvent evt) hs)"

text \<open>The table is a slice, nil before the first use. An index out of its range panics.\<close>

record Events =
  eventHandlers :: "EventHandler option list option"

definition slot :: "EventHandler option list \<Rightarrow> EventType \<Rightarrow> string + EventHandler option" where
  "slot hs t = (if 0 \<le> t \<and> t < int (length hs) then Inr (hs ! nat t) else Inl ''index out of range'')"

definition GetHandler :: "EventType \<Rightarrow> Events \<Rightarrow> string + EventHandler option" where
  "GetHandler t e = (case eventHandlers e of None \<Rightarrow> Inr None | Some hs \<Rightarrow> slot hs t)"

text \<open>
  The type assertion on a chain copies it, so that the handler appended to it is in the copy only:
  the table stays as it is.
\<close>

definition OnEvent :: "EventType \<Rightarrow> EventHandler option \<Rightarrow> Events \<Rightarrow> string + Events" where
  "OnEvent t eh s =
     (if t > EventLAST then Inr s
      else
        let hs = (case eventHandlers s of None \<Rightarrow> replicate (nat EventLAST) None | Some hs \<Rightarrow> hs);
            s1 = s\<lparr>eventHandlers := Some hs\<rparr>
        in case eh of
          None \<Rightarrow> Inr s1
        | Some h \<Rightarrow>
            and_then (slot hs t) (\<lambda>oeh.
              case oeh of
                None \<Rightarrow> Inr (s1\<lparr>eventHandlers := Some (hs[nat t := Some h])\<rparr>)
              | Some (eventChain chain) \<Rightarrow> Inr s1
              | Some (EventHandlerFunc f) \<Rightarrow>
                  Inr (s1\<lparr>eventHandlers := Some (hs[nat t := Some (eventChain [EventHandlerFunc f, h])])\<rparr>)))"

fun addFrom :: "nat \<Rightarrow> EventHandler option list \<Rightarrow> Events \<Rightarrow> string + Events" where
  "addFrom i [] e = Inr e"
| "addFrom i (eh # ehs) e = and_then (OnEvent (int i) eh e) (addFrom (Suc i) ehs)"

definition Add :: "Events \<Rightarrow> Events \<Rightarrow> string + Events" where
  "Add events e = (case eventHandlers events of None \<Rightarrow> Inr e | Some ehs \<Rightarrow> addFrom 0 ehs e)"

text \<open>\<^verbatim>\<open>MuxEvent\<close> and \<^verbatim>\<open>streamEvent\<close> differ in the arguments of the handler only.\<close>

definition MuxEvent :: "EventType \<Rightarrow> Events \<Rightarrow> string + (nat \<times> EventType) list" where
  "MuxEvent t e =
     and_then (GetHandler t e) (\<lambda>eh. case eh of None \<Rightarrow> Inr [] | Some h \<Rightarrow> Inr (HandleEvent t h))"

definition streamEvent :: "EventType \<Rightarrow> Events \<Rightarrow> string + (nat \<times> EventType) list" where
  "streamEvent t e =
     and_then (GetHandler t e) (\<lambda>eh. case eh of None \<Rightarrow> Inr [] | Some h \<Rightarrow> Inr (HandleEvent t h))"

section \<open>Dispatch\<close>

fun register :: "(EventType \<times> nat) list \<Rightarrow> Events \<Rightarrow> string + Events" where
  "register [] e = Inr e"
| "register ((t, f) # rs) e = and_then (OnEvent t (Some (EventHandlerFunc f)) e) (register rs)"

definition registered :: "EventType \<Rightarrow> (EventType \<times> nat) list \<Rightarrow> nat list" where
  "registered t rs = map snd (filter (\<lambda>r. fst r = t) rs)"

text \<open>What a slot holds after its handlers were registered one after the other.\<close>

fun slot_of :: "nat list \<Rightarrow> EventHandler option" where
  "slot_of [] = None"
| "slot_of [f] = Some (EventHandlerFunc f)"
| "slot_of (f # g # fs) = Some (eventChain [EventHandlerFunc f, EventHandlerFunc g])"

definition represents :: "(EventType \<times> nat) list \<Rightarrow> Events \<Rightarrow> bool" where
  "represents rs e \<longleftrightarrow> (\<exists>hs. eventHandlers e = Some hs \<and> length hs = nat EventLAST \<and>
     (\<forall>i < length hs. hs ! i = slot_of (registered (int i) rs)))"

lemma registered_snoc [simp]: "registered t (rs @ [(u, f)]) = registered t rs @ (if u = t then [f] else [])"
  by (simp add: registered_def)

lemma OnEvent_represents:
  assumes "represents rs e \<or> rs = [] \<and> e = \<lparr>eventHandlers = None\<rparr>" "0 \<le> t" "t < EventLAST"
  shows "\<exists>e'. OnEvent t (Some (EventHandlerFunc f)) e = Inr e' \<and> represents (rs @ [(t, f)]) e'"
proof -
  define hs where "hs = (case eventHandlers e of None \<Rightarrow> replicate (nat EventLAST) None | Some hs \<Rightarrow> hs)"
  have hs: "length hs = nat EventLAST" "\<forall>i < length hs. hs ! i = slot_of (registered (int i) rs)"
    using assms(1) by (auto simp: represents_def hs_def registered_def)
  have t: "slot hs t = Inr (slot_of (registered t rs))" "nat t < length hs" using assms(2,3) hs by (auto simp: slot_def)
  show ?thesis
  proof (cases "registered t rs" rule: slot_of.cases)
    case 1
    with t hs assms(2,3) show ?thesis
      by (auto simp: OnEvent_def Let_def hs_def [symmetric] represents_def nth_list_update)
  next
    case (2 g)
    with t hs assms(2,3) show ?thesis
      by (auto simp: OnEvent_def Let_def hs_def [symmetric] represents_def nth_list_update)
  next
    case (3 g h fs)
    then have "slot_of (registered (int i) (rs @ [(t, f)])) = slot_of (registered (int i) rs)" for i by auto
    with 3 t hs assms(2,3) show ?thesis
      by (simp add: OnEvent_def Let_def hs_def [symmetric] represents_def)
  qed
qed

lemma register_represents:
  "represents rs e \<Longrightarrow> \<forall>r \<in> set rs'. 0 \<le> fst r \<and> fst r < EventLAST \<Longrightarrow> \<exists>e'. register rs' e = Inr e' \<and> represents (rs @ rs') e'"
proof (induction rs' arbitrary: rs e)
  case (Cons r rs')
  obtain t f where r: "r = (t, f)" by fastforce
  with Cons OnEvent_represents [of rs e t f]
  obtain e' where "OnEvent t (Some (EventHandlerFunc f)) e = Inr e'" "represents (rs @ [(t, f)]) e'" by auto
  with Cons.IH [of "rs @ [(t, f)]" e'] Cons.prems r show ?case by simp
qed simp

lemma MuxEvent_represents:
  assumes "represents rs e" "0 \<le> t" "t < EventLAST"
  shows "MuxEvent t e = Inr (map (\<lambda>f. (f, t)) (take 2 (registered t rs)))"
proof -
  from assms obtain hs where "eventHandlers e = Some hs" "slot hs t = Inr (slot_of (registered t rs))"
    by (auto simp: represents_def slot_def)
  then show ?thesis
    by (cases "registered t rs" rule: slot_of.cases) (auto simp: MuxEvent_def GetHandler_def)
qed

text \<open>
  Registering handlers for valid kinds of events never fails, and an event calls the handlers
  registered for its kind in the order of their registration, but only the first two of them: the third
  and later ones are lost, because they are appended to a copy of the chain. A registration for the
  kind EventLAST, which the check of the range lets through, panics.
\<close>

theorem events_dispatch:
  assumes "\<forall>r \<in> set ((t0, f0) # rs). 0 \<le> fst r \<and> fst r < EventLAST" "0 \<le> t" "t < EventLAST"
  shows "\<exists>e. register ((t0, f0) # rs) \<lparr>eventHandlers = None\<rparr> = Inr e \<and>
    MuxEvent t e = Inr (map (\<lambda>f. (f, t)) (take 2 (registered t ((t0, f0) # rs)))) \<and>
    OnEvent EventLAST (Some h) e = Inl ''index out of range''"
proof -
  obtain e1 where e1: "OnEvent t0 (Some (EventHandlerFunc f0)) \<lparr>eventHandlers = None\<rparr> = Inr e1" "represents [(t0, f0)] e1"
    using OnEvent_represents [of "[]" "\<lparr>eventHandlers = None\<rparr>" t0 f0] assms(1) by auto
  moreover obtain e where e: "register rs e1 = Inr e" "represents ((t0, f0) # rs) e"
    using register_represents [OF e1(2), of rs] assms(1) by auto
  moreover from e(2) have "OnEvent EventLAST (Some h) e = Inl ''index out of range''"
    by (auto simp: represents_def OnEvent_def slot_def EventLAST_def)
  ultimately show ?thesis using MuxEvent_represents [OF e(2) assms(2,3)] by simp
qed

text \<open>Three handlers for the settings of the peer, of which two are called.\<close>

theorem events_dispatch_witness:
  "\<exists>e. register [(Event_Settings, 1), (Event_Settings, 2), (Event_Settings, 3)] \<lparr>eventHandlers = None\<rparr> = Inr e \<and>
     MuxEvent Event_Settings e = Inr [(1, Event_Settings), (2, Event_Settings)]"
  using events_dispatch [of Event_Settings 1 "[(Event_Settings, 2), (Event_Settings, 3)]" Event_Settings "EventHandlerFunc 4"]
  by (auto simp: EventLAST_def Event_Settings_def registered_def simp del: register.simps)

end
