(* ===== verification/Transport.thy ===== *)
theory Transport
  imports Loopy Event_Hooks Requests
begin

text \<open>
  The connection (\<^verbatim>\<open>h2/h2_connection.go\<close>, \<^verbatim>\<open>h2/h2_connection_server.go\<close>): its state, the streams, and the
  operations that close them. The functions are translated one by one, each as one step of the
  goroutine that runs it, until it returns, panics, or waits for something that no other goroutine will
  ever do. Streams are objects in a store. Calls into code outside (event handlers, the application,
  the receive buffers of \<^verbatim>\<open>nio\<close>) are recorded in the order they happen.
\<close>

section \<open>State\<close>

datatype h2_error =
    ErrEOF
  | ErrStreamRST
  | ErrStreamDone
  | ErrConnClosingT
  | ErrStreamDrain
  | ErrMidStreamHeaders
  | ErrPeerHeaderList
  | ErrFlowControl
  | ErrReceived frame_error
  | ErrIllegalStreamID u32
  | ErrGoAwayEven u32
  | ErrGoAwayOrder u32 u32
  | ErrGoAwayIdle
  | ErrNotSettings
  | ErrKeepaliveTimeout
  | ErrStatus Code string
  | ErrWriting frame_error
  | ErrPrefaceLength nat

datatype RecvMsg = RecvData bytes | RecvErr h2_error

text \<open>
  A stream. \<open>s_done\<close>: the channel is nil (\<open>None\<close>), or open, or closed. \<open>inFrameList\<close>: what was put into
  the receive buffer, if there is one. \<open>OnData\<close>: a callback is set.
\<close>

record H2Stream =
  MuxID :: u32
  s_done :: "bool option"
  headerChan :: bool
  headerChanClosed :: bool
  headerSent :: bool
  streamDone :: bool
  readClosed :: u32
  writeClosed :: bool
  s_Error :: "h2_error option"
  unprocessed :: bool
  s_inFlow :: inFlow
  s_outFlow :: "addr option"
  s_cancel :: bool
  OnData :: bool
  inFrameList :: "RecvMsg list option"
  RcvdBytes :: int
  RcvdPackets :: int
  SentPackets :: int
  rsp_Status :: string
  rsp_StatusCode :: int
  rsp_Header :: http_header
  rsp_Trailer :: http_header

datatype transport_call =
    EvMux EventType
  | EvStream EventType addr
  | CallHandle addr
  | CallOnData addr bytes
  | CallCancel addr
  | CloseConn

datatype GoAwayReason = GoAwayInvalid | GoAwayNoReason | GoAwayTooManyPings

text \<open>
  The connection. \<open>t_activeStreams\<close> is nil after \<^verbatim>\<open>Close\<close>. \<open>t_cbLocked\<close>: the running goroutine holds the
  mutex of the control buffer. \<open>t_closures\<close>: the stream that the callbacks of a queued header frame
  refer to. \<open>t_quotaToken\<close>: the channel of \<^verbatim>\<open>streamsQuotaAvailable\<close> holds its token, and
  \<open>t_quotaChan\<close> counts how often that channel was closed and replaced. \<open>t_drainChan\<close>: nil, open or closed. \<open>t_cancel\<close>: the field \<^verbatim>\<open>cancel\<close> is set, and \<open>t_ctxDone\<close>: the
  context of the connection is done.
  Times are nanoseconds; the idle time is \<open>None\<close> while it is the zero time.
\<close>

record H2Transport =
  t_side :: side
  t_cb :: controlBuffer
  t_cbLocked :: bool
  t_streams :: "addr \<Rightarrow> H2Stream"
  t_fresh :: addr
  t_activeStreams :: "(u32 \<times> addr) list option"
  t_closures :: "(u32 \<times> addr) list"
  t_streamQuota :: int
  t_quotaToken :: bool
  t_quotaChan :: nat
  t_waitingStreams :: u32
  t_maxConcurrentStreams :: u32
  t_maxSendHeaderListSize :: "u32 option"
  t_FrameSize :: u32
  t_closing :: bool
  t_closed :: bool
  t_done :: bool
  t_cancel :: bool
  t_ctxDone :: bool
  t_Error :: "h2_error option"
  t_maxStreamID :: u32
  t_maxStreams :: u32
  t_initialWindowSize :: u32
  t_nextID :: u32
  t_fc :: trInFlow
  t_bdp :: "bdpEstimator option"
  t_idle :: "int option"
  t_lastPingAt :: int
  t_pingStrikes :: byte
  t_resetPingStrikes :: bool
  t_minTime :: Duration
  t_permitWithoutStream :: bool
  t_drainChan :: "bool option"
  t_goAway :: bool
  t_prevGoAwayID :: u32
  t_goAwayReason :: GoAwayReason
  t_handle :: bool
  t_kpDormant :: bool
  streamsStarted :: int
  streamsSucceeded :: int
  streamsFailed :: int
  msgRecv :: int
  t_trace :: "transport_call list"

text \<open>\<open>Blocked\<close>: the goroutine waits for ever.\<close>

datatype fault = Blocked | Panic string

type_synonym done_step = "H2Transport \<times> fault option"

fun and_do :: "done_step \<Rightarrow> (H2Transport \<Rightarrow> done_step) \<Rightarrow> done_step" where
  "and_do (t, Some f) k = (t, Some f)"
| "and_do (t, None) k = k t"

definition t_call :: "transport_call \<Rightarrow> H2Transport \<Rightarrow> H2Transport" where
  "t_call c t = t\<lparr>t_trace := t_trace t @ [c]\<rparr>"

definition set_stream :: "addr \<Rightarrow> (H2Stream \<Rightarrow> H2Stream) \<Rightarrow> H2Transport \<Rightarrow> H2Transport" where
  "set_stream a f t = t\<lparr>t_streams := (t_streams t)(a := f (t_streams t a))\<rparr>"

text \<open>Putting an item, with the wake-up of the writer. The mutex is not reentrant.\<close>

definition t_execPut ::
    "(cbItem \<Rightarrow> H2Transport \<Rightarrow> H2Transport \<times> bool) option \<Rightarrow> cbItem \<Rightarrow> H2Transport \<Rightarrow> H2Transport \<times> (fault + cb_error + bool)" where
  "t_execPut f item t =
     (if t_cbLocked t then (t, Inl Blocked)
      else
        let ((c, t1), wake, r) = executeAndPut f item (t_cb t, t)
        in (t1\<lparr>t_cb := (if wake then wakeUp c else c)\<rparr>, Inr r))"

definition t_put :: "cbItem \<Rightarrow> H2Transport \<Rightarrow> done_step" where
  "t_put item t =
     (case t_execPut None item t of (t1, Inl f) \<Rightarrow> (t1, Some f) | (t1, Inr r) \<Rightarrow> (t1, None))"

section \<open>Streams\<close>

definition queueReadBuf :: "RecvMsg \<Rightarrow> H2Stream \<Rightarrow> H2Stream" where
  "queueReadBuf m s = s\<lparr>inFrameList := map_option (\<lambda>ms. ms @ [m]) (inFrameList s)\<rparr>"

definition setReadClosed :: "u32 \<Rightarrow> h2_error \<Rightarrow> H2Stream \<Rightarrow> H2Stream" where
  "setReadClosed mode err s =
     (let s1 = s\<lparr>readClosed := mode\<rparr> in if readClosed s \<noteq> 0 then s1 else queueReadBuf (RecvErr err) s1)"

definition setWriteClosed :: "H2Stream \<Rightarrow> H2Stream" where
  "setWriteClosed s = s\<lparr>writeClosed := True\<rparr>"

definition updateHeaderSent :: "H2Stream \<Rightarrow> H2Stream \<times> bool" where
  "updateHeaderSent s = (s\<lparr>headerSent := True\<rparr>, headerSent s)"

definition getStream :: "u32 \<Rightarrow> H2Transport \<Rightarrow> addr option" where
  "getStream sid t = (case t_activeStreams t of None \<Rightarrow> None | Some m \<Rightarrow> map_of m sid)"

text \<open>The quota comes back under the lock of the control buffer, for streams of every origin.\<close>

definition addBackStreamQuota :: "cbItem \<Rightarrow> H2Transport \<Rightarrow> H2Transport \<times> bool" where
  "addBackStreamQuota item t =
     (let t1 = t\<lparr>t_streamQuota := t_streamQuota t + 1\<rparr>
      in (if t_streamQuota t1 > 0 \<and> t_waitingStreams t1 > 0 then t1\<lparr>t_quotaToken := True\<rparr> else t1, True))"

definition closeHeaderChan :: "H2Stream \<Rightarrow> H2Stream" where
  "closeHeaderChan s = (if headerChan s \<and> \<not> headerChanClosed s then s\<lparr>headerChanClosed := True\<rparr> else s)"

text \<open>What \<^verbatim>\<open>closeStream\<close> does to the stream before the cleanup item is put, and after it.\<close>

definition markDone :: "h2_error option \<Rightarrow> H2Stream \<Rightarrow> H2Stream" where
  "markDone err s =
     (let s1 = s\<lparr>streamDone := True\<rparr>;
          s2 = (if s_Error s1 = None \<and> err \<noteq> Some ErrEOF then s1\<lparr>s_Error := err\<rparr> else s1);
          s3 = (case err of None \<Rightarrow> s2 | Some e \<Rightarrow> setReadClosed 2 e s2)
      in closeHeaderChan s3)"

definition releaseStream :: "addr \<Rightarrow> h2_error option \<Rightarrow> H2Transport \<Rightarrow> H2Transport" where
  "releaseStream a err t =
     (let t1 = (if err = None then t\<lparr>streamsSucceeded := streamsSucceeded t + 1\<rparr>
                else t\<lparr>streamsFailed := streamsFailed t + 1\<rparr>);
          t2 = (if s_cancel (t_streams t1 a) then t_call (CallCancel a) t1 else t1)
      in set_stream a (\<lambda>s. s\<lparr>s_cancel := False, s_done := map_option (\<lambda>_. True) (s_done s)\<rparr>) t2)"

definition closeStream :: "addr \<Rightarrow> h2_error option \<Rightarrow> bool \<Rightarrow> ErrCode \<Rightarrow> H2Transport \<Rightarrow> done_step" where
  "closeStream a err rs code t =
     (let s = t_streams t a in
      if streamDone s then (t, if s_done s = Some True then None else Some Blocked)
      else
        case t_execPut (Some addBackStreamQuota)
               (CleanupItem \<lparr>c_streamID = MuxID s, rst = rs, rstCode = code, c_onWrite = True\<rparr>)
               (set_stream a (markDone err) t) of
          (t1, Inl f) \<Rightarrow> (t1, Some f)
        | (t1, Inr r) \<Rightarrow> (releaseStream a err t1, None))"

section \<open>Closing the connection\<close>

fun closeAll :: "addr list \<Rightarrow> h2_error option \<Rightarrow> bool \<Rightarrow> ErrCode \<Rightarrow> H2Transport \<Rightarrow> done_step" where
  "closeAll [] err rs code t = (t, None)"
| "closeAll (a # as) err rs code t = and_do (closeStream a err rs code t) (closeAll as err rs code)"

text \<open>The callback of a request whose headers were never sent (\<^verbatim>\<open>cleanup\<close> in \<^verbatim>\<open>writeRequestHeaders\<close>).\<close>

definition orphanedRequest :: "h2_error \<Rightarrow> addr \<Rightarrow> H2Transport \<Rightarrow> done_step" where
  "orphanedRequest err a t =
     closeStream a (Some err) True ErrCodeStreamClosed (set_stream a (\<lambda>s. s\<lparr>unprocessed := True\<rparr>) t)"

fun orphanAll :: "headerFrame list \<Rightarrow> H2Transport \<Rightarrow> done_step" where
  "orphanAll [] t = (t, None)"
| "orphanAll (h # hs) t =
     (case map_of (t_closures t) (h_streamID h) of
        None \<Rightarrow> orphanAll hs t
      | Some a \<Rightarrow> and_do (orphanedRequest ErrConnClosingT a t) (orphanAll hs))"

text \<open>
  \<^verbatim>\<open>controlBuf.finish\<close>, which calls the callbacks of the orphaned headers before it unlocks the mutex.
\<close>

definition releaseThrottle :: "controlBuffer \<Rightarrow> controlBuffer" where
  "releaseThrottle c =
     (case trfChan c of None \<Rightarrow> c | Some ch \<Rightarrow> c\<lparr>closedChans := ch # closedChans c, trfChan := None\<rparr>)"

definition t_finish :: "H2Transport \<Rightarrow> done_step" where
  "t_finish t =
     (let c = t_cb t in
      if t_cbLocked t then (t, Some Blocked)
      else if cb_err c \<noteq> None then (t, None)
      else
        let (l, h) = il_dequeueAll (cb_list c);
            hs = orphans (walk (il_fresh (cb_list c)) (il_store (cb_list c)) h)
        in and_do (orphanAll hs (t\<lparr>t_cb := c\<lparr>cb_err := Some ErrConnClosing, cb_list := l\<rparr>, t_cbLocked := True\<rparr>))
             (\<lambda>t1. (t1\<lparr>t_cb := releaseThrottle (t_cb t1), t_cbLocked := False\<rparr>, None)))"

text \<open>\<open>ord\<close>: the order in which Go iterates over the streams.\<close>

definition t_Close :: "(addr list \<Rightarrow> addr list) \<Rightarrow> h2_error option \<Rightarrow> H2Transport \<Rightarrow> done_step" where
  "t_Close ord err t =
     (if t_closed t then (t, None)
      else
        let t1 = t\<lparr>t_closed := True\<rparr>;
            t2 = (if t_Error t1 = None then t1\<lparr>t_Error := err\<rparr> else t1);
            t3 = t_call (EvMux Event_ConnClose) t2;
            streams = (case t_activeStreams t3 of None \<Rightarrow> [] | Some m \<Rightarrow> map snd m);
            t4 = t3\<lparr>t_activeStreams := None\<rparr>
        in and_do (t_finish t4) (\<lambda>t5.
             let t6 = t_call CloseConn (t5\<lparr>t_ctxDone := t_ctxDone t5 \<or> t_cancel t5, t_done := True, t_cb := (t_cb t5)\<lparr>cb_done := True\<rparr>\<rparr>)
             in and_do (closeAll (ord streams) (Some ErrConnClosingT) False 0 t6)
                  (\<lambda>t7. (t_call (EvMux Event_ConnClose) t7, None))))"

text \<open>\<^verbatim>\<open>deleteStream\<close>, the callback of the cleanup item, on the goroutine of the writer.\<close>

definition deleteStream :: "int \<Rightarrow> (addr list \<Rightarrow> addr list) \<Rightarrow> addr \<Rightarrow> H2Transport \<Rightarrow> done_step" where
  "deleteStream now ord a t =
     (let s = t_streams t a in
      case t_activeStreams t of
        None \<Rightarrow> (t, None)
      | Some m \<Rightarrow>
          if \<not> (writeClosed s \<and> readClosed s \<noteq> 0) then (t, None)
          else if map_of m (MuxID s) = None then (t, None)
          else
            let m1 = AList.delete (MuxID s) m;
                t1 = t\<lparr>t_activeStreams := Some m1\<rparr>;
                t2 = (if m1 = [] then t1\<lparr>t_idle := Some now\<rparr> else t1)
            in if m1 = [] \<and> t_closing t2 then t_Close ord None t2 else (t2, None))"

section \<open>Closing a stream once\<close>

lemma set_stream_simps [simp]:
  "t_streams (set_stream a f t) = (t_streams t)(a := f (t_streams t a))" "t_cb (set_stream a f t) = t_cb t"
  "t_cbLocked (set_stream a f t) = t_cbLocked t" "t_activeStreams (set_stream a f t) = t_activeStreams t"
  "t_closures (set_stream a f t) = t_closures t" "t_closing (set_stream a f t) = t_closing t" "t_closed (set_stream a f t) = t_closed t"
  "t_streamQuota (set_stream a f t) = t_streamQuota t" "t_side (set_stream a f t) = t_side t"
  "t_maxStreamID (set_stream a f t) = t_maxStreamID t" "t_fresh (set_stream a f t) = t_fresh t"
  by (simp_all add: set_stream_def)

lemma t_call_simps [simp]:
  "t_streams (t_call c t) = t_streams t" "t_cb (t_call c t) = t_cb t" "t_cbLocked (t_call c t) = t_cbLocked t"
  "t_activeStreams (t_call c t) = t_activeStreams t" "t_closures (t_call c t) = t_closures t" "t_closing (t_call c t) = t_closing t"
  "t_closed (t_call c t) = t_closed t" "t_streamQuota (t_call c t) = t_streamQuota t" "t_side (t_call c t) = t_side t"
  "t_maxStreamID (t_call c t) = t_maxStreamID t" "t_fresh (t_call c t) = t_fresh t"
  by (simp_all add: t_call_def)

lemma readClosed_set [simp]: "readClosed (setReadClosed m e s) = m" "streamDone (setReadClosed m e s) = streamDone s"
    "s_done (setReadClosed m e s) = s_done s" "MuxID (setReadClosed m e s) = MuxID s" "writeClosed (setReadClosed m e s) = writeClosed s"
    "s_inFlow (setReadClosed m e s) = s_inFlow s"
  by (simp_all add: setReadClosed_def queueReadBuf_def Let_def)

lemma markDone_simps [simp]: "readClosed (markDone err s) = (if err = None then readClosed s else 2)" "streamDone (markDone err s)"
    "s_done (markDone err s) = s_done s" "MuxID (markDone err s) = MuxID s" "writeClosed (markDone err s) = writeClosed s"
    "s_inFlow (markDone err s) = s_inFlow s"
  by (simp_all add: markDone_def closeHeaderChan_def Let_def split: option.splits)

lemma releaseStream_simps [simp]:
  "t_streams (releaseStream a err t) =
     (t_streams t)(a := (t_streams t a)\<lparr>s_cancel := False, s_done := map_option (\<lambda>_. True) (s_done (t_streams t a))\<rparr>)"
  "t_activeStreams (releaseStream a err t) = t_activeStreams t" "t_closing (releaseStream a err t) = t_closing t"
  "t_closed (releaseStream a err t) = t_closed t" "t_cbLocked (releaseStream a err t) = t_cbLocked t"
  "t_closures (releaseStream a err t) = t_closures t" "t_side (releaseStream a err t) = t_side t"
  "t_maxStreamID (releaseStream a err t) = t_maxStreamID t" "t_cb (releaseStream a err t) = t_cb t"
  "t_streamQuota (releaseStream a err t) = t_streamQuota t" "t_fresh (releaseStream a err t) = t_fresh t"
  by (simp_all add: releaseStream_def Let_def)

text \<open>What an executed callback and a put leave alone: everything but the buffer and the quota.\<close>

lemma t_execPut_quota:
  assumes "t_execPut (Some addBackStreamQuota) item t = (t', r)"
  shows "t_streams t' = t_streams t" "t_activeStreams t' = t_activeStreams t" "t_closing t' = t_closing t" "t_closed t' = t_closed t"
    "t_cbLocked t' = t_cbLocked t" "t_closures t' = t_closures t" "t_side t' = t_side t" "t_maxStreamID t' = t_maxStreamID t"
    "r = Inl Blocked \<longleftrightarrow> t_cbLocked t"
  using assms by (auto simp: t_execPut_def executeAndPut_def addBackStreamQuota_def Let_def split: option.splits if_splits prod.splits)

lemma closeStream_blocked: "\<not> streamDone (t_streams t a) \<Longrightarrow> t_cbLocked t \<Longrightarrow> snd (closeStream a err rs code t) = Some Blocked"
  by (simp add: closeStream_def t_execPut_def)

lemma closeStream_first:
  assumes "\<not> streamDone (t_streams t a)" "\<not> t_cbLocked t"
  shows "\<exists>t' s'. closeStream a err rs code t = (t', None) \<and> t_streams t' = (t_streams t)(a := s') \<and> streamDone s' \<and>
    s_done s' = map_option (\<lambda>_. True) (s_done (t_streams t a)) \<and> MuxID s' = MuxID (t_streams t a) \<and>
    writeClosed s' = writeClosed (t_streams t a) \<and> s_inFlow s' = s_inFlow (t_streams t a) \<and>
    readClosed s' = (if err = None then readClosed (t_streams t a) else 2) \<and>
    t_activeStreams t' = t_activeStreams t \<and> t_closing t' = t_closing t \<and> t_closed t' = t_closed t \<and> \<not> t_cbLocked t' \<and>
    t_closures t' = t_closures t \<and> t_side t' = t_side t \<and> t_maxStreamID t' = t_maxStreamID t"
proof -
  obtain t1 r where e: "t_execPut (Some addBackStreamQuota)
      (CleanupItem \<lparr>c_streamID = MuxID (t_streams t a), rst = rs, rstCode = code, c_onWrite = True\<rparr>) (set_stream a (markDone err) t) = (t1, r)"
    by fastforce
  note q = t_execPut_quota [OF e]
  obtain x where "r = Inr x" using q(9) assms(2) e by (cases r) (auto simp: t_execPut_def split: prod.splits if_splits)
  then have "closeStream a err rs code t = (releaseStream a err t1, None)" using e assms(1) by (simp add: closeStream_def)
  then show ?thesis using q assms
    by (intro exI [of _ "releaseStream a err t1"] exI [of _ "t_streams (releaseStream a err t1) a"]) (auto simp: fun_eq_iff)
qed

text \<open>
  A stream that has been closed: closing it again changes nothing, and returns only if the stream has a
  channel \<^verbatim>\<open>done\<close>, which the streams that a server accepts do not have.
\<close>

lemma closeStream_again:
  "streamDone (t_streams t a) \<Longrightarrow> s_done (t_streams t a) \<noteq> Some False \<Longrightarrow>
   closeStream a err rs code t = (t, if s_done (t_streams t a) = None then Some Blocked else None)"
  by (cases "s_done (t_streams t a)") (auto simp: closeStream_def)

section \<open>Closing the connection with a request in the queue\<close>

lemma orphanAll_blocks:
  assumes "t_cbLocked t" "h \<in> set hs" "map_of (t_closures t) (h_streamID h) = Some a" "\<not> streamDone (t_streams t a)"
  shows "\<exists>t'. orphanAll hs t = (t', Some Blocked) \<and> t_cbLocked t'"
  using assms
proof (induction hs arbitrary: t)
  case (Cons g gs)
  show ?case
  proof (cases "map_of (t_closures t) (h_streamID g)")
    case None
    with Cons.prems have "h \<in> set gs" by auto
    with Cons.IH Cons.prems None show ?thesis by simp
  next
    case (Some b)
    let ?t = "set_stream b (\<lambda>s. s\<lparr>unprocessed := True\<rparr>) t"
    show ?thesis
    proof (cases "streamDone (t_streams t b)")
      case False
      then show ?thesis using Some Cons.prems(1) by (simp add: orphanedRequest_def closeStream_def t_execPut_def)
    next
      case True
      with Cons.prems Some have "h \<in> set gs" by auto
      moreover have "\<not> streamDone (t_streams ?t a)" using Cons.prems(4) by auto
      ultimately show ?thesis
        using Some True Cons.prems Cons.IH [of ?t] by (simp add: orphanedRequest_def closeStream_def)
    qed
  qed
qed simp

end
