(* ===== verification/Transport_Reader.thy ===== *)
theory Transport_Reader
  imports Transport
begin

text \<open>
  The goroutine that reads frames (\<^verbatim>\<open>HandleStreams\<close> in \<^verbatim>\<open>h2/h2_connection_server.go\<close>, and the handlers that the
  client shares with it): one definition per handler, and a step for each frame or error that
  \<^verbatim>\<open>ReadFrame\<close> returns.
\<close>

section \<open>Flow control\<close>

definition adjustWindow :: "addr \<Rightarrow> u32 \<Rightarrow> H2Transport \<Rightarrow> done_step" where
  "adjustWindow a n t =
     (let (f, w) = maybeAdjust n (s_inFlow (t_streams t a));
          t1 = set_stream a (\<lambda>s. s\<lparr>s_inFlow := f\<rparr>) t
      in if w > 0 then t_put (OutgoingWindowUpdate (MuxID (t_streams t1 a)) w) t1 else (t1, None))"

definition UpdateWindow :: "addr \<Rightarrow> u32 \<Rightarrow> H2Transport \<Rightarrow> done_step" where
  "UpdateWindow a n t =
     (let (f, w) = in_onRead n (s_inFlow (t_streams t a));
          t1 = set_stream a (\<lambda>s. s\<lparr>s_inFlow := f\<rparr>) t
      in if w > 0 then t_put (OutgoingWindowUpdate (MuxID (t_streams t1 a)) w) t1 else (t1, None))"

text \<open>The callback of the BDP estimator.\<close>

fun newLimits :: "u32 \<Rightarrow> addr list \<Rightarrow> H2Transport \<Rightarrow> H2Transport" where
  "newLimits n [] t = t"
| "newLimits n (a # as) t = newLimits n as (set_stream a (\<lambda>s. s\<lparr>s_inFlow := in_newLimit n (s_inFlow s)\<rparr>) t)"

definition updateFlowControl :: "u32 \<Rightarrow> H2Transport \<Rightarrow> done_step" where
  "updateFlowControl n t =
     (let streams = (case t_activeStreams t of None \<Rightarrow> [] | Some m \<Rightarrow> map snd m);
          t1 = (newLimits n streams t)\<lparr>t_initialWindowSize := n\<rparr>;
          (fc, d) = tr_newLimit n (t_fc t1)
      in and_do (t_put (OutgoingWindowUpdate 0 d) (t1\<lparr>t_fc := fc\<rparr>))
           (t_put (OutgoingSettings [\<lparr>ID = SettingInitialWindowSize, Val = n\<rparr>])))"

section \<open>Frames of a stream\<close>

text \<open>The flow control of the connection, before the stream is looked up.\<close>

definition connData :: "u32 \<Rightarrow> H2Transport \<Rightarrow> done_step" where
  "connData sz t =
     (let (b, sendBDPPing) = (case t_bdp t of None \<Rightarrow> (None, False) | Some e \<Rightarrow> map_prod Some id (bdp_add sz e));
          (fc, w) = tr_onData sz (t_fc t);
          t1 = t\<lparr>t_bdp := b, t_fc := fc\<rparr>
      in and_do (if w > 0 then t_put (OutgoingWindowUpdate 0 w) t1 else (t1, None)) (\<lambda>t2.
           if sendBDPPing then
             let (fc2, w2) = tr_reset (t_fc t2);
                 t3 = t2\<lparr>t_fc := fc2\<rparr>
             in and_do (if w2 > 0 then t_put (OutgoingWindowUpdate 0 w2) t3 else (t3, None)) (t_put (PingItem False bdpPing))
           else (t2, None)))"

text \<open>What is handed to the application, or to the receive buffer.\<close>

definition deliver :: "addr \<Rightarrow> bytes \<Rightarrow> H2Transport \<Rightarrow> H2Transport" where
  "deliver a d t =
     (if OnData (t_streams t a) then t_call (CallOnData a d) t
      else if d \<noteq> [] then
        set_stream a (\<lambda>s. queueReadBuf (RecvData d) (s\<lparr>RcvdBytes := RcvdBytes s + int (length d), RcvdPackets := RcvdPackets s + 1\<rparr>)) t
      else t)"

definition streamData :: "addr \<Rightarrow> FrameHeader \<Rightarrow> bytes \<Rightarrow> H2Transport \<Rightarrow> done_step" where
  "streamData a fh d t =
     (let (f, e) = in_onData (Length fh) (s_inFlow (t_streams t a));
          t1 = set_stream a (\<lambda>s. s\<lparr>s_inFlow := f\<rparr>) t
      in if e \<noteq> None then closeStream a (Some ErrFlowControl) True ErrCodeFlowControl t1
         else
           and_do (if Has (Flags fh) FlagDataPadded then UpdateWindow a (Length fh - word_of_nat (length d)) t1 else (t1, None))
             (\<lambda>t2. (deliver a d t2, None)))"

definition endStream :: "FrameHeader \<Rightarrow> addr \<Rightarrow> H2Transport \<Rightarrow> H2Transport" where
  "endStream fh a t = (if StreamEnded fh then set_stream a (setReadClosed 1 ErrEOF) t else t)"

definition handleData :: "FrameHeader \<Rightarrow> bytes \<Rightarrow> H2Transport \<Rightarrow> done_step" where
  "handleData fh d t =
     and_do (connData (Length fh) t) (\<lambda>t1.
       case getStream (StreamID fh) t1 of
         None \<Rightarrow> (t1, None)
       | Some a \<Rightarrow>
           if readClosed (t_streams t1 a) = 2 then closeStream a (Some ErrStreamDone) True ErrCodeStreamClosed t1
           else if Length fh > 0 then
             (let refused = snd (in_onData (Length fh) (s_inFlow (t_streams t1 a))) \<noteq> None
              in and_do (streamData a fh d t1) (\<lambda>t2. (if refused then t2 else endStream fh a t2, None)))
           else (endStream fh a t1, None))"

definition handleRSTStream :: "u32 \<Rightarrow> ErrCode \<Rightarrow> H2Transport \<Rightarrow> done_step" where
  "handleRSTStream sid code t =
     (case getStream sid t of
        None \<Rightarrow> t_put (CleanupItem \<lparr>c_streamID = sid, rst = False, rstCode = 0, c_onWrite = True\<rparr>) t
      | Some a \<Rightarrow>
          if readClosed (t_streams t a) = 1 then (t, None)
          else
            let t1 = (if code = ErrCodeRefusedStream then set_stream a (\<lambda>s. s\<lparr>unprocessed := True\<rparr>) t else t)
            in (set_stream a (\<lambda>s. (setReadClosed 2 ErrStreamRST s)\<lparr>headerChanClosed := True\<rparr>) t1, None))"

definition handleWindowUpdate :: "u32 \<Rightarrow> u32 \<Rightarrow> H2Transport \<Rightarrow> done_step" where
  "handleWindowUpdate sid incr t = t_put (IncomingWindowUpdate sid incr) t"

section \<open>Headers\<close>

text \<open>\<^verbatim>\<open>strconv.Atoi\<close>, with the error ignored.\<close>

definition Atoi :: "string \<Rightarrow> int" where
  "Atoi v = (case ParseInt v of
     Inr n \<Rightarrow> n
   | Inl ErrSyntax \<Rightarrow> 0
   | Inl ErrRange \<Rightarrow> if v \<noteq> [] \<and> hd v = CHR ''-'' then - (2 ^ 63) else 2 ^ 63 - 1)"

definition responseField :: "bool \<Rightarrow> HeaderField \<Rightarrow> H2Stream \<Rightarrow> H2Stream" where
  "responseField trailer f s =
     (let n = Name f; v = Value f in
      if n = '':status'' then s\<lparr>rsp_Status := v, rsp_StatusCode := Atoi v\<rparr>
      else if trailer then
        (case decodeMetadataHeader n v of None \<Rightarrow> s | Some x \<Rightarrow> s\<lparr>rsp_Trailer := header_Add n x (rsp_Trailer s)\<rparr>)
      else if isReservedHeader n \<and> \<not> isWhitelistedHeader n then s
      else (case decodeMetadataHeader n v of None \<Rightarrow> s | Some x \<Rightarrow> s\<lparr>rsp_Header := header_Add n x (rsp_Header s)\<rparr>))"

definition operateResponseHeaders :: "FrameHeader \<Rightarrow> HeaderField list \<Rightarrow> bool \<Rightarrow> H2Transport \<Rightarrow> done_step" where
  "operateResponseHeaders fh flds truncated t =
     (case getStream (StreamID fh) t of
        None \<Rightarrow> (t, None)
      | Some a \<Rightarrow>
          let s = t_streams t a in
          if headerChanClosed s \<and> \<not> StreamEnded fh then closeStream a (Some ErrMidStreamHeaders) True ErrCodeProtocol t
          else if truncated then closeStream a (Some ErrPeerHeaderList) True ErrCodeFrameSize t
          else
            let t1 = set_stream a (fold (responseField (headerChanClosed s)) flds) t
            in if \<not> headerChanClosed s \<and> \<not> headerChan s then (t1, Some (Panic ''close of nil channel''))
               else
                 let t2 = set_stream a (\<lambda>s. s\<lparr>headerChanClosed := True\<rparr>) t1
                 in (if StreamEnded fh then set_stream a (\<lambda>s. queueReadBuf (RecvErr ErrEOF) (setReadClosed 1 ErrEOF s)) t2 else t2, None))"

definition IsServer :: "H2Transport \<Rightarrow> bool" where
  "IsServer t \<longleftrightarrow> t_side t \<noteq> clientSide"

text \<open>The stream of an accepted request: it has no channel \<^verbatim>\<open>done\<close> and no channel for headers.\<close>

definition acceptedStream :: "u32 \<Rightarrow> addr \<Rightarrow> u32 \<Rightarrow> H2Stream" where
  "acceptedStream sid a win =
     \<lparr>MuxID = sid, s_done = None, headerChan = False, headerChanClosed = False, headerSent = False, streamDone = False, readClosed = 0,
      writeClosed = False, s_Error = None, unprocessed = False,
      s_inFlow = \<lparr>limit = win, pendingData = 0, pendingUpdate = 0, delta = 0\<rparr>, s_outFlow = Some a, s_cancel = True, OnData = False,
      inFrameList = Some [], RcvdBytes = 0, RcvdPackets = 0, SentPackets = 0, rsp_Status = [], rsp_StatusCode = 0, rsp_Header = [],
      rsp_Trailer = []\<rparr>"

definition refuseStream :: "u32 \<Rightarrow> ErrCode \<Rightarrow> H2Transport \<Rightarrow> done_step" where
  "refuseStream sid code t = t_put (CleanupItem \<lparr>c_streamID = sid, rst = True, rstCode = code, c_onWrite = True\<rparr>) t"

text \<open>After the fields: the stream is registered, and the application is called.\<close>

definition registerAccepted :: "u32 \<Rightarrow> addr \<Rightarrow> H2Transport \<Rightarrow> done_step" where
  "registerAccepted sid a t =
     (if t_closing t then (t_call (CallCancel a) t, None)
      else if length (case t_activeStreams t of None \<Rightarrow> [] | Some m \<Rightarrow> m) \<ge> unat (t_maxStreams t) \<and> IsServer t then
        and_do (refuseStream sid ErrCodeRefusedStream t) (\<lambda>t1. (t_call (CallCancel a) t1, None))
      else case t_activeStreams t of
        None \<Rightarrow> (t, Some (Panic ''assignment to entry in nil map''))
      | Some m \<Rightarrow>
          let m1 = AList.update sid a m;
              t1 = t\<lparr>t_activeStreams := Some m1\<rparr>;
              t2 = (if length m1 = 1 then t1\<lparr>t_idle := None\<rparr> else t1)
          in and_do (t_put (RegisterStream sid (s_outFlow (t_streams t2 a))) (t_call (EvStream EventStreamStart a) t2)) (\<lambda>t3.
               if t_handle t3 then (t_call (CallHandle a) t3, None) else closeStream a None True 1 t3))"

definition operateAcceptHeaders ::
    "FrameHeader \<Rightarrow> HeaderField list \<Rightarrow> bool \<Rightarrow> H2Transport \<Rightarrow> done_step \<times> h2_error option" where
  "operateAcceptHeaders fh flds truncated t =
     (let sid = StreamID fh in
      if truncated then (refuseStream sid ErrCodeFrameSize t, None)
      else if sid \<le> t_maxStreamID t then ((t, None), Some (ErrIllegalStreamID sid))
      else
        let t1 = t\<lparr>t_maxStreamID := sid\<rparr> in
        if ar_headerError (acceptFields flds) then (refuseStream sid ErrCodeProtocol t1, None)
        else
          let a = t_fresh t1;
              s = acceptedStream sid a (t_initialWindowSize t1);
              s1 = (if StreamEnded fh then setReadClosed 1 ErrEOF s else s)
          in (registerAccepted sid a (t1\<lparr>t_streams := (t_streams t1)(a := s1), t_fresh := Suc a\<rparr>), None))"

definition operateHeaders :: "FrameHeader \<Rightarrow> HeaderField list \<Rightarrow> bool \<Rightarrow> H2Transport \<Rightarrow> done_step \<times> h2_error option" where
  "operateHeaders fh flds truncated t =
     (if StreamID fh mod 2 \<noteq> 1 \<and> t_side t = serverSide then (operateResponseHeaders fh flds truncated t, None)
      else operateAcceptHeaders fh flds truncated t)"

section \<open>Settings, pings and draining\<close>

record settings_read =
  sr_maxStreams :: "u32 option"
  sr_ss :: "Setting list"
  sr_headerList :: "u32 list"
  sr_FrameSize :: u32

text \<open>The callback of \<^verbatim>\<open>ForeachSetting\<close>; the server does not lower a frame size of 0 (\<open>guarded\<close>).\<close>

definition readSetting :: "bool \<Rightarrow> settings_read \<Rightarrow> Setting \<Rightarrow> unit + settings_read" where
  "readSetting guarded r s = Inr
     (if ID s = SettingMaxConcurrentStreams then r\<lparr>sr_maxStreams := Some (Val s)\<rparr>
      else if ID s = SettingMaxFrameSize then
        (if (guarded \<longrightarrow> sr_FrameSize r > 0) \<and> sr_FrameSize r > Val s then r\<lparr>sr_FrameSize := Val s\<rparr> else r)
      else if ID s = SettingMaxHeaderListSize then r\<lparr>sr_headerList := sr_headerList r @ [Val s]\<rparr>
      else r\<lparr>sr_ss := sr_ss r @ [s]\<rparr>)"

definition readSettings :: "bool \<Rightarrow> bytes \<Rightarrow> H2Transport \<Rightarrow> settings_read" where
  "readSettings guarded p t =
     (case ForeachSetting p (readSetting guarded) \<lparr>sr_maxStreams = None, sr_ss = [], sr_headerList = [], sr_FrameSize = t_FrameSize t\<rparr> of
        Inr r \<Rightarrow> r | Inl _ \<Rightarrow> \<lparr>sr_maxStreams = None, sr_ss = [], sr_headerList = [], sr_FrameSize = t_FrameSize t\<rparr>)"

definition applyHeaderList :: "u32 list \<Rightarrow> H2Transport \<Rightarrow> H2Transport" where
  "applyHeaderList vs t = (if vs = [] then t else t\<lparr>t_maxSendHeaderListSize := Some (last vs)\<rparr>)"

definition handleSettings :: "bool \<Rightarrow> bytes \<Rightarrow> H2Transport \<Rightarrow> done_step" where
  "handleSettings ack p t =
     (if ack then (t, None)
      else
        let r = readSettings True p t
        in case t_execPut (Some (\<lambda>item t. (applyHeaderList (sr_headerList r) t, True))) (IncomingSettings (sr_ss r))
               (t\<lparr>t_FrameSize := sr_FrameSize r\<rparr>) of
             (t1, Inl f) \<Rightarrow> (t1, Some f)
           | (t1, Inr x) \<Rightarrow> (t_call (EvMux Event_Settings) t1, None))"

definition maxPingStrikes :: byte where "maxPingStrikes = 2"
definition defaultPingTimeout :: Duration where "defaultPingTimeout = 2 * Hour"

text \<open>The count of a ping that the policy of the server does not allow.\<close>

definition pingStrike :: "int \<Rightarrow> H2Transport \<Rightarrow> H2Transport" where
  "pingStrike now t =
     (let ns = length (case t_activeStreams t of None \<Rightarrow> [] | Some m \<Rightarrow> m);
          wait = (if ns < 1 \<and> \<not> t_permitWithoutStream t then defaultPingTimeout else t_minTime t)
      in if t_lastPingAt t + wait > now then t\<lparr>t_pingStrikes := t_pingStrikes t + 1\<rparr> else t)"

definition handlePing :: "float_ops \<Rightarrow> int \<Rightarrow> bool \<Rightarrow> bytes \<Rightarrow> H2Transport \<Rightarrow> done_step" where
  "handlePing fl now ack d t =
     (if ack then
        case (if d = goAwayPing then t_drainChan t else None) of
          Some over \<Rightarrow>
            if over then (t, Some (Panic ''close of closed channel'')) else (t\<lparr>t_drainChan := Some True\<rparr>, None)
        | None \<Rightarrow>
            (case t_bdp t of
               None \<Rightarrow> (t, None)
             | Some e \<Rightarrow>
                 (let (e1, w) = calculate fl now d e
                  in case w of None \<Rightarrow> (t\<lparr>t_bdp := Some e1\<rparr>, None) | Some n \<Rightarrow> updateFlowControl n (t\<lparr>t_bdp := Some e1\<rparr>)))
      else
        and_do (t_put (PingItem True d) t) (\<lambda>t1.
          if t_resetPingStrikes t1 then (t1\<lparr>t_resetPingStrikes := False, t_pingStrikes := 0, t_lastPingAt := now\<rparr>, None)
          else
            let t2 = pingStrike now t1 in
            and_do
              (if t_pingStrikes t2 > maxPingStrikes then
                 t_put (GoAwayItem \<lparr>g_code = ErrCodeEnhanceYourCalm, g_debugData = bytes_of ''too_many_pings'', g_headsUp = False,
                   g_closeConn = True\<rparr>) t2
               else (t2, None))
              (\<lambda>t3. (t3\<lparr>t_lastPingAt := now\<rparr>, None))))"

definition setResetPingStrikes :: "H2Transport \<Rightarrow> H2Transport" where
  "setResetPingStrikes t = t\<lparr>t_resetPingStrikes := True\<rparr>"

definition Drain :: "H2Transport \<Rightarrow> done_step" where
  "Drain t =
     (if t_drainChan t \<noteq> None then (t, None)
      else t_put (GoAwayItem \<lparr>g_code = ErrCodeNo, g_debugData = [], g_headsUp = True, g_closeConn = False\<rparr>) (t\<lparr>t_drainChan := Some False\<rparr>))"

section \<open>The loop of the server\<close>

datatype reader_end = Reading | Returned | Faulted fault

fun reading :: "done_step \<Rightarrow> H2Transport \<times> reader_end" where
  "reading (t, None) = (t, Reading)"
| "reading (t, Some f) = (t, Faulted f)"

fun returned :: "done_step \<Rightarrow> H2Transport \<times> reader_end" where
  "returned (t, None) = (t, Returned)"
| "returned (t, Some f) = (t, Faulted f)"

definition frameError :: "(addr list \<Rightarrow> addr list) \<Rightarrow> frame_error \<Rightarrow> H2Transport \<Rightarrow> H2Transport \<times> reader_end" where
  "frameError ord e t =
     (case e of
        StreamError sid code cause \<Rightarrow>
          (case getStream sid t of
             Some a \<Rightarrow> reading (closeStream a None True code t)
           | None \<Rightarrow> reading (refuseStream sid code t))
      | EOF \<Rightarrow> returned (t_Close ord None t)
      | _ \<Rightarrow> returned (t_Close ord (Some (ErrReceived e)) t))"

fun serverFrame :: "float_ops \<Rightarrow> int \<Rightarrow> (addr list \<Rightarrow> addr list) \<Rightarrow> Frame \<Rightarrow> H2Transport \<Rightarrow> done_step" where
  "serverFrame fl now ord (MetaHeadersFrame fh prio flds truncated) t =
     (case operateHeaders fh flds truncated (t\<lparr>streamsStarted := streamsStarted t + 1\<rparr>) of
        (r, None) \<Rightarrow> r
      | (r, Some e) \<Rightarrow> and_do r (t_Close ord (Some e)))"
| "serverFrame fl now ord (DataFrame fh d) t = handleData fh d (t\<lparr>msgRecv := msgRecv t + 1\<rparr>)"
| "serverFrame fl now ord (RSTStreamFrame fh code) t = handleRSTStream (StreamID fh) code t"
| "serverFrame fl now ord (SettingsFrame fh p) t = handleSettings (IsAck fh) p t"
| "serverFrame fl now ord (PingFrame fh d) t = handlePing fl now (IsAck fh) d t"
| "serverFrame fl now ord (WindowUpdateFrame fh incr) t = handleWindowUpdate (StreamID fh) incr t"
| "serverFrame fl now ord _ t = (t, None)"

text \<open>\<^verbatim>\<open>HandleStreams\<close>, for the results of \<^verbatim>\<open>ReadFrame\<close> with the times at which they come.\<close>

fun HandleStreams ::
    "float_ops \<Rightarrow> (addr list \<Rightarrow> addr list) \<Rightarrow> (int \<times> (frame_error + Frame)) list \<Rightarrow> H2Transport \<Rightarrow> H2Transport \<times> reader_end" where
  "HandleStreams fl ord [] t = (t, Reading)"
| "HandleStreams fl ord ((now, r) # rs) t =
     (case (case r of Inl e \<Rightarrow> frameError ord e t | Inr f \<Rightarrow> reading (serverFrame fl now ord f t)) of
        (t1, Reading) \<Rightarrow> HandleStreams fl ord rs t1
      | x \<Rightarrow> x)"

end
