(* ===== verification/Connections.thy ===== *)
theory Connections
  imports Transport_Reader
begin

text \<open>
  Setting up a connection, opening streams from the client, and the frames that only a client handles
  (\<^verbatim>\<open>h2/h2_connection.go\<close>, \<^verbatim>\<open>h2/h2_connection_server.go\<close>, \<^verbatim>\<open>h2/hbone.go\<close>).
\<close>

section \<open>Configuration and initial state\<close>

record H2Config =
  InitialConnWindowSize :: int
  InitialWindowSize :: int
  MaxFrameSize :: u32
  cfg_MaxHeaderListSize :: "u32 option"
  MaxStreams :: u32
  HeaderTableSize :: "u32 option"
  MinTime :: Duration
  PermitWithoutStream :: bool

definition http2MaxFrameLen :: u32 where "http2MaxFrameLen = 16384"
definition initialWindowSize :: int where "initialWindowSize = 65535"
definition defaultMaxStreamsClient :: int where "defaultMaxStreamsClient = 100"
definition defaultKeepalivePolicyMinTime :: Duration where "defaultKeepalivePolicyMinTime = 5 * Minute"

definition frameSize :: "H2Config \<Rightarrow> u32" where
  "frameSize cfg = (if MaxFrameSize cfg \<noteq> 0 then MaxFrameSize cfg else http2MaxFrameLen)"

text \<open>The windows that a server advertises, and whether they may grow with the BDP estimate.\<close>

definition streamWindow :: "H2Config \<Rightarrow> int" where
  "streamWindow cfg = (if InitialWindowSize cfg \<ge> 65535 then InitialWindowSize cfg else initialWindowSize)"

definition connWindow :: "H2Config \<Rightarrow> int" where
  "connWindow cfg = (if InitialConnWindowSize cfg \<ge> 65535 then InitialConnWindowSize cfg else 2 * initialWindowSize)"

definition dynamicWindow :: "H2Config \<Rightarrow> bool" where
  "dynamicWindow cfg \<longleftrightarrow> \<not> InitialWindowSize cfg \<ge> 65535 \<and> \<not> InitialConnWindowSize cfg \<ge> 65535"

definition serverMaxStreams :: "H2Config \<Rightarrow> u32" where
  "serverMaxStreams cfg = (if MaxStreams cfg = 0 then 2 ^ 32 - 1 else MaxStreams cfg)"

definition serverSettings :: "H2Config \<Rightarrow> Setting list" where
  "serverSettings cfg =
     [\<lparr>ID = SettingMaxFrameSize, Val = frameSize cfg\<rparr>, \<lparr>ID = SettingMaxConcurrentStreams, Val = serverMaxStreams cfg\<rparr>]
     @ (if streamWindow cfg \<noteq> 65535 then [\<lparr>ID = SettingInitialWindowSize, Val = word_of_int (streamWindow cfg)\<rparr>] else [])
     @ (case cfg_MaxHeaderListSize cfg of None \<Rightarrow> [] | Some v \<Rightarrow> [\<lparr>ID = SettingMaxHeaderListSize, Val = v\<rparr>])
     @ (case HeaderTableSize cfg of None \<Rightarrow> [] | Some v \<Rightarrow> [\<lparr>ID = SettingHeaderTableSize, Val = v\<rparr>])"

definition newEstimator :: bdpEstimator where
  "newEstimator = \<lparr>sentAt = 0, bdp = word_of_int initialWindowSize, sample = 0, bwMax = 0, isSent = False, sampleCount = 0, rtt = 0\<rparr>"

text \<open>
  The transport of a new connection. The two sides differ in the fields given as arguments; neither sets
  \<^verbatim>\<open>cancel\<close>, and both start with the default window for streams.
\<close>

definition newTransport :: "side \<Rightarrow> u32 \<Rightarrow> u32 \<Rightarrow> trInFlow \<Rightarrow> bdpEstimator option \<Rightarrow> u32 \<Rightarrow> int \<Rightarrow> H2Config \<Rightarrow> (addr \<Rightarrow> H2Stream) \<Rightarrow> H2Transport" where
  "newTransport sd fs nid fc be mx now cfg st =
     \<lparr>t_side = sd, t_cb = newControlBuffer, t_cbLocked = False, t_streams = st, t_fresh = 0, t_activeStreams = Some [], t_closures = [],
      t_streamQuota = (if sd = clientSide then defaultMaxStreamsClient else 0), t_quotaToken = False, t_quotaChan = 0, t_waitingStreams = 0,
      t_maxConcurrentStreams = (if sd = clientSide then 100 else 0), t_maxSendHeaderListSize = None, t_FrameSize = fs, t_closing = False,
      t_closed = False, t_done = False, t_cancel = False, t_ctxDone = False, t_Error = None, t_maxStreamID = 0, t_maxStreams = mx,
      t_initialWindowSize = 65535, t_nextID = nid, t_fc = fc, t_bdp = be, t_idle = Some now, t_lastPingAt = 0, t_pingStrikes = 0,
      t_resetPingStrikes = False, t_minTime = (if sd = clientSide then 0 else if MinTime cfg = 0 then defaultKeepalivePolicyMinTime else MinTime cfg),
      t_permitWithoutStream = (sd \<noteq> clientSide \<and> PermitWithoutStream cfg), t_drainChan = None, t_goAway = False, t_prevGoAwayID = 0,
      t_goAwayReason = GoAwayInvalid, t_handle = False, t_kpDormant = False, streamsStarted = 0, streamsSucceeded = 0, streamsFailed = 0,
      msgRecv = 0, t_trace = []\<rparr>"

definition newServerTransport :: "int \<Rightarrow> H2Config \<Rightarrow> (addr \<Rightarrow> H2Stream) \<Rightarrow> H2Transport" where
  "newServerTransport now cfg st =
     newTransport serverSide (frameSize cfg) 2 \<lparr>tr_limit = word_of_int (connWindow cfg), unacked = 0, effectiveWindowSize = 0\<rparr>
       (if dynamicWindow cfg then Some newEstimator else None) (serverMaxStreams cfg) now cfg st"

definition clientPreface :: bytes where
  "clientPreface = bytes_of (''PRI * HTTP/2.0'' @ [CHR 0x0D, CHR 0x0A, CHR 0x0D, CHR 0x0A] @ ''SM'' @ [CHR 0x0D, CHR 0x0A, CHR 0x0D, CHR 0x0A])"

definition clientSettings :: "H2Config \<Rightarrow> Setting list" where
  "clientSettings cfg =
     (if InitialWindowSize cfg \<ge> 65535 then [\<lparr>ID = SettingInitialWindowSize, Val = word_of_int (InitialWindowSize cfg)\<rparr>] else [])
     @ (if MaxFrameSize cfg \<noteq> 0 then [\<lparr>ID = SettingMaxFrameSize, Val = MaxFrameSize cfg\<rparr>] else [])
     @ [\<lparr>ID = SettingMaxHeaderListSize, Val = (case cfg_MaxHeaderListSize cfg of None \<Rightarrow> 10485760 | Some v \<Rightarrow> v)\<rparr>]"

text \<open>A new client connection, and the fields that \<^verbatim>\<open>StartConn\<close> sets: until then there is no window.\<close>

definition NewConnection :: "int \<Rightarrow> H2Config \<Rightarrow> (addr \<Rightarrow> H2Stream) \<Rightarrow> H2Transport" where
  "NewConnection now cfg st =
     newTransport clientSide 0 1 \<lparr>tr_limit = 0, unacked = 0, effectiveWindowSize = 0\<rparr>
       (if dynamicWindow cfg then Some newEstimator else None) 0 now cfg st"

definition startedConn :: "H2Config \<Rightarrow> H2Transport \<Rightarrow> H2Transport" where
  "startedConn cfg t =
     t\<lparr>t_FrameSize := http2MaxFrameLen,
       t_fc := \<lparr>tr_limit = word_of_int (if InitialConnWindowSize cfg > 65535 then InitialConnWindowSize cfg else 65535), unacked = 0, effectiveWindowSize = 0\<rparr>\<rparr>"

section \<open>Opening a stream\<close>

text \<open>The stream of \<^verbatim>\<open>DialStream\<close>, before its headers are queued.\<close>

definition dialedStream :: "bool \<Rightarrow> addr \<Rightarrow> H2Stream" where
  "dialedStream onData a =
     \<lparr>MuxID = 0, s_done = Some False, headerChan = True, headerChanClosed = False, headerSent = False, streamDone = False, readClosed = 0,
      writeClosed = False, s_Error = None, unprocessed = False, s_inFlow = \<lparr>limit = 0, pendingData = 0, pendingUpdate = 0, delta = 0\<rparr>,
      s_outFlow = Some a, s_cancel = False, OnData = onData, inFrameList = (if onData then None else Some []), RcvdBytes = 0,
      RcvdPackets = 0, SentPackets = 0, rsp_Status = [], rsp_StatusCode = 0, rsp_Header = [], rsp_Trailer = []\<rparr>"

text \<open>
  The two checks run under the lock of the control buffer; the first hands out the identifier. What is
  left of the header frame, the identifier, is the number in the result.
\<close>

definition takeID :: "addr \<Rightarrow> H2Transport \<Rightarrow> H2Transport" where
  "takeID a t =
     set_stream a (\<lambda>s. s\<lparr>MuxID := t_nextID t, s_inFlow := \<lparr>limit = t_initialWindowSize t, pendingData = 0, pendingUpdate = 0, delta = 0\<rparr>\<rparr>)
       (t\<lparr>t_nextID := t_nextID t + 2, t_closures := (t_nextID t, a) # t_closures t\<rparr>)"

definition checkForStreamQuota :: "bool \<Rightarrow> addr \<Rightarrow> H2Transport \<Rightarrow> H2Transport \<times> bool" where
  "checkForStreamQuota firstTry a t =
     (if IsServer t then (takeID a t, True)
      else if t_streamQuota t \<le> 0 then (if firstTry then t\<lparr>t_waitingStreams := t_waitingStreams t + 1\<rparr> else t, False)
      else
        let t1 = (if \<not> firstTry then t\<lparr>t_waitingStreams := t_waitingStreams t - 1\<rparr> else t);
            t2 = takeID a (t1\<lparr>t_streamQuota := t_streamQuota t1 - 1\<rparr>)
        in (if t_streamQuota t2 > 0 \<and> t_waitingStreams t2 > 0 then t2\<lparr>t_quotaToken := True\<rparr> else t2, True))"

fun headerListFits :: "HeaderField list \<Rightarrow> int \<Rightarrow> u32 \<Rightarrow> bool" where
  "headerListFits [] sz mx \<longleftrightarrow> True"
| "headerListFits (f # fs) sz mx \<longleftrightarrow>
     (let sz1 = sz + int (unat (Size f)) in if sz1 > int (unat mx) then False else headerListFits fs sz1 mx)"

definition checkForHeaderListSize :: "HeaderField list \<Rightarrow> H2Transport \<Rightarrow> bool" where
  "checkForHeaderListSize flds t = (case t_maxSendHeaderListSize t of None \<Rightarrow> True | Some mx \<Rightarrow> headerListFits flds 0 mx)"

text \<open>
  What an attempt of \<^verbatim>\<open>writeRequestHeaders\<close> to queue the headers ends with: they are queued, the goroutine waits
  for quota (on the channel with the given number), or the call returns an error. The identifier in the
  item is the one that the first check writes into it.
\<close>

datatype dial_error = DialConnClosed cb_error | DialHeaderListSize | DialContext | DialStreamDrain | DialConnClosing
datatype dial_result = DialQueued | DialWait nat | DialError dial_error

definition requestItem :: "addr \<Rightarrow> HeaderField list \<Rightarrow> H2Transport \<Rightarrow> cbItem" where
  "requestItem a flds t =
     HeaderItem \<lparr>h_streamID = t_nextID t, h_hf = flds, h_endStream = False, h_initStream = Some InitOk, h_onWrite = True,
       h_wq = s_outFlow (t_streams t a), h_cleanup = None, h_onOrphaned = True\<rparr>"

definition checkRequest :: "bool \<Rightarrow> addr \<Rightarrow> HeaderField list \<Rightarrow> cbItem \<Rightarrow> H2Transport \<Rightarrow> H2Transport \<times> bool" where
  "checkRequest firstTry a flds item t =
     (case checkForStreamQuota firstTry a t of
        (t1, False) \<Rightarrow> (t1, False)
      | (t1, True) \<Rightarrow> (t1, checkForHeaderListSize flds t1))"

definition writeRequestHeaders :: "bool \<Rightarrow> addr \<Rightarrow> HeaderField list \<Rightarrow> H2Transport \<Rightarrow> H2Transport \<times> (fault + dial_result)" where
  "writeRequestHeaders firstTry a flds t =
     (case t_execPut (Some (checkRequest firstTry a flds)) (requestItem a flds t) t of
        (t1, Inl f) \<Rightarrow> (t1, Inl f)
      | (t1, Inr (Inl e)) \<Rightarrow> (t1, Inr (DialError (DialConnClosed e)))
      | (t1, Inr (Inr True)) \<Rightarrow> (t1, Inr DialQueued)
      | (t1, Inr (Inr False)) \<Rightarrow>
          (t1, Inr (if IsServer t \<or> t_streamQuota t > 0 then DialError DialHeaderListSize else DialWait (t_quotaChan t1))))"

text \<open>The goroutine that waits: which case of the \<^verbatim>\<open>select\<close> it takes, if that case is ready.\<close>

datatype dial_wake = OnQuota | OnContext bool | OnGoAway | OnConnContext

fun dialWake :: "nat \<Rightarrow> dial_wake \<Rightarrow> addr \<Rightarrow> HeaderField list \<Rightarrow> H2Transport \<Rightarrow> (H2Transport \<times> (fault + dial_result)) option" where
  "dialWake n OnQuota a flds t =
     (if n < t_quotaChan t then Some (writeRequestHeaders False a flds t)
      else if t_quotaToken t then Some (writeRequestHeaders False a flds (t\<lparr>t_quotaToken := False\<rparr>)) else None)"
| "dialWake n (OnContext over) a flds t = (if over then Some (t, Inr (DialError DialContext)) else None)"
| "dialWake n OnGoAway a flds t = (if t_goAway t then Some (t, Inr (DialError DialStreamDrain)) else None)"
| "dialWake n OnConnContext a flds t = (if t_ctxDone t then Some (t, Inr (DialError DialConnClosing)) else None)"

text \<open>\<^verbatim>\<open>DialStream\<close>, up to the first attempt, and what it does after the headers were queued.\<close>

definition dialed :: "addr \<Rightarrow> H2Transport \<Rightarrow> H2Transport" where
  "dialed a t = t_call (EvStream EventStreamStart a) (set_stream a (\<lambda>s. fst (updateHeaderSent s)) t)"

definition DialStream :: "bool \<Rightarrow> HeaderField list \<Rightarrow> H2Transport \<Rightarrow> H2Transport \<times> (fault + dial_result)" where
  "DialStream onData flds t =
     (let a = t_fresh t;
          t1 = t_call (EvStream EventStreamRequestStart a)
                 (t\<lparr>t_streams := (t_streams t)(a := dialedStream onData a), t_fresh := Suc a\<rparr>)
      in case writeRequestHeaders True a flds t1 of
           (t2, Inr DialQueued) \<Rightarrow> (dialed a t2, Inr DialQueued)
         | r \<Rightarrow> r)"

text \<open>The callback \<^verbatim>\<open>initStream\<close>, called by the writer before it writes the headers.\<close>

definition initStream :: "addr \<Rightarrow> u32 \<Rightarrow> H2Transport \<Rightarrow> done_step \<times> init_result" where
  "initStream a sid t =
     (if t_closing t then (orphanedRequest ErrConnClosingT a t, InitConnClosing)
      else case t_activeStreams t of
        None \<Rightarrow> ((t, Some (Panic ''assignment to entry in nil map'')), InitOk)
      | Some m \<Rightarrow> ((t\<lparr>t_activeStreams := Some (AList.update sid a m), streamsStarted := streamsStarted t + 1\<rparr>, None), InitOk))"

section \<open>Frames that a client handles in its own way\<close>

text \<open>
  The limit on streams. \<open>t_quotaChan\<close> counts the channels that were closed to wake up every waiting
  request.
\<close>

definition updateStreamQuota :: "u32 \<Rightarrow> H2Transport \<Rightarrow> H2Transport" where
  "updateStreamQuota mx t =
     (let d = int (unat mx) - int (unat (t_maxConcurrentStreams t));
          t1 = t\<lparr>t_maxConcurrentStreams := mx, t_streamQuota := t_streamQuota t + d\<rparr>
      in if d > 0 \<and> t_waitingStreams t1 > 0 then t1\<lparr>t_quotaChan := Suc (t_quotaChan t1), t_quotaToken := False\<rparr> else t1)"

definition clientHandleSettings :: "bool \<Rightarrow> bool \<Rightarrow> bytes \<Rightarrow> H2Transport \<Rightarrow> done_step" where
  "clientHandleSettings isFirst ack p t =
     (if ack then (t, None)
      else
        let r = readSettings False p t;
            mx = (if isFirst \<and> sr_maxStreams r = None then Some (2 ^ 32 - 1) else sr_maxStreams r);
            upd = (\<lambda>t. let t1 = applyHeaderList (sr_headerList r) t in case mx of None \<Rightarrow> t1 | Some v \<Rightarrow> updateStreamQuota v t1)
        in case t_execPut (Some (\<lambda>item t. (upd t, True))) (IncomingSettings (sr_ss r)) (t\<lparr>t_FrameSize := sr_FrameSize r\<rparr>) of
             (t1, Inl f) \<Rightarrow> (t1, Some f)
           | (t1, Inr x) \<Rightarrow> (t_call (EvMux Event_Settings) t1, None))"

definition clientHandlePing :: "float_ops \<Rightarrow> int \<Rightarrow> bool \<Rightarrow> bytes \<Rightarrow> H2Transport \<Rightarrow> done_step" where
  "clientHandlePing fl now ack d t =
     (if ack then
        case t_bdp t of
          None \<Rightarrow> (t, None)
        | Some e \<Rightarrow>
            (let (e1, w) = calculate fl now d e
             in case w of None \<Rightarrow> (t\<lparr>t_bdp := Some e1\<rparr>, None) | Some n \<Rightarrow> updateFlowControl n (t\<lparr>t_bdp := Some e1\<rparr>))
      else t_put (PingItem True d) t)"

definition setGoAwayReason :: "ErrCode \<Rightarrow> bytes \<Rightarrow> GoAwayReason" where
  "setGoAwayReason code debug =
     (if code = ErrCodeEnhanceYourCalm \<and> debug = bytes_of ''too_many_pings'' then GoAwayTooManyPings else GoAwayNoReason)"

text \<open>The streams that the peer did not process; \<open>ord\<close> is the order of the iteration over the map.\<close>

definition killed :: "u32 \<Rightarrow> u32 \<Rightarrow> H2Transport \<Rightarrow> addr list" where
  "killed sid upper t =
     map snd (filter (\<lambda>(k, a). k > sid \<and> k \<le> upper) (case t_activeStreams t of None \<Rightarrow> [] | Some m \<Rightarrow> m))"

fun killAll :: "addr list \<Rightarrow> H2Transport \<Rightarrow> done_step" where
  "killAll [] t = (t, None)"
| "killAll (a # as) t =
     and_do (closeStream a (Some ErrStreamDrain) False ErrCodeNo (set_stream a (\<lambda>s. s\<lparr>unprocessed := True\<rparr>) t)) (killAll as)"

definition handleGoAway :: "(addr list \<Rightarrow> addr list) \<Rightarrow> u32 \<Rightarrow> ErrCode \<Rightarrow> bytes \<Rightarrow> H2Transport \<Rightarrow> done_step" where
  "handleGoAway ord sid code debug t =
     (if t_closing t then (t, None)
      else if sid > 0 \<and> sid mod 2 = 0 then t_Close ord (Some (ErrGoAwayEven sid)) t
      else if t_goAway t \<and> sid > t_prevGoAwayID t then t_Close ord (Some (ErrGoAwayOrder sid (t_prevGoAwayID t))) t
      else
        and_do
          (if t_goAway t then (t, None)
           else and_do (t_put IncomingGoAway (t\<lparr>t_goAwayReason := setGoAwayReason code debug, t_goAway := True\<rparr>))
                  (\<lambda>t1. ((t_call (EvMux Event_GoAway) t1)\<lparr>t_closing := True\<rparr>, None)))
          (\<lambda>t2.
            let upper = (if t_prevGoAwayID t2 = 0 then 2 ^ 32 - 1 else t_prevGoAwayID t2)
            in and_do (killAll (ord (killed sid upper t2)) t2) (\<lambda>t3.
                 let t4 = t3\<lparr>t_prevGoAwayID := sid\<rparr>
                 in if (case t_activeStreams t4 of None \<Rightarrow> True | Some m \<Rightarrow> m = []) then t_Close ord (Some ErrGoAwayIdle) t4
                    else (t4, None))))"

definition operateClientResponseHeaders :: "FrameHeader \<Rightarrow> HeaderField list \<Rightarrow> bool \<Rightarrow> H2Transport \<Rightarrow> done_step" where
  "operateClientResponseHeaders fh flds truncated t =
     (if StreamID fh mod 2 = 0 \<and> \<not> IsServer t then fst (operateAcceptHeaders fh flds truncated t)
      else operateResponseHeaders fh flds truncated t)"

section \<open>The loop of the client\<close>

definition clientFrameError :: "(addr list \<Rightarrow> addr list) \<Rightarrow> frame_error \<Rightarrow> H2Transport \<Rightarrow> H2Transport \<times> reader_end" where
  "clientFrameError ord e t =
     (case e of
        StreamError sid code cause \<Rightarrow>
          (case getStream sid t of
             Some a \<Rightarrow> reading (closeStream a (Some (ErrReceived e)) True ErrCodeProtocol t)
           | None \<Rightarrow> (t, Reading))
      | _ \<Rightarrow> returned (t_Close ord (Some (ErrReceived e)) t))"

fun clientFrame :: "float_ops \<Rightarrow> int \<Rightarrow> (addr list \<Rightarrow> addr list) \<Rightarrow> Frame \<Rightarrow> H2Transport \<Rightarrow> done_step" where
  "clientFrame fl now ord (MetaHeadersFrame fh prio flds truncated) t = operateClientResponseHeaders fh flds truncated t"
| "clientFrame fl now ord (DataFrame fh d) t = handleData fh d t"
| "clientFrame fl now ord (RSTStreamFrame fh code) t = handleRSTStream (StreamID fh) code t"
| "clientFrame fl now ord (SettingsFrame fh p) t = clientHandleSettings False (IsAck fh) p t"
| "clientFrame fl now ord (PingFrame fh d) t = clientHandlePing fl now (IsAck fh) d t"
| "clientFrame fl now ord (GoAwayFrame fh sid code debug) t = handleGoAway ord sid code debug t"
| "clientFrame fl now ord (WindowUpdateFrame fh incr) t = handleWindowUpdate (StreamID fh) incr t"
| "clientFrame fl now ord _ t = (t, None)"

fun readerLoop ::
    "float_ops \<Rightarrow> (addr list \<Rightarrow> addr list) \<Rightarrow> (int \<times> (frame_error + Frame)) list \<Rightarrow> H2Transport \<Rightarrow> H2Transport \<times> reader_end" where
  "readerLoop fl ord [] t = (t, Reading)"
| "readerLoop fl ord ((now, r) # rs) t =
     (case (case r of Inl e \<Rightarrow> clientFrameError ord e t | Inr f \<Rightarrow> reading (clientFrame fl now ord f t)) of
        (t1, Reading) \<Rightarrow> readerLoop fl ord rs t1
      | x \<Rightarrow> x)"

text \<open>\<^verbatim>\<open>reader\<close>: the first frame has to be a SETTINGS frame.\<close>

fun clientReader ::
    "float_ops \<Rightarrow> (addr list \<Rightarrow> addr list) \<Rightarrow> (int \<times> (frame_error + Frame)) list \<Rightarrow> H2Transport \<Rightarrow> H2Transport \<times> reader_end" where
  "clientReader fl ord [] t = (t, Reading)"
| "clientReader fl ord ((now, Inl e) # rs) t = returned (t_Close ord (Some (ErrReceived e)) t)"
| "clientReader fl ord ((now, Inr (SettingsFrame fh p)) # rs) t =
     (case reading (clientHandleSettings True (IsAck fh) p t) of (t1, Reading) \<Rightarrow> readerLoop fl ord rs t1 | x \<Rightarrow> x)"
| "clientReader fl ord ((now, Inr f) # rs) t = returned (t_Close ord (Some ErrNotSettings) t)"

end
