(* ===== verification/Stream_Ops.thy ===== *)
theory Stream_Ops
  imports Connections
begin

text \<open>
  What the application does with a stream (\<^verbatim>\<open>h2/stream.go\<close>, and the methods of the connection that it
  calls): sending headers, data and trailers, and closing. Each definition covers a method until it returns;
  \<open>got\<close> is what \<^verbatim>\<open>waitOrConsumeQuota\<close> answered to a method that waits for quota. After its item was
  queued, \<^verbatim>\<open>Write\<close> waits for the writer goroutine, which is not part of these steps.
\<close>

section \<open>Errors\<close>

datatype send_error =
    ErrIllegalHeaderWrite
  | ErrHeaderListSizeLimitViolation
  | ErrContext
  | ErrSend h2_error
  | ErrQueue cb_error

type_synonym send_step = "H2Transport \<times> (fault + send_error option)"

fun then_send :: "send_step \<Rightarrow> (H2Transport \<Rightarrow> send_step) \<Rightarrow> send_step" where
  "then_send (t, Inr None) k = k t"
| "then_send r k = r"

definition streamContextErr :: "H2Transport \<Rightarrow> send_error" where
  "streamContextErr t = (if t_done t then ErrSend ErrConnClosingT else ErrContext)"

text \<open>\<^verbatim>\<open>closeStream\<close> after a refused header list, and the error that is returned.\<close>

definition refusedHeaderList :: "addr \<Rightarrow> H2Transport \<Rightarrow> send_step" where
  "refusedHeaderList a t =
     (case closeStream a None True ErrCodeInternal t of
        (t1, Some f) \<Rightarrow> (t1, Inl f)
      | (t1, None) \<Rightarrow> (t1, Inr (Some ErrHeaderListSizeLimitViolation)))"

section \<open>Headers\<close>

text \<open>The association list of a header is in the order in which Go iterates over it.\<close>

definition Itoa :: "int \<Rightarrow> string" where
  "Itoa n = (if n < 0 then CHR ''-'' # FormatInt (nat (- n)) else FormatInt (nat n))"

definition responseFields :: "H2Stream \<Rightarrow> HeaderField list" where
  "responseFields s =
     appendHeaderFieldsFromMD [hf '':status'' (if rsp_Status s = [] then ''200'' else rsp_Status s)] (rsp_Header s)"

definition responseItem :: "addr \<Rightarrow> H2Transport \<Rightarrow> cbItem" where
  "responseItem a t =
     (let s = t_streams t a
      in HeaderItem \<lparr>h_streamID = MuxID s, h_hf = responseFields s, h_endStream = False, h_initStream = None, h_onWrite = True, h_wq = None,
           h_cleanup = None, h_onOrphaned = False\<rparr>)"

definition writeResponseHeaders :: "addr \<Rightarrow> H2Transport \<Rightarrow> send_step" where
  "writeResponseHeaders a t =
     (case t_execPut (Some (\<lambda>item t. (t, checkForHeaderListSize (responseFields (t_streams t a)) t))) (responseItem a t) t of
        (t1, Inl f) \<Rightarrow> (t1, Inl f)
      | (t1, Inr (Inl e)) \<Rightarrow> (t1, Inr (Some (ErrQueue e)))
      | (t1, Inr (Inr True)) \<Rightarrow> (t1, Inr None)
      | (t1, Inr (Inr False)) \<Rightarrow> refusedHeaderList a t1)"

definition t_WriteHeader :: "addr \<Rightarrow> H2Transport \<Rightarrow> send_step" where
  "t_WriteHeader a t =
     (let (s, sent) = updateHeaderSent (t_streams t a);
          t1 = set_stream a (\<lambda>_. s) t
      in if sent then (t1, Inr (Some ErrIllegalHeaderWrite))
         else if streamDone s then (t1, Inr (Some (streamContextErr t1)))
         else writeResponseHeaders a t1)"

definition WriteHeader :: "addr \<Rightarrow> int \<Rightarrow> H2Transport \<Rightarrow> send_step" where
  "WriteHeader a statusCode t =
     (let t1 = set_stream a (\<lambda>s. s\<lparr>rsp_Status := (if statusCode = 0 then ''200'' else Itoa statusCode)\<rparr>) t
      in if headerSent (t_streams t1 a) then (t1, Inr None) else t_WriteHeader a t1)"

section \<open>Trailers\<close>

definition trailerItem :: "addr \<Rightarrow> H2Transport \<Rightarrow> headerFrame" where
  "trailerItem a t =
     (let s = t_streams t a
      in \<lparr>h_streamID = MuxID s, h_hf = appendHeaderFieldsFromMD [] (rsp_Trailer s), h_endStream = True, h_initStream = None,
          h_onWrite = True, h_wq = None,
          h_cleanup = Some \<lparr>c_streamID = MuxID s, rst = False, rstCode = 0, c_onWrite = False\<rparr>, h_onOrphaned = False\<rparr>)"

definition writeTrailer :: "addr \<Rightarrow> H2Transport \<Rightarrow> send_step" where
  "writeTrailer a t =
     (if writeClosed (t_streams t a) then (t, Inr (Some (ErrSend ErrStreamDone)))
      else
        let t1 = set_stream a setWriteClosed t in
        if t_cbLocked t1 then (t1, Inl Blocked)
        else case cb_execute (\<lambda>item t. (t, checkForHeaderListSize (h_hf item) t)) (trailerItem a t1) (t_cb t1, t1) of
          (t2, Inl e) \<Rightarrow> (t2, Inr (Some (ErrQueue e)))
        | (t2, Inr False) \<Rightarrow> refusedHeaderList a t2
        | (t2, Inr True) \<Rightarrow> (case t_put (HeaderItem (trailerItem a t2)) t2 of (t3, Some f) \<Rightarrow> (t3, Inl f) | (t3, None) \<Rightarrow> (t3, Inr None)))"

section \<open>Data\<close>

text \<open>What \<^verbatim>\<open>Send\<close> and \<^verbatim>\<open>Write\<close> do before the data: the headers, the check, and the end mark.\<close>

definition openForData :: "addr \<Rightarrow> bool \<Rightarrow> H2Transport \<Rightarrow> send_step" where
  "openForData a fin t =
     then_send (if headerSent (t_streams t a) then (t, Inr None) else t_WriteHeader a t) (\<lambda>t1.
       if writeClosed (t_streams t1 a) then (t1, Inr (Some (ErrSend ErrStreamDone)))
       else (if fin then set_stream a setWriteClosed t1 else t1, Inr None))"

definition putData :: "addr \<Rightarrow> bool \<Rightarrow> dataFrame \<Rightarrow> H2Transport \<Rightarrow> send_step" where
  "putData a got df t =
     (if \<not> got then (t, Inr (Some (streamContextErr t)))
      else case t_execPut None (DataItem df) t of
        (t1, Inl f) \<Rightarrow> (t1, Inl f)
      | (t1, Inr (Inl e)) \<Rightarrow> (t1, Inr (Some (ErrQueue e)))
      | (t1, Inr (Inr _)) \<Rightarrow> (t1, Inr None))"

text \<open>
  \<open>start\<close> and \<open>stop\<close> are the range of the buffer that is sent; an empty buffer (\<open>None\<close>) needs no quota. What is
  beyond the end of the slice \<open>b\<close> in its array is \<open>spare\<close>. \<^verbatim>\<open>Send\<close> returns the error of the stream.
\<close>

definition Send :: "bool \<Rightarrow> addr \<Rightarrow> bytes option \<Rightarrow> bytes \<Rightarrow> int \<Rightarrow> int \<Rightarrow> bool \<Rightarrow> H2Transport \<Rightarrow> send_step" where
  "Send got a b spare start stop fin t =
     then_send (openForData a fin t) (\<lambda>t1.
       let t2 = set_stream a (\<lambda>s. s\<lparr>SentPackets := SentPackets s + 1\<rparr>) t1
       in then_send
            (putData a (b = None \<or> got)
              \<lparr>d_streamID = MuxID (t_streams t2 a), d_endStream = fin, d_d = (case b of None \<Rightarrow> [] | Some x \<Rightarrow> x), d_spare = spare,
               d_start = start, d_end = stop, d_onEachWrite = True, d_onDone = False, d_onDoneFunc = True\<rparr> t2)
            (\<lambda>t3. (t3, Inr (map_option ErrSend (s_Error (t_streams t3 a))))))"

definition t_Write :: "bool \<Rightarrow> addr \<Rightarrow> bytes option \<Rightarrow> bytes \<Rightarrow> bool \<Rightarrow> H2Transport \<Rightarrow> send_step" where
  "t_Write got a b spare fin t =
     then_send (openForData a fin t) (\<lambda>t1.
       putData a (b = None \<or> got)
         \<lparr>d_streamID = MuxID (t_streams t1 a), d_endStream = fin, d_d = (case b of None \<Rightarrow> [] | Some x \<Rightarrow> x), d_spare = spare,
          d_start = 0, d_end = 0, d_onEachWrite = True, d_onDone = True, d_onDoneFunc = False\<rparr> t1)"

section \<open>Closing\<close>

definition CloseWrite :: "addr \<Rightarrow> H2Transport \<Rightarrow> send_step" where
  "CloseWrite a t =
     (let (s, sent) = updateHeaderSent (t_streams t a);
          t1 = set_stream a (\<lambda>_. s) t
      in then_send (if sent then (t1, Inr None) else writeResponseHeaders a t1) (\<lambda>t2.
           if rsp_Trailer (t_streams t2 a) \<noteq> [] then writeTrailer a t2 else t_Write True a None [] True t2))"

definition CloseError :: "addr \<Rightarrow> ErrCode \<Rightarrow> H2Transport \<Rightarrow> done_step" where
  "CloseError a code t = closeStream a None True code t"

text \<open>\<^verbatim>\<open>Close\<close> of a stream; the error of \<^verbatim>\<open>CloseWrite\<close> is ignored, and the calls that unblock waiting writes follow.\<close>

definition stream_Close :: "addr \<Rightarrow> H2Transport \<Rightarrow> done_step" where
  "stream_Close a t =
     and_do
       (if writeClosed (t_streams t a) then (t, None)
        else case CloseWrite a t of (t1, Inl f) \<Rightarrow> (t1, Some f) | (t1, Inr _) \<Rightarrow> (t1, None))
       (\<lambda>t2. and_do (closeStream a None False 0 t2) (\<lambda>t3.
          let t4 = (if readClosed (t_streams t3 a) = 0 then set_stream a (setReadClosed 2 ErrStreamRST) t3 else t3)
          in (if s_cancel (t_streams t4 a) then t_call (CallCancel a) t4 else t4, None)))"

end
