(* ===== verification/Transport_Rules.thy ===== *)
theory Transport_Rules
  imports Stream_Ops "HOL-Library.Multiset"
begin

text \<open>
  What the operations of a connection do when they are put together: requests of a client, the GOAWAY
  of its peer, closing a connection, and the frames of a peer that stop a server. Each theorem is about
  the operations of \<^verbatim>\<open>Transport\<close>, \<^verbatim>\<open>Transport_Reader\<close>, \<^verbatim>\<open>Connections\<close> and \<^verbatim>\<open>Stream_Ops\<close> run one after the other.
\<close>

section \<open>The queue of a connection\<close>

definition queued :: "H2Transport \<Rightarrow> cbItem list" where
  "queued t = il_items (cb_list (t_cb t))"

text \<open>A connection that works: its buffer takes items.\<close>

definition open_transport :: "H2Transport \<Rightarrow> bool" where
  "open_transport t \<longleftrightarrow> il_wf (cb_list (t_cb t)) \<and> cb_err (t_cb t) = None \<and> \<not> t_cbLocked t \<and> \<not> t_closed t"

lemma countResponse_fields [simp]:
  "cb_list (countResponse i c) = cb_list c" "cb_err (countResponse i c) = cb_err c" "cb_done (countResponse i c) = cb_done c"
  by (simp_all add: countResponse_def Let_def)

lemma wakeUp_simps [simp]: "cb_list (wakeUp c) = cb_list c" "cb_err (wakeUp c) = cb_err c"
  by (simp_all add: wakeUp_def)

lemma queued_upd [simp]:
  "queued (set_stream a f t) = queued t" "queued (t_call c t) = queued t" "queued (releaseStream a err t) = queued t"
  by (simp_all add: queued_def)

lemma open_upd [simp]:
  "open_transport (set_stream a f t) = open_transport t" "open_transport (t_call c t) = open_transport t"
  "open_transport (releaseStream a err t) = open_transport t"
  by (simp_all add: open_transport_def)

text \<open>A put into the buffer of a working connection appends the item and changes nothing else.\<close>

lemma t_put_open:
  assumes "open_transport t"
  shows "\<exists>c. t_put item t = (t\<lparr>t_cb := c\<rparr>, None) \<and> il_items (cb_list c) = queued t @ [item] \<and> il_wf (cb_list c) \<and> cb_err c = None"
  using assms
  by (auto simp: t_put_def t_execPut_def executeAndPut_def open_transport_def queued_def Let_def il.queue_simps)

lemma t_execPut_open:
  assumes "open_transport t" "f item t = (t1, ok)" "t_cb t1 = t_cb t"
  shows "\<exists>c. t_execPut (Some f) item t = (t1\<lparr>t_cb := c\<rparr>, Inr (Inr ok)) \<and> il_wf (cb_list c) \<and> cb_err c = None \<and>
    il_items (cb_list c) = queued t @ (if ok then [item] else [])"
  using assms
  by (auto simp: t_execPut_def executeAndPut_def open_transport_def queued_def Let_def il.queue_simps split: if_splits)

lemma closed_request_in_orphans: "HeaderItem h \<in> set xs \<Longrightarrow> h_onOrphaned h \<Longrightarrow> h \<in> set (orphans xs)"
  by (induction xs rule: orphans.induct) auto

section \<open>Requests\<close>

lemma takeID_simps [simp]:
  "t_cb (takeID a t) = t_cb t" "t_streamQuota (takeID a t) = t_streamQuota t" "t_closures (takeID a t) = (t_nextID t, a) # t_closures t"
  "t_cbLocked (takeID a t) = t_cbLocked t" "t_closed (takeID a t) = t_closed t" "t_maxSendHeaderListSize (takeID a t) = t_maxSendHeaderListSize t"
  "streamDone (t_streams (takeID a t) b) = streamDone (t_streams t b)" "t_side (takeID a t) = t_side t" "t_activeStreams (takeID a t) = t_activeStreams t"
  "t_waitingStreams (takeID a t) = t_waitingStreams t" "MuxID (t_streams (takeID a t) a) = t_nextID t" "t_nextID (takeID a t) = t_nextID t + 2"
  by (simp_all add: takeID_def set_stream_def)

lemma checkForStreamQuota_client:
  assumes "t_side t = clientSide" "t_streamQuota t > 0"
  shows "\<exists>t1. checkForStreamQuota firstTry a t = (t1, True) \<and> t_cb t1 = t_cb t \<and> t_streamQuota t1 = t_streamQuota t - 1 \<and>
    t_closures t1 = (t_nextID t, a) # t_closures t \<and> t_cbLocked t1 = t_cbLocked t \<and> t_closed t1 = t_closed t \<and> t_side t1 = t_side t \<and>
    t_activeStreams t1 = t_activeStreams t \<and> t_maxSendHeaderListSize t1 = t_maxSendHeaderListSize t \<and>
    streamDone (t_streams t1 a) = streamDone (t_streams t a) \<and> t_nextID t1 = t_nextID t + 2"
  using assms by (auto simp: checkForStreamQuota_def IsServer_def Let_def)

text \<open>
  An attempt of a client: with no quota it waits and changes nothing that others see; with quota it takes
  one unit and an identifier, and the headers are queued exactly if the header list fits.
\<close>

lemma writeRequestHeaders_client:
  assumes "open_transport t" "t_side t = clientSide"
  shows "t_streamQuota t \<le> 0 \<Longrightarrow>
      \<exists>t1. writeRequestHeaders firstTry a flds t = (t1, Inr (DialWait (t_quotaChan t))) \<and> queued t1 = queued t \<and> t_streamQuota t1 = t_streamQuota t"
    and "t_streamQuota t > 0 \<Longrightarrow>
      \<exists>t1. writeRequestHeaders firstTry a flds t =
          (t1, Inr (if checkForHeaderListSize flds t then DialQueued else DialError DialHeaderListSize)) \<and>
        queued t1 = queued t @ (if checkForHeaderListSize flds t then [requestItem a flds t] else []) \<and>
        open_transport t1 \<and> t_side t1 = clientSide \<and> t_streamQuota t1 = t_streamQuota t - 1 \<and>
        t_closures t1 = (t_nextID t, a) # t_closures t \<and> streamDone (t_streams t1 a) = streamDone (t_streams t a) \<and>
        t_activeStreams t1 = t_activeStreams t \<and> t_maxSendHeaderListSize t1 = t_maxSendHeaderListSize t \<and> t_nextID t1 = t_nextID t + 2"
proof -
  assume "t_streamQuota t \<le> 0"
  then have c: "checkRequest firstTry a flds (requestItem a flds t) t =
      (if firstTry then t\<lparr>t_waitingStreams := t_waitingStreams t + 1\<rparr> else t, False)"
    using assms(2) by (simp add: checkRequest_def checkForStreamQuota_def IsServer_def)
  from t_execPut_open [OF assms(1), of "checkRequest firstTry a flds", OF c]
  show "\<exists>t1. writeRequestHeaders firstTry a flds t = (t1, Inr (DialWait (t_quotaChan t))) \<and> queued t1 = queued t \<and> t_streamQuota t1 = t_streamQuota t"
    using \<open>t_streamQuota t \<le> 0\<close> assms(2) by (auto simp: writeRequestHeaders_def IsServer_def queued_def split: if_splits)
next
  assume q: "t_streamQuota t > 0"
  from checkForStreamQuota_client [OF assms(2) q, of firstTry a] obtain t1 where t1:
    "checkForStreamQuota firstTry a t = (t1, True)" "t_cb t1 = t_cb t" "t_streamQuota t1 = t_streamQuota t - 1"
    "t_closures t1 = (t_nextID t, a) # t_closures t" "t_cbLocked t1 = t_cbLocked t" "t_closed t1 = t_closed t" "t_side t1 = t_side t"
    "t_activeStreams t1 = t_activeStreams t" "t_maxSendHeaderListSize t1 = t_maxSendHeaderListSize t"
    "streamDone (t_streams t1 a) = streamDone (t_streams t a)" "t_nextID t1 = t_nextID t + 2" by blast
  have fit: "checkForHeaderListSize flds t1 = checkForHeaderListSize flds t" using t1(9) by (simp add: checkForHeaderListSize_def)
  have "checkRequest firstTry a flds (requestItem a flds t) t = (t1, checkForHeaderListSize flds t)"
    using t1(1) fit by (simp add: checkRequest_def)
  from t_execPut_open [OF assms(1), of "checkRequest firstTry a flds", OF this t1(2)] obtain c where c:
    "t_execPut (Some (checkRequest firstTry a flds)) (requestItem a flds t) t = (t1\<lparr>t_cb := c\<rparr>, Inr (Inr (checkForHeaderListSize flds t)))"
    "il_wf (cb_list c)" "cb_err c = None" "il_items (cb_list c) = queued t @ (if checkForHeaderListSize flds t then [requestItem a flds t] else [])"
    by blast
  show "\<exists>t1. writeRequestHeaders firstTry a flds t =
          (t1, Inr (if checkForHeaderListSize flds t then DialQueued else DialError DialHeaderListSize)) \<and>
        queued t1 = queued t @ (if checkForHeaderListSize flds t then [requestItem a flds t] else []) \<and>
        open_transport t1 \<and> t_side t1 = clientSide \<and> t_streamQuota t1 = t_streamQuota t - 1 \<and>
        t_closures t1 = (t_nextID t, a) # t_closures t \<and> streamDone (t_streams t1 a) = streamDone (t_streams t a) \<and>
        t_activeStreams t1 = t_activeStreams t \<and> t_maxSendHeaderListSize t1 = t_maxSendHeaderListSize t \<and> t_nextID t1 = t_nextID t + 2"
    using c t1 q assms
    by (intro exI [of _ "t1\<lparr>t_cb := c\<rparr>"]) (auto simp: writeRequestHeaders_def queued_def open_transport_def split: bool.splits)
qed

text \<open>The same for \<^verbatim>\<open>DialStream\<close>.\<close>

lemma DialStream_client:
  assumes "open_transport t" "t_side t = clientSide"
  shows "t_streamQuota t \<le> 0 \<Longrightarrow> snd (DialStream od flds t) = Inr (DialWait (t_quotaChan t))"
    and "t_streamQuota t > 0 \<Longrightarrow>
      \<exists>t1. DialStream od flds t = (t1, Inr (if checkForHeaderListSize flds t then DialQueued else DialError DialHeaderListSize)) \<and>
        (\<exists>item. queued t1 = queued t @ (if checkForHeaderListSize flds t then [HeaderItem item] else []) \<and> h_onOrphaned item \<and>
          h_streamID item = t_nextID t \<and> h_hf item = flds) \<and>
        open_transport t1 \<and> t_side t1 = clientSide \<and> t_streamQuota t1 = t_streamQuota t - 1 \<and>
        t_closures t1 = (t_nextID t, t_fresh t) # t_closures t \<and> \<not> streamDone (t_streams t1 (t_fresh t)) \<and>
        t_activeStreams t1 = t_activeStreams t \<and> t_maxSendHeaderListSize t1 = t_maxSendHeaderListSize t \<and> t_nextID t1 = t_nextID t + 2"
proof -
  define t0 where "t0 = t_call (EvStream EventStreamRequestStart (t_fresh t))
    (t\<lparr>t_streams := (t_streams t)(t_fresh t := dialedStream od (t_fresh t)), t_fresh := Suc (t_fresh t)\<rparr>)"
  have t0: "open_transport t0" "t_side t0 = clientSide" "queued t0 = queued t" "t_streamQuota t0 = t_streamQuota t" "t_closures t0 = t_closures t"
      "t_activeStreams t0 = t_activeStreams t" "t_nextID t0 = t_nextID t" "checkForHeaderListSize flds t0 = checkForHeaderListSize flds t"
      "t_maxSendHeaderListSize t0 = t_maxSendHeaderListSize t" "t_quotaChan t0 = t_quotaChan t" "\<not> streamDone (t_streams t0 (t_fresh t))"
    using assms by (simp_all add: t0_def t_call_def open_transport_def queued_def checkForHeaderListSize_def dialedStream_def)
  have d: "DialStream od flds t = (case writeRequestHeaders True (t_fresh t) flds t0 of
      (t2, Inr DialQueued) \<Rightarrow> (dialed (t_fresh t) t2, Inr DialQueued) | r \<Rightarrow> r)"
    by (simp add: DialStream_def t0_def Let_def)
  show "t_streamQuota t \<le> 0 \<Longrightarrow> snd (DialStream od flds t) = Inr (DialWait (t_quotaChan t))"
    using writeRequestHeaders_client(1) [OF t0(1,2), of True "t_fresh t" flds] t0(4,10) by (auto simp: d)
  assume "t_streamQuota t > 0"
  then obtain t1 where t1: "writeRequestHeaders True (t_fresh t) flds t0 =
      (t1, Inr (if checkForHeaderListSize flds t then DialQueued else DialError DialHeaderListSize))"
      "queued t1 = queued t @ (if checkForHeaderListSize flds t then [requestItem (t_fresh t) flds t0] else [])"
      "open_transport t1" "t_side t1 = clientSide" "t_streamQuota t1 = t_streamQuota t - 1" "t_closures t1 = (t_nextID t, t_fresh t) # t_closures t"
      "\<not> streamDone (t_streams t1 (t_fresh t))" "t_activeStreams t1 = t_activeStreams t"
      "t_maxSendHeaderListSize t1 = t_maxSendHeaderListSize t" "t_nextID t1 = t_nextID t + 2"
    using writeRequestHeaders_client(2) [OF t0(1,2), of True "t_fresh t" flds] t0 by auto
  obtain h where h: "requestItem (t_fresh t) flds t0 = HeaderItem h" "h_onOrphaned h" "h_streamID h = t_nextID t" "h_hf h = flds"
    using t0(7) by (simp add: requestItem_def)
  let ?t = "if checkForHeaderListSize flds t then dialed (t_fresh t) t1 else t1"
  have "DialStream od flds t = (?t, Inr (if checkForHeaderListSize flds t then DialQueued else DialError DialHeaderListSize))"
    by (simp add: d t1(1))
  moreover have "queued ?t = queued t1" "open_transport ?t" "t_side ?t = clientSide" "t_streamQuota ?t = t_streamQuota t - 1"
      "t_closures ?t = (t_nextID t, t_fresh t) # t_closures t" "\<not> streamDone (t_streams ?t (t_fresh t))"
      "t_activeStreams ?t = t_activeStreams t" "t_maxSendHeaderListSize ?t = t_maxSendHeaderListSize t" "t_nextID ?t = t_nextID t + 2"
    using t1 by (simp_all add: dialed_def updateHeaderSent_def t_call_def set_stream_def open_transport_def queued_def)
  ultimately show "\<exists>t1. DialStream od flds t = (t1, Inr (if checkForHeaderListSize flds t then DialQueued else DialError DialHeaderListSize)) \<and>
        (\<exists>item. queued t1 = queued t @ (if checkForHeaderListSize flds t then [HeaderItem item] else []) \<and> h_onOrphaned item \<and>
          h_streamID item = t_nextID t \<and> h_hf item = flds) \<and>
        open_transport t1 \<and> t_side t1 = clientSide \<and> t_streamQuota t1 = t_streamQuota t - 1 \<and>
        t_closures t1 = (t_nextID t, t_fresh t) # t_closures t \<and> \<not> streamDone (t_streams t1 (t_fresh t)) \<and>
        t_activeStreams t1 = t_activeStreams t \<and> t_maxSendHeaderListSize t1 = t_maxSendHeaderListSize t \<and> t_nextID t1 = t_nextID t + 2"
    using t1(2) h by (intro exI [of _ ?t] conjI exI [of _ h]) simp_all
qed

text \<open>A new connection works, on both sides.\<close>

lemma open_new [simp]: "open_transport (newTransport sd fs nid fc be mx now cfg st)"
  by (simp add: open_transport_def newTransport_def newControlBuffer_def il.queue_simps)

lemma open_started [simp]: "open_transport (startedConn cfg t) = open_transport t"
  by (simp add: open_transport_def startedConn_def)

definition zeroConfig :: H2Config where
  "zeroConfig = \<lparr>InitialConnWindowSize = 0, InitialWindowSize = 0, MaxFrameSize = 0, cfg_MaxHeaderListSize = None, MaxStreams = 0,
     HeaderTableSize = None, MinTime = 0, PermitWithoutStream = False\<rparr>"

definition newClient :: H2Transport where
  "newClient = startedConn zeroConfig (NewConnection 0 zeroConfig (\<lambda>_. dialedStream False 0))"

lemma newClient_simps [simp]:
  "open_transport newClient" "t_side newClient = clientSide" "t_streamQuota newClient = 100" "t_maxSendHeaderListSize newClient = None"
  by (simp_all add: newClient_def NewConnection_def) (simp_all add: startedConn_def newTransport_def defaultMaxStreamsClient_def)

section \<open>Header lists that are too large\<close>

lemma oversized_dials:
  assumes "open_transport t" "t_side t = clientSide" "int n \<le> t_streamQuota t" "\<not> checkForHeaderListSize flds t"
  shows "let t' = ((\<lambda>t. fst (DialStream od flds t)) ^^ n) t
    in open_transport t' \<and> t_side t' = clientSide \<and> t_streamQuota t' = t_streamQuota t - int n \<and> queued t' = queued t \<and>
       t_activeStreams t' = t_activeStreams t \<and> \<not> checkForHeaderListSize flds t'"
  using assms
proof (induction n arbitrary: t)
  case (Suc n)
  from Suc.prems DialStream_client(2) [of t od flds] obtain t1 where
    "DialStream od flds t = (t1, Inr (DialError DialHeaderListSize))" "queued t1 = queued t" "open_transport t1" "t_side t1 = clientSide"
    "t_streamQuota t1 = t_streamQuota t - 1" "t_activeStreams t1 = t_activeStreams t" "t_maxSendHeaderListSize t1 = t_maxSendHeaderListSize t"
    by auto
  with Suc.IH [of t1] Suc.prems show ?case
    by (simp add: funpow_Suc_right checkForHeaderListSize_def Let_def del: funpow.simps)
qed simp

text \<open>
  A client that asks for as many requests with a too large header list as it has quota gets an error for
  each, queues nothing and has no more streams than before, but has used up its quota: every further
  request, however small, waits for a stream to end, and on an idle connection waits for ever.
\<close>

theorem oversized_requests_use_up_the_quota:
  assumes "open_transport t" "t_side t = clientSide" "0 \<le> t_streamQuota t" "\<not> checkForHeaderListSize flds t"
  shows "let t' = ((\<lambda>t. fst (DialStream od flds t)) ^^ nat (t_streamQuota t)) t
    in queued t' = queued t \<and> t_activeStreams t' = t_activeStreams t \<and> t_streamQuota t' = 0 \<and>
       snd (DialStream od' flds' t') = Inr (DialWait (t_quotaChan t'))"
  using oversized_dials [OF assms(1,2) _ assms(4), of "nat (t_streamQuota t)" od] assms(3)
    DialStream_client(1) [of "((\<lambda>t. fst (DialStream od flds t)) ^^ nat (t_streamQuota t)) t" od' flds']
  by (simp add: Let_def)

theorem oversized_requests_use_up_the_quota_witness:
  "let t = newClient\<lparr>t_maxSendHeaderListSize := Some 10\<rparr>;
       t' = ((\<lambda>t. fst (DialStream False [hf ''name'' ''value''] t)) ^^ 100) t
   in t_streamQuota t = 100 \<and> t_streamQuota t' = 0 \<and> snd (DialStream False [] t') = Inr (DialWait (t_quotaChan t'))"
proof -
  let ?t = "newClient\<lparr>t_maxSendHeaderListSize := Some 10\<rparr>"
  have "open_transport ?t" using newClient_simps(1) by (simp add: open_transport_def del: newClient_simps)
  moreover have "\<not> checkForHeaderListSize [hf ''name'' ''value''] ?t"
    by (simp add: checkForHeaderListSize_def Size_def)
  ultimately show ?thesis
    using oversized_requests_use_up_the_quota [of ?t "[hf ''name'' ''value'']" False False "[]"] by (simp add: Let_def)
qed

section \<open>Closing a connection with a request in the queue\<close>

text \<open>
  C22: A client connection that is closed while the headers of a request are still in its control buffer
  deadlocks: the callback of the orphaned request calls closeStream, which locks the mutex of the control
  buffer that finish holds. Close never returns, and nobody can put an item any more.
\<close>

theorem close_with_queued_request_deadlocks:
  assumes "open_transport t" "t_side t = clientSide" "DialStream od flds t = (t1, Inr DialQueued)"
  shows "\<exists>t'. t_Close ord err t1 = (t', Some Blocked) \<and> (\<forall>item. t_put item t' = (t', Some Blocked))"
proof -
  have q: "t_streamQuota t > 0" using DialStream_client(1) [OF assms(1,2), of od flds] assms(3) by force
  from DialStream_client(2) [OF assms(1,2) q, of od flds] assms(3) obtain h where h:
    "queued t1 = queued t @ [HeaderItem h]" "h_onOrphaned h" "h_streamID h = t_nextID t" "open_transport t1"
    "t_closures t1 = (t_nextID t, t_fresh t) # t_closures t" "\<not> streamDone (t_streams t1 (t_fresh t))"
    by (auto split: if_splits)
  let ?t = "(t_call (EvMux Event_ConnClose) (if t_Error t1 = None then t1\<lparr>t_closed := True, t_Error := err\<rparr> else t1\<lparr>t_closed := True\<rparr>))
      \<lparr>t_activeStreams := None\<rparr>"
  obtain l p where lp: "il_dequeueAll (cb_list (t_cb t1)) = (l, p)" by fastforce
  let ?hs = "orphans (queued t1)"
  let ?u = "?t\<lparr>t_cb := (t_cb t1)\<lparr>cb_err := Some ErrConnClosing, cb_list := l\<rparr>, t_cbLocked := True\<rparr>"
  have w: "walk (il_fresh (cb_list (t_cb t1))) (il_store (cb_list (t_cb t1))) p = queued t1"
    using il_dequeueAll_ok(3) [of "cb_list (t_cb t1)"] h(4) lp by (simp add: open_transport_def queued_def)
  have "h \<in> set ?hs" using closed_request_in_orphans [of h "queued t1"] h by simp
  moreover have "map_of (t_closures ?u) (h_streamID h) = Some (t_fresh t)" "\<not> streamDone (t_streams ?u (t_fresh t))"
    using h by (simp_all add: t_call_def)
  ultimately obtain t' where "orphanAll ?hs ?u = (t', Some Blocked)" "t_cbLocked t'"
    using orphanAll_blocks [of ?u h ?hs "t_fresh t"] by auto
  then have "t_Close ord err t1 = (t', Some Blocked)" "\<forall>item. t_put item t' = (t', Some Blocked)"
    using lp w h(4) by (auto simp: t_Close_def t_finish_def t_put_def t_execPut_def open_transport_def t_call_def Let_def)
  then show ?thesis by blast
qed

theorem close_with_queued_request_deadlocks_witness:
  "\<exists>t1 t'. DialStream False [hf ''name'' ''value''] newClient = (t1, Inr DialQueued) \<and> t_Close id None t1 = (t', Some Blocked)"
proof -
  have "checkForHeaderListSize [hf ''name'' ''value''] newClient" by (simp add: checkForHeaderListSize_def)
  then obtain t1 where t1: "DialStream False [hf ''name'' ''value''] newClient = (t1, Inr DialQueued)"
    using DialStream_client(2) [of newClient False "[hf ''name'' ''value'']"] by auto
  from close_with_queued_request_deadlocks [OF _ _ t1, of id None] t1 show ?thesis by auto
qed

section \<open>GOAWAY\<close>

text \<open>What closing streams changes of a connection: the streams, the queue, the quota and the counters.\<close>

definition conn_core :: "H2Transport \<Rightarrow> H2Transport" where
  "conn_core t = t\<lparr>t_cb := newControlBuffer, t_streams := (\<lambda>_. dialedStream False 0), t_streamQuota := 0, t_quotaToken := False,
     streamsSucceeded := 0, streamsFailed := 0, t_trace := []\<rparr>"

abbreviation streams_only :: "H2Transport \<Rightarrow> H2Transport \<Rightarrow> bool" where
  "streams_only t t' \<equiv> conn_core t' = conn_core t"

lemma conn_core_sel:
  "t_activeStreams (conn_core t) = t_activeStreams t" "t_closing (conn_core t) = t_closing t" "t_goAway (conn_core t) = t_goAway t"
  "t_prevGoAwayID (conn_core t) = t_prevGoAwayID t" "t_side (conn_core t) = t_side t" "t_closed (conn_core t) = t_closed t"
  "t_maxStreamID (conn_core t) = t_maxStreamID t" "t_cbLocked (conn_core t) = t_cbLocked t" "t_fresh (conn_core t) = t_fresh t"
  "t_closures (conn_core t) = t_closures t" "t_maxStreams (conn_core t) = t_maxStreams t" "t_bdp (conn_core t) = t_bdp t"
  "t_initialWindowSize (conn_core t) = t_initialWindowSize t" "t_handle (conn_core t) = t_handle t" "t_fc (conn_core t) = t_fc t"
  by (simp_all add: conn_core_def)

lemma streams_only_fields:
  assumes "streams_only t t'"
  shows "t_activeStreams t' = t_activeStreams t" "t_closing t' = t_closing t" "t_goAway t' = t_goAway t" "t_prevGoAwayID t' = t_prevGoAwayID t"
    "t_side t' = t_side t" "t_closed t' = t_closed t" "t_maxStreamID t' = t_maxStreamID t" "t_cbLocked t' = t_cbLocked t"
    "t_fresh t' = t_fresh t" "t_closures t' = t_closures t" "t_maxStreams t' = t_maxStreams t" "t_initialWindowSize t' = t_initialWindowSize t"
    "t_bdp t' = t_bdp t" "t_handle t' = t_handle t" "t_fc t' = t_fc t"
  using conn_core_sel [of t] conn_core_sel [of t'] assms by simp_all

lemma conn_core_upd [simp]:
  "conn_core (set_stream a f t) = conn_core t" "conn_core (t_call x t) = conn_core t" "conn_core (t\<lparr>t_cb := c\<rparr>) = conn_core t"
  "conn_core (t\<lparr>t_streamQuota := q\<rparr>) = conn_core t" "conn_core (t\<lparr>t_quotaToken := k\<rparr>) = conn_core t" "conn_core (releaseStream a err t) = conn_core t"
  by (simp_all add: conn_core_def set_stream_def t_call_def releaseStream_def Let_def)

definition closedStream :: "h2_error option \<Rightarrow> H2Stream \<Rightarrow> H2Stream" where
  "closedStream err s = (markDone err s)\<lparr>s_cancel := False, s_done := map_option (\<lambda>_. True) (s_done s)\<rparr>"

text \<open>Closing a stream for the first time, on a connection that works.\<close>

lemma closeStream_open:
  assumes "open_transport t" "\<not> streamDone (t_streams t a)"
  shows "\<exists>t'. closeStream a err rs code t = (t', None) \<and> open_transport t' \<and> streams_only t t' \<and>
    t_streams t' = (t_streams t)(a := closedStream err (t_streams t a)) \<and>
    queued t' = queued t @ [CleanupItem \<lparr>c_streamID = MuxID (t_streams t a), rst = rs, rstCode = code, c_onWrite = True\<rparr>]"
proof -
  let ?i = "CleanupItem \<lparr>c_streamID = MuxID (t_streams t a), rst = rs, rstCode = code, c_onWrite = True\<rparr>"
  let ?t = "set_stream a (markDone err) t"
  obtain t1 where t1: "addBackStreamQuota ?i ?t = (t1, True)" "t_cb t1 = t_cb ?t" "conn_core t1 = conn_core ?t" "t_streams t1 = t_streams ?t"
    by (simp add: addBackStreamQuota_def Let_def)
  have "open_transport ?t" using assms by simp
  from t_execPut_open [OF this, of addBackStreamQuota, OF t1(1,2)] obtain c where c:
    "t_execPut (Some addBackStreamQuota) ?i ?t = (t1\<lparr>t_cb := c\<rparr>, Inr (Inr True))" "il_wf (cb_list c)" "cb_err c = None"
    "il_items (cb_list c) = queued t @ [?i]" by auto
  note f = streams_only_fields [OF t1(3)]
  have "open_transport (t1\<lparr>t_cb := c\<rparr>)" using assms(1) c f(6,8) by (simp add: open_transport_def)
  with c t1 assms(2) show ?thesis
    by (intro exI [of _ "releaseStream a err (t1\<lparr>t_cb := c\<rparr>)"])
      (simp add: closeStream_def closedStream_def queued_def)
qed

definition drained :: "H2Stream \<Rightarrow> H2Stream" where
  "drained s = closedStream (Some ErrStreamDrain) (s\<lparr>unprocessed := True\<rparr>)"

lemma drained_simps [simp]:
  "streamDone (drained s)" "unprocessed (drained s)" "readClosed (drained s) = 2" "s_done (drained s) = map_option (\<lambda>_. True) (s_done s)"
  "MuxID (drained s) = MuxID s"
  by (simp_all add: drained_def closedStream_def)
    (simp add: markDone_def setReadClosed_def queueReadBuf_def closeHeaderChan_def Let_def)

definition drainItem :: "H2Stream \<Rightarrow> cbItem" where
  "drainItem s = CleanupItem \<lparr>c_streamID = MuxID s, rst = False, rstCode = ErrCodeNo, c_onWrite = True\<rparr>"

lemma killAll_open:
  assumes "open_transport t" "distinct as" "\<forall>a \<in> set as. \<not> streamDone (t_streams t a)"
  shows "\<exists>t'. killAll as t = (t', None) \<and> open_transport t' \<and> streams_only t t' \<and>
    t_streams t' = (\<lambda>a. if a \<in> set as then drained (t_streams t a) else t_streams t a) \<and>
    queued t' = queued t @ map (\<lambda>a. drainItem (t_streams t a)) as"
  using assms
proof (induction as arbitrary: t)
  case (Cons a as)
  let ?t = "set_stream a (\<lambda>s. s\<lparr>unprocessed := True\<rparr>) t"
  from Cons.prems closeStream_open [of ?t a "Some ErrStreamDrain" False ErrCodeNo] obtain t1 where t1:
    "closeStream a (Some ErrStreamDrain) False ErrCodeNo ?t = (t1, None)" "open_transport t1" "streams_only t t1"
    "t_streams t1 = (t_streams t)(a := drained (t_streams t a))" "queued t1 = queued t @ [drainItem (t_streams t a)]"
    by (auto simp: drained_def drainItem_def)
  have "\<forall>b \<in> set as. \<not> streamDone (t_streams t1 b)" using Cons.prems(2,3) t1(4) by auto
  from Cons.IH [OF t1(2) _ this] Cons.prems(2) obtain t2 where t2: "killAll as t1 = (t2, None)" "open_transport t2" "streams_only t1 t2"
    "t_streams t2 = (\<lambda>b. if b \<in> set as then drained (t_streams t1 b) else t_streams t1 b)"
    "queued t2 = queued t1 @ map (\<lambda>a. drainItem (t_streams t1 a)) as" by auto
  moreover have "map (\<lambda>a. drainItem (t_streams t1 a)) as = map (\<lambda>a. drainItem (t_streams t a)) as"
    using Cons.prems(2) t1(4) by (intro map_cong) auto
  ultimately show ?case using t1 Cons.prems(2) by (auto simp: fun_eq_iff)
qed simp

text \<open>The streams that a client has registered: no two identifiers share a stream, and none is done yet.\<close>

definition live_streams :: "H2Transport \<Rightarrow> (u32 \<times> addr) list \<Rightarrow> bool" where
  "live_streams t m \<longleftrightarrow> t_activeStreams t = Some m \<and> distinct (map snd m) \<and> (\<forall>(k, a) \<in> set m. \<not> streamDone (t_streams t a))"

lemma selected_stream:
  assumes "distinct (map snd m)" "(j, a) \<in> set m"
  shows "a \<in> set (map snd (filter (\<lambda>(k, b). P k) m)) \<longleftrightarrow> P j"
proof -
  have "i = j" if "(i, a) \<in> set m" for i
    using assms that inj_onD [of snd "set m" "(i, a)" "(j, a)"] by (simp add: distinct_map)
  moreover have "a \<in> set (map snd (filter (\<lambda>(k, b). P k) m)) \<longleftrightarrow> (\<exists>i. (i, a) \<in> set m \<and> P i)" by force
  ultimately show ?thesis using assms(2) by blast
qed

lemma selected_items:
  "(\<And>xs. mset (ord xs) = mset xs) \<Longrightarrow>
   mset (map f (ord (map snd (filter (\<lambda>(k, b). P k) m)))) = mset (map (\<lambda>(k, b). f b) (filter (\<lambda>(k, b). P k) m))"
  by (simp add: case_prod_unfold multiset.map_comp comp_def)

text \<open>
  C12: The first GOAWAY of a server on a working client connection with requests under way, with a last
  stream identifier that is 0 or odd: the client takes no new requests (closing), wakes the waiting ones
  up (goAway), and closes exactly the streams above the identifier, marked as unprocessed, with the error
  of a draining connection and without RST_STREAM; the others, and the registration of all streams, stay
  as they are. Every later GOAWAY is ignored, whatever identifier it has.
\<close>

theorem goaway_closes_unprocessed_streams:
  assumes "open_transport t" "\<not> t_closing t" "\<not> t_goAway t" "t_prevGoAwayID t = 0" "sid = 0 \<or> odd sid"
    and "live_streams t m" "m \<noteq> []" "\<And>xs. mset (ord xs) = mset xs"
  shows "\<exists>t'. handleGoAway ord sid code debug t = (t', None) \<and> t_closing t' \<and> t_goAway t' \<and> t_activeStreams t' = Some m \<and>
    (\<forall>(k, a) \<in> set m. t_streams t' a = (if k > sid then drained (t_streams t a) else t_streams t a)) \<and>
    mset (queued t') = mset (queued t @ IncomingGoAway # map (\<lambda>(k, a). drainItem (t_streams t a)) (filter (\<lambda>(k, a). k > sid) m)) \<and>
    (\<forall>ord' sid' code' debug'. handleGoAway ord' sid' code' debug' t' = (t', None))"
proof -
  let ?t0 = "t\<lparr>t_goAwayReason := setGoAwayReason code debug, t_goAway := True\<rparr>"
  have "open_transport ?t0" using assms(1) by (simp add: open_transport_def)
  from t_put_open [OF this, of IncomingGoAway] obtain c where c: "t_put IncomingGoAway ?t0 = (?t0\<lparr>t_cb := c\<rparr>, None)"
    "il_items (cb_list c) = queued t @ [IncomingGoAway]" "il_wf (cb_list c)" "cb_err c = None" by (auto simp: queued_def)
  define t2 where "t2 = (t_call (EvMux Event_GoAway) (?t0\<lparr>t_cb := c\<rparr>))\<lparr>t_closing := True\<rparr>"
  have t2: "open_transport t2" "t_streams t2 = t_streams t" "t_activeStreams t2 = Some m" "queued t2 = queued t @ [IncomingGoAway]"
    "t_closing t2" "t_goAway t2" "t_prevGoAwayID t2 = 0"
    using assms(1,4,6) c by (simp_all add: t2_def t_call_def open_transport_def queued_def live_streams_def)
  let ?ks = "map snd (filter (\<lambda>(k, a). k > sid) m)"
  have "j \<le> 4294967295" for j :: u32 using unat_less [of j] by (simp add: word_le_nat_alt)
  then have k: "killed sid (2 ^ 32 - 1) t2 = ?ks"
    by (auto simp: killed_def t2(3) intro!: arg_cong [where f = "map snd"] filter_cong)
  have "distinct ?ks" using assms(6) by (auto simp: live_streams_def intro: distinct_map_filter)
  then have ks: "distinct (ord ?ks)" "set (ord ?ks) = set ?ks" using assms(8) by (metis mset_eq_imp_distinct_iff, metis mset_eq_setD)
  have "\<forall>a \<in> set (ord ?ks). \<not> streamDone (t_streams t2 a)" using assms(6) ks(2) t2(2) by (auto simp: live_streams_def)
  from killAll_open [OF t2(1) ks(1) this, unfolded ks(2) t2(2)] obtain t3 where t3: "killAll (ord ?ks) t2 = (t3, None)" "streams_only t2 t3"
    "t_streams t3 = (\<lambda>a. if a \<in> set ?ks then drained (t_streams t a) else t_streams t a)"
    "queued t3 = queued t2 @ map (\<lambda>a. drainItem (t_streams t a)) (ord ?ks)" by blast
  note f3 = streams_only_fields [OF t3(2)]
  let ?t4 = "t3\<lparr>t_prevGoAwayID := sid\<rparr>"
  have "handleGoAway ord sid code debug t = (?t4, None)"
    using assms(2,3,5,7) c(1) t2 t3(1) k f3(1) by (auto simp: handleGoAway_def t2_def [symmetric])
  moreover have "t_streams ?t4 a = (if j > sid then drained (t_streams t a) else t_streams t a)" if "(j, a) \<in> set m" for j a
    using selected_stream [OF _ that, of "\<lambda>k. k > sid"] assms(6) t3(3) by (simp add: live_streams_def del: set_map set_filter)
  then have "\<forall>(j, a) \<in> set m. t_streams ?t4 a = (if j > sid then drained (t_streams t a) else t_streams t a)" by blast
  moreover have "mset (queued ?t4) = mset (queued t @ IncomingGoAway # map (\<lambda>(k, a). drainItem (t_streams t a)) (filter (\<lambda>(k, a). k > sid) m))"
    using selected_items [OF assms(8), of "\<lambda>a. drainItem (t_streams t a)" "\<lambda>k. k > sid" m]
    by (simp add: queued_def [of ?t4] t3(4) [unfolded queued_def [of t3]] t2(4))
  moreover have "t_closing ?t4" "t_goAway ?t4" "t_activeStreams ?t4 = Some m" using t2 f3 by simp_all
  ultimately show ?thesis by (intro exI [of _ ?t4]) (simp add: handleGoAway_def)
qed

theorem goaway_closes_unprocessed_streams_witness:
  "let t = newClient\<lparr>t_activeStreams := Some [(1, 0), (3, 1)]\<rparr>
   in \<exists>t'. handleGoAway rev 1 ErrCodeNo [] t = (t', None) \<and> streamDone (t_streams t' 1) \<and> \<not> streamDone (t_streams t' 0) \<and>
        handleGoAway id 0 ErrCodeNo [] t' = (t', None)"
proof -
  let ?t = "newClient\<lparr>t_activeStreams := Some [(1, 0), (3, 1)]\<rparr>"
  have s: "t_streams newClient = (\<lambda>_. dialedStream False 0)" "\<not> t_closing newClient" "\<not> t_goAway newClient" "t_prevGoAwayID newClient = 0"
    by (simp_all add: newClient_def NewConnection_def startedConn_def newTransport_def Let_def)
  have "open_transport ?t" using newClient_simps(1) by (simp add: open_transport_def del: newClient_simps)
  moreover have "live_streams ?t [(1, 0), (3, 1)]" by (simp add: live_streams_def s dialedStream_def)
  ultimately show ?thesis
    using goaway_closes_unprocessed_streams [of ?t 1 "[(1, 0), (3, 1)]" rev ErrCodeNo "[]"] s by (auto simp: dialedStream_def)
qed

end
