(* ===== verification/Server_Rules.thy ===== *)
theory Server_Rules
  imports Transport_Rules
begin

text \<open>
  What the frames of a peer do to a server (\<^verbatim>\<open>HandleStreams\<close>), one after the other: accepting a stream, data
  that the flow control refuses, pings, and the sequences of frames that stop the goroutine that reads.
\<close>

section \<open>Steps on a working connection\<close>

lemma t_put_kept:
  assumes "open_transport t"
  shows "\<exists>t'. t_put item t = (t', None) \<and> open_transport t' \<and> streams_only t t' \<and> t_streams t' = t_streams t \<and> queued t' = queued t @ [item]"
  using t_put_open [OF assms, of item] assms by (auto simp: open_transport_def queued_def)

text \<open>What the flow control of the connection leaves alone.\<close>

definition flow_core :: "H2Transport \<Rightarrow> H2Transport" where
  "flow_core t = (conn_core t)\<lparr>t_fc := \<lparr>tr_limit = 0, unacked = 0, effectiveWindowSize = 0\<rparr>, t_bdp := None\<rparr>"

lemma flow_core_sel:
  "t_activeStreams (flow_core t) = t_activeStreams t" "t_closing (flow_core t) = t_closing t" "t_side (flow_core t) = t_side t"
  "t_closed (flow_core t) = t_closed t" "t_maxStreamID (flow_core t) = t_maxStreamID t" "t_cbLocked (flow_core t) = t_cbLocked t"
  "t_fresh (flow_core t) = t_fresh t" "t_closures (flow_core t) = t_closures t" "t_maxStreams (flow_core t) = t_maxStreams t"
  "t_initialWindowSize (flow_core t) = t_initialWindowSize t" "t_handle (flow_core t) = t_handle t"
  by (simp_all add: flow_core_def conn_core_sel)

lemma flow_core_fields:
  assumes "flow_core t' = flow_core t"
  shows "t_activeStreams t' = t_activeStreams t" "t_closing t' = t_closing t" "t_side t' = t_side t" "t_closed t' = t_closed t"
    "t_maxStreamID t' = t_maxStreamID t" "t_cbLocked t' = t_cbLocked t" "t_fresh t' = t_fresh t" "t_closures t' = t_closures t"
    "t_maxStreams t' = t_maxStreams t" "t_initialWindowSize t' = t_initialWindowSize t" "t_handle t' = t_handle t"
  using flow_core_sel [of t] flow_core_sel [of t'] assms by simp_all

lemma flow_core_upd [simp]:
  "flow_core (t\<lparr>t_fc := f\<rparr>) = flow_core t" "flow_core (t\<lparr>t_bdp := b\<rparr>) = flow_core t"
  by (simp_all add: flow_core_def conn_core_def)

lemma open_flow_upd [simp]:
  "open_transport (t\<lparr>t_fc := f\<rparr>) = open_transport t" "open_transport (t\<lparr>t_bdp := b\<rparr>) = open_transport t"
  "open_transport (t\<lparr>msgRecv := k\<rparr>) = open_transport t" "open_transport (t\<lparr>streamsStarted := k\<rparr>) = open_transport t"
  by (simp_all add: open_transport_def)

definition flow_step :: "H2Transport \<Rightarrow> done_step \<Rightarrow> bool" where
  "flow_step t r \<longleftrightarrow> (\<exists>t'. r = (t', None) \<and> open_transport t' \<and> flow_core t' = flow_core t \<and> t_streams t' = t_streams t)"

lemma flow_step_refl: "open_transport t \<Longrightarrow> flow_step t (t, None)"
  by (simp add: flow_step_def)

lemma flow_step_put: "open_transport t \<Longrightarrow> flow_step t (t_put item t)"
  using t_put_kept [of t item] by (auto simp: flow_step_def flow_core_def)

lemma flow_step_bind:
  assumes "flow_step t r" "\<And>u. open_transport u \<Longrightarrow> flow_core u = flow_core t \<Longrightarrow> t_streams u = t_streams t \<Longrightarrow> flow_step u (k u)"
  shows "flow_step t (and_do r k)"
proof -
  obtain u where u: "r = (u, None)" "open_transport u" "flow_core u = flow_core t" "t_streams u = t_streams t"
    using assms(1) by (auto simp: flow_step_def)
  from assms(2) [OF u(2-4)] u show ?thesis by (auto simp: flow_step_def)
qed

lemma flow_step_from: "flow_step u r \<Longrightarrow> flow_core u = flow_core t \<Longrightarrow> t_streams u = t_streams t \<Longrightarrow> flow_step t r"
  by (auto simp: flow_step_def)

lemma connData_open:
  assumes "open_transport t"
  shows "flow_step t (connData sz t)"
proof -
  obtain b p where b: "(case t_bdp t of None \<Rightarrow> (None, False) | Some e \<Rightarrow> map_prod Some id (bdp_add sz e)) = (b, p)" by fastforce
  obtain fc w where f: "tr_onData sz (t_fc t) = (fc, w)" by fastforce
  let ?t = "t\<lparr>t_bdp := b, t_fc := fc\<rparr>"
  have o: "open_transport ?t" using assms by simp
  have "flow_step ?t (and_do (if w > 0 then t_put (OutgoingWindowUpdate 0 w) ?t else (?t, None)) (\<lambda>t2.
           if p then
             let (fc2, w2) = tr_reset (t_fc t2);
                 t3 = t2\<lparr>t_fc := fc2\<rparr>
             in and_do (if w2 > 0 then t_put (OutgoingWindowUpdate 0 w2) t3 else (t3, None)) (t_put (PingItem False bdpPing))
           else (t2, None)))"
  proof (rule flow_step_bind)
    show "flow_step ?t (if w > 0 then t_put (OutgoingWindowUpdate 0 w) ?t else (?t, None))"
      using o by (simp add: flow_step_put flow_step_refl)
    fix u assume u: "open_transport u"
    obtain fc2 w2 where r: "tr_reset (t_fc u) = (fc2, w2)" by fastforce
    let ?u = "u\<lparr>t_fc := fc2\<rparr>"
    have "flow_step ?u (and_do (if w2 > 0 then t_put (OutgoingWindowUpdate 0 w2) ?u else (?u, None)) (t_put (PingItem False bdpPing)))"
      using u by (intro flow_step_bind) (simp_all add: flow_step_put flow_step_refl)
    then have "flow_step u (and_do (if w2 > 0 then t_put (OutgoingWindowUpdate 0 w2) ?u else (?u, None)) (t_put (PingItem False bdpPing)))"
      by (rule flow_step_from) simp_all
    with u r show "flow_step u (if p then
             let (fc2, w2) = tr_reset (t_fc u);
                 t3 = u\<lparr>t_fc := fc2\<rparr>
             in and_do (if w2 > 0 then t_put (OutgoingWindowUpdate 0 w2) t3 else (t3, None)) (t_put (PingItem False bdpPing))
           else (u, None))" by (simp add: flow_step_refl Let_def)
  qed
  then show ?thesis unfolding connData_def b f Let_def prod.case by (rule flow_step_from) simp_all
qed

section \<open>Accepting a stream\<close>

text \<open>A server that can accept the stream of a HEADERS frame.\<close>

definition accepts :: "H2Transport \<Rightarrow> FrameHeader \<Rightarrow> HeaderField list \<Rightarrow> bool" where
  "accepts t fh flds \<longleftrightarrow> t_side t = serverSide \<and> \<not> t_closing t \<and> StreamID fh mod 2 = 1 \<and> StreamID fh > t_maxStreamID t \<and>
     \<not> ar_headerError (acceptFields flds) \<and> t_handle t \<and> 0 < t_maxStreams t"

definition acceptedAs :: "FrameHeader \<Rightarrow> addr \<Rightarrow> u32 \<Rightarrow> H2Stream" where
  "acceptedAs fh a win =
     (let s = acceptedStream (StreamID fh) a win in if StreamEnded fh then setReadClosed 1 ErrEOF s else s)"

lemma acceptedAs_simps [simp]:
  "MuxID (acceptedAs fh a win) = StreamID fh" "s_done (acceptedAs fh a win) = None" "\<not> streamDone (acceptedAs fh a win)"
  "\<not> writeClosed (acceptedAs fh a win)" "readClosed (acceptedAs fh a win) = (if StreamEnded fh then 1 else 0)"
  "s_inFlow (acceptedAs fh a win) = \<lparr>limit = win, pendingData = 0, pendingUpdate = 0, delta = 0\<rparr>"
  by (simp_all add: acceptedAs_def acceptedStream_def Let_def)

lemma accept_open:
  assumes "open_transport t" "accepts t fh flds" "t_activeStreams t = Some m" "length m < unat (t_maxStreams t)"
  shows "\<exists>t'. serverFrame fl now ord (MetaHeadersFrame fh prio flds False) t = (t', None) \<and> open_transport t' \<and>
    t_activeStreams t' = Some (AList.update (StreamID fh) (t_fresh t) m) \<and>
    t_streams t' = (t_streams t)(t_fresh t := acceptedAs fh (t_fresh t) (t_initialWindowSize t)) \<and>
    t_maxStreamID t' = StreamID fh \<and> t_fresh t' = Suc (t_fresh t) \<and> t_bdp t' = t_bdp t \<and> t_side t' = serverSide \<and>
    queued t' = queued t @ [RegisterStream (StreamID fh) (Some (t_fresh t))]"
proof -
  let ?sid = "StreamID fh" and ?a = "t_fresh t"
  let ?m = "AList.update ?sid ?a m"
  have new: "\<not> ?sid \<le> t_maxStreamID t" using assms(2) by (auto simp: accepts_def)
  define t1 where "t1 = t\<lparr>streamsStarted := streamsStarted t + 1, t_maxStreamID := ?sid,
     t_streams := (t_streams t)(?a := acceptedAs fh ?a (t_initialWindowSize t)), t_fresh := Suc ?a, t_activeStreams := Some ?m\<rparr>"
  define t2 where "t2 = t_call (EvStream EventStreamStart ?a) (if length ?m = 1 then t1\<lparr>t_idle := None\<rparr> else t1)"
  have t2: "open_transport t2" "t_streams t2 = t_streams t1" "t_activeStreams t2 = Some ?m" "queued t2 = queued t" "t_maxStreamID t2 = ?sid"
    "t_fresh t2 = Suc ?a" "t_bdp t2 = t_bdp t" "t_side t2 = serverSide" "t_handle t2"
    using assms(1,2) by (simp_all add: t2_def t1_def t_call_def open_transport_def queued_def accepts_def)
  from t_put_kept [OF t2(1), of "RegisterStream ?sid (Some ?a)"] obtain t3 where t3:
    "t_put (RegisterStream ?sid (Some ?a)) t2 = (t3, None)" "open_transport t3" "streams_only t2 t3" "t_streams t3 = t_streams t2"
    "queued t3 = queued t2 @ [RegisterStream ?sid (Some ?a)]" by blast
  note f3 = streams_only_fields [OF t3(3)]
  have out: "s_outFlow (t_streams t2 ?a) = Some ?a"
    by (simp add: t2(2) t1_def acceptedAs_def acceptedStream_def setReadClosed_def queueReadBuf_def Let_def)
  have "serverFrame fl now ord (MetaHeadersFrame fh prio flds False) t =
      registerAccepted ?sid ?a (t\<lparr>streamsStarted := streamsStarted t + 1, t_maxStreamID := ?sid,
        t_streams := (t_streams t)(?a := acceptedAs fh ?a (t_initialWindowSize t)), t_fresh := Suc ?a\<rparr>)"
    using assms(2) new
    by (simp add: operateHeaders_def operateAcceptHeaders_def accepts_def acceptedAs_def Let_def)
  also have "\<dots> = and_do (t_put (RegisterStream ?sid (s_outFlow (t_streams t2 ?a))) t2)
      (\<lambda>t3. if t_handle t3 then (t_call (CallHandle ?a) t3, None) else closeStream ?a None True 1 t3)"
    using assms(2-4) by (simp add: registerAccepted_def accepts_def t2_def t1_def Let_def not_le t_call_def cong: if_cong)
  also have "\<dots> = (t_call (CallHandle ?a) t3, None)" using t3(1) out t2(9) f3(14) by simp
  finally show ?thesis using t2 t3 f3
    by (intro exI [of _ "t_call (CallHandle ?a) t3"]) (simp add: t1_def, simp add: t_call_def)
qed

section \<open>Frames on a stream that was reset\<close>

lemma getStream_cong: "t_activeStreams t' = t_activeStreams t \<Longrightarrow> getStream sid t' = getStream sid t"
  by (simp add: getStream_def)

lemma open_streams_upd [simp]: "open_transport (t\<lparr>t_streams := f\<rparr>) = open_transport t"
  by (simp add: open_transport_def)

lemma handleRSTStream_open:
  assumes "open_transport t" "getStream sid t = Some a" "readClosed (t_streams t a) \<noteq> 1"
  shows "\<exists>t'. handleRSTStream sid code t = (t', None) \<and> open_transport t' \<and> streams_only t t' \<and> getStream sid t' = Some a \<and>
    readClosed (t_streams t' a) = 2 \<and> streamDone (t_streams t' a) = streamDone (t_streams t a) \<and>
    s_done (t_streams t' a) = s_done (t_streams t a)"
  using assms by (simp add: handleRSTStream_def Let_def getStream_def)

text \<open>The first DATA frame after the reset closes the stream, the second one waits for a channel that does not exist.\<close>

lemma handleData_reset:
  assumes "open_transport t" "getStream (StreamID fh) t = Some a" "readClosed (t_streams t a) = 2"
  shows "\<not> streamDone (t_streams t a) \<Longrightarrow>
      \<exists>t'. handleData fh d t = (t', None) \<and> open_transport t' \<and> flow_core t' = flow_core t \<and>
        t_streams t' = (t_streams t)(a := closedStream (Some ErrStreamDone) (t_streams t a))"
    and "streamDone (t_streams t a) \<Longrightarrow> s_done (t_streams t a) = None \<Longrightarrow> snd (handleData fh d t) = Some Blocked"
proof -
  from connData_open [OF assms(1), of "Length fh"] obtain t1 where t1: "connData (Length fh) t = (t1, None)" "open_transport t1"
    "flow_core t1 = flow_core t" "t_streams t1 = t_streams t" by (auto simp: flow_step_def)
  have "getStream (StreamID fh) t1 = Some a" using getStream_cong [OF flow_core_fields(1) [OF t1(3)]] assms(2) by simp
  then have h: "handleData fh d t = closeStream a (Some ErrStreamDone) True ErrCodeStreamClosed t1"
    using t1 assms(3) by (simp add: handleData_def)
  show "\<exists>t'. handleData fh d t = (t', None) \<and> open_transport t' \<and> flow_core t' = flow_core t \<and>
        t_streams t' = (t_streams t)(a := closedStream (Some ErrStreamDone) (t_streams t a))" if "\<not> streamDone (t_streams t a)"
    using closeStream_open [of t1 a "Some ErrStreamDone" True ErrCodeStreamClosed] t1 that h by (auto simp: flow_core_def)
  show "snd (handleData fh d t) = Some Blocked" if "streamDone (t_streams t a)" "s_done (t_streams t a) = None"
    using closeStream_again [of t1 a] that t1(4) h by simp
qed

lemma closedStream_simps [simp]:
  "streamDone (closedStream err s)" "s_done (closedStream err s) = map_option (\<lambda>_. True) (s_done s)" "MuxID (closedStream err s) = MuxID s"
  "readClosed (closedStream err s) = (if err = None then readClosed s else 2)" "writeClosed (closedStream err s) = writeClosed s"
  by (simp_all add: closedStream_def)

text \<open>
  C20: Four frames of a client stop the goroutine that reads the connection of a server for ever: a request
  that the server accepts, a RST_STREAM for it, and two DATA frames that were sent before the peer learned
  of the reset or in spite of it. The second DATA frame closes the stream a second time, and waits for the
  channel done of the stream, which accepted streams do not have.
\<close>

theorem four_frames_stop_a_server:
  assumes "open_transport t" "accepts t fh flds" "t_activeStreams t = Some m" "length m < unat (t_maxStreams t)" "\<not> StreamEnded fh"
    and "StreamID fr = StreamID fh" "StreamID fd = StreamID fh" "StreamID fe = StreamID fh"
  shows "\<exists>t'. HandleStreams fl ord
      ((n1, Inr (MetaHeadersFrame fh prio flds False)) # (n2, Inr (RSTStreamFrame fr code)) # (n3, Inr (DataFrame fd d)) #
       (n4, Inr (DataFrame fe e)) # rest) t = (t', Faulted Blocked)"
proof -
  let ?a = "t_fresh t"
  from accept_open [OF assms(1-4), of fl n1 ord prio] obtain t1 where t1:
    "serverFrame fl n1 ord (MetaHeadersFrame fh prio flds False) t = (t1, None)" "open_transport t1"
    "t_activeStreams t1 = Some (AList.update (StreamID fh) ?a m)" "t_streams t1 ?a = acceptedAs fh ?a (t_initialWindowSize t)" by fastforce
  have g1: "getStream (StreamID fh) t1 = Some ?a" by (simp add: getStream_def t1(3) update_conv')
  from handleRSTStream_open [OF t1(2) g1, of code] t1(4) assms(5) obtain t2 where t2: "handleRSTStream (StreamID fh) code t1 = (t2, None)"
    "open_transport t2" "getStream (StreamID fh) t2 = Some ?a" "readClosed (t_streams t2 ?a) = 2" "\<not> streamDone (t_streams t2 ?a)"
    "s_done (t_streams t2 ?a) = None" by auto
  let ?t2 = "t2\<lparr>msgRecv := msgRecv t2 + 1\<rparr>"
  have "open_transport ?t2" "getStream (StreamID fd) ?t2 = Some ?a" using t2 assms(7) by (simp_all add: getStream_def)
  from handleData_reset(1) [OF this, of d] t2 obtain t3 where t3: "handleData fd d ?t2 = (t3, None)" "open_transport t3"
    "flow_core t3 = flow_core ?t2" "t_streams t3 = (t_streams t2)(?a := closedStream (Some ErrStreamDone) (t_streams t2 ?a))" by auto
  let ?t3 = "t3\<lparr>msgRecv := msgRecv t3 + 1\<rparr>"
  have "open_transport ?t3" "getStream (StreamID fe) ?t3 = Some ?a"
    using t2(3) t3(2) flow_core_fields(1) [OF t3(3)] assms(8) by (simp_all add: getStream_def)
  from handleData_reset(2) [OF this, of e] t3(4) t2(6) have "snd (handleData fe e ?t3) = Some Blocked" by simp
  then obtain t4 where "handleData fe e ?t3 = (t4, Some Blocked)" by (metis prod.collapse)
  with t1(1) t2(1) t3(1) assms(6) show ?thesis by simp
qed

text \<open>A new server with a handler, and a frame header of a stream.\<close>

definition newServer :: H2Transport where
  "newServer = (newServerTransport 0 zeroConfig (\<lambda>_. acceptedStream 0 0 0))\<lparr>t_handle := True\<rparr>"

definition onStream :: "FrameType \<Rightarrow> byte \<Rightarrow> u32 \<Rightarrow> u32 \<Rightarrow> FrameHeader" where
  "onStream ft flgs len sid = \<lparr>valid = True, Type = ft, Flags = flgs, Length = len, StreamID = sid\<rparr>"

lemma onStream_simps [simp]: "StreamID (onStream ft flgs len sid) = sid" "Length (onStream ft flgs len sid) = len" "Flags (onStream ft flgs len sid) = flgs"
  by (simp_all add: onStream_def)

lemma newServer_simps [simp]:
  "open_transport newServer" "t_side newServer = serverSide" "t_activeStreams newServer = Some []" "t_maxStreamID newServer = 0"
  "\<not> t_closing newServer" "t_handle newServer" "t_closures newServer = []" "unat (t_maxStreams newServer) = 4294967295"
  "t_drainChan newServer = None" "t_fresh newServer = 0" "t_initialWindowSize newServer = 65535" "queued newServer = []"
proof -
  show "open_transport newServer" using open_new [of serverSide "frameSize zeroConfig" 2] by (simp add: newServer_def newServerTransport_def open_transport_def)
  show "unat (t_maxStreams newServer) = 4294967295"
    by (simp add: newServer_def newServerTransport_def newTransport_def serverMaxStreams_def zeroConfig_def)
qed (simp_all add: newServer_def newServerTransport_def newTransport_def queued_def newControlBuffer_def il.queue_simps)

lemma newServer_accepts:
  "sid mod 2 = 1 \<Longrightarrow> 0 < sid \<Longrightarrow> accepts newServer (onStream FrameHeaders 0 0 sid) [hf '':method'' ''GET'']"
  by (simp add: accepts_def acceptFields_def acceptField_def new_request_def word_less_nat_alt Let_def)

theorem four_frames_stop_a_server_witness:
  "\<exists>t'. HandleStreams int_floats id
      [(1, Inr (MetaHeadersFrame (onStream FrameHeaders 0 0 1) zeroPriority [hf '':method'' ''GET''] False)),
       (2, Inr (RSTStreamFrame (onStream FrameRSTStream 0 4 1) ErrCodeCancel)),
       (3, Inr (DataFrame (onStream FrameData 0 1 1) [7])), (4, Inr (DataFrame (onStream FrameData 0 1 1) [8]))] newServer = (t', Faulted Blocked)"
proof -
  have "\<not> StreamEnded (onStream FrameHeaders 0 0 1)" by (simp add: StreamEnded_def Has_def FlagHeadersEndStream_def)
  then show ?thesis
    by (intro four_frames_stop_a_server [OF newServer_simps(1) newServer_accepts newServer_simps(3)]) simp_all
qed

section \<open>A closed connection\<close>

lemma closeAll_unlocked:
  assumes "\<not> t_cbLocked t" "distinct as" "\<forall>a \<in> set as. \<not> streamDone (t_streams t a)"
  shows "\<exists>t'. closeAll as err rs code t = (t', None) \<and> t_activeStreams t' = t_activeStreams t \<and> t_closing t' = t_closing t \<and>
    t_closed t' = t_closed t \<and> t_side t' = t_side t \<and> t_maxStreamID t' = t_maxStreamID t \<and> t_maxStreams t' = t_maxStreams t \<and>
    (\<forall>a \<in> set as. streamDone (t_streams t' a)) \<and> (\<forall>a. a \<notin> set as \<longrightarrow> t_streams t' a = t_streams t a)"
  using assms
proof (induction as arbitrary: t)
  case (Cons a as)
  from closeStream_first [of t a err rs code] Cons.prems obtain t1 s1 where t1: "closeStream a err rs code t = (t1, None)"
    "t_streams t1 = (t_streams t)(a := s1)" "streamDone s1" "t_activeStreams t1 = t_activeStreams t" "t_closing t1 = t_closing t"
    "t_closed t1 = t_closed t" "\<not> t_cbLocked t1" "t_side t1 = t_side t" "t_maxStreamID t1 = t_maxStreamID t" by auto
  have mx: "t_maxStreams t1 = t_maxStreams t"
    using t1(1) Cons.prems by (auto simp: closeStream_def t_execPut_def executeAndPut_def addBackStreamQuota_def releaseStream_def set_stream_def
      t_call_def Let_def split: option.splits if_splits prod.splits sum.splits)
  have "\<forall>b \<in> set as. \<not> streamDone (t_streams t1 b)" using Cons.prems t1(2) by auto
  from Cons.IH [OF t1(7) _ this] Cons.prems(2) t1 mx show ?case by auto
qed simp

text \<open>Closing a connection that has no request of its own in the queue.\<close>

lemma t_finish_clean:
  assumes "\<not> t_cbLocked t" "cb_err (t_cb t) = None" "t_closures t = []"
  shows "\<exists>c. t_finish t = (t\<lparr>t_cb := c, t_cbLocked := False\<rparr>, None)"
proof -
  have "orphanAll hs u = (u, None)" if "t_closures u = []" for hs u using that by (induction hs) auto
  with assms show ?thesis by (auto simp: t_finish_def Let_def split: prod.splits)
qed

lemma Close_open:
  assumes "open_transport t" "t_closures t = []" "live_streams t m" "\<And>xs. mset (ord xs) = mset xs"
  shows "\<exists>t'. t_Close ord err t = (t', None) \<and> t_closed t' \<and> t_activeStreams t' = None \<and> t_closing t' = t_closing t \<and> t_side t' = t_side t \<and>
    t_maxStreamID t' = t_maxStreamID t \<and> t_maxStreams t' = t_maxStreams t \<and> (\<forall>(k, a) \<in> set m. streamDone (t_streams t' a))"
proof -
  define t4 where "t4 = (t_call (EvMux Event_ConnClose) (if t_Error t = None then t\<lparr>t_closed := True, t_Error := err\<rparr> else t\<lparr>t_closed := True\<rparr>))
      \<lparr>t_activeStreams := None\<rparr>"
  have t4: "t_closures t4 = []" "t_cbLocked t4 = t_cbLocked t" "t_cb t4 = t_cb t" "t_streams t4 = t_streams t"
    "t_closing t4 = t_closing t" "t_side t4 = t_side t" "t_maxStreamID t4 = t_maxStreamID t" "t_maxStreams t4 = t_maxStreams t" "t_closed t4"
    "t_activeStreams t4 = None"
    using assms(2) by (simp_all add: t4_def t_call_def)
  from t_finish_clean [of t4] t4(1-3) assms(1) obtain c where c: "t_finish t4 = (t4\<lparr>t_cb := c, t_cbLocked := False\<rparr>, None)"
    by (auto simp: open_transport_def)
  let ?t6 = "t_call CloseConn (t4\<lparr>t_cbLocked := False, t_ctxDone := t_ctxDone t4 \<or> t_cancel t4, t_done := True, t_cb := c\<lparr>cb_done := True\<rparr>\<rparr>)"
  have m: "distinct (ord (map snd m))" "set (ord (map snd m)) = set (map snd m)"
    using assms(3,4) by (metis live_streams_def mset_eq_imp_distinct_iff, metis mset_eq_setD)
  have "\<forall>a \<in> set (ord (map snd m)). \<not> streamDone (t_streams ?t6 a)"
    using assms(3) m(2) t4(4) by (auto simp: live_streams_def t_call_def)
  from closeAll_unlocked [OF _ m(1) this, of "Some ErrConnClosingT" False 0] obtain t7 where t7:
    "closeAll (ord (map snd m)) (Some ErrConnClosingT) False 0 ?t6 = (t7, None)" "t_activeStreams t7 = None" "t_closing t7 = t_closing t"
    "t_closed t7" "t_side t7 = t_side t" "t_maxStreamID t7 = t_maxStreamID t" "t_maxStreams t7 = t_maxStreams t"
    "\<forall>a \<in> set (ord (map snd m)). streamDone (t_streams t7 a)" using t4 by (auto simp: t_call_def)
  have "t_Close ord err t = and_do (t_finish t4) (\<lambda>t5.
      let t6 = t_call CloseConn (t5\<lparr>t_ctxDone := t_ctxDone t5 \<or> t_cancel t5, t_done := True, t_cb := (t_cb t5)\<lparr>cb_done := True\<rparr>\<rparr>)
      in and_do (closeAll (ord (map snd m)) (Some ErrConnClosingT) False 0 t6) (\<lambda>t7. (t_call (EvMux Event_ConnClose) t7, None)))"
    using assms(1,3) by (simp add: t_Close_def t4_def open_transport_def live_streams_def t_call_def Let_def)
  with c t7(1) have "t_Close ord err t = (t_call (EvMux Event_ConnClose) t7, None)" by (simp add: t_call_def Let_def)
  then show ?thesis using t7 m(2) by (auto simp: t_call_def)
qed



end
