(* ===== verification/Stream_Rules.thy ===== *)
theory Stream_Rules
  imports Server_Rules Loopy_Safety
begin

text \<open>
  The data that a peer sends on a stream: what is delivered and what the flow control refuses. Then
  the trailers of a response, from the stream to the writer.
\<close>

section \<open>DATA frames\<close>

text \<open>A stream that takes data into its receive buffer, which holds \<open>q\<close>.\<close>

definition receiving :: "H2Stream \<Rightarrow> RecvMsg list \<Rightarrow> bool" where
  "receiving s q \<longleftrightarrow> readClosed s = 0 \<and> \<not> streamDone s \<and> \<not> OnData s \<and> inFrameList s = Some q \<and> stream_inv (s_inFlow s)"

abbreviation dataHeader :: "u32 \<Rightarrow> bytes \<Rightarrow> FrameHeader" where
  "dataHeader sid d \<equiv> onStream FrameData 0 (word_of_nat (length d)) sid"

lemma data_flags [simp]: "\<not> Has 0 FlagDataPadded" "\<not> StreamEnded (onStream ft 0 len sid)"
  by (simp_all add: Has_def FlagDataPadded_def StreamEnded_def FlagHeadersEndStream_def)

lemma in_onData_split:
  assumes "stream_inv f" "unat n < 2 ^ 31"
  shows "unat n \<le> stream_avail f \<Longrightarrow> \<exists>g. in_onData n f = (g, None) \<and> stream_inv g \<and> stream_avail g = stream_avail f - unat n"
    and "\<not> unat n \<le> stream_avail f \<Longrightarrow> \<exists>g e. in_onData n f = (g, Some e)"
  using in_onData_iff(1) [OF assms] stream_recv_ok [OF assms(1), of n]
  by (cases "in_onData n f"; simp add: stream_recv_def)+

lemma handleData_open:
  assumes "open_transport t" "getStream sid t = Some a" "receiving (t_streams t a) q" "0 < length d" "length d < 2 ^ 31"
  shows "length d \<le> stream_avail (s_inFlow (t_streams t a)) \<Longrightarrow>
      \<exists>t'. handleData (dataHeader sid d) d t = (t', None) \<and> open_transport t' \<and> flow_core t' = flow_core t \<and>
        receiving (t_streams t' a) (q @ [RecvData d]) \<and> MuxID (t_streams t' a) = MuxID (t_streams t a) \<and>
        stream_avail (s_inFlow (t_streams t' a)) = stream_avail (s_inFlow (t_streams t a)) - length d"
    and "\<not> length d \<le> stream_avail (s_inFlow (t_streams t a)) \<Longrightarrow>
      \<exists>t'. handleData (dataHeader sid d) d t = (t', None) \<and> flow_core t' = flow_core t \<and> streamDone (t_streams t' a) \<and>
        inFrameList (t_streams t' a) = Some (q @ [RecvErr ErrFlowControl]) \<and> queued t' \<noteq> [] \<and>
        last (queued t') = CleanupItem \<lparr>c_streamID = MuxID (t_streams t a), rst = True, rstCode = ErrCodeFlowControl, c_onWrite = True\<rparr>"
proof -
  let ?h = "dataHeader sid d"
  from connData_open [OF assms(1), of "Length ?h"] obtain t1 where t1: "connData (Length ?h) t = (t1, None)" "open_transport t1"
    "flow_core t1 = flow_core t" "t_streams t1 = t_streams t" by (auto simp: flow_step_def)
  have g: "getStream sid t1 = Some a" using getStream_cong [OF flow_core_fields(1) [OF t1(3)]] assms(2) by simp
  have l: "unat (Length ?h) = length d" "Length ?h > 0" using assms(4,5) by (simp_all add: unat_of_nat word_less_nat_alt)
  have s: "stream_inv (s_inFlow (t_streams t a))" "unat (Length ?h) < 2 ^ 31" "readClosed (t_streams t a) = 0" "d \<noteq> []"
    using assms(3-5) l(1) by (auto simp: receiving_def)
  show "\<exists>t'. handleData ?h d t = (t', None) \<and> open_transport t' \<and> flow_core t' = flow_core t \<and>
        receiving (t_streams t' a) (q @ [RecvData d]) \<and> MuxID (t_streams t' a) = MuxID (t_streams t a) \<and>
        stream_avail (s_inFlow (t_streams t' a)) = stream_avail (s_inFlow (t_streams t a)) - length d"
    if "length d \<le> stream_avail (s_inFlow (t_streams t a))"
  proof -
    from in_onData_split(1) [OF s(1,2)] that l(1) obtain f where f: "in_onData (Length ?h) (s_inFlow (t_streams t a)) = (f, None)" "stream_inv f"
      "stream_avail f = stream_avail (s_inFlow (t_streams t a)) - length d" by auto
    let ?t = "deliver a d (set_stream a (\<lambda>s. s\<lparr>s_inFlow := f\<rparr>) t1)"
    have "handleData ?h d t = (?t, None)"
      using t1(1,4) g l(2) s(3) f(1) by (simp add: handleData_def streamData_def endStream_def del: onStream_simps(2))
    then show ?thesis using t1 f assms(3) s(4)
      by (intro exI [of _ ?t]) (simp add: deliver_def receiving_def queueReadBuf_def flow_core_def)
  qed
  show "\<exists>t'. handleData ?h d t = (t', None) \<and> flow_core t' = flow_core t \<and> streamDone (t_streams t' a) \<and>
        inFrameList (t_streams t' a) = Some (q @ [RecvErr ErrFlowControl]) \<and> queued t' \<noteq> [] \<and>
        last (queued t') = CleanupItem \<lparr>c_streamID = MuxID (t_streams t a), rst = True, rstCode = ErrCodeFlowControl, c_onWrite = True\<rparr>"
    if "\<not> length d \<le> stream_avail (s_inFlow (t_streams t a))"
  proof -
    from in_onData_split(2) [OF s(1,2)] that l(1) obtain f e where f: "in_onData (Length ?h) (s_inFlow (t_streams t a)) = (f, Some e)" by auto
    let ?t = "set_stream a (\<lambda>s. s\<lparr>s_inFlow := f\<rparr>) t1"
    have h: "handleData ?h d t = and_do (closeStream a (Some ErrFlowControl) True ErrCodeFlowControl ?t) (\<lambda>t2. (t2, None))"
      using t1(1,4) g l(2) s(3) f by (simp add: handleData_def streamData_def del: onStream_simps(2))
    from closeStream_open [of ?t a "Some ErrFlowControl" True ErrCodeFlowControl] t1 assms(3) obtain t2 where t2:
      "closeStream a (Some ErrFlowControl) True ErrCodeFlowControl ?t = (t2, None)" "streams_only ?t t2"
      "t_streams t2 = (t_streams ?t)(a := closedStream (Some ErrFlowControl) (t_streams ?t a))"
      "queued t2 = queued ?t @ [CleanupItem \<lparr>c_streamID = MuxID (t_streams ?t a), rst = True, rstCode = ErrCodeFlowControl, c_onWrite = True\<rparr>]"
      by (auto simp: receiving_def)
    with h t1(3,4) assms(3) show ?thesis
      by (simp add: flow_core_def closedStream_def markDone_def setReadClosed_def queueReadBuf_def closeHeaderChan_def receiving_def Let_def)
  qed
qed

definition dataFrames :: "u32 \<Rightarrow> bytes list \<Rightarrow> (int \<times> (frame_error + Frame)) list" where
  "dataFrames sid ds = map (\<lambda>d. (0, Inr (DataFrame (dataHeader sid d) d))) ds"

lemma HandleStreams_data:
  assumes "open_transport t" "getStream sid t = Some a" "receiving (t_streams t a) q" "\<forall>d \<in> set ds. d \<noteq> []"
    "length (concat ds) \<le> stream_avail (s_inFlow (t_streams t a))" "stream_avail (s_inFlow (t_streams t a)) < 2 ^ 31"
  shows "\<exists>t'. HandleStreams fl ord (dataFrames sid ds @ rest) t = HandleStreams fl ord rest t' \<and> open_transport t' \<and> getStream sid t' = Some a \<and>
    receiving (t_streams t' a) (q @ map RecvData ds) \<and> MuxID (t_streams t' a) = MuxID (t_streams t a) \<and>
    stream_avail (s_inFlow (t_streams t' a)) = stream_avail (s_inFlow (t_streams t a)) - length (concat ds)"
  using assms
proof (induction ds arbitrary: t q)
  case (Cons d ds)
  let ?t = "t\<lparr>msgRecv := msgRecv t + 1\<rparr>"
  have o: "open_transport ?t" "getStream sid ?t = Some a" using Cons.prems(1,2) by (simp_all add: getStream_def)
  from handleData_open(1) [OF o, of q d] Cons.prems(3-6) obtain t1 where t1: "handleData (dataHeader sid d) d ?t = (t1, None)"
    "open_transport t1" "flow_core t1 = flow_core ?t" "receiving (t_streams t1 a) (q @ [RecvData d])" "MuxID (t_streams t1 a) = MuxID (t_streams t a)"
    "stream_avail (s_inFlow (t_streams t1 a)) = stream_avail (s_inFlow (t_streams t a)) - length d" by auto
  have "getStream sid t1 = Some a" using getStream_cong [OF flow_core_fields(1) [OF t1(3)]] o(2) by simp
  moreover have "length (concat ds) \<le> stream_avail (s_inFlow (t_streams t1 a))" "stream_avail (s_inFlow (t_streams t1 a)) < 2 ^ 31"
    using Cons.prems(5,6) t1(6) by simp_all
  ultimately obtain t2 where
    "HandleStreams fl ord (dataFrames sid ds @ rest) t1 = HandleStreams fl ord rest t2" "open_transport t2" "getStream sid t2 = Some a"
    "receiving (t_streams t2 a) (q @ map RecvData (d # ds))" "MuxID (t_streams t2 a) = MuxID (t_streams t a)"
    "stream_avail (s_inFlow (t_streams t2 a)) = stream_avail (s_inFlow (t_streams t a)) - length (concat (d # ds))"
    using Cons.IH [OF t1(2) _ t1(4)] Cons.prems(4) t1(5,6) by auto
  with t1(1) show ?case by (intro exI [of _ t2]) (simp add: dataFrames_def)
qed (auto simp: dataFrames_def)

text \<open>
  C11: A server with a configured window for streams of more than 65535 bytes announces that window in its
  settings, but every stream it accepts keeps the default one: of a peer that uses the announced window,
  the DATA frames up to 65535 bytes are delivered to the receive buffer in order, and the first one
  beyond, although within the window that was announced, resets the stream with FLOW_CONTROL_ERROR.
\<close>

theorem announced_window_is_not_granted:
  assumes "65535 < InitialWindowSize cfg" "InitialWindowSize cfg < 2 ^ 31"
    and "sid mod 2 = 1" "0 < sid" "\<not> ar_headerError (acceptFields flds)"
    and "\<forall>d \<in> set (ds @ [e]). d \<noteq> []" "length (concat ds) \<le> 65535" "65535 < length (concat (ds @ [e]))"
    and "int (length (concat (ds @ [e]))) \<le> InitialWindowSize cfg"
  shows "\<lparr>ID = SettingInitialWindowSize, Val = word_of_int (InitialWindowSize cfg)\<rparr> \<in> set (serverSettings cfg) \<and>
    (\<exists>t' a. HandleStreams fl ord ((0, Inr (MetaHeadersFrame (onStream FrameHeaders 0 len sid) prio flds False)) # dataFrames sid (ds @ [e]))
          ((newServerTransport now cfg st)\<lparr>t_handle := True\<rparr>) = (t', Reading) \<and>
        getStream sid t' = Some a \<and> streamDone (t_streams t' a) \<and> inFrameList (t_streams t' a) = Some (map RecvData ds @ [RecvErr ErrFlowControl]) \<and>
        last (queued t') = CleanupItem \<lparr>c_streamID = sid, rst = True, rstCode = ErrCodeFlowControl, c_onWrite = True\<rparr>)"
proof
  show "\<lparr>ID = SettingInitialWindowSize, Val = word_of_int (InitialWindowSize cfg)\<rparr> \<in> set (serverSettings cfg)"
    using assms(1) by (simp add: serverSettings_def streamWindow_def)
  let ?t = "(newServerTransport now cfg st)\<lparr>t_handle := True\<rparr>" and ?h = "onStream FrameHeaders 0 len sid"
  have t: "open_transport ?t" "t_activeStreams ?t = Some []" "t_initialWindowSize ?t = 65535" "t_fresh ?t = 0"
    using open_new by (simp_all add: newServerTransport_def open_transport_def) (simp_all add: newTransport_def)
  have mx: "0 < serverMaxStreams cfg" by (simp add: serverMaxStreams_def word_less_nat_alt unat_gt_0)
  have "accepts ?t ?h flds"
    using assms(3-5) mx by (simp add: accepts_def newServerTransport_def newTransport_def)
  from accept_open [OF t(1) this t(2), of fl 0 ord prio] mx obtain t1 where t1:
    "serverFrame fl 0 ord (MetaHeadersFrame ?h prio flds False) ?t = (t1, None)" "open_transport t1" "t_activeStreams t1 = Some [(sid, 0)]"
    "t_streams t1 0 = acceptedAs ?h 0 65535"
    using t by (auto simp: newServerTransport_def newTransport_def word_less_nat_alt)
  have g: "getStream sid t1 = Some 0" by (simp add: getStream_def t1(3))
  have r: "receiving (t_streams t1 0) []" "stream_avail (s_inFlow (t_streams t1 0)) = 65535" "MuxID (t_streams t1 0) = sid"
    by (simp_all add: t1(4) receiving_def stream_inv_def maxWindow_value stream_avail_def) (simp add: acceptedAs_def acceptedStream_def)
  have "\<exists>t'. HandleStreams fl ord (dataFrames sid ds @ dataFrames sid [e]) t1 = HandleStreams fl ord (dataFrames sid [e]) t' \<and> open_transport t' \<and>
      getStream sid t' = Some 0 \<and> receiving (t_streams t' 0) ([] @ map RecvData ds) \<and> MuxID (t_streams t' 0) = MuxID (t_streams t1 0) \<and>
      stream_avail (s_inFlow (t_streams t' 0)) = stream_avail (s_inFlow (t_streams t1 0)) - length (concat ds)"
    using assms(6,7) r by (intro HandleStreams_data [OF t1(2) g]) simp_all
  then obtain t2 where t2: "HandleStreams fl ord (dataFrames sid ds @ dataFrames sid [e]) t1 = HandleStreams fl ord (dataFrames sid [e]) t2"
    "open_transport t2" "getStream sid t2 = Some 0" "receiving (t_streams t2 0) (map RecvData ds)" "MuxID (t_streams t2 0) = sid"
    "stream_avail (s_inFlow (t_streams t2 0)) = 65535 - length (concat ds)" using r by auto
  let ?t2 = "t2\<lparr>msgRecv := msgRecv t2 + 1\<rparr>"
  have "open_transport ?t2" "getStream sid ?t2 = Some 0" using t2 by (simp_all add: getStream_def)
  moreover have "\<not> length e \<le> 65535 - length (concat ds)" "length e < 2 ^ 31" using assms(2,7-9) by simp_all
  ultimately obtain t3 where t3:
    "handleData (dataHeader sid e) e ?t2 = (t3, None)" "flow_core t3 = flow_core ?t2" "streamDone (t_streams t3 0)"
    "inFrameList (t_streams t3 0) = Some (map RecvData ds @ [RecvErr ErrFlowControl])"
    "last (queued t3) = CleanupItem \<lparr>c_streamID = sid, rst = True, rstCode = ErrCodeFlowControl, c_onWrite = True\<rparr>"
    using handleData_open(2) [of ?t2 sid 0 "map RecvData ds" e] t2(4-6) assms(6) by auto
  have "dataFrames sid (ds @ [e]) = dataFrames sid ds @ dataFrames sid [e]" by (simp add: dataFrames_def)
  moreover have "getStream sid t3 = Some 0" using getStream_cong [OF flow_core_fields(1) [OF t3(2)]] t2(3) by (simp add: getStream_def)
  ultimately show "\<exists>t' a. HandleStreams fl ord ((0, Inr (MetaHeadersFrame ?h prio flds False)) # dataFrames sid (ds @ [e])) ?t = (t', Reading) \<and>
        getStream sid t' = Some a \<and> streamDone (t_streams t' a) \<and> inFrameList (t_streams t' a) = Some (map RecvData ds @ [RecvErr ErrFlowControl]) \<and>
        last (queued t') = CleanupItem \<lparr>c_streamID = sid, rst = True, rstCode = ErrCodeFlowControl, c_onWrite = True\<rparr>"
    using t1(1) t2(1) t3 by (intro exI [of _ t3] exI [of _ 0]) (simp add: dataFrames_def)
qed

theorem announced_window_is_not_granted_witness:
  "let cfg = zeroConfig\<lparr>InitialWindowSize := 131072\<rparr>; d = replicate 16384 (0 :: byte)
   in \<exists>t' a. HandleStreams int_floats id
          ((0, Inr (MetaHeadersFrame (onStream FrameHeaders 0 0 1) zeroPriority [] False)) # dataFrames 1 ([d, d, d] @ [d]))
          ((newServerTransport 0 cfg (\<lambda>_. acceptedStream 0 0 0))\<lparr>t_handle := True\<rparr>) = (t', Reading) \<and>
        getStream 1 t' = Some a \<and> streamDone (t_streams t' a)"
proof -
  let ?cfg = "zeroConfig\<lparr>InitialWindowSize := 131072\<rparr>" and ?d = "replicate 16384 (0 :: byte)"
  have "\<not> ar_headerError (acceptFields [])" by (simp add: acceptFields_def new_request_def)
  then show ?thesis
    using announced_window_is_not_granted [of ?cfg 1 "[]" "[?d, ?d, ?d]" ?d int_floats id 0 zeroPriority 0 "\<lambda>_. acceptedStream 0 0 0"]
    unfolding Let_def by (auto simp: zeroConfig_def)
qed

section \<open>Trailers\<close>

lemma CloseWrite_trailers:
  assumes "open_transport t" "headerSent (t_streams t a)" "\<not> writeClosed (t_streams t a)" "rsp_Trailer (t_streams t a) \<noteq> []"
    and "checkForHeaderListSize (h_hf (trailerItem a t)) t"
  shows "\<exists>t'. CloseWrite a t = (t', Inr None) \<and> queued t' = queued t @ [HeaderItem (trailerItem a t)]"
proof -
  let ?t1 = "set_stream a (\<lambda>_. (t_streams t a)\<lparr>headerSent := True\<rparr>) t"
  let ?t2 = "set_stream a setWriteClosed ?t1"
  have i: "trailerItem a ?t2 = trailerItem a t" by (simp add: trailerItem_def setWriteClosed_def Let_def)
  have o: "open_transport ?t2" "\<not> t_cbLocked ?t2" using assms(1) by (simp_all add: open_transport_def)
  have "checkForHeaderListSize (h_hf (trailerItem a t)) ?t2" using assms(5) by (simp add: checkForHeaderListSize_def set_stream_def)
  then have "cb_execute (\<lambda>item t. (t, checkForHeaderListSize (h_hf item) t)) (trailerItem a ?t2) (t_cb ?t2, ?t2) = (?t2, Inr True)"
    using assms(1) by (simp add: cb_execute_def open_transport_def i)
  with t_put_kept [OF o(1), of "HeaderItem (trailerItem a t)"] assms(2-4) o(2) i show ?thesis
    by (auto simp: CloseWrite_def writeTrailer_def updateHeaderSent_def)
qed

text \<open>
  C19: A server that ends a response with trailers crashes: CloseWrite queues the trailers with a cleanup that
  has no callback, and the writer, once it has written them for a stream with nothing left to send, calls that
  callback, a nil function, unless writing has failed before.
\<close>

theorem trailers_crash_the_writer:
  assumes "open_transport t" "headerSent (t_streams t a)" "\<not> writeClosed (t_streams t a)" "rsp_Trailer (t_streams t a) \<noteq> []"
    and "checkForHeaderListSize (h_hf (trailerItem a t)) t"
    and "l_side l = serverSide" "MuxID (t_streams t a) mod 2 = 1"
    and "map_of (estdStreams l) (MuxID (t_streams t a)) = Some b" "os_state (stream_of l b) = empty_stream"
  shows "\<exists>t' h. CloseWrite a t = (t', Inr None) \<and> queued t' = queued t @ [HeaderItem h] \<and>
    headerHandler wr h l = (case writeHeader wr (h_streamID h) True (h_hf h) True l of
        (l', None) \<Rightarrow> (l', Some (LPanic ''nil function'')) | (l', Some e) \<Rightarrow> (l', Some e))"
proof -
  let ?h = "trailerItem a t"
  have h: "h_streamID ?h = MuxID (t_streams t a)" "h_endStream ?h" "h_onWrite ?h"
    "h_cleanup ?h = Some \<lparr>c_streamID = MuxID (t_streams t a), rst = False, rstCode = 0, c_onWrite = False\<rparr>"
    by (simp_all add: trailerItem_def Let_def)
  have "headerHandler wr ?h l = and_go (writeHeader wr (h_streamID ?h) True (h_hf ?h) True l) (cleanupStreamHandler wr (h_cleanup ?h))"
    using assms(6-9) h by (simp add: headerHandler_def Let_def)
  also have "\<dots> = (case writeHeader wr (h_streamID ?h) True (h_hf ?h) True l of
        (l', None) \<Rightarrow> (l', Some (LPanic ''nil function'')) | (l', Some e) \<Rightarrow> (l', Some e))"
    using h(4) by (auto simp: cleanupStreamHandler_def split: prod.splits option.splits)
  finally show ?thesis using CloseWrite_trailers [OF assms(1-5)] by blast
qed

text \<open>A server that has accepted stream 1 and answers it with a trailer.\<close>

definition trailerServer :: H2Transport where
  "trailerServer = set_stream 0 (\<lambda>_. (acceptedStream 1 0 65535)\<lparr>headerSent := True, rsp_Trailer := [(''Grpc-Status'', [''0''])]\<rparr>) newServer"

theorem trailers_crash_the_writer_witness:
  "\<exists>l t' h. CloseWrite 0 trailerServer = (t', Inr None) \<and> queued t' = [HeaderItem h] \<and>
     snd (headerHandler pipeWrite h (fst (registerStreamHandler 1 (Some 0) l))) \<noteq> None"
proof -
  let ?mux = "\<lparr>mux_closing = False, maxStreamID = 0, mux_activeStreams = []\<rparr>"
  obtain enc :: "bytes Encoder" where "NewEncoder [] = Inr enc"
    using setMaxSize_ok [OF init_dynamicTable_ok, of 4096] by (auto simp: NewEncoder_def initialHeaderTableSize_def)
  then obtain l where l: "newLoopyWriter ?mux serverSide (NewFramer ([] :: bytes) []) None 16384 (\<lambda>a. newWriteQuota 0) = Inr l"
    by (auto simp: newLoopyWriter_def newOutStreamList_def)
  let ?l = "fst (registerStreamHandler 1 (Some 0) l)"
  have side: "l_side l = serverSide" "estdStreams l = []" "freshStream l = 2"
    using l by (auto simp: newLoopyWriter_def newOutStreamList_def split: sum.splits)
  then have r: "l_side ?l = serverSide" "map_of (estdStreams ?l) 1 = Some 2" "os_state (stream_of ?l 2) = empty_stream"
    by (simp_all add: registerStreamHandler_def alloc_stream_def establish_def new_outStream_def stream_of_def)
  have "t_maxSendHeaderListSize newServer = None" by (simp add: newServer_def newServerTransport_def newTransport_def)
  then have t: "open_transport trailerServer" "headerSent (t_streams trailerServer 0)" "\<not> writeClosed (t_streams trailerServer 0)"
    "rsp_Trailer (t_streams trailerServer 0) \<noteq> []" "checkForHeaderListSize (h_hf (trailerItem 0 trailerServer)) trailerServer"
    "MuxID (t_streams trailerServer 0) = 1" "queued trailerServer = []"
    by (simp_all add: trailerServer_def acceptedStream_def checkForHeaderListSize_def) (simp add: set_stream_def)
  from trailers_crash_the_writer [OF t(1-5) r(1), of 2 pipeWrite] r t obtain t' h where "CloseWrite 0 trailerServer = (t', Inr None)"
    "queued t' = [HeaderItem h]" "headerHandler pipeWrite h ?l = (case writeHeader pipeWrite (h_streamID h) True (h_hf h) True ?l of
        (l', None) \<Rightarrow> (l', Some (LPanic ''nil function'')) | (l', Some e) \<Rightarrow> (l', Some e))" by auto
  then show ?thesis by (intro exI [of _ l] exI [of _ t'] exI [of _ h]) (auto split: prod.splits option.splits)
qed

end
