(* ===== verification/Ping_Policy.thy ===== *)
theory Ping_Policy
  imports Server_Rules
begin

text \<open>
  The pings of a client (\<^verbatim>\<open>handlePing\<close> in \<^verbatim>\<open>h2/h2_connection_server.go\<close>): what a server answers, when it counts a
  ping as a strike, and when it tells the client to calm down.
\<close>

section \<open>The policy\<close>

definition activeCount :: "H2Transport \<Rightarrow> nat" where
  "activeCount t = length (case t_activeStreams t of None \<Rightarrow> [] | Some m \<Rightarrow> m)"

text \<open>The time a client has to wait between two pings.\<close>

definition pingWait :: "H2Transport \<Rightarrow> Duration" where
  "pingWait t = (if activeCount t < 1 \<and> \<not> t_permitWithoutStream t then defaultPingTimeout else t_minTime t)"

definition calmDown :: cbItem where
  "calmDown = GoAwayItem \<lparr>g_code = ErrCodeEnhanceYourCalm, g_debugData = bytes_of ''too_many_pings'', g_headsUp = False, g_closeConn = True\<rparr>"

text \<open>The pings that come too early, where \<open>l\<close> is the time of the last ping.\<close>

fun earlyPings :: "Duration \<Rightarrow> int \<Rightarrow> (int \<times> bytes) list \<Rightarrow> nat" where
  "earlyPings w l [] = 0"
| "earlyPings w l ((n, d) # ps) = (if l + w > n then 1 else 0) + earlyPings w n ps"

text \<open>The answers of a server that has counted \<open>k\<close> strikes.\<close>

fun pingAnswers :: "Duration \<Rightarrow> int \<Rightarrow> nat \<Rightarrow> (int \<times> bytes) list \<Rightarrow> cbItem list" where
  "pingAnswers w l k [] = []"
| "pingAnswers w l k ((n, d) # ps) =
     (let j = (if l + w > n then Suc k else k)
      in PingItem True d # (if j > 2 then [calmDown] else []) @ pingAnswers w n j ps)"

definition pingFrames :: "FrameHeader \<Rightarrow> (int \<times> bytes) list \<Rightarrow> (int \<times> (frame_error + Frame)) list" where
  "pingFrames fh ps = map (\<lambda>(n, d). (n, Inr (PingFrame fh d))) ps"

lemma pingAnswers_calm: "k \<le> 2 \<Longrightarrow> calmDown \<in> set (pingAnswers w l k ps) \<longleftrightarrow> k + earlyPings w l ps > 2"
proof (induction w l k ps rule: pingAnswers.induct)
  case (2 w l k n d ps)
  let ?j = "if l + w > n then Suc k else k"
  show ?case
  proof (cases "?j > 2")
    case True
    then show ?thesis using 2(2) by (auto simp: Let_def split: if_splits)
  next
    case False
    then show ?thesis using 2(1) [OF refl] by (auto simp: Let_def calmDown_def split: if_splits)
  qed
qed simp

lemma pingAnswers_acks: "filter (\<lambda>i. i \<noteq> calmDown) (pingAnswers w l k ps) = map (\<lambda>(n, d). PingItem True d) ps"
  by (induction w l k ps rule: pingAnswers.induct) (auto simp: Let_def calmDown_def)

section \<open>The server keeps the policy\<close>

lemma handlePing_open:
  fixes now :: int
  assumes "open_transport t" "\<not> t_resetPingStrikes t" "unat (t_pingStrikes t) < 255"
  defines "j \<equiv> if t_lastPingAt t + pingWait t > now then Suc (unat (t_pingStrikes t)) else unat (t_pingStrikes t)"
  shows "\<exists>t'. handlePing fl now False d t = (t', None) \<and> open_transport t' \<and> \<not> t_resetPingStrikes t' \<and> t_lastPingAt t' = now \<and>
    unat (t_pingStrikes t') = j \<and> pingWait t' = pingWait t \<and> queued t' = queued t @ PingItem True d # (if j > 2 then [calmDown] else [])"
proof -
  from t_put_open [OF assms(1), of "PingItem True d"] obtain c where c: "t_put (PingItem True d) t = (t\<lparr>t_cb := c\<rparr>, None)"
    "il_items (cb_list c) = queued t @ [PingItem True d]" "il_wf (cb_list c)" "cb_err c = None" by blast
  have "unat (t_pingStrikes t + 1) = Suc (unat (t_pingStrikes t))" using assms(3) by (simp add: unat_word_ariths)
  moreover define k where "k = (if t_lastPingAt t + pingWait t > now then t_pingStrikes t + 1 else t_pingStrikes t)"
  ultimately have k: "pingStrike now (t\<lparr>t_cb := c\<rparr>) = t\<lparr>t_cb := c, t_pingStrikes := k\<rparr>" "unat k = j"
    by (simp_all add: pingStrike_def pingWait_def activeCount_def j_def Let_def)
  let ?t2 = "t\<lparr>t_cb := c, t_pingStrikes := k\<rparr>"
  have t2: "open_transport ?t2" "queued ?t2 = queued t @ [PingItem True d]" using assms(1) c by (simp_all add: open_transport_def queued_def)
  have more: "k > maxPingStrikes \<longleftrightarrow> j > 2" by (simp add: k(2) [symmetric] maxPingStrikes_def word_less_nat_alt)
  from t_put_open [OF t2(1), of calmDown] obtain c2 where c2: "t_put calmDown ?t2 = (?t2\<lparr>t_cb := c2\<rparr>, None)"
    "il_items (cb_list c2) = queued ?t2 @ [calmDown]" "il_wf (cb_list c2)" "cb_err c2 = None" by blast
  let ?t3 = "(if j > 2 then ?t2\<lparr>t_cb := c2\<rparr> else ?t2)\<lparr>t_lastPingAt := now\<rparr>"
  have "handlePing fl now False d t = (?t3, None)"
    using c(1) k(1) c2(1) more assms(2) by (simp add: handlePing_def calmDown_def Let_def)
  moreover have "open_transport ?t3" using t2(1) c2 by (simp add: open_transport_def)
  moreover have "queued ?t3 = queued t @ PingItem True d # (if j > 2 then [calmDown] else [])" using t2(2) c2(2) by (simp add: queued_def)
  moreover have "pingWait ?t3 = pingWait t" by (auto simp: pingWait_def activeCount_def)
  ultimately show ?thesis using assms(2) k(2) by (intro exI [of _ ?t3]) simp
qed

lemma pings_answered:
  assumes "open_transport t" "\<not> t_resetPingStrikes t" "unat (t_pingStrikes t) + length ps < 256" "\<not> IsAck fh"
  shows "\<exists>t'. HandleStreams fl ord (pingFrames fh ps) t = (t', Reading) \<and>
    queued t' = queued t @ pingAnswers (pingWait t) (t_lastPingAt t) (unat (t_pingStrikes t)) ps"
  using assms
proof (induction ps arbitrary: t)
  case (Cons p ps)
  obtain n d where p: "p = (n, d)" by fastforce
  from handlePing_open [of t fl n d] Cons.prems obtain t1 where t1: "handlePing fl n False d t = (t1, None)" "open_transport t1"
    "\<not> t_resetPingStrikes t1" "t_lastPingAt t1 = n" "pingWait t1 = pingWait t"
    "unat (t_pingStrikes t1) = (if t_lastPingAt t + pingWait t > n then Suc (unat (t_pingStrikes t)) else unat (t_pingStrikes t))"
    "queued t1 = queued t @ PingItem True d # (if unat (t_pingStrikes t1) > 2 then [calmDown] else [])" by auto
  from Cons.IH [OF t1(2,3)] Cons.prems t1(6) obtain t2 where "HandleStreams fl ord (pingFrames fh ps) t1 = (t2, Reading)"
    "queued t2 = queued t1 @ pingAnswers (pingWait t) n (unat (t_pingStrikes t1)) ps" unfolding t1(4,5) by (auto split: if_splits)
  with t1(1,6,7) Cons.prems(4) p show ?case by (simp add: pingFrames_def Let_def)
qed (simp add: pingFrames_def)



end
