(* ===== verification/Stream_Access.thy ===== *)
theory Stream_Access
  imports Stream_Ops
begin

text \<open>
  The methods of a stream that wait for headers, read, write and frame messages, and its methods as a context
  (\<^verbatim>\<open>h2/stream.go\<close>).
\<close>

section \<open>Waiting for the headers\<close>

text \<open>The error of a context, and the status it is converted to.\<close>

datatype ctx_error = CtxDeadlineExceeded | CtxCanceled | CtxOther string

definition ContextErr :: "ctx_error \<Rightarrow> h2_error" where
  "ContextErr err =
     (case err of
        CtxDeadlineExceeded \<Rightarrow> ErrStatus DeadlineExceeded ''context deadline exceeded''
      | CtxCanceled \<Rightarrow> ErrStatus Canceled ''context canceled''
      | CtxOther msg \<Rightarrow> ErrStatus Internal (''Unexpected error from context packet: '' @ msg))"

text \<open>
  \<^verbatim>\<open>WaitHeaders\<close>, with the case of the \<^verbatim>\<open>select\<close> that is taken, if it is ready: the headers have come, or
  the context of the stream is over.
\<close>

datatype wait_case = OnHeaders | OnDone ctx_error

definition WaitHeaders :: "wait_case \<Rightarrow> addr \<Rightarrow> H2Transport \<Rightarrow> done_step option" where
  "WaitHeaders c a t =
     (if \<not> headerChan (t_streams t a) then Some (t, None)
      else case c of
        OnHeaders \<Rightarrow> if headerChanClosed (t_streams t a) then Some (t, None) else None
      | OnDone e \<Rightarrow>
          Some (and_do (closeStream a (Some (ContextErr e)) True ErrCodeCancel t) (\<lambda>t1.
            (t1, if headerChanClosed (t_streams t1 a) then None else Some Blocked))))"

section \<open>Reading\<close>

text \<open>
  The receive buffer is code outside: its answer to a read is an argument. What was read is given back to the
  flow control; a stream with a callback has no receive buffer.
\<close>

datatype recv_error = CallbackRead | RecvError h2_error

definition RecvRaw :: "bytes option \<times> h2_error option \<Rightarrow> addr \<Rightarrow> H2Transport \<Rightarrow> done_step \<times> bytes option \<times> recv_error option" where
  "RecvRaw r a t =
     (case inFrameList (t_streams t a) of
        None \<Rightarrow> ((t, None), None, Some CallbackRead)
      | Some _ \<Rightarrow>
          (case fst r of None \<Rightarrow> (t, None) | Some bb \<Rightarrow> UpdateWindow a (word_of_nat (length bb)) t, fst r, map_option RecvError (snd r)))"

definition Read :: "bytes \<times> h2_error option \<Rightarrow> addr \<Rightarrow> H2Transport \<Rightarrow> done_step \<times> bytes \<times> recv_error option" where
  "Read r a t =
     (case inFrameList (t_streams t a) of
        None \<Rightarrow> ((t, None), [], Some CallbackRead)
      | Some _ \<Rightarrow>
          (if length (fst r) > 0 then UpdateWindow a (word_of_nat (length (fst r))) t else (t, None), fst r, map_option RecvError (snd r)))"

definition readOnly :: "bytes \<times> h2_error option \<Rightarrow> addr \<Rightarrow> H2Transport \<Rightarrow> bytes \<times> recv_error option" where
  "readOnly r a t =
     (case inFrameList (t_streams t a) of None \<Rightarrow> ([], Some CallbackRead) | Some _ \<Rightarrow> (fst r, map_option RecvError (snd r)))"

section \<open>Writing\<close>

definition stream_Write :: "bool \<Rightarrow> addr \<Rightarrow> bytes option \<Rightarrow> bytes \<Rightarrow> H2Transport \<Rightarrow> H2Transport \<times> (fault + nat \<times> send_error option)" where
  "stream_Write got a d spare t =
     (case t_Write got a d spare False t of
        (t1, Inl f) \<Rightarrow> (t1, Inl f)
      | (t1, Inr (Some e)) \<Rightarrow> (t1, Inr (0, Some e))
      | (t1, Inr None) \<Rightarrow> (t1, Inr (length (case d of None \<Rightarrow> [] | Some b \<Rightarrow> b), None)))"

text \<open>
  A message with the framing of gRPC: a byte 0 and the length, in the five bytes before the message, which
  the buffer has reserved. The buffer is code outside.
\<close>

record 'b nio_ops =
  nio_Len :: "'b \<Rightarrow> nat"
  nio_Start :: "'b \<Rightarrow> nat"
  nio_End :: "'b \<Rightarrow> nat"
  nio_Buffer :: "'b \<Rightarrow> bytes"
  nio_SetUint32BE :: "int \<Rightarrow> u32 \<Rightarrow> 'b \<Rightarrow> 'b"
  nio_SetByte :: "int \<Rightarrow> byte \<Rightarrow> 'b \<Rightarrow> 'b"

definition grpcFrame :: "'b nio_ops \<Rightarrow> 'b \<Rightarrow> 'b" where
  "grpcFrame ops b =
     nio_SetByte ops (int (nio_Start ops b) - 5) 0 (nio_SetUint32BE ops (int (nio_Start ops b) - 4) (word_of_nat (nio_Len ops b)) b)"

definition stream_Send :: "'b nio_ops \<Rightarrow> bool \<Rightarrow> addr \<Rightarrow> 'b \<Rightarrow> H2Transport \<Rightarrow> send_step" where
  "stream_Send ops got a b t =
     (let t1 = set_stream a (\<lambda>s. s\<lparr>SentPackets := SentPackets s + 1\<rparr>) t;
          b1 = grpcFrame ops b;
          from = nio_Start ops b1 - 5;
          to = nio_End ops b1
      in if nio_Start ops b1 < 5 \<or> to < from \<or> length (nio_Buffer ops b1) < to then (t1, Inl (Panic ''slice bounds out of range''))
         else case stream_Write got a (Some (take (to - from) (drop from (nio_Buffer ops b1)))) (drop to (nio_Buffer ops b1)) t1 of
           (t2, Inl f) \<Rightarrow> (t2, Inl f)
         | (t2, Inr (n, e)) \<Rightarrow> (t2, Inr e))"

text \<open>What the framing relies on: the two setters write at their index and leave the limits alone.\<close>

definition set_bytes :: "nat \<Rightarrow> bytes \<Rightarrow> bytes \<Rightarrow> bytes" where
  "set_bytes i xs ys = take i ys @ xs @ drop (i + length xs) ys"

definition nio_laws :: "'b nio_ops \<Rightarrow> bool" where
  "nio_laws ops \<longleftrightarrow>
     (\<forall>b i v. i + 4 \<le> length (nio_Buffer ops b) \<longrightarrow> nio_Buffer ops (nio_SetUint32BE ops (int i) v b) = set_bytes i (put_uint32 v) (nio_Buffer ops b)) \<and>
     (\<forall>b i x. i < length (nio_Buffer ops b) \<longrightarrow> nio_Buffer ops (nio_SetByte ops (int i) x b) = set_bytes i [x] (nio_Buffer ops b)) \<and>
     (\<forall>b i v. nio_Start ops (nio_SetUint32BE ops i v b) = nio_Start ops b \<and> nio_End ops (nio_SetUint32BE ops i v b) = nio_End ops b) \<and>
     (\<forall>b i x. nio_Start ops (nio_SetByte ops i x b) = nio_Start ops b \<and> nio_End ops (nio_SetByte ops i x b) = nio_End ops b)"

lemma grpcFrame_buffer:
  assumes "nio_laws ops" "5 \<le> nio_Start ops b" "nio_Start ops b \<le> length (nio_Buffer ops b)"
  shows "nio_Buffer ops (grpcFrame ops b) =
      take (nio_Start ops b - 5) (nio_Buffer ops b) @ [0] @ put_uint32 (word_of_nat (nio_Len ops b)) @ drop (nio_Start ops b) (nio_Buffer ops b)"
    "nio_Start ops (grpcFrame ops b) = nio_Start ops b" "nio_End ops (grpcFrame ops b) = nio_End ops b"
proof -
  let ?S = "nio_Start ops b" and ?B = "nio_Buffer ops b" and ?v = "word_of_nat (nio_Len ops b) :: u32"
  have i: "int ?S - 4 = int (?S - 4)" "int ?S - 5 = int (?S - 5)" "?S - 4 = Suc (?S - 5)" using assms(2) by simp_all
  have law: "i + 4 \<le> length (nio_Buffer ops c) \<Longrightarrow> nio_Buffer ops (nio_SetUint32BE ops (int i) v c) = set_bytes i (put_uint32 v) (nio_Buffer ops c)"
    "i < length (nio_Buffer ops c) \<Longrightarrow> nio_Buffer ops (nio_SetByte ops (int i) x c) = set_bytes i [x] (nio_Buffer ops c)" for i c v x
    using assms(1) unfolding nio_laws_def by blast+
  have u: "nio_Buffer ops (nio_SetUint32BE ops (int (?S - 4)) ?v b) = set_bytes (?S - 4) (put_uint32 ?v) ?B"
    using assms(2,3) by (intro law(1)) simp
  have "?S - 5 < length (set_bytes (?S - 4) (put_uint32 ?v) ?B)" using assms(2,3) by (simp add: set_bytes_def)
  then have "nio_Buffer ops (grpcFrame ops b) = set_bytes (?S - 5) [0] (set_bytes (?S - 4) (put_uint32 ?v) ?B)"
    using law(2) [of "?S - 5" "nio_SetUint32BE ops (int (?S - 4)) ?v b" 0] unfolding grpcFrame_def i(1,2) u by blast
  also have "\<dots> = take (?S - 5) ?B @ [0] @ put_uint32 ?v @ drop ?S ?B"
    using assms(2,3) by (simp add: set_bytes_def)
  finally show "nio_Buffer ops (grpcFrame ops b) = take (?S - 5) ?B @ [0] @ put_uint32 ?v @ drop ?S ?B" .
  show "nio_Start ops (grpcFrame ops b) = ?S" "nio_End ops (grpcFrame ops b) = nio_End ops b"
    using assms(1) by (simp_all add: grpcFrame_def nio_laws_def)
qed

lemma append_parts: "take (length h + n) (h @ xs) = h @ take n xs" "drop (length h + n) (h @ xs) = drop n xs"
  by simp_all

text \<open>What is sent is a byte 0, the length in four bytes, and the message.\<close>

lemma grpc_message_framed:
  assumes "nio_laws ops" "5 \<le> nio_Start ops b" "nio_Start ops b \<le> nio_End ops b" "nio_End ops b \<le> length (nio_Buffer ops b)"
    "nio_Len ops b = nio_End ops b - nio_Start ops b"
  shows "stream_Send ops got a b t =
    (case stream_Write got a (Some (0 # put_uint32 (word_of_nat (nio_Len ops b)) @ take (nio_Len ops b) (drop (nio_Start ops b) (nio_Buffer ops b))))
        (drop (nio_End ops b) (nio_Buffer ops b)) (set_stream a (\<lambda>s. s\<lparr>SentPackets := SentPackets s + 1\<rparr>) t) of
      (t2, Inl f) \<Rightarrow> (t2, Inl f) | (t2, Inr (n, e)) \<Rightarrow> (t2, Inr e))"
proof -
  note g = grpcFrame_buffer [OF assms(1,2)]
  let ?B = "nio_Buffer ops b" and ?S = "nio_Start ops b" and ?E = "nio_End ops b" and ?G = "nio_Buffer ops (grpcFrame ops b)"
  let ?h = "0 # put_uint32 (word_of_nat (nio_Len ops b))"
  have l: "?S \<le> length ?B" "length (take (?S - 5) ?B) = ?S - 5" "?E - (?S - 5) = length ?h + nio_Len ops b" "?E = ?S - 5 + (length ?h + nio_Len ops b)"
    using assms(2-5) by simp_all
  have G: "?G = take (?S - 5) ?B @ ?h @ drop ?S ?B" using g(1) [OF l(1)] by simp
  have "drop (?S - 5) ?G = ?h @ drop ?S ?B" using l(2) unfolding G by (metis append_eq_conv_conj)
  moreover have "drop ?E ?G = drop (length ?h + nio_Len ops b) (drop (?S - 5) ?G)" by (subst l(4)) (simp add: add.commute)
  ultimately have "take (?E - (?S - 5)) (drop (?S - 5) ?G) = ?h @ take (nio_Len ops b) (drop ?S ?B)" "drop ?E ?G = drop (nio_Len ops b) (drop ?S ?B)"
    using append_parts [of ?h "nio_Len ops b" "drop ?S ?B"] unfolding l(3) by (simp_all only:)
  moreover have "drop (nio_Len ops b) (drop ?S ?B) = drop ?E ?B" using assms(3,5) by simp
  moreover have "\<not> (?S < 5 \<or> ?E < ?S - 5 \<or> length ?G < ?E)" using assms(2-5) by (auto simp: G)
  ultimately show ?thesis using g(2,3) [OF l(1)] by (simp add: stream_Send_def Let_def)
qed

section \<open>A stream as a context\<close>

text \<open>\<open>r\<close>: the error that the receive buffer recorded. A nil channel is never ready.\<close>

datatype stream_err = ErrCanceled | ErrStream h2_error

definition Err :: "h2_error option \<Rightarrow> H2Stream \<Rightarrow> stream_err option" where
  "Err r s =
     (if s_done s = Some True then Some ErrCanceled
      else if s_Error s \<noteq> None then map_option ErrStream (s_Error s)
      else if inFrameList s \<noteq> None \<and> r \<noteq> Some ErrEOF then map_option ErrStream r
      else None)"

text \<open>The values of a stream (a nil map is \<open>None\<close>), over the values \<open>ctx\<close> of its context. A key is a string or not.\<close>

definition SetValue :: "string \<Rightarrow> 'v \<Rightarrow> (string \<rightharpoonup> 'v) option \<Rightarrow> (string \<rightharpoonup> 'v) option" where
  "SetValue key val userValues = Some ((case userValues of None \<Rightarrow> Map.empty | Some m \<Rightarrow> m)(key \<mapsto> val))"

definition ctx_Value :: "(string + 'k \<Rightarrow> 'v option) \<Rightarrow> string + 'k \<Rightarrow> (string \<rightharpoonup> 'v) option \<Rightarrow> 'v option" where
  "ctx_Value ctx key userValues =
     (case (key, userValues) of (Inl k, Some m) \<Rightarrow> m k | _ \<Rightarrow> ctx key)"

text \<open>
  A value that was set is found, and the others stay; but once a value is set, the values of the context
  are hidden for every string.
\<close>

lemma values_after_set:
  "ctx_Value ctx (Inl k) (SetValue key v m) = (if k = key then Some v else case m of None \<Rightarrow> None | Some m \<Rightarrow> ctx_Value ctx (Inl k) (Some m))"
  "ctx_Value ctx (Inr j) (SetValue key v m) = ctx (Inr j)"
  by (auto simp: ctx_Value_def SetValue_def split: option.splits)

end
