(* ===== verification/Handler_Frame.thy ===== *)
theory Handler_Frame
  imports Transport_Rules Stream_Access
begin

text \<open>
  What the methods of a connection leave alone. A step is plain if it does not touch the registration of streams,
  their identifiers, the marks of closed streams, and the quota for streams; most handlers are. The others close
  streams or the connection: they are in every relation that holds of plain steps and of those two operations.
\<close>

text \<open>The registered streams; there are none any more after \<^verbatim>\<open>Close\<close>.\<close>

definition streams_of :: "H2Transport \<Rightarrow> (u32 \<times> addr) list" where
  "streams_of t = (case t_activeStreams t of None \<Rightarrow> [] | Some m \<Rightarrow> m)"

section \<open>Plain steps\<close>

definition plain :: "H2Transport \<Rightarrow> H2Transport \<Rightarrow> bool" where
  "plain t t' \<longleftrightarrow> t_activeStreams t' = t_activeStreams t \<and> t_maxStreamID t' = t_maxStreamID t \<and> t_maxStreams t' = t_maxStreams t \<and>
     t_side t' = t_side t \<and> t_fresh t' = t_fresh t \<and> t_closures t' = t_closures t \<and> t_nextID t' = t_nextID t \<and>
     t_streamQuota t' = t_streamQuota t \<and> t_maxConcurrentStreams t' = t_maxConcurrentStreams t \<and> t_cbLocked t' = t_cbLocked t \<and>
     cb_err (t_cb t') = cb_err (t_cb t) \<and>
     (\<forall>a. MuxID (t_streams t' a) = MuxID (t_streams t a) \<and> streamDone (t_streams t' a) = streamDone (t_streams t a) \<and>
        s_done (t_streams t' a) = s_done (t_streams t a) \<and> headerChan (t_streams t' a) = headerChan (t_streams t a) \<and>
        (headerChanClosed (t_streams t a) \<longrightarrow> headerChanClosed (t_streams t' a)))"

text \<open>A change of a stream that is plain.\<close>

definition plain_stream :: "H2Stream \<Rightarrow> H2Stream \<Rightarrow> bool" where
  "plain_stream s s' \<longleftrightarrow> MuxID s' = MuxID s \<and> streamDone s' = streamDone s \<and> s_done s' = s_done s \<and> headerChan s' = headerChan s \<and>
     (headerChanClosed s \<longrightarrow> headerChanClosed s')"

lemma plain_refl [simp]: "plain t t"
  by (simp add: plain_def)

lemma plain_trans: "plain t u \<Longrightarrow> plain u v \<Longrightarrow> plain t v"
  by (simp add: plain_def)

lemma plain_set: "plain_stream (t_streams t a) (f (t_streams t a)) \<Longrightarrow> plain t (set_stream a f t)"
  by (simp add: plain_def plain_stream_def set_stream_def)

lemma plain_stream_upd [simp]:
  "plain_stream s s" "plain_stream s (s\<lparr>s_inFlow := f\<rparr>)" "plain_stream s (s\<lparr>unprocessed := b\<rparr>)" "plain_stream s (s\<lparr>headerSent := b\<rparr>)"
  "plain_stream s (s\<lparr>rsp_Status := x\<rparr>)" "plain_stream s (s\<lparr>SentPackets := n\<rparr>)" "plain_stream s (setWriteClosed s)"
  "plain_stream s (setReadClosed m e s)" "plain_stream s (queueReadBuf msg s)" "plain_stream s (s\<lparr>headerChanClosed := True\<rparr>)"
  by (simp_all add: plain_stream_def setWriteClosed_def setReadClosed_def queueReadBuf_def Let_def)

lemma plain_stream_trans: "plain_stream s u \<Longrightarrow> plain_stream u v \<Longrightarrow> plain_stream s v"
  by (simp add: plain_stream_def)

lemma plain_call [intro, simp]: "plain t (t_call c t)"
  by (simp add: plain_def t_call_def)

lemma plain_upd [simp]:
  "plain t (t\<lparr>t_fc := f\<rparr>)" "plain t (t\<lparr>t_bdp := d\<rparr>)" "plain t (t\<lparr>msgRecv := n\<rparr>)" "plain t (t\<lparr>streamsStarted := n\<rparr>)" "plain t (t\<lparr>t_FrameSize := w\<rparr>)"
  "plain t (t\<lparr>t_maxSendHeaderListSize := h\<rparr>)" "plain t (t\<lparr>t_drainChan := dc\<rparr>)" "plain t (t\<lparr>t_resetPingStrikes := b\<rparr>)"
  "plain t (t\<lparr>t_pingStrikes := k\<rparr>)" "plain t (t\<lparr>t_lastPingAt := n\<rparr>)" "plain t (t\<lparr>t_initialWindowSize := w\<rparr>)"
  "plain t (t\<lparr>t_bdp := d, t_fc := f\<rparr>)" "plain t (t\<lparr>t_resetPingStrikes := b, t_pingStrikes := k, t_lastPingAt := n\<rparr>)"
  by (simp_all add: plain_def)

lemma plain_do:
  assumes "plain t (fst r)" "\<And>u. plain t u \<Longrightarrow> plain u (fst (k u))"
  shows "plain t (fst (and_do r k))"
  using assms by (cases "(r, k)" rule: and_do.cases) (auto intro: plain_trans)

text \<open>A put runs the callback, if the buffer is open, and changes the buffer.\<close>

lemma execPut_state:
  obtains c where "fst (t_execPut f item t) = t\<lparr>t_cb := c\<rparr>" "cb_err c = cb_err (t_cb t)"
  | g c where "f = Some g" "cb_err (t_cb t) = None" "\<not> t_cbLocked t" "fst (t_execPut f item t) = (fst (g item t))\<lparr>t_cb := c\<rparr>" "cb_err c = None"
proof -
  show ?thesis
  proof (cases "t_cbLocked t")
    case True
    then show ?thesis using that(1) [of "t_cb t"] by (simp add: t_execPut_def)
  next
    case False
    show ?thesis
    proof (cases "cb_err (t_cb t) = None \<and> f \<noteq> None")
      case True
      then obtain g where g: "f = Some g" by blast
      obtain t1 ok where "g item t = (t1, ok)" by fastforce
      with g True False that(2) [of g] show ?thesis by (cases ok) (auto simp: t_execPut_def executeAndPut_def Let_def)
    next
      case F: False
      show ?thesis
      proof (cases "cb_err (t_cb t)")
        case None
        with F have "f = None" by blast
        with None that(1) False show ?thesis by (auto simp: t_execPut_def executeAndPut_def Let_def)
      next
        case (Some e)
        with that(1) [of "t_cb t"] False show ?thesis by (simp add: t_execPut_def executeAndPut_def)
      qed
    qed
  qed
qed

lemma plain_cb: "cb_err c = cb_err (t_cb t) \<Longrightarrow> plain t (t\<lparr>t_cb := c\<rparr>)"
  by (simp add: plain_def)

lemma plain_execPut:
  assumes "\<And>g. f = Some g \<Longrightarrow> plain t (fst (g item t)) \<and> t_cb (fst (g item t)) = t_cb t"
  shows "plain t (fst (t_execPut f item t))"
proof (cases rule: execPut_state [of f item t])
  case (2 g c)
  have "plain (fst (g item t)) ((fst (g item t))\<lparr>t_cb := c\<rparr>)" using assms [OF 2(1)] 2 by (intro plain_cb) simp
  then show ?thesis using assms [OF 2(1)] 2(4) plain_trans by metis
qed (simp add: plain_cb)

lemma plain_put [intro, simp]: "plain t (fst (t_put item t))"
  using plain_execPut [of None t item] by (auto simp: t_put_def split: prod.splits sum.splits)

lemma plain_put2: "plain t u \<Longrightarrow> plain t (fst (t_put i u))"
  by (rule plain_trans [OF _ plain_put])

lemma plain_put_if: "plain t u \<Longrightarrow> plain t (fst (if b then t_put i u else (u, None)))"
  by (auto intro: plain_trans)

section \<open>Handlers that are plain\<close>

lemma plain_connData [simp]: "plain t (fst (connData sz t))"
proof -
  obtain b p where b: "(case t_bdp t of None \<Rightarrow> (None, False) | Some e \<Rightarrow> map_prod Some id (bdp_add sz e)) = (b, p)" by fastforce
  obtain fc w where f: "tr_onData sz (t_fc t) = (fc, w)" by fastforce
  have "plain u (fst (if p then
             let (fc2, w2) = tr_reset (t_fc u);
                 t3 = u\<lparr>t_fc := fc2\<rparr>
             in and_do (if w2 > 0 then t_put (OutgoingWindowUpdate 0 w2) t3 else (t3, None)) (t_put (PingItem False bdpPing))
           else (u, None)))" for u
  proof -
    obtain fc2 w2 where r: "tr_reset (t_fc u) = (fc2, w2)" by fastforce
    have "plain u (fst (and_do (if w2 > 0 then t_put (OutgoingWindowUpdate 0 w2) (u\<lparr>t_fc := fc2\<rparr>) else (u\<lparr>t_fc := fc2\<rparr>, None))
        (t_put (PingItem False bdpPing))))" by (intro plain_do plain_put_if plain_upd) auto
    then show ?thesis by (simp add: r Let_def)
  qed
  then show ?thesis
    unfolding connData_def b f Let_def prod.case by (intro plain_do plain_put_if) auto
qed

lemma plain_UpdateWindow [simp]: "plain t (fst (UpdateWindow a n t))"
  unfolding UpdateWindow_def Let_def by (auto split: prod.splits intro: plain_trans [OF plain_set plain_put] plain_set)

lemma plain_adjustWindow [simp]: "plain t (fst (adjustWindow a n t))"
  unfolding adjustWindow_def Let_def by (auto split: prod.splits intro: plain_trans [OF plain_set plain_put] plain_set)

lemma plain_reads [simp]: "plain t (fst (fst (RecvRaw r a t)))" "plain t (fst (fst (Read q a t)))"
  by (simp_all add: RecvRaw_def Read_def split: option.splits prod.splits)

lemma plain_deliver [simp]: "plain t (deliver a d t)"
  by (auto simp: deliver_def queueReadBuf_def plain_stream_def intro!: plain_set)

lemma plain_endStream [simp]: "plain t (endStream fh a t)"
  by (auto simp: endStream_def intro: plain_set)

lemma plain_handleRSTStream [simp]: "plain t (fst (handleRSTStream sid code t))"
proof -
  have "plain_stream s ((setReadClosed 2 ErrStreamRST s)\<lparr>headerChanClosed := True\<rparr>)" for s by (rule plain_stream_trans [of _ "setReadClosed 2 ErrStreamRST s"]) simp_all
  then have "plain u (set_stream a (\<lambda>s. (setReadClosed 2 ErrStreamRST s)\<lparr>headerChanClosed := True\<rparr>) u)" for u a by (rule plain_set)
  moreover have "plain u (set_stream a (\<lambda>s. s\<lparr>unprocessed := True\<rparr>) u)" for u a by (rule plain_set) simp
  ultimately have "plain u (set_stream a (\<lambda>s. (setReadClosed 2 ErrStreamRST s)\<lparr>headerChanClosed := True\<rparr>) u) \<and>
      plain u (set_stream a (\<lambda>s. (setReadClosed 2 ErrStreamRST s)\<lparr>headerChanClosed := True\<rparr>) (set_stream a (\<lambda>s. s\<lparr>unprocessed := True\<rparr>) u))" for u a
    by (blast intro: plain_trans)
  then show ?thesis by (auto simp: handleRSTStream_def Let_def split: option.splits)
qed

lemma plain_handleWindowUpdate [simp]: "plain t (fst (handleWindowUpdate sid n t))"
  by (simp add: handleWindowUpdate_def)

lemma plain_refuseStream [simp]: "plain t (fst (refuseStream sid code t))"
  by (simp add: refuseStream_def)

lemma plain_responseField: "plain_stream s (fold (responseField b) fs s)"
proof (induction fs arbitrary: s)
  case (Cons f fs)
  have "plain_stream s (responseField b f s)" by (simp add: responseField_def plain_stream_def Let_def split: option.splits)
  from plain_stream_trans [OF this Cons.IH] show ?case by simp
qed simp

lemma plain_handleSettings [simp]: "plain t (fst (handleSettings ack p t))"
proof (cases ack)
  case False
  let ?r = "readSettings True p t"
  let ?u = "t\<lparr>t_FrameSize := sr_FrameSize ?r\<rparr>"
  obtain t1 x where x: "t_execPut (Some (\<lambda>item t. (applyHeaderList (sr_headerList ?r) t, True))) (IncomingSettings (sr_ss ?r)) ?u = (t1, x)"
    by fastforce
  have "plain ?u t1"
    using plain_execPut [of "Some (\<lambda>item t. (applyHeaderList (sr_headerList ?r) t, True))" ?u "IncomingSettings (sr_ss ?r)"] x
    by (simp add: applyHeaderList_def)
  then have "plain t t1" by (rule plain_trans [OF plain_upd(5)])
  then show ?thesis using False x plain_trans [OF _ plain_call] by (cases x) (simp_all add: handleSettings_def Let_def)
qed (simp add: handleSettings_def)

lemma plain_newLimits: "plain t u \<Longrightarrow> plain t (newLimits n as u)"
proof (induction as arbitrary: u)
  case (Cons a as)
  have "plain u (set_stream a (\<lambda>s. s\<lparr>s_inFlow := in_newLimit n (s_inFlow s)\<rparr>) u)" by (rule plain_set) simp
  from Cons.IH [OF plain_trans [OF Cons.prems this]] show ?case by simp
qed simp

lemma plain_updateFlowControl [simp]: "plain t (fst (updateFlowControl n t))"
proof -
  have k: "plain t ((newLimits n as t)\<lparr>t_initialWindowSize := n, t_fc := fc\<rparr>)" for as fc
    using plain_newLimits [of t t n as] by (simp add: plain_def)
  show ?thesis unfolding updateFlowControl_def Let_def
    by (auto split: prod.splits intro!: plain_do plain_put2 [OF k])
qed

lemma plain_bdp_ping: "plain t (fst (updateFlowControl n (t\<lparr>t_bdp := b\<rparr>)))"
  by (rule plain_trans [OF plain_upd(2) plain_updateFlowControl])

lemma plain_handlePing [simp]: "plain t (fst (handlePing fl now ack d t))"
proof (cases ack)
  case True
  then show ?thesis using plain_bdp_ping by (auto simp: handlePing_def Let_def split: option.splits prod.splits)
next
  case False
  have p: "plain u (pingStrike now u)" for u by (simp add: pingStrike_def Let_def)
  have "plain u (fst (and_do (if b then t_put i (pingStrike now u) else (pingStrike now u, None)) (\<lambda>v. (v\<lparr>t_lastPingAt := now\<rparr>, None))))" for u b i
    by (rule plain_do [OF plain_put_if [OF p]]) simp
  then have "plain u (fst (if t_resetPingStrikes u then (u\<lparr>t_resetPingStrikes := False, t_pingStrikes := 0, t_lastPingAt := now\<rparr>, None)
      else and_do (if b then t_put i (pingStrike now u) else (pingStrike now u, None)) (\<lambda>v. (v\<lparr>t_lastPingAt := now\<rparr>, None))))" for u b i
    by simp
  then show ?thesis unfolding handlePing_def Let_def using False plain_do [OF plain_put] by simp
qed

lemma plain_putData [simp]: "plain t (fst (putData a got df t))"
  using plain_execPut [of None t "DataItem df"] by (auto simp: putData_def split: prod.splits sum.splits)

lemma plain_Drain [simp]: "plain t (fst (Drain t))"
  by (auto simp: Drain_def intro: plain_trans [OF plain_upd(7) plain_put])

section \<open>Handlers that close streams\<close>

text \<open>
  The contract: \<open>R\<close> relates the states before and after a step, \<open>I\<close> is an invariant, and \<open>V\<close> says which
  addresses may be closed; the registered streams may be.
\<close>

locale handlers =
  fixes I :: "H2Transport \<Rightarrow> bool"
    and V :: "H2Transport \<Rightarrow> addr \<Rightarrow> bool"
    and R :: "H2Transport \<Rightarrow> H2Transport \<Rightarrow> bool"
  assumes R_plain: "plain t u \<Longrightarrow> R t u"
    and R_trans: "R t u \<Longrightarrow> R u v \<Longrightarrow> R t v"
    and I_kept: "R t u \<Longrightarrow> I t \<Longrightarrow> I u"
    and V_kept: "R t u \<Longrightarrow> V t a \<Longrightarrow> V u a"
    and V_active: "I t \<Longrightarrow> getStream sid t = Some a \<Longrightarrow> V t a"
    and R_close: "I t \<Longrightarrow> V t a \<Longrightarrow> R t (fst (closeStream a err rs code t))"
    and R_Close: "I t \<Longrightarrow> R t (fst (t_Close ord err t))"
begin

lemma R_refl [simp]: "R t t"
  by (simp add: R_plain)

lemma R_do:
  assumes "I t" "R t (fst r)" "\<And>u. I u \<Longrightarrow> R t u \<Longrightarrow> R u (fst (k u))"
  shows "R t (fst (and_do r k))"
  using assms I_kept by (cases "(r, k)" rule: and_do.cases) (auto intro: R_trans)

lemma R_then:
  assumes "I t" "R t (fst r)" "\<And>u. I u \<Longrightarrow> R t u \<Longrightarrow> R u (fst (k u))"
  shows "R t (fst (then_send r k))"
  using assms I_kept by (cases "(r, k)" rule: then_send.cases) (auto intro: R_trans)

text \<open>A plain step first, then one that is in the relation.\<close>

lemma R_after:
  assumes "I t" "plain t u" "I u \<Longrightarrow> R t u \<Longrightarrow> R u v"
  shows "R t v"
  using assms by (meson I_kept R_plain R_trans)

lemma R_close_after: "I t \<Longrightarrow> V t a \<Longrightarrow> plain t u \<Longrightarrow> R t (fst (closeStream a err rs code u))"
  by (blast intro: R_after R_close V_kept)

lemma R_streamData: "I t \<Longrightarrow> V t a \<Longrightarrow> R t (fst (streamData a fh d t))"
proof -
  assume t: "I t" "V t a"
  have s: "plain t (set_stream a (\<lambda>s. s\<lparr>s_inFlow := f\<rparr>) t)" for f by (rule plain_set) simp
  then have "plain t (fst (and_do (if b then UpdateWindow a n (set_stream a (\<lambda>s. s\<lparr>s_inFlow := f\<rparr>) t) else (set_stream a (\<lambda>s. s\<lparr>s_inFlow := f\<rparr>) t, None))
      (\<lambda>t2. (deliver a d t2, None))))" for b n f
    using plain_trans [OF s plain_UpdateWindow] by (intro plain_do) auto
  from R_plain [OF this] show ?thesis using R_close_after [OF t s]
    by (cases "in_onData (Length fh) (s_inFlow (t_streams t a))") (simp add: streamData_def Let_def del: and_do.simps)
qed

lemma R_handleData: "I t \<Longrightarrow> R t (fst (handleData fh d t))"
proof -
  assume t: "I t"
  have "R u (fst (case getStream (StreamID fh) u of
         None \<Rightarrow> (u, None)
       | Some a \<Rightarrow>
           if readClosed (t_streams u a) = 2 then closeStream a (Some ErrStreamDone) True ErrCodeStreamClosed u
           else if Length fh > 0 then
             (let refused = snd (in_onData (Length fh) (s_inFlow (t_streams u a))) \<noteq> None
              in and_do (streamData a fh d u) (\<lambda>t2. (if refused then t2 else endStream fh a t2, None)))
           else (endStream fh a u, None)))" if "I u" for u
    using that V_active [OF that] R_close R_streamData [OF that] R_plain [OF plain_endStream]
    by (auto simp: Let_def split: option.splits intro!: R_do)
  then show ?thesis unfolding handleData_def by (rule R_do [OF t R_plain [OF plain_connData]])
qed

lemma R_operateResponseHeaders: "I t \<Longrightarrow> R t (fst (operateResponseHeaders fh flds tr t))"
proof -
  assume t: "I t"
  have s: "plain u (set_stream a (fold (responseField b) flds) u)" "plain u (set_stream a (\<lambda>s. s\<lparr>headerChanClosed := True\<rparr>) u)"
    "plain u (set_stream a (\<lambda>s. queueReadBuf (RecvErr ErrEOF) (setReadClosed 1 ErrEOF s)) u)" for u a b
    using plain_stream_trans [OF plain_stream_upd(8) plain_stream_upd(9)] by (auto intro!: plain_set plain_responseField)
  have "plain t (set_stream a (\<lambda>s. s\<lparr>headerChanClosed := True\<rparr>) (set_stream a (fold (responseField b) flds) t))" for a b
    by (rule plain_trans [OF s(1) s(2)])
  moreover from this have "plain t (set_stream a (\<lambda>s. queueReadBuf (RecvErr ErrEOF) (setReadClosed 1 ErrEOF s))
      (set_stream a (\<lambda>s. s\<lparr>headerChanClosed := True\<rparr>) (set_stream a (fold (responseField b) flds) t)))" for a b
    by (rule plain_trans [OF _ s(3)])
  ultimately show ?thesis
    using s(1) V_active [OF t] R_close [OF t] unfolding operateResponseHeaders_def Let_def by (auto split: option.splits intro!: R_plain)
qed

text \<open>The loop around the handlers.\<close>

lemma R_reading: "R t (fst r) \<Longrightarrow> R t (fst (reading r))" "R t (fst r) \<Longrightarrow> R t (fst (returned r))"
  by (cases r rule: reading.cases; simp)+

lemma R_frameError: "I t \<Longrightarrow> R t (fst (frameError ord e t))"
  using V_active [of t] R_close [of t] R_Close [of t]
  by (auto simp: frameError_def R_plain split: frame_error.splits option.splits intro!: R_reading)

lemma R_clientFrameError: "I t \<Longrightarrow> R t (fst (clientFrameError ord e t))"
  using V_active [of t] R_close [of t] R_Close [of t]
  by (auto simp: clientFrameError_def split: frame_error.splits option.splits intro!: R_reading)

text \<open>Calls of the application.\<close>

lemma R_refused: "I t \<Longrightarrow> V t a \<Longrightarrow> plain t u \<Longrightarrow> R t (fst (refusedHeaderList a u))"
  using R_close_after [of t a u None True ErrCodeInternal] by (auto simp: refusedHeaderList_def split: prod.splits option.splits)

lemma R_writeResponseHeaders: "I t \<Longrightarrow> V t a \<Longrightarrow> R t (fst (writeResponseHeaders a t))"
proof -
  assume t: "I t" "V t a"
  obtain t1 x where x: "t_execPut (Some (\<lambda>item t. (t, checkForHeaderListSize (responseFields (t_streams t a)) t))) (responseItem a t) t = (t1, x)"
    by fastforce
  have "plain t t1"
    using plain_execPut [of "Some (\<lambda>item t. (t, checkForHeaderListSize (responseFields (t_streams t a)) t))" t "responseItem a t"] x by simp
  then show ?thesis using R_refused [OF t, of t1] R_plain by (simp add: writeResponseHeaders_def x split: sum.splits bool.splits)
qed

lemma R_t_WriteHeader: "I t \<Longrightarrow> V t a \<Longrightarrow> R t (fst (t_WriteHeader a t))"
proof -
  assume t: "I t" "V t a"
  have p: "plain t (set_stream a (\<lambda>_. (t_streams t a)\<lparr>headerSent := True\<rparr>) t)" by (rule plain_set) simp
  then have "R t (fst (writeResponseHeaders a (set_stream a (\<lambda>_. (t_streams t a)\<lparr>headerSent := True\<rparr>) t)))"
    using R_after [OF t(1) p] R_writeResponseHeaders V_kept t(2) by blast
  then show ?thesis using R_plain [OF p] by (simp add: t_WriteHeader_def updateHeaderSent_def Let_def)
qed

lemma R_WriteHeader: "I t \<Longrightarrow> V t a \<Longrightarrow> R t (fst (WriteHeader a code t))"
proof -
  assume t: "I t" "V t a"
  have p: "plain t (set_stream a (\<lambda>s. s\<lparr>rsp_Status := x\<rparr>) t)" for x by (rule plain_set) simp
  have "R t (fst (t_WriteHeader a (set_stream a (\<lambda>s. s\<lparr>rsp_Status := x\<rparr>) t)))" for x
    using R_after [OF t(1) p] R_t_WriteHeader V_kept t(2) by blast
  then show ?thesis using R_plain [OF p] by (auto simp: WriteHeader_def Let_def)
qed

lemma R_writeTrailer: "I t \<Longrightarrow> V t a \<Longrightarrow> R t (fst (writeTrailer a t))"
proof -
  assume t: "I t" "V t a"
  have p: "plain t (set_stream a setWriteClosed t)" by (rule plain_set) simp
  then show ?thesis
    using R_refused [OF t p] R_plain [OF p] R_plain [OF plain_put2 [OF p]]
    by (auto simp: writeTrailer_def cb_execute_def Let_def split: option.splits prod.splits bool.splits)
      (metis fst_conv)+
qed

lemma R_openForData: "I t \<Longrightarrow> V t a \<Longrightarrow> R t (fst (openForData a fin t))"
  unfolding openForData_def using R_t_WriteHeader R_plain [OF plain_set [of _ a setWriteClosed]] by (intro R_then) auto

lemma R_Send: "I t \<Longrightarrow> V t a \<Longrightarrow> R t (fst (Send got a b spare start stop fin t))"
proof -
  assume t: "I t" "V t a"
  have "plain u (set_stream a (\<lambda>s. s\<lparr>SentPackets := SentPackets s + 1\<rparr>) u)" for u by (rule plain_set) simp
  then have "R u (fst (then_send (putData a g df (set_stream a (\<lambda>s. s\<lparr>SentPackets := SentPackets s + 1\<rparr>) u)) (\<lambda>v. (v, e v))))" if "I u" for u g df e
    by (intro R_then) (auto intro: R_plain plain_trans [OF _ plain_putData] that)
  then show ?thesis unfolding Send_def Let_def by (rule R_then [OF t(1) R_openForData [OF t]])
qed

lemma R_Write: "I t \<Longrightarrow> V t a \<Longrightarrow> R t (fst (t_Write got a b spare fin t))"
  unfolding t_Write_def by (rule R_then) (auto intro: R_openForData R_plain)

lemma R_CloseWrite: "I t \<Longrightarrow> V t a \<Longrightarrow> R t (fst (CloseWrite a t))"
proof -
  assume t: "I t" "V t a"
  let ?u = "set_stream a (\<lambda>_. (t_streams t a)\<lparr>headerSent := True\<rparr>) t"
  have p: "plain t ?u" by (rule plain_set) simp
  note u = I_kept [OF R_plain [OF p] t(1)] V_kept [OF R_plain [OF p] t(2)]
  have "R ?u (fst (then_send (if b then (?u, Inr None) else writeResponseHeaders a ?u)
      (\<lambda>v. if rsp_Trailer (t_streams v a) \<noteq> [] then writeTrailer a v else t_Write True a None [] True v)))" for b
    using R_writeResponseHeaders [OF u] R_writeTrailer R_Write V_kept u by (intro R_then) auto
  then show ?thesis
    unfolding CloseWrite_def updateHeaderSent_def Let_def prod.case using R_trans [OF R_plain [OF p]] by blast
qed

lemma R_stream_Close: "I t \<Longrightarrow> V t a \<Longrightarrow> R t (fst (stream_Close a t))"
proof -
  assume t: "I t" "V t a"
  have "R t (fst (case CloseWrite a t of (t1, Inl f) \<Rightarrow> (t1, Some f) | (t1, Inr x) \<Rightarrow> (t1, None)))"
    using R_CloseWrite [OF t] by (auto split: prod.splits sum.splits)
  moreover have p: "plain u (set_stream a (setReadClosed 2 ErrStreamRST) u)" for u by (rule plain_set) simp
  moreover have "R u (let t4 = (if readClosed (t_streams u a) = 0 then set_stream a (setReadClosed 2 ErrStreamRST) u else u)
       in if s_cancel (t_streams t4 a) then t_call (CallCancel a) t4 else t4)" for u
    using R_plain [OF p] R_plain [OF plain_trans [OF p plain_call]] R_plain [OF plain_call] by (auto simp: Let_def)
  ultimately show ?thesis
    unfolding stream_Close_def Let_def using R_close V_kept t by (intro R_do) auto
qed

end

section \<open>Registered streams\<close>

text \<open>A step that registers no stream; it may drop all of them.\<close>

definition kept :: "H2Transport \<Rightarrow> H2Transport \<Rightarrow> bool" where
  "kept t t' \<longleftrightarrow> t_activeStreams t' \<in> {t_activeStreams t, None} \<and> t_maxStreamID t' = t_maxStreamID t \<and> t_maxStreams t' = t_maxStreams t \<and>
     t_side t' = t_side t \<and> t_fresh t' = t_fresh t \<and> (\<forall>a. MuxID (t_streams t' a) = MuxID (t_streams t a))"

lemma kept_refl [simp]: "kept t t"
  by (simp add: kept_def)

lemma kept_trans: "kept t u \<Longrightarrow> kept u v \<Longrightarrow> kept t v"
  by (auto simp: kept_def)

lemma plain_kept: "plain t u \<Longrightarrow> kept t u"
  by (simp add: plain_def kept_def)

lemma kept_put [intro, simp]: "kept t (fst (t_put item t))"
  by (simp add: plain_kept)

lemma kept_put2: "kept t u \<Longrightarrow> kept t (fst (t_put i u))"
  by (rule kept_trans [OF _ kept_put])

lemma kept_set [intro]: "(\<And>s. MuxID (f s) = MuxID s) \<Longrightarrow> kept t (set_stream a f t)"
  by (simp add: kept_def set_stream_def)

lemma kept_call [intro, simp]: "kept t (t_call c t)"
  by (simp add: kept_def t_call_def)

lemma kept_do:
  assumes "kept t (fst r)" "\<And>u. kept t u \<Longrightarrow> kept u (fst (k u))"
  shows "kept t (fst (and_do r k))"
  using assms by (cases "(r, k)" rule: and_do.cases) (auto intro: kept_trans)

lemma kept_execPut:
  assumes "\<And>g. f = Some g \<Longrightarrow> kept t (fst (g item t))"
  shows "kept t (fst (t_execPut f item t))"
  using assms by (auto simp: t_execPut_def executeAndPut_def kept_def Let_def split: option.splits prod.splits if_splits)


lemma kept_closeStream [intro, simp]: "kept t (fst (closeStream a err rs code t))"
proof -
  let ?u = "set_stream a (markDone err) t"
  have "kept t ?u" by auto
  moreover have "kept ?u (fst (t_execPut (Some addBackStreamQuota) i ?u))" for i
    by (intro kept_execPut) (auto simp: addBackStreamQuota_def kept_def Let_def)
  moreover have "kept v (releaseStream a err v)" for v by (auto simp: kept_def releaseStream_def t_call_def set_stream_def Let_def)
  ultimately show ?thesis
    unfolding closeStream_def Let_def by (auto split: prod.splits sum.splits intro: kept_trans) (metis fst_conv kept_trans)+
qed

lemma kept_closeAll [intro, simp]: "kept t (fst (closeAll as err rs code t))"
  by (induction as arbitrary: t) (auto intro: kept_do)

lemma kept_orphanAll [intro, simp]: "kept t (fst (orphanAll hs t))"
proof (induction hs arbitrary: t)
  case (Cons h hs)
  have "kept t (fst (orphanedRequest e a t))" for a e
    unfolding orphanedRequest_def by (rule kept_trans [OF _ kept_closeStream]) auto
  with Cons.IH show ?case by (auto split: option.splits intro: kept_do)
qed simp

lemma kept_upd:
  "kept t (t\<lparr>t_cb := c\<rparr>)" "kept t (t\<lparr>t_cbLocked := b\<rparr>)" "kept t (t\<lparr>t_closed := b\<rparr>)" "kept t (t\<lparr>t_Error := e\<rparr>)" "kept t (t\<lparr>t_activeStreams := None\<rparr>)"
  "kept t (t\<lparr>t_ctxDone := b\<rparr>)" "kept t (t\<lparr>t_done := b\<rparr>)" "kept t (t\<lparr>t_fc := f\<rparr>)" "kept t (t\<lparr>t_bdp := d\<rparr>)" "kept t (t\<lparr>msgRecv := n\<rparr>)"
  "kept t (t\<lparr>streamsStarted := n\<rparr>)" "kept t (t\<lparr>t_FrameSize := w\<rparr>)" "kept t (t\<lparr>t_maxSendHeaderListSize := h\<rparr>)" "kept t (t\<lparr>t_drainChan := dc\<rparr>)"
  "kept t (t\<lparr>t_resetPingStrikes := b\<rparr>)" "kept t (t\<lparr>t_pingStrikes := k\<rparr>)" "kept t (t\<lparr>t_lastPingAt := n\<rparr>)" "kept t (t\<lparr>t_initialWindowSize := w\<rparr>)"
  by (simp_all add: kept_def)

lemma kept_finish [intro, simp]: "kept t (fst (t_finish t))"
  unfolding t_finish_def Let_def
  by (auto split: prod.splits simp: kept_upd intro!: kept_do intro: kept_trans [OF _ kept_orphanAll] kept_trans [OF kept_upd(1) kept_upd(2)])

lemma kept_Close [intro, simp]: "kept t (fst (t_Close ord err t))"
proof -
  have "kept t ((t_call (EvMux Event_ConnClose) (if t_Error t = None then t\<lparr>t_closed := True, t_Error := err\<rparr> else t\<lparr>t_closed := True\<rparr>))
      \<lparr>t_activeStreams := None\<rparr>)" by (simp add: kept_def t_call_def)
  moreover have "kept u (fst (closeAll as e rs code (t_call CloseConn (u\<lparr>t_ctxDone := x, t_done := y, t_cb := c\<rparr>))))" for u as e rs code x y c
    by (rule kept_trans [OF _ kept_closeAll]) (simp add: kept_def t_call_def)
  ultimately show ?thesis
    unfolding t_Close_def Let_def by (auto intro!: kept_do intro: kept_trans [OF _ kept_finish] simp del: and_do.simps)
qed

text \<open>So the contract of the handlers holds.\<close>

interpretation kept: handlers "\<lambda>t. True" "\<lambda>t a. True" kept
  by unfold_locales (auto intro: plain_kept kept_trans)

lemmas kept_rules = kept.R_frameError kept.R_operateResponseHeaders kept.R_handleData kept.R_WriteHeader kept.R_Send kept.R_Write
  kept.R_CloseWrite kept.R_stream_Close

end
