(* ===== verification/Server_Invariant.thy ===== *)
theory Server_Invariant
  imports Server_Rules Handler_Frame
begin

text \<open>
  The streams that a server has registered, in every state that its goroutines can reach: the reader with
  any frames and errors, the application with its calls on streams, the writer with the callbacks of
  the cleanup, and a close of the connection, in any order.
\<close>

section \<open>The invariant\<close>

definition streams_wf :: "u32 \<Rightarrow> H2Transport \<Rightarrow> bool" where
  "streams_wf n t \<longleftrightarrow> t_side t = serverSide \<and> t_maxStreams t = n \<and> distinct (map fst (streams_of t)) \<and> distinct (map snd (streams_of t)) \<and> length (streams_of t) \<le> unat n \<and>
     (\<forall>(k, a) \<in> set (streams_of t). k mod 2 = 1 \<and> k \<le> t_maxStreamID t \<and> a < t_fresh t \<and> MuxID (t_streams t a) = k)"

lemma kept_wf: "kept t t' \<Longrightarrow> streams_wf n t \<Longrightarrow> streams_wf n t'"
  by (auto simp: kept_def streams_wf_def streams_of_def split: option.splits)

section \<open>Steps that register and drop streams\<close>

lemma streams_of_update:
  assumes "streams_wf n t" "\<forall>(k, a) \<in> set (streams_of t). k \<noteq> sid"
  shows "AList.update sid a (streams_of t) = streams_of t @ [(sid, a)]"
proof -
  have "sid \<notin> fst ` set m \<Longrightarrow> AList.update sid a m = m @ [(sid, a)]" for m :: "(u32 \<times> addr) list" by (induction m) auto
  moreover have "sid \<notin> fst ` set (streams_of t)" using assms(2) by auto
  ultimately show ?thesis by blast
qed

lemma wf_registerAccepted:
  assumes wf: "streams_wf n t" and sid: "sid mod 2 = 1" "t_maxStreamID t < sid"
    and s: "MuxID s = sid" "a = t_fresh t"
  shows "streams_wf n (fst (registerAccepted sid a (t\<lparr>t_maxStreamID := sid, t_streams := (t_streams t)(a := s), t_fresh := Suc a\<rparr>)))"
proof -
  let ?t = "t\<lparr>t_maxStreamID := sid, t_streams := (t_streams t)(a := s), t_fresh := Suc a\<rparr>"
  have reg: "streams_of ?t = streams_of t" by (simp add: streams_of_def)
  have old: "k mod 2 = 1" "k \<le> sid" "k \<noteq> sid" "b < t_fresh t" "MuxID (t_streams t b) = k" if "(k, b) \<in> set (streams_of t)" for k b
    using wf that sid(2) by (auto simp: streams_wf_def)
  have all: "\<forall>(k, b) \<in> set (streams_of t). k mod 2 = 1 \<and> k \<le> sid \<and> b < Suc a \<and> MuxID (((t_streams t)(a := s)) b) = k"
  proof clarify
    fix k b assume "(k, b) \<in> set (streams_of t)"
    from old [OF this] s(2) show "k mod 2 = 1 \<and> k \<le> sid \<and> b < Suc a \<and> MuxID (((t_streams t)(a := s)) b) = k" by simp
  qed
  have new: "sid \<notin> fst ` set (streams_of t)" "a \<notin> snd ` set (streams_of t)" using old(3,4) s(2) by force+
  have wf1: "streams_wf n ?t" using wf all unfolding streams_wf_def reg by simp
  show ?thesis
  proof (cases "t_closing t \<or> length (streams_of t) \<ge> unat (t_maxStreams t) \<or> t_activeStreams t = None")
    case True
    have "kept ?t (fst (registerAccepted sid a ?t))"
      using True wf
      by (auto simp: streams_wf_def registerAccepted_def streams_of_def refuseStream_def IsServer_def intro!: kept_do)
    then show ?thesis using wf1 by (rule kept_wf)
  next
    case False
    then obtain m where m: "t_activeStreams t = Some m" "\<not> t_closing t" "length m < unat (t_maxStreams t)" by (auto simp: streams_of_def)
    let ?m = "AList.update sid a m"
    have upd: "?m = m @ [(sid, a)]" using streams_of_update [OF wf, of sid a] old(3) m(1) by (auto simp: streams_of_def)
    let ?u = "if length ?m = 1 then ?t\<lparr>t_activeStreams := Some ?m, t_idle := None\<rparr> else ?t\<lparr>t_activeStreams := Some ?m\<rparr>"
    have "streams_of ?u = streams_of t @ [(sid, a)]" "t_maxStreams ?u = t_maxStreams t" "t_maxStreamID ?u = sid" "t_fresh ?u = Suc a"
      "t_streams ?u = (t_streams t)(a := s)" "length (streams_of t) < unat (t_maxStreams t)"
      using m upd by (simp_all add: streams_of_def)
    then have "streams_wf n ?u" using wf all new sid(1) s(1) by (simp add: streams_wf_def)
    moreover have "kept u (fst (and_do (t_put i (t_call (EvStream EventStreamStart a) u))
        (\<lambda>t3. if t_handle t3 then (t_call (CallHandle a) t3, None) else closeStream a None True 1 t3)))" for u i
      by (rule kept_do [OF kept_put2]) auto
    ultimately have "streams_wf n (fst (and_do (t_put i (t_call (EvStream EventStreamStart a) ?u))
        (\<lambda>t3. if t_handle t3 then (t_call (CallHandle a) t3, None) else closeStream a None True 1 t3)))" for i
      using kept_wf by blast
    moreover have "registerAccepted sid a ?t = and_do (t_put (RegisterStream sid (s_outFlow (t_streams ?u a))) (t_call (EvStream EventStreamStart a) ?u))
        (\<lambda>t3. if t_handle t3 then (t_call (CallHandle a) t3, None) else closeStream a None True 1 t3)"
      using m by (simp add: registerAccepted_def Let_def not_le)
    ultimately show ?thesis by simp
  qed
qed

lemma wf_deleteStream: "streams_wf n t \<Longrightarrow> streams_wf n (fst (deleteStream now ord a t))"
proof -
  assume wf: "streams_wf n t"
  show ?thesis
  proof (cases "t_activeStreams t")
    case (Some m)
    let ?m = "AList.delete (MuxID (t_streams t a)) m"
    have "distinct (map fst ?m)" "set ?m \<subseteq> set m" "length ?m \<le> length m" "distinct (map snd ?m)"
      using wf Some by (auto simp: streams_wf_def streams_of_def AList.delete_eq distinct_map_filter intro: length_filter_le)
    then have "streams_wf n (t\<lparr>t_activeStreams := Some ?m\<rparr>)" "streams_wf n (t\<lparr>t_activeStreams := Some ?m, t_idle := i\<rparr>)" for i
      using wf Some unfolding streams_wf_def streams_of_def by fastforce+
    with wf Some show ?thesis by (auto simp: deleteStream_def Let_def intro: kept_wf [OF kept_Close])
  qed (simp add: deleteStream_def wf)
qed

section \<open>Reachable states\<close>

text \<open>
  A server from its start. The reader handles a frame (\<open>frame\<close>) or an error of ReadFrame (\<open>bad\<close>), the
  application calls a method of a stream, the writer takes items from the queue (\<open>taken\<close>), notes that data
  or headers were written (\<open>wrote\<close>) and calls deleteStream; the connection is drained or closed. Each step is one
  method, whole; the server opens no streams of its own.
\<close>

inductive server_reach :: "float_ops \<Rightarrow> H2Config \<Rightarrow> H2Transport \<Rightarrow> bool" for fl cfg where
  start: "server_reach fl cfg ((newServerTransport now cfg st)\<lparr>t_handle := h\<rparr>)"
| frame: "server_reach fl cfg t \<Longrightarrow> server_reach fl cfg (fst (serverFrame fl now ord f t))"
| bad: "server_reach fl cfg t \<Longrightarrow> server_reach fl cfg (fst (frameError ord e t))"
| header: "server_reach fl cfg t \<Longrightarrow> server_reach fl cfg (fst (WriteHeader a status t))"
| send: "server_reach fl cfg t \<Longrightarrow> server_reach fl cfg (fst (Send got a b spare i j fin t))"
| writes: "server_reach fl cfg t \<Longrightarrow> server_reach fl cfg (fst (t_Write got a b spare fin t))"
| closeWrite: "server_reach fl cfg t \<Longrightarrow> server_reach fl cfg (fst (CloseWrite a t))"
| closeError: "server_reach fl cfg t \<Longrightarrow> server_reach fl cfg (fst (CloseError a code t))"
| closeS: "server_reach fl cfg t \<Longrightarrow> server_reach fl cfg (fst (stream_Close a t))"
| recvs: "server_reach fl cfg t \<Longrightarrow> server_reach fl cfg (fst (fst (RecvRaw q a t)))"
| reads: "server_reach fl cfg t \<Longrightarrow> server_reach fl cfg (fst (fst (Read k a t)))"
| adjust: "server_reach fl cfg t \<Longrightarrow> server_reach fl cfg (fst (adjustWindow a w t))"
| taken: "server_reach fl cfg t \<Longrightarrow> server_reach fl cfg (t\<lparr>t_cb := c\<rparr>)"
| wrote: "server_reach fl cfg t \<Longrightarrow> server_reach fl cfg (setResetPingStrikes t)"
| deleted: "server_reach fl cfg t \<Longrightarrow> server_reach fl cfg (fst (deleteStream now ord a t))"
| drain: "server_reach fl cfg t \<Longrightarrow> server_reach fl cfg (fst (Drain t))"
| closed: "server_reach fl cfg t \<Longrightarrow> server_reach fl cfg (fst (t_Close ord err t))"

lemma wf_start: "streams_wf (serverMaxStreams cfg) ((newServerTransport now cfg st)\<lparr>t_handle := h\<rparr>)"
  by (simp add: streams_wf_def streams_of_def newServerTransport_def newTransport_def)

lemma wf_operateHeaders:
  assumes "streams_wf n t"
  shows "streams_wf n (fst (fst (operateHeaders fh flds tr t)))"
proof (cases "StreamID fh mod 2 = 1 \<and> \<not> tr \<and> \<not> StreamID fh \<le> t_maxStreamID t \<and> \<not> ar_headerError (acceptFields flds)")
  case True
  let ?s = "acceptedStream (StreamID fh) (t_fresh t) (t_initialWindowSize t)"
  have "MuxID (if StreamEnded fh then setReadClosed 1 ErrEOF ?s else ?s) = StreamID fh" by (simp add: acceptedStream_def)
  moreover have "t_maxStreamID t < StreamID fh" using True by auto
  ultimately show ?thesis using wf_registerAccepted [OF assms, of "StreamID fh" _ "t_fresh t"] True
    by (auto simp: operateHeaders_def operateAcceptHeaders_def Let_def)
next
  case False
  have "streams_wf n (t\<lparr>t_maxStreamID := StreamID fh\<rparr>)" if "\<not> StreamID fh \<le> t_maxStreamID t"
    using assms that by (fastforce simp: streams_wf_def streams_of_def)
  then have "streams_wf n (fst (refuseStream (StreamID fh) code (t\<lparr>t_maxStreamID := StreamID fh\<rparr>)))" if "\<not> StreamID fh \<le> t_maxStreamID t" for code
    using that by (auto simp: refuseStream_def intro: kept_wf [OF kept_put])
  moreover have "t_side t = serverSide" using assms by (simp add: streams_wf_def)
  ultimately show ?thesis
    using False assms kept_wf [OF kept_put assms] kept_wf [OF kept.R_operateResponseHeaders assms]
    by (auto simp: operateHeaders_def operateAcceptHeaders_def refuseStream_def Let_def even_iff_mod_2_eq_zero)
qed

lemma wf_serverFrame: "streams_wf n t \<Longrightarrow> streams_wf n (fst (serverFrame fl now ord f t))"
proof -
  assume wf: "streams_wf n t"
  then have k: "streams_wf n t'" if "kept t t'" for t' using kept_wf that by blast
  show ?thesis
  proof (cases f)
    case (MetaHeadersFrame fh prio flds tr)
    let ?t = "t\<lparr>streamsStarted := streamsStarted t + 1\<rparr>"
    obtain r e where r: "operateHeaders fh flds tr ?t = (r, e)" by fastforce
    have "streams_wf n (fst r)" using wf_operateHeaders [of n ?t fh flds tr] k [OF kept_upd(11)] r by simp
    moreover have "kept (fst r) (fst (and_do r (t_Close ord e')))" for e' by (cases r rule: reading.cases) auto
    ultimately show ?thesis using MetaHeadersFrame r kept_wf by (cases e) auto
  qed (auto intro!: k kept.R_handleData [THEN kept_trans [OF kept_upd(10)]] intro: plain_kept)
qed



end
