(* ===== verification/Keepalive.thy ===== *)
theory Keepalive
  imports Transport_Rules
begin

text \<open>
  The keepalive goroutines (\<^verbatim>\<open>keepalive\<close> of \<^verbatim>\<open>h2/h2_connection.go\<close> and of \<^verbatim>\<open>h2/h2_connection_server.go\<close>): what they do
  each time one of their timers fires. Times are nanoseconds; sums of times are not expected to overflow.
\<close>

section \<open>The timers\<close>

record kp_params =
  kp_Time :: Duration
  kp_Timeout :: Duration
  MaxConnectionIdle :: Duration
  MaxConnectionAge :: Duration
  MaxConnectionAgeGrace :: Duration
  kp_PermitWithoutStream :: bool

text \<open>The variables of the loops.\<close>

record kp_state =
  outstandingPing :: bool
  timeoutLeft :: Duration
  prevNano :: int

text \<open>
  What a goroutine does next: it sleeps, waits on the condition for streams, waits for the grace period,
  or has returned.
\<close>

datatype kp_next = KpSleep Duration | KpIdle Duration | KpDormant | KpGrace Duration | KpReturn

definition minTimeOf :: "Duration \<Rightarrow> Duration \<Rightarrow> Duration" where
  "minTimeOf a b = (if a < b then a else b)"

text \<open>The ping, unless one is outstanding, and the time to sleep.\<close>

definition kpSleep :: "kp_params \<Rightarrow> kp_state \<Rightarrow> kp_state \<times> Duration" where
  "kpSleep p s =
     (let s1 = (if outstandingPing s then s else s\<lparr>timeoutLeft := kp_Timeout p, outstandingPing := True\<rparr>);
          d = minTimeOf (kp_Time p) (timeoutLeft s1)
      in (s1\<lparr>timeoutLeft := timeoutLeft s1 - d\<rparr>, d))"

definition kpPing :: "kp_params \<Rightarrow> kp_state \<Rightarrow> H2Transport \<Rightarrow> kp_state \<times> done_step \<times> kp_next" where
  "kpPing p s t =
     (let r = (if outstandingPing s then (t, None) else t_put (PingItem False (replicate 8 0)) t);
          (s1, d) = kpSleep p s
      in (s1, r, KpSleep d))"

definition kpActive :: "kp_params \<Rightarrow> int \<Rightarrow> int \<Rightarrow> kp_state \<Rightarrow> kp_state \<times> kp_next" where
  "kpActive p now lastRead s = (s\<lparr>outstandingPing := False, prevNano := lastRead\<rparr>, KpSleep (lastRead + kp_Time p - now))"

section \<open>Client and server\<close>

definition clientKeepalive ::
    "(addr list \<Rightarrow> addr list) \<Rightarrow> kp_params \<Rightarrow> int \<Rightarrow> int \<Rightarrow> kp_state \<Rightarrow> H2Transport \<Rightarrow> kp_state \<times> done_step \<times> kp_next" where
  "clientKeepalive ord p now lastRead s t =
     (if lastRead > prevNano s then let (s1, d) = kpActive p now lastRead s in (s1, (t, None), d)
      else if outstandingPing s \<and> timeoutLeft s \<le> 0 then (s, t_Close ord (Some ErrKeepaliveTimeout) t, KpReturn)
      else if t_closing t then (s, (t, None), KpReturn)
      else if (case t_activeStreams t of None \<Rightarrow> True | Some m \<Rightarrow> length m < 1) \<and> \<not> kp_PermitWithoutStream p
      then (s\<lparr>outstandingPing := False\<rparr>, (t\<lparr>t_kpDormant := True\<rparr>, None), KpDormant)
      else kpPing p s (t\<lparr>t_kpDormant := False\<rparr>))"

text \<open>A client that was dormant is woken up.\<close>

definition clientWake :: "kp_params \<Rightarrow> kp_state \<Rightarrow> H2Transport \<Rightarrow> kp_state \<times> done_step \<times> kp_next" where
  "clientWake p s t = kpPing p s (t\<lparr>t_kpDormant := False\<rparr>)"

datatype kp_timer = IdleTimer | AgeTimer | GraceTimer | KpTimer

fun serverKeepalive ::
    "(addr list \<Rightarrow> addr list) \<Rightarrow> kp_params \<Rightarrow> kp_timer \<Rightarrow> int \<Rightarrow> int \<Rightarrow> kp_state \<Rightarrow> H2Transport \<Rightarrow> kp_state \<times> done_step \<times> kp_next" where
  "serverKeepalive ord p IdleTimer now lastRead s t =
     (case t_idle t of
        None \<Rightarrow> (s, (t, None), KpIdle (MaxConnectionIdle p))
      | Some i \<Rightarrow>
          let v = MaxConnectionIdle p - (now - i)
          in if v \<le> 0 then (s, Drain t, KpReturn) else (s, (t, None), KpIdle v))"
| "serverKeepalive ord p AgeTimer now lastRead s t = (s, Drain t, KpGrace (MaxConnectionAgeGrace p))"
| "serverKeepalive ord p GraceTimer now lastRead s t = (s, t_Close ord None t, KpReturn)"
| "serverKeepalive ord p KpTimer now lastRead s t =
     (if lastRead > prevNano s then let (s1, d) = kpActive p now lastRead s in (s1, (t, None), d)
      else if outstandingPing s \<and> timeoutLeft s \<le> 0 then (s, t_Close ord (Some ErrKeepaliveTimeout) t, KpReturn)
      else kpPing p s t)"

section \<open>When a connection is given up\<close>

text \<open>
  The keepalive timer of a server: the list holds the times at which it fires, each with the time of the last
  read. \<open>due\<close> is the time the timer is set to, \<open>last_tick\<close> the time of the tick before; a timer does not fire
  early. \<open>KpGaveUp\<close>: the connection was closed at that time.
\<close>

datatype kp_end = KpAlive | KpGaveUp int done_step | KpFault

fun in_time :: "int \<Rightarrow> int \<Rightarrow> int \<Rightarrow> int \<Rightarrow> bool" where
  "in_time last_tick due now lastRead \<longleftrightarrow> last_tick \<le> now \<and> due \<le> now \<and> lastRead \<le> now"

fun kpRun :: "(addr list \<Rightarrow> addr list) \<Rightarrow> kp_params \<Rightarrow> int \<Rightarrow> int \<Rightarrow> kp_state \<Rightarrow> H2Transport \<Rightarrow> (int \<times> int) list \<Rightarrow> kp_end" where
  "kpRun ord p last_tick due s t [] = KpAlive"
| "kpRun ord p last_tick due s t ((now, lastRead) # ks) =
     (case serverKeepalive ord p KpTimer now lastRead s t of
        (s1, (t1, None), KpSleep d) \<Rightarrow> kpRun ord p now (now + d) s1 t1 ks
      | (s1, r, KpReturn) \<Rightarrow> KpGaveUp now r
      | _ \<Rightarrow> KpFault)"

fun ticks_ok :: "(addr list \<Rightarrow> addr list) \<Rightarrow> kp_params \<Rightarrow> int \<Rightarrow> int \<Rightarrow> kp_state \<Rightarrow> H2Transport \<Rightarrow> (int \<times> int) list \<Rightarrow> bool" where
  "ticks_ok ord p last_tick due s t [] \<longleftrightarrow> True"
| "ticks_ok ord p last_tick due s t ((now, lastRead) # ks) \<longleftrightarrow> in_time last_tick due now lastRead \<and>
     (case serverKeepalive ord p KpTimer now lastRead s t of
        (s1, (t1, None), KpSleep d) \<Rightarrow> ticks_ok ord p now (now + d) s1 t1 ks
      | _ \<Rightarrow> True)"

text \<open>
  The invariant: what was recorded last was read before the tick before, and before the outstanding ping,
  which was sent so long ago that the timeout has run down to what is left of it.
\<close>

definition kp_inv :: "kp_params \<Rightarrow> int \<Rightarrow> int \<Rightarrow> kp_state \<Rightarrow> bool" where
  "kp_inv p last_tick due s \<longleftrightarrow> prevNano s \<le> last_tick \<and> (outstandingPing s \<longrightarrow> prevNano s \<le> due - (kp_Timeout p - timeoutLeft s))"

lemma kp_inv_step:
  assumes "serverKeepalive ord p KpTimer now lastRead s t = (s1, (t1, None), KpSleep d)" "kp_inv p last_tick due s"
    "in_time last_tick due now lastRead"
  shows "kp_inv p now (now + d) s1"
  using assms
  by (auto simp: kp_inv_def kpActive_def kpPing_def kpSleep_def Let_def split: if_splits)

lemma kp_gives_up:
  assumes "serverKeepalive ord p KpTimer now lastRead s t = (s1, r, KpReturn)" "kp_inv p last_tick due s" "due \<le> now"
  shows "now - lastRead \<ge> kp_Timeout p"
  using assms
  by (auto simp: kp_inv_def kpActive_def kpPing_def Let_def split: if_splits prod.splits)

lemma kpRun_alive:
  assumes "kp_inv p last_tick due s" "ticks_ok ord p last_tick due s t ks" "kpRun ord p last_tick due s t ks = KpGaveUp n r"
  shows "\<exists>l. (n, l) \<in> set ks \<and> n - l \<ge> kp_Timeout p"
  using assms
proof (induction ks arbitrary: last_tick due s t)
  case (Cons k ks)
  obtain now lastRead where k: "k = (now, lastRead)" by fastforce
  obtain s1 t1 f nx where e: "serverKeepalive ord p KpTimer now lastRead s t = (s1, (t1, f), nx)" by (metis surj_pair)
  show ?case
  proof (cases "f = None \<and> (\<exists>d. nx = KpSleep d)")
    case True
    then obtain d where d: "f = None" "nx = KpSleep d" by blast
    have "kp_inv p now (now + d) s1" using kp_inv_step [of ord p now lastRead s t s1 t1 d] Cons.prems(1,2) e d k by simp
    from Cons.IH [OF this] Cons.prems(2,3) e d k show ?thesis by auto
  next
    case False
    then have "nx = KpReturn" "n = now" using Cons.prems(3) e k by (auto split: kp_next.splits option.splits)
    with kp_gives_up [of ord p now lastRead s t s1 "(t1, f)"] Cons.prems(1,2) e k show ?thesis by auto
  qed
qed simp

text \<open>The goroutine starts with no ping outstanding, and sets its timer.\<close>

definition kpStart :: "int \<Rightarrow> kp_state" where
  "kpStart now = \<lparr>outstandingPing = False, timeoutLeft = 0, prevNano = now\<rparr>"

text \<open>The timer of a server whose peer is silent: the ticks come when they are due, and nothing is read.\<close>

fun kpSilent :: "nat \<Rightarrow> (addr list \<Rightarrow> addr list) \<Rightarrow> kp_params \<Rightarrow> int \<Rightarrow> int \<Rightarrow> kp_state \<Rightarrow> H2Transport \<Rightarrow> kp_end" where
  "kpSilent 0 ord p lastRead due s t = KpAlive"
| "kpSilent (Suc n) ord p lastRead due s t =
     (case serverKeepalive ord p KpTimer due lastRead s t of
        (s1, (t1, None), KpSleep d) \<Rightarrow> kpSilent n ord p lastRead (due + d) s1 t1
      | (s1, r, KpReturn) \<Rightarrow> KpGaveUp due r
      | _ \<Rightarrow> KpFault)"

lemma kpSilent_outstanding:
  assumes "outstandingPing s" "lastRead \<le> prevNano s" "0 < kp_Time p" "0 \<le> timeoutLeft s"
  shows "\<exists>k. \<forall>n \<ge> k. kpSilent n ord p lastRead due s t = KpGaveUp (due + timeoutLeft s) (t_Close ord (Some ErrKeepaliveTimeout) t)"
  using assms
proof (induction "nat (timeoutLeft s)" arbitrary: s due rule: less_induct)
  case less
  show ?case
  proof (cases "timeoutLeft s = 0")
    case True
    with less.prems have "kpSilent (Suc n) ord p lastRead due s t = KpGaveUp due (t_Close ord (Some ErrKeepaliveTimeout) t)" for n
      by (simp split: prod.splits option.splits)
    then have "\<forall>n \<ge> 1. kpSilent n ord p lastRead due s t = KpGaveUp due (t_Close ord (Some ErrKeepaliveTimeout) t)"
      by (metis One_nat_def Suc_le_D)
    with True show ?thesis by (intro exI [of _ 1]) simp
  next
    case False
    let ?d = "minTimeOf (kp_Time p) (timeoutLeft s)"
    let ?s = "s\<lparr>timeoutLeft := timeoutLeft s - ?d\<rparr>"
    have d: "0 < ?d" "?d \<le> timeoutLeft s" using less.prems(3,4) False by (simp_all add: minTimeOf_def)
    from less.hyps [of ?s "due + ?d"] less.prems d obtain k where
      "\<forall>n \<ge> k. kpSilent n ord p lastRead (due + ?d) ?s t = KpGaveUp (due + timeoutLeft s) (t_Close ord (Some ErrKeepaliveTimeout) t)" by auto
    moreover have "kpSilent (Suc n) ord p lastRead due s t = kpSilent n ord p lastRead (due + ?d) ?s t" for n
      using less.prems False by (simp add: kpPing_def kpSleep_def Let_def)
    ultimately show ?thesis by (intro exI [of _ "Suc k"]) (metis Suc_le_D Suc_le_mono)
  qed
qed

lemma kpSilent_start:
  assumes "open_transport t" "0 < kp_Time p" "0 \<le> kp_Timeout p" "lastRead \<le> start"
  shows "\<exists>k t'. \<forall>n \<ge> k. kpSilent n ord p lastRead (start + kp_Time p) (kpStart start) t =
    KpGaveUp (start + kp_Time p + kp_Timeout p) (t_Close ord (Some ErrKeepaliveTimeout) t')"
proof -
  obtain t1 where t1: "t_put (PingItem False (replicate 8 0)) t = (t1, None)" using t_put_open [OF assms(1)] by blast
  let ?d = "minTimeOf (kp_Time p) (kp_Timeout p)"
  let ?s = "\<lparr>outstandingPing = True, timeoutLeft = kp_Timeout p - ?d, prevNano = start\<rparr>"
  have "?d \<le> kp_Timeout p" by (simp add: minTimeOf_def)
  with kpSilent_outstanding [of ?s lastRead p ord "start + kp_Time p + ?d" t1] assms obtain k where
    "\<forall>n \<ge> k. kpSilent n ord p lastRead (start + kp_Time p + ?d) ?s t1 =
      KpGaveUp (start + kp_Time p + kp_Timeout p) (t_Close ord (Some ErrKeepaliveTimeout) t1)" by (auto simp: add.assoc)
  moreover have "kpSilent (Suc n) ord p lastRead (start + kp_Time p) (kpStart start) t = kpSilent n ord p lastRead (start + kp_Time p + ?d) ?s t1" for n
    using assms(4) t1 by (simp add: kpStart_def kpPing_def kpSleep_def Let_def)
  ultimately show ?thesis by (intro exI [of _ "Suc k"] exI [of _ t1]) (metis Suc_le_D Suc_le_mono)
qed



end
