(* ===== verification/Client_Invariant.thy ===== *)
theory Client_Invariant
  imports Handler_Frame
begin

text \<open>
  The quota of a client for streams, in every state that its goroutines can reach: the reader with any frames
  and errors, requests that are sent, wait and are woken up, the application with its calls on streams, the writer
  with its callbacks, and a close of the connection, in any order.
\<close>

section \<open>The invariant\<close>

text \<open>
  A stream with an odd identifier has taken a unit of quota, a stream that is done has given one back. The
  quota that is in use is the sum over all streams.
\<close>

definition stream_weight :: "H2Stream \<Rightarrow> int" where
  "stream_weight s = of_bool (MuxID s mod 2 = 1) - of_bool (streamDone s)"

definition quota_used :: "H2Transport \<Rightarrow> int" where
  "quota_used t = (\<Sum>a<t_fresh t. stream_weight (t_streams t a))"

text \<open>
  A stream with a channel for its headers has a channel for its end. A stream that is done has its channels
  closed, unless the goroutine that closes it is stuck: then it holds the mutex of the control buffer (\<open>l\<close>).
\<close>

definition done_closed :: "bool \<Rightarrow> H2Stream \<Rightarrow> bool" where
  "done_closed l s \<longleftrightarrow> (headerChan s \<longrightarrow> s_done s \<noteq> None) \<and> (streamDone s \<longrightarrow> (headerChan s \<longrightarrow> headerChanClosed s) \<and> (s_done s \<noteq> Some False \<or> l))"

definition client_wf :: "H2Transport \<Rightarrow> bool" where
  "client_wf t \<longleftrightarrow> t_side t = clientSide \<and> (t_cbLocked t \<longrightarrow> cb_err (t_cb t) \<noteq> None) \<and> t_nextID t mod 2 = 1 \<and>
     (\<forall>(k, a) \<in> set (streams_of t) \<union> set (t_closures t). a < t_fresh t) \<and>
     (cb_err (t_cb t) = None \<longrightarrow> t_streamQuota t + quota_used t = int (unat (t_maxConcurrentStreams t))) \<and>
     (\<forall>a < t_fresh t. done_closed (t_cbLocked t) (t_streams t a))"

definition client_step :: "H2Transport \<Rightarrow> H2Transport \<Rightarrow> bool" where
  "client_step t u \<longleftrightarrow> (client_wf t \<longrightarrow> client_wf u) \<and> t_fresh t \<le> t_fresh u"

lemma quota_used_set:
  assumes "a < t_fresh t"
  shows "quota_used (t\<lparr>t_streams := (t_streams t)(a := s)\<rparr>) = quota_used t - stream_weight (t_streams t a) + stream_weight s"
  using assms sum.remove [of "{..<t_fresh t}" a "\<lambda>b. stream_weight (t_streams t b)"]
    sum.remove [of "{..<t_fresh t}" a "\<lambda>b. stream_weight (((t_streams t)(a := s)) b)"]
  by (simp add: quota_used_def)

lemma quota_used_cong:
  "t_fresh u = t_fresh t \<Longrightarrow> (\<And>a. a < t_fresh t \<Longrightarrow> stream_weight (t_streams u a) = stream_weight (t_streams t a)) \<Longrightarrow>
   quota_used u = quota_used t"
  by (simp add: quota_used_def)

lemma plain_weight: "plain t u \<Longrightarrow> quota_used u = quota_used t"
  by (rule quota_used_cong) (auto simp: plain_def stream_weight_def)

lemma plain_client_wf:
  assumes "plain t u" "client_wf t"
  shows "client_wf u"
  using assms plain_weight [OF assms(1)]
  by (auto simp: client_wf_def plain_def streams_of_def done_closed_def)

section \<open>Closing a stream\<close>

lemma done_closed_markDone: "done_closed l s \<Longrightarrow> done_closed True (markDone err s)"
  by (auto simp: done_closed_def markDone_def closeHeaderChan_def setReadClosed_def queueReadBuf_def Let_def split: option.splits)

lemma done_closed_release: "done_closed True s \<Longrightarrow> done_closed False (s\<lparr>s_cancel := False, s_done := map_option (\<lambda>_. True) (s_done s)\<rparr>)"
  by (cases "s_done s") (auto simp: done_closed_def)

lemma markDone_headerChan [simp]: "headerChan (markDone err s) = headerChan s"
  by (simp add: markDone_def closeHeaderChan_def setReadClosed_def queueReadBuf_def Let_def split: option.splits)

lemma done_closed_mono: "done_closed False s \<Longrightarrow> done_closed l s"
  by (auto simp: done_closed_def)

lemma markDone_weight: "\<not> streamDone s \<Longrightarrow> stream_weight (markDone err s) = stream_weight s - 1"
  by (simp add: stream_weight_def)

text \<open>What closing a stream does to the fields that matter.\<close>

definition accounts_kept :: "H2Transport \<Rightarrow> H2Transport \<Rightarrow> bool" where
  "accounts_kept t u \<longleftrightarrow> t_activeStreams u = t_activeStreams t \<and> t_side u = t_side t \<and> t_fresh u = t_fresh t \<and> t_closures u = t_closures t \<and>
     t_nextID u = t_nextID t \<and> t_maxConcurrentStreams u = t_maxConcurrentStreams t \<and> t_cbLocked u = t_cbLocked t \<and> cb_err (t_cb u) = cb_err (t_cb t)"

lemma set_stream_accounts [simp]:
  "t_nextID (set_stream a f t) = t_nextID t" "t_maxConcurrentStreams (set_stream a f t) = t_maxConcurrentStreams t"
  by (simp_all add: set_stream_def)

lemma weight_released [simp]: "stream_weight (s\<lparr>s_cancel := x, s_done := y\<rparr>) = stream_weight s"
  by (simp add: stream_weight_def)

lemma release_accounts: "accounts_kept t (releaseStream a err u) \<longleftrightarrow> accounts_kept t u"
  by (simp add: accounts_kept_def releaseStream_def t_call_def set_stream_def Let_def)

lemma closeStream_fields:
  assumes "\<not> streamDone (t_streams t a)" "fst (closeStream a err rs code t) = u"
  shows "accounts_kept t u" "\<exists>s. t_streams u = (t_streams t)(a := s) \<and> stream_weight s = stream_weight (t_streams t a) - 1 \<and>
      headerChan s = headerChan (t_streams t a) \<and> (done_closed l (t_streams t a) \<longrightarrow> done_closed (t_cbLocked t) s)"
    "cb_err (t_cb t) = None \<Longrightarrow> \<not> t_cbLocked t \<Longrightarrow> t_streamQuota u = t_streamQuota t + 1"
proof -
  let ?v = "set_stream a (markDone err) t"
  let ?item = "CleanupItem \<lparr>c_streamID = MuxID (t_streams t a), rst = rs, rstCode = code, c_onWrite = True\<rparr>"
  let ?s = "\<lambda>s. s\<lparr>s_cancel := False, s_done := map_option (\<lambda>_. True) (s_done s)\<rparr>"
  obtain w r where w: "t_execPut (Some addBackStreamQuota) ?item ?v = (w, r)" by fastforce
  have acc: "accounts_kept t w" "t_streams w = (t_streams t)(a := markDone err (t_streams t a))"
    "cb_err (t_cb t) = None \<Longrightarrow> \<not> t_cbLocked t \<Longrightarrow> t_streamQuota w = t_streamQuota t + 1"
    using w by (auto simp: accounts_kept_def t_execPut_def executeAndPut_def addBackStreamQuota_def Let_def split: if_splits option.splits prod.splits)
  have u: "u = (case r of Inl f \<Rightarrow> w | Inr x \<Rightarrow> releaseStream a err w)" using assms w by (auto simp: closeStream_def split: sum.splits)
  have l: "(\<exists>f. r = Inl f) \<longleftrightarrow> t_cbLocked t" using w by (auto simp: t_execPut_def split: if_splits prod.splits)
  show "accounts_kept t u" using acc(1) u by (auto simp: release_accounts split: sum.splits)
  show "t_streamQuota u = t_streamQuota t + 1" if "cb_err (t_cb t) = None" "\<not> t_cbLocked t"
    using acc(3) that u l by (cases r) auto
  show "\<exists>s. t_streams u = (t_streams t)(a := s) \<and> stream_weight s = stream_weight (t_streams t a) - 1 \<and>
      headerChan s = headerChan (t_streams t a) \<and> (done_closed l (t_streams t a) \<longrightarrow> done_closed (t_cbLocked t) s)"
  proof (cases r)
    case (Inl f)
    then show ?thesis using acc(2) u l markDone_weight [OF assms(1)] done_closed_markDone
      by (intro exI [of _ "markDone err (t_streams t a)"]) auto
  next
    case (Inr x)
    then show ?thesis using acc(2) u l markDone_weight [OF assms(1)] done_closed_release [OF done_closed_markDone, of _ "t_streams t a" err]
      by (intro exI [of _ "?s (markDone err (t_streams t a))"]) auto
  qed
qed

lemma client_wf_close:
  assumes "client_wf t" "a < t_fresh t \<or> cb_err (t_cb t) \<noteq> None"
  shows "client_wf (fst (closeStream a err rs code t))" "accounts_kept t (fst (closeStream a err rs code t))"
proof -
  let ?u = "fst (closeStream a err rs code t)"
  have "client_wf ?u \<and> accounts_kept t ?u"
  proof (cases "streamDone (t_streams t a)")
    case True
    then show ?thesis using assms(1) by (simp add: closeStream_def accounts_kept_def)
  next
    case False
    note f = closeStream_fields [OF this refl, of err rs code]
    from f(2) [of "t_cbLocked t"] obtain s where s: "t_streams ?u = (t_streams t)(a := s)" "stream_weight s = stream_weight (t_streams t a) - 1"
      "done_closed (t_cbLocked t) (t_streams t a) \<longrightarrow> done_closed (t_cbLocked t) s" by blast
    have q: "quota_used ?u = quota_used t - 1" if "a < t_fresh t"
      using quota_used_set [OF that, of s] s(2) quota_used_cong [of ?u "t\<lparr>t_streams := (t_streams t)(a := s)\<rparr>"] s(1) f(1)
      by (simp add: accounts_kept_def)
    have "cb_err (t_cb ?u) = None \<longrightarrow> t_streamQuota ?u + quota_used ?u = int (unat (t_maxConcurrentStreams ?u))"
      using assms f(1,3) q by (auto simp: client_wf_def accounts_kept_def)
    then show ?thesis using assms(1) f(1) s(1,3) by (auto simp: client_wf_def accounts_kept_def streams_of_def)
  qed
  then show "client_wf ?u" "accounts_kept t ?u" by blast+
qed

section \<open>Closing the connection\<close>

text \<open>
  Once the buffer has an error the quota does not count any more; while the mutex is held, a callback that
  returns changed nothing.
\<close>

lemma accounts_trans: "accounts_kept t u \<Longrightarrow> accounts_kept u v \<Longrightarrow> accounts_kept t v"
  by (simp add: accounts_kept_def)

lemma plain_accounts: "plain t u \<Longrightarrow> accounts_kept t u"
  by (simp add: plain_def accounts_kept_def)

lemma client_wf_closeAll:
  assumes "client_wf t" "cb_err (t_cb t) \<noteq> None"
  shows "client_wf (fst (closeAll as err rs code t))"
  using assms
proof (induction as arbitrary: t)
  case (Cons a as)
  obtain u f where u: "closeStream a err rs code t = (u, f)" by fastforce
  with client_wf_close [OF Cons.prems(1), of a err rs code] Cons.prems(2) have "client_wf u" "cb_err (t_cb u) \<noteq> None"
    by (auto simp: accounts_kept_def)
  with Cons.IH u show ?case by (cases f) auto
qed simp

lemma client_wf_orphanAll:
  assumes "client_wf t" "cb_err (t_cb t) \<noteq> None" "t_cbLocked t"
  shows "client_wf (fst (orphanAll hs t)) \<and> (snd (orphanAll hs t) = None \<longrightarrow> plain t (fst (orphanAll hs t)))"
  using assms
proof (induction hs arbitrary: t)
  case (Cons h hs)
  show ?case
  proof (cases "map_of (t_closures t) (h_streamID h)")
    case (Some a)
    let ?v = "set_stream a (\<lambda>s. s\<lparr>unprocessed := True\<rparr>) t"
    have p: "plain t ?v" by (rule plain_set) simp
    have v: "client_wf ?v" "cb_err (t_cb ?v) \<noteq> None" "t_cbLocked ?v" using plain_client_wf [OF p Cons.prems(1)] Cons.prems(2,3) by auto
    obtain u f where u: "closeStream a (Some ErrConnClosingT) True ErrCodeStreamClosed ?v = (u, f)" by fastforce
    show ?thesis
    proof (cases f)
      case None
      then have "u = ?v" using u v(3) by (auto simp: closeStream_def t_execPut_def Let_def split: if_splits)
      then show ?thesis using Cons.IH [OF v] Some u None plain_trans [OF p] by (simp add: orphanedRequest_def)
    next
      case (Some g)
      then show ?thesis using client_wf_close(1) [OF v(1), of a "Some ErrConnClosingT" True ErrCodeStreamClosed] u v(2) \<open>map_of _ _ = Some a\<close>
        by (simp add: orphanedRequest_def)
    qed
  qed (use Cons in simp)
qed simp

lemma client_wf_lock:
  assumes "client_wf t" "cb_err c \<noteq> None"
  shows "client_wf (t\<lparr>t_cb := c, t_cbLocked := True\<rparr>)"
  using assms by (auto simp: client_wf_def streams_of_def done_closed_def)

lemma client_wf_unlock:
  assumes "client_wf t" "\<not> t_cbLocked t" "plain (t\<lparr>t_cb := c, t_cbLocked := True\<rparr>) u" "cb_err d = cb_err c" "cb_err c \<noteq> None"
  shows "client_wf (u\<lparr>t_cb := d, t_cbLocked := False\<rparr>)"
  using assms by (auto simp: client_wf_def plain_def streams_of_def done_closed_def)

lemma client_wf_finish:
  assumes "client_wf t"
  shows "client_wf (fst (t_finish t))" "snd (t_finish t) = None \<Longrightarrow> cb_err (t_cb (fst (t_finish t))) \<noteq> None"
proof -
  have "client_wf (fst (t_finish t)) \<and> (snd (t_finish t) = None \<longrightarrow> cb_err (t_cb (fst (t_finish t))) \<noteq> None)"
  proof (cases "t_cbLocked t \<or> cb_err (t_cb t) \<noteq> None")
    case False
    obtain l h where l: "il_dequeueAll (cb_list (t_cb t)) = (l, h)" by fastforce
    let ?c = "(t_cb t)\<lparr>cb_err := Some ErrConnClosing, cb_list := l\<rparr>"
    let ?v = "t\<lparr>t_cb := ?c, t_cbLocked := True\<rparr>"
    define hs where "hs = orphans (walk (il_fresh (cb_list (t_cb t))) (il_store (cb_list (t_cb t))) h)"
    have v: "client_wf ?v" by (rule client_wf_lock [OF assms]) simp
    obtain u f where u: "orphanAll hs ?v = (u, f)" by fastforce
    have "client_wf u" "f = None \<Longrightarrow> plain ?v u" using client_wf_orphanAll [OF v, of hs] u by auto
    moreover have "cb_err (releaseThrottle c) = cb_err c" for c by (simp add: releaseThrottle_def split: option.splits)
    moreover from this have "client_wf (u\<lparr>t_cb := releaseThrottle (t_cb u), t_cbLocked := False\<rparr>)" if "plain ?v u"
      using client_wf_unlock [OF assms _ that, of "releaseThrottle (t_cb u)"] False that by (auto simp: plain_def)
    moreover have "t_finish t = and_do (u, f) (\<lambda>t1. (t1\<lparr>t_cb := releaseThrottle (t_cb t1), t_cbLocked := False\<rparr>, None))"
      using False l u by (simp add: t_finish_def Let_def hs_def)
    ultimately show ?thesis by (cases f) (auto simp: plain_def)
  qed (use assms in \<open>auto simp: t_finish_def Let_def\<close>)
  then show "client_wf (fst (t_finish t))" "snd (t_finish t) = None \<Longrightarrow> cb_err (t_cb (fst (t_finish t))) \<noteq> None" by blast+
qed

lemma client_wf_drop:
  assumes "client_wf t"
  shows "client_wf (t\<lparr>t_activeStreams := None\<rparr>)"
  using assms by (auto simp: client_wf_def streams_of_def quota_used_def)

lemma client_wf_ignored [simp]:
  "client_wf (t_call c t) = client_wf t" "client_wf (t\<lparr>t_closed := b\<rparr>) = client_wf t" "client_wf (t\<lparr>t_Error := e\<rparr>) = client_wf t"
  "client_wf (t\<lparr>t_ctxDone := b, t_done := b', t_cb := (t_cb t)\<lparr>cb_done := b''\<rparr>\<rparr>) = client_wf t"
  by (simp_all add: client_wf_def t_call_def streams_of_def quota_used_def)

lemma client_wf_Close:
  assumes "client_wf t"
  shows "client_wf (fst (t_Close ord err t))"
proof (cases "t_closed t")
  case False
  define t4 where "t4 = (t_call (EvMux Event_ConnClose) (let t1 = t\<lparr>t_closed := True\<rparr> in if t_Error t1 = None then t1\<lparr>t_Error := err\<rparr> else t1))
    \<lparr>t_activeStreams := None\<rparr>"
  define as where "as = ord (case t_activeStreams t of None \<Rightarrow> [] | Some m \<Rightarrow> map snd m)"
  have "client_wf t4" unfolding t4_def using assms by (intro client_wf_drop) (simp add: Let_def)
  note fin = client_wf_finish [OF this]
  obtain t5 f where t5: "t_finish t4 = (t5, f)" by fastforce
  let ?t6 = "t_call CloseConn (t5\<lparr>t_ctxDone := t_ctxDone t5 \<or> t_cancel t5, t_done := True, t_cb := (t_cb t5)\<lparr>cb_done := True\<rparr>\<rparr>)"
  have e: "t_Close ord err t = and_do (t5, f) (\<lambda>t5. and_do (closeAll as (Some ErrConnClosingT) False 0
      (t_call CloseConn (t5\<lparr>t_ctxDone := t_ctxDone t5 \<or> t_cancel t5, t_done := True, t_cb := (t_cb t5)\<lparr>cb_done := True\<rparr>\<rparr>)))
      (\<lambda>t7. (t_call (EvMux Event_ConnClose) t7, None)))"
    using False t5 by (auto simp: t_Close_def t4_def as_def Let_def)
  show ?thesis
  proof (cases f)
    case None
    have "client_wf ?t6" "cb_err (t_cb ?t6) \<noteq> None" using fin t5 None by simp_all
    note c = client_wf_closeAll [OF this, of as "Some ErrConnClosingT" False 0]
    obtain t7 g where "closeAll as (Some ErrConnClosingT) False 0 ?t6 = (t7, g)" by fastforce
    with c e None show ?thesis by (cases g) auto
  qed (use fin(1) t5 e in auto)
qed (simp add: t_Close_def assms)

lemma fresh_Close: "t_fresh (fst (t_Close ord err t)) = t_fresh t"
  using kept_Close [of t ord err] by (simp add: kept_def)

text \<open>So the contract of the handlers holds.\<close>

interpretation client: handlers client_wf "\<lambda>t a. a < t_fresh t" client_step
proof unfold_locales
  fix t u assume "plain t u"
  then show "client_step t u" using plain_client_wf by (auto simp: client_step_def plain_def)
next
  fix t sid a assume "client_wf t" "getStream sid t = Some a"
  then show "a < t_fresh t" by (auto simp: client_wf_def getStream_def streams_of_def dest!: map_of_SomeD split: option.splits)
next
  fix t a err rs code assume "client_wf t" "a < t_fresh t"
  with client_wf_close [OF this(1), of a err rs code] show "client_step t (fst (closeStream a err rs code t))"
    by (auto simp: client_step_def accounts_kept_def)
next
  fix t ord err assume "client_wf t"
  then show "client_step t (fst (t_Close ord err t))" using client_wf_Close fresh_Close by (auto simp: client_step_def)
qed (auto simp: client_step_def)

section \<open>Requests\<close>

lemma client_wf_cb: "client_wf t \<Longrightarrow> cb_err c = cb_err (t_cb t) \<Longrightarrow> client_wf (t\<lparr>t_cb := c\<rparr>)"
  using plain_client_wf [OF plain_cb] by blast

lemma client_wf_execPut:
  assumes "client_wf t" "\<And>g. f = Some g \<Longrightarrow> cb_err (t_cb t) = None \<Longrightarrow> client_wf (fst (g item t)) \<and> cb_err (t_cb (fst (g item t))) = None"
  shows "client_wf (fst (t_execPut f item t))"
  using assms by (cases rule: execPut_state [of f item t]) (auto intro: client_wf_cb)

lemma client_wf_waiting [simp]: "client_wf (t\<lparr>t_waitingStreams := n\<rparr>) = client_wf t" "client_wf (t\<lparr>t_quotaToken := b\<rparr>) = client_wf t"
  by (simp_all add: client_wf_def streams_of_def quota_used_def)

lemma odd_next: "(n :: u32) mod 2 = 1 \<Longrightarrow> (n + 2) mod 2 = 1"
  by (simp flip: odd_iff_mod_2_eq_one)

lemma client_wf_takeID:
  assumes "client_wf t" "a < t_fresh t" "MuxID (t_streams t a) = 0"
  shows "client_wf (takeID a (t\<lparr>t_streamQuota := t_streamQuota t - 1\<rparr>))"
proof -
  let ?s = "(t_streams t a)\<lparr>MuxID := t_nextID t, s_inFlow := \<lparr>limit = t_initialWindowSize t, pendingData = 0, pendingUpdate = 0, delta = 0\<rparr>\<rparr>"
  let ?u = "takeID a (t\<lparr>t_streamQuota := t_streamQuota t - 1\<rparr>)"
  have u: "?u = t\<lparr>t_streams := (t_streams t)(a := ?s), t_streamQuota := t_streamQuota t - 1, t_nextID := t_nextID t + 2,
      t_closures := (t_nextID t, a) # t_closures t\<rparr>" by (simp add: takeID_def set_stream_def)
  have "stream_weight ?s = stream_weight (t_streams t a) + 1" using assms(1,3) by (simp add: stream_weight_def client_wf_def)
  moreover have "quota_used ?u = quota_used (t\<lparr>t_streams := (t_streams t)(a := ?s)\<rparr>)" by (rule quota_used_cong) (simp_all add: u)
  ultimately have "quota_used ?u = quota_used t + 1" using quota_used_set [OF assms(2), of ?s] by simp
  moreover have "done_closed l ?s = done_closed l (t_streams t a)" for l by (simp add: done_closed_def)
  ultimately show ?thesis using assms(1,2) odd_next [of "t_nextID t"] by (auto simp: client_wf_def u streams_of_def)
qed

lemma client_wf_quota:
  assumes "client_wf t" "a < t_fresh t" "MuxID (t_streams t a) = 0"
  shows "client_wf (fst (checkForStreamQuota firstTry a t)) \<and> cb_err (t_cb (fst (checkForStreamQuota firstTry a t))) = cb_err (t_cb t)"
proof -
  have w: "client_wf (takeID a (t\<lparr>t_waitingStreams := n, t_streamQuota := t_streamQuota t - 1\<rparr>))" for n
    using client_wf_takeID [of "t\<lparr>t_waitingStreams := n\<rparr>" a] assms by simp
  then show ?thesis
    using assms client_wf_takeID [OF assms] by (auto simp: checkForStreamQuota_def client_wf_def [THEN iffD1, THEN conjunct1] IsServer_def Let_def)
qed

lemma writeRequestHeaders_state: "fst (writeRequestHeaders firstTry a flds t) = fst (t_execPut (Some (checkRequest firstTry a flds)) (requestItem a flds t) t)"
  by (simp add: writeRequestHeaders_def split: prod.splits sum.splits bool.splits)

lemma checkRequest_state: "fst (checkRequest firstTry a flds item t) = fst (checkForStreamQuota firstTry a t)"
  by (simp add: checkRequest_def split: prod.splits bool.splits)

lemma client_wf_request:
  assumes "client_wf t" "a < t_fresh t" "MuxID (t_streams t a) = 0"
  shows "client_wf (fst (writeRequestHeaders firstTry a flds t))"
  unfolding writeRequestHeaders_state
  using client_wf_quota [OF assms] by (intro client_wf_execPut [OF assms(1)]) (auto simp: checkRequest_state)

lemma plain_dialed: "plain t (dialed a t)"
  unfolding dialed_def updateHeaderSent_def by (rule plain_trans [OF plain_set plain_call]) simp

lemma client_wf_new:
  assumes "client_wf t" "stream_weight s = 0" "done_closed False s" "b = t_fresh t"
  shows "client_wf (t\<lparr>t_streams := (t_streams t)(b := s), t_fresh := Suc b\<rparr>)"
proof -
  have "quota_used (t\<lparr>t_streams := (t_streams t)(b := s), t_fresh := Suc b\<rparr>) = quota_used t"
    using assms(2,4) by (simp add: quota_used_def lessThan_Suc)
  then show ?thesis using assms by (auto simp: client_wf_def streams_of_def less_Suc_eq done_closed_mono)
qed

lemma client_wf_DialStream:
  assumes "client_wf t"
  shows "client_wf (fst (DialStream onData flds t))"
proof -
  let ?t = "t_call (EvStream EventStreamRequestStart (t_fresh t))
    (t\<lparr>t_streams := (t_streams t)(t_fresh t := dialedStream onData (t_fresh t)), t_fresh := Suc (t_fresh t)\<rparr>)"
  have "client_wf ?t" using client_wf_new [OF assms, of "dialedStream onData (t_fresh t)"] by (simp add: stream_weight_def done_closed_def dialedStream_def)
  then have w: "client_wf (fst (writeRequestHeaders True (t_fresh t) flds ?t))"
    by (rule client_wf_request) (simp_all add: dialedStream_def)
  obtain t2 r where "writeRequestHeaders True (t_fresh t) flds ?t = (t2, r)" by fastforce
  with w plain_client_wf [OF plain_dialed] show ?thesis by (auto simp: DialStream_def Let_def split: sum.splits dial_result.splits)
qed

lemma client_wf_dialWake:
  assumes "client_wf t" "a < t_fresh t" "MuxID (t_streams t a) = 0" "dialWake n w a flds t = Some (u, r)"
  shows "client_wf u"
proof -
  have "client_wf (fst (writeRequestHeaders False a flds t))" "client_wf (fst (writeRequestHeaders False a flds (t\<lparr>t_quotaToken := False\<rparr>)))"
    using assms(1-3) by (auto intro: client_wf_request)
  then show ?thesis using assms(1,4) by (cases w) (auto split: if_splits)
qed

lemma update_subset: "set (AList.update k v m) \<subseteq> insert (k, v) (set m)"
  by (induction m) auto

lemma client_wf_initStream:
  assumes "client_wf t" "(sid, a) \<in> set (t_closures t)"
  shows "client_wf (fst (fst (initStream a sid t)))"
proof -
  have a: "a < t_fresh t" using assms by (auto simp: client_wf_def)
  have p: "plain t (set_stream a (\<lambda>s. s\<lparr>unprocessed := True\<rparr>) t)" by (rule plain_set) simp
  have "client_wf (fst (orphanedRequest ErrConnClosingT a t))"
    unfolding orphanedRequest_def using client.R_close_after [OF assms(1) a p] assms(1) by (simp add: client_step_def)
  moreover have "client_wf (t\<lparr>t_activeStreams := Some (AList.update sid a m), streamsStarted := n\<rparr>)" if "t_activeStreams t = Some m" for m n
    using assms(1) a that update_subset [of sid a m] by (fastforce simp: client_wf_def streams_of_def quota_used_def)
  ultimately show ?thesis using assms(1) by (auto simp: initStream_def split: option.splits)
qed

section \<open>Frames\<close>

lemma client_wf_ignored2 [simp]:
  "client_wf (t\<lparr>t_maxStreamID := n\<rparr>) = client_wf t" "client_wf (t\<lparr>t_idle := i\<rparr>) = client_wf t" "client_wf (t\<lparr>t_closing := b\<rparr>) = client_wf t"
  "client_wf (t\<lparr>t_prevGoAwayID := n\<rparr>) = client_wf t" "client_wf (t\<lparr>t_goAwayReason := r, t_goAway := b\<rparr>) = client_wf t"
  "client_wf (t\<lparr>t_FrameSize := n\<rparr>) = client_wf t" "client_wf (t\<lparr>t_maxSendHeaderListSize := h\<rparr>) = client_wf t"
  "client_wf (t\<lparr>t_quotaChan := k\<rparr>) = client_wf t"
  by (simp_all add: client_wf_def streams_of_def quota_used_def)

lemma client_wf_put: "client_wf t \<Longrightarrow> client_wf (fst (t_put i t))"
  using plain_client_wf [OF plain_put] by blast

lemma client_wf_do:
  assumes "client_wf (fst r)" "\<And>u. client_wf u \<Longrightarrow> client_wf (fst (k u))"
  shows "client_wf (fst (and_do r k))"
  using assms by (cases "(r, k)" rule: and_do.cases) auto

lemma client_wf_limit:
  assumes "client_wf t"
  shows "client_wf (updateStreamQuota mx t) \<and> cb_err (t_cb (updateStreamQuota mx t)) = cb_err (t_cb t)"
proof -
  have "client_wf (t\<lparr>t_maxConcurrentStreams := mx, t_streamQuota := t_streamQuota t + (int (unat mx) - int (unat (t_maxConcurrentStreams t)))\<rparr>)"
    using assms by (auto simp: client_wf_def streams_of_def quota_used_def)
  then show ?thesis by (simp add: updateStreamQuota_def Let_def)
qed

lemma client_wf_settings:
  assumes "client_wf t"
  shows "client_wf (fst (clientHandleSettings isFirst ack p t))"
proof (cases ack)
  case False
  define r where "r = readSettings False p t"
  define upd where "upd = (\<lambda>t. let t1 = applyHeaderList (sr_headerList r) t
    in case if isFirst \<and> sr_maxStreams r = None then Some (2 ^ 32 - 1) else sr_maxStreams r of None \<Rightarrow> t1 | Some v \<Rightarrow> updateStreamQuota v t1)"
  obtain t1 x where x: "t_execPut (Some (\<lambda>item t. (upd t, True))) (IncomingSettings (sr_ss r)) (t\<lparr>t_FrameSize := sr_FrameSize r\<rparr>) = (t1, x)"
    by fastforce
  have "client_wf u \<Longrightarrow> client_wf (upd u) \<and> cb_err (t_cb (upd u)) = cb_err (t_cb u)" for u
    using client_wf_limit [of "u\<lparr>t_maxSendHeaderListSize := h\<rparr>" for h] client_wf_limit [of u]
    by (auto simp: upd_def applyHeaderList_def Let_def split: option.splits)
  with client_wf_execPut [of "t\<lparr>t_FrameSize := sr_FrameSize r\<rparr>" "Some (\<lambda>item t. (upd t, True))" "IncomingSettings (sr_ss r)"] assms x
  have "client_wf t1" by auto
  moreover have "clientHandleSettings isFirst ack p t = (case (t1, x) of (t1, Inl f) \<Rightarrow> (t1, Some f) | (t1, Inr x) \<Rightarrow> (t_call (EvMux Event_Settings) t1, None))"
    unfolding x [symmetric] by (simp only: clientHandleSettings_def upd_def r_def Let_def False if_False)
  ultimately show ?thesis by (cases x) auto
qed (simp add: clientHandleSettings_def assms)

lemma plain_clientHandlePing: "plain t (fst (clientHandlePing fl now ack d t))"
  using plain_bdp_ping by (auto simp: clientHandlePing_def Let_def split: option.splits prod.splits)

lemma client_wf_killAll:
  assumes "client_wf t" "\<forall>a \<in> set as. a < t_fresh t"
  shows "client_wf (fst (killAll as t))"
  using assms
proof (induction as arbitrary: t)
  case (Cons a as)
  let ?v = "set_stream a (\<lambda>s. s\<lparr>unprocessed := True\<rparr>) t"
  have p: "plain t ?v" by (rule plain_set) simp
  obtain u f where u: "closeStream a (Some ErrStreamDrain) False ErrCodeNo ?v = (u, f)" by fastforce
  have "client_wf u" "accounts_kept ?v u"
    using client_wf_close [OF plain_client_wf [OF p Cons.prems(1)], of a "Some ErrStreamDrain" False ErrCodeNo] Cons.prems(2) u by auto
  with Cons.IH [of u] Cons.prems(2) u show ?case by (cases f) (auto simp: accounts_kept_def)
qed simp

lemma client_wf_goAway:
  assumes "client_wf t" "\<And>xs. set (ord xs) \<subseteq> set xs"
  shows "client_wf (fst (handleGoAway ord sid code debug t))"
proof -
  have k: "client_wf (fst (killAll (ord (killed sid n u)) u))" if "client_wf u" for u n
  proof (rule client_wf_killAll [OF that])
    have "\<forall>a \<in> set (killed sid n u). a < t_fresh u" using that by (auto simp: client_wf_def killed_def streams_of_def split: option.splits)
    then show "\<forall>a \<in> set (ord (killed sid n u)). a < t_fresh u" using assms(2) by blast
  qed
  have "client_wf (fst (and_do (if t_goAway t then (t, None)
           else and_do (t_put IncomingGoAway (t\<lparr>t_goAwayReason := setGoAwayReason code debug, t_goAway := True\<rparr>))
                  (\<lambda>t1. ((t_call (EvMux Event_GoAway) t1)\<lparr>t_closing := True\<rparr>, None)))
          (\<lambda>t2. and_do (killAll (ord (killed sid (if t_prevGoAwayID t2 = 0 then 2 ^ 32 - 1 else t_prevGoAwayID t2) t2)) t2) (\<lambda>t3.
              if (case t_activeStreams (t3\<lparr>t_prevGoAwayID := sid\<rparr>) of None \<Rightarrow> True | Some m \<Rightarrow> m = [])
              then t_Close ord (Some ErrGoAwayIdle) (t3\<lparr>t_prevGoAwayID := sid\<rparr>) else (t3\<lparr>t_prevGoAwayID := sid\<rparr>, None)))))"
    using assms(1) client_wf_put [of "t\<lparr>t_goAwayReason := setGoAwayReason code debug, t_goAway := True\<rparr>"] k client_wf_Close
    by (intro client_wf_do) (auto intro!: client_wf_do)
  then show ?thesis using assms(1) client_wf_Close by (auto simp: handleGoAway_def Let_def simp del: and_do.simps)
qed

lemma client_wf_registerAccepted:
  assumes "client_wf t" "a < t_fresh t"
  shows "client_wf (fst (registerAccepted sid a t))"
proof (cases "t_activeStreams t")
  case (Some m)
  let ?m = "AList.update sid a m"
  have "client_wf (t\<lparr>t_activeStreams := Some ?m\<rparr>)"
    using assms Some update_subset [of sid a m] by (fastforce simp: client_wf_def streams_of_def quota_used_def)
  then have u: "client_wf (t_call e (if length ?m = 1 then t\<lparr>t_activeStreams := Some ?m, t_idle := None\<rparr> else t\<lparr>t_activeStreams := Some ?m\<rparr>))" for e
    by simp
  let ?u = "t_call (EvStream EventStreamStart a) (if length ?m = 1 then t\<lparr>t_activeStreams := Some ?m, t_idle := None\<rparr> else t\<lparr>t_activeStreams := Some ?m\<rparr>)"
  obtain v f where v: "t_put (RegisterStream sid (s_outFlow (t_streams t a))) ?u = (v, f)" by fastforce
  have "client_wf v" "a < t_fresh v"
    using client_wf_put [OF u, of "RegisterStream sid (s_outFlow (t_streams t a))" "EvStream EventStreamStart a"] v assms(2)
      plain_put [of ?u "RegisterStream sid (s_outFlow (t_streams t a))"] by (auto simp: plain_def split: if_splits)
  then have "client_wf (fst (and_do (v, f) (\<lambda>t3. if t_handle t3 then (t_call (CallHandle a) t3, None) else closeStream a None True 1 t3)))"
    using client_wf_close(1) [of v a None True 1] by (cases f) auto
  then show ?thesis using assms(1) Some v by (auto simp: registerAccepted_def IsServer_def client_wf_def [of t] Let_def simp del: and_do.simps)
qed (use assms in \<open>auto simp: registerAccepted_def IsServer_def client_wf_def [of t]\<close>)

lemma client_wf_acceptHeaders:
  assumes "client_wf t" "StreamID fh mod 2 = 0"
  shows "client_wf (fst (fst (operateAcceptHeaders fh flds tr t)))"
proof -
  let ?s = "acceptedStream (StreamID fh) (t_fresh t) (t_initialWindowSize t)"
  let ?s1 = "if StreamEnded fh then setReadClosed 1 ErrEOF ?s else ?s"
  let ?u = "t\<lparr>t_maxStreamID := StreamID fh, t_streams := (t_streams t)(t_fresh t := ?s1), t_fresh := Suc (t_fresh t)\<rparr>"
  have "stream_weight ?s1 = 0" "done_closed False ?s1"
    using assms(2) by (simp_all add: stream_weight_def done_closed_def acceptedStream_def setReadClosed_def queueReadBuf_def Let_def)
  with client_wf_new [of "t\<lparr>t_maxStreamID := StreamID fh\<rparr>" ?s1] assms(1) have "client_wf ?u" by simp
  then have "client_wf (fst (registerAccepted (StreamID fh) (t_fresh t) ?u))" by (rule client_wf_registerAccepted) simp
  moreover have "client_wf (fst (refuseStream sid code u))" if "client_wf u" for sid code u using that plain_client_wf [OF plain_refuseStream] by blast
  ultimately show ?thesis using assms(1) by (simp add: operateAcceptHeaders_def Let_def)
qed

lemma client_wf_headers:
  assumes "client_wf t"
  shows "client_wf (fst (operateClientResponseHeaders fh flds tr t))"
  using assms client_wf_acceptHeaders [OF assms] client.R_operateResponseHeaders [OF assms, of fh flds tr]
  by (simp add: operateClientResponseHeaders_def client_step_def)

lemma client_wf_deleteStream:
  assumes "client_wf t"
  shows "client_wf (fst (deleteStream now ord a t))"
proof (cases "t_activeStreams t")
  case (Some m)
  have d: "client_wf (t\<lparr>t_activeStreams := Some m'\<rparr>)" if "set m' \<subseteq> set m" for m'
    using assms Some that by (fastforce simp: client_wf_def streams_of_def quota_used_def)
  have "client_wf (t\<lparr>t_activeStreams := Some []\<rparr>)" "client_wf (t\<lparr>t_activeStreams := Some (AList.delete k m)\<rparr>)" for k
    by (auto intro!: d simp: AList.delete_eq)
  then show ?thesis using assms Some client_wf_Close [of "t\<lparr>t_activeStreams := Some [], t_idle := Some now\<rparr>"] by (auto simp: deleteStream_def Let_def)
qed (simp add: deleteStream_def assms)

lemma client_wf_frame:
  assumes "client_wf t" "\<And>xs. set (ord xs) \<subseteq> set xs"
  shows "client_wf (fst (clientFrame fl now ord f t))"
  using assms client_wf_headers client_wf_settings client_wf_goAway [OF assms] client.R_handleData [OF assms(1)]
    plain_client_wf [OF plain_clientHandlePing] plain_client_wf [OF plain_handleRSTStream] plain_client_wf [OF plain_handleWindowUpdate]
  by (cases f) (auto simp: client_step_def)

section \<open>Reachable states\<close>

text \<open>
  A client from its start. Each step is one method, whole: the reader handles a frame, or the error of ReadFrame;
  a request is sent, or a waiting one is woken up; the application calls a method of a stream; the writer takes
  items from the queue, calls initStream and deleteStream, and finishes the buffer; the keepalive goroutine
  sends a ping; the connection is closed. Go iterates over the streams in some order (\<open>ord\<close>).
\<close>

inductive client_reach :: "float_ops \<Rightarrow> H2Config \<Rightarrow> H2Transport \<Rightarrow> bool" for fl cfg where
  start: "client_reach fl cfg ((startedConn cfg (NewConnection now cfg st))\<lparr>t_handle := h\<rparr>)"
| settings: "client_reach fl cfg t \<Longrightarrow> client_reach fl cfg (fst (clientHandleSettings True ack p t))"
| frame: "client_reach fl cfg t \<Longrightarrow> (\<And>xs. set (ord xs) \<subseteq> set xs) \<Longrightarrow> client_reach fl cfg (fst (clientFrame fl now ord f t))"
| bad: "client_reach fl cfg t \<Longrightarrow> client_reach fl cfg (fst (clientFrameError ord e t))"
| dial: "client_reach fl cfg t \<Longrightarrow> client_reach fl cfg (fst (DialStream onData flds t))"
| wake: "client_reach fl cfg t \<Longrightarrow> a < t_fresh t \<Longrightarrow> MuxID (t_streams t a) = 0 \<Longrightarrow> dialWake n w a flds t = Some (u, r) \<Longrightarrow>
    client_reach fl cfg (if r = Inr DialQueued then dialed a u else u)"
| wait: "client_reach fl cfg t \<Longrightarrow> a < t_fresh t \<Longrightarrow> WaitHeaders c a t = Some (u, f) \<Longrightarrow> client_reach fl cfg u"
| send: "client_reach fl cfg t \<Longrightarrow> a < t_fresh t \<Longrightarrow> client_reach fl cfg (fst (Send got a b spare i j fin t))"
| writes: "client_reach fl cfg t \<Longrightarrow> a < t_fresh t \<Longrightarrow> client_reach fl cfg (fst (t_Write got a b spare fin t))"
| closeWrite: "client_reach fl cfg t \<Longrightarrow> a < t_fresh t \<Longrightarrow> client_reach fl cfg (fst (CloseWrite a t))"
| closeError: "client_reach fl cfg t \<Longrightarrow> a < t_fresh t \<Longrightarrow> client_reach fl cfg (fst (CloseError a code t))"
| closeS: "client_reach fl cfg t \<Longrightarrow> a < t_fresh t \<Longrightarrow> client_reach fl cfg (fst (stream_Close a t))"
| recvs: "client_reach fl cfg t \<Longrightarrow> client_reach fl cfg (fst (fst (RecvRaw q a t)))"
| reads: "client_reach fl cfg t \<Longrightarrow> client_reach fl cfg (fst (fst (Read k a t)))"
| adjust: "client_reach fl cfg t \<Longrightarrow> client_reach fl cfg (fst (adjustWindow a n t))"
| ping: "client_reach fl cfg t \<Longrightarrow> client_reach fl cfg (fst (t_put (PingItem False d) t))"
| taken: "client_reach fl cfg t \<Longrightarrow> cb_err c = cb_err (t_cb t) \<Longrightarrow> client_reach fl cfg (t\<lparr>t_cb := c\<rparr>)"
| init: "client_reach fl cfg t \<Longrightarrow> (sid, a) \<in> set (t_closures t) \<Longrightarrow> client_reach fl cfg (fst (fst (initStream a sid t)))"
| deleted: "client_reach fl cfg t \<Longrightarrow> client_reach fl cfg (fst (deleteStream now ord a t))"
| finished: "client_reach fl cfg t \<Longrightarrow> client_reach fl cfg (fst (t_finish t))"
| closed: "client_reach fl cfg t \<Longrightarrow> client_reach fl cfg (fst (t_Close ord err t))"

lemma client_wf_start: "client_wf ((startedConn cfg (NewConnection now cfg st))\<lparr>t_handle := h\<rparr>)"
  by (simp add: client_wf_def NewConnection_def startedConn_def newTransport_def streams_of_def quota_used_def newControlBuffer_def defaultMaxStreamsClient_def Let_def)

lemma client_wf_wait:
  assumes "client_wf t" "a < t_fresh t" "WaitHeaders c a t = Some (u, f)"
  shows "client_wf u"
proof (cases c)
  case (OnDone e)
  obtain v g where v: "closeStream a (Some (ContextErr e)) True ErrCodeCancel t = (v, g)" by fastforce
  then have "client_wf v" using client_wf_close(1) [OF assms(1), of a "Some (ContextErr e)" True ErrCodeCancel] assms(2) by simp
  then show ?thesis using assms(1,3) OnDone v by (cases g) (auto simp: WaitHeaders_def split: if_splits)
qed (use assms in \<open>auto simp: WaitHeaders_def split: if_splits\<close>)

lemma client_reach_wf: "client_reach fl cfg t \<Longrightarrow> client_wf t"
proof (induction rule: client_reach.induct)
  case (bad t ord e)
  then show ?case using client.R_clientFrameError by (simp add: client_step_def)
next
  case (send t a got b spare i j fin)
  then show ?case using client.R_Send by (simp add: client_step_def)
next
  case (writes t a got b spare fin)
  then show ?case using client.R_Write by (simp add: client_step_def)
next
  case (closeWrite t a)
  then show ?case using client.R_CloseWrite by (simp add: client_step_def)
next
  case (closeError t a code)
  then show ?case using client_wf_close(1) by (simp add: CloseError_def)
next
  case (closeS t a)
  then show ?case using client.R_stream_Close by (simp add: client_step_def)
next
  case (wake t a n w flds u r)
  then show ?case using client_wf_dialWake plain_client_wf [OF plain_dialed] by (simp split: if_split)
qed (auto intro: client_wf_start client_wf_settings client_wf_frame client_wf_DialStream client_wf_wait client_wf_put client_wf_cb
    client_wf_initStream client_wf_deleteStream client_wf_finish(1) client_wf_Close plain_reads [THEN plain_client_wf] plain_client_wf [OF plain_adjustWindow])

section \<open>The quota counts the open requests\<close>

text \<open>
  The requests that have an identifier and are not done, and the streams that are done without having taken
  quota, as the ones that the peer opened.
\<close>

definition requests_open :: "H2Transport \<Rightarrow> nat" where
  "requests_open t = length (filter (\<lambda>a. MuxID (t_streams t a) mod 2 = 1 \<and> \<not> streamDone (t_streams t a)) [0..<t_fresh t])"

definition others_closed :: "H2Transport \<Rightarrow> nat" where
  "others_closed t = length (filter (\<lambda>a. MuxID (t_streams t a) mod 2 = 0 \<and> streamDone (t_streams t a)) [0..<t_fresh t])"

lemma mod_2_cases: "(n :: u32) mod 2 = 0 \<or> n mod 2 = 1"
  by (metis even_iff_mod_2_eq_zero odd_iff_mod_2_eq_one)

lemma quota_used_counts: "quota_used t = int (requests_open t) - int (others_closed t)"
proof -
  have "(\<Sum>a<n. stream_weight (f a)) = int (length (filter (\<lambda>a. MuxID (f a) mod 2 = 1 \<and> \<not> streamDone (f a)) [0..<n]))
      - int (length (filter (\<lambda>a. MuxID (f a) mod 2 = 0 \<and> streamDone (f a)) [0..<n]))" for f n
  proof (induction n)
    case (Suc n)
    then show ?case using mod_2_cases [of "MuxID (f n)"] by (auto simp: stream_weight_def)
  qed simp
  then show ?thesis by (simp add: quota_used_def requests_open_def others_closed_def)
qed

lemma execPut_accepted: "snd (t_execPut (Some g) item t) = Inr (Inr ok) \<Longrightarrow> snd (g item t) = ok"
  by (auto simp: t_execPut_def executeAndPut_def Let_def split: if_splits option.splits prod.splits)

lemma queued_needs_quota:
  assumes "client_wf t" "snd (DialStream onData flds t) = Inr DialQueued"
  shows "t_streamQuota t > 0"
proof -
  let ?a = "t_fresh t"
  let ?t = "t_call (EvStream EventStreamRequestStart ?a) (t\<lparr>t_streams := (t_streams t)(?a := dialedStream onData ?a), t_fresh := Suc ?a\<rparr>)"
  obtain u r where u: "t_execPut (Some (checkRequest True ?a flds)) (requestItem ?a flds ?t) ?t = (u, r)" by fastforce
  have "snd (writeRequestHeaders True ?a flds ?t) = Inr DialQueued"
    using assms(2) by (auto simp: DialStream_def Let_def split: prod.splits sum.splits dial_result.splits)
  then have "r = Inr (Inr True)" using u by (auto simp: writeRequestHeaders_def split: sum.splits bool.splits if_splits)
  then have "snd (checkRequest True ?a flds (requestItem ?a flds ?t) ?t)" using execPut_accepted [of _ _ ?t True] u by (metis snd_conv)
  moreover have "t_side ?t = clientSide" "t_streamQuota ?t = t_streamQuota t" using assms(1) by (simp_all add: client_wf_def t_call_def)
  ultimately show ?thesis by (auto simp: checkRequest_def checkForStreamQuota_def IsServer_def split: if_splits)
qed


section \<open>A request whose context is over returns\<close>

lemma closeStream_returns:
  assumes "client_wf t" "a < t_fresh t" "headerChan (t_streams t a)" "\<not> t_cbLocked t"
  shows "\<exists>u. closeStream a err rs code t = (u, None) \<and> streamDone (t_streams u a) \<and> headerChanClosed (t_streams u a)"
proof -
  have d: "done_closed False (t_streams t a)" using assms by (auto simp: client_wf_def)
  show ?thesis
  proof (cases "streamDone (t_streams t a)")
    case True
    then show ?thesis using d assms(3) by (cases "s_done (t_streams t a)") (auto simp: closeStream_def done_closed_def)
  next
    case False
    obtain u where u: "closeStream a err rs code t = (u, None)" "streamDone (t_streams u a)"
      using closeStream_first [OF False assms(4), of err rs code] by auto
    moreover obtain s where "t_streams u = (t_streams t)(a := s)" "headerChan s"
      using closeStream_fields(2) [OF False, of err rs code u False] u(1) assms(3) by auto
    moreover have "client_wf u" "t_fresh u = t_fresh t" using client_wf_close [OF assms(1), of a err rs code] assms(2) u(1) by (auto simp: accounts_kept_def)
    ultimately show ?thesis using assms(2) by (auto simp: client_wf_def done_closed_def split: if_splits)
  qed
qed


section \<open>Witnesses\<close>

text \<open>A client after its start, after a stream of the peer, and after a request.\<close>

lemma newClient_reach: "client_reach fl zeroConfig newClient"
  using client_reach.start [where h = False and now = 0 and st = "\<lambda>_. dialedStream False 0" and fl = fl and cfg = zeroConfig] by (simp add: newClient_def NewConnection_def startedConn_def newTransport_def Let_def)

definition pushed :: H2Transport where
  "pushed = fst (clientFrame int_floats 0 id
     (MetaHeadersFrame \<lparr>valid = True, Type = FrameHeaders, Flags = 0, Length = 0, StreamID = 2\<rparr> zeroPriority [] False) newClient)"

lemma pushed_reach: "client_reach int_floats zeroConfig pushed"
  unfolding pushed_def by (rule client_reach.frame [OF newClient_reach]) simp

lemma newClient_fields [simp]:
  "t_fresh newClient = 0" "t_maxStreamID newClient = 0" "t_closing newClient = False" "t_activeStreams newClient = Some []"
  "t_handle newClient = False" "t_initialWindowSize newClient = 65535" "t_maxConcurrentStreams newClient = 100"
  "t_waitingStreams newClient = 0"
  by (simp_all add: newClient_def NewConnection_def startedConn_def Let_def) (simp_all add: newTransport_def)

lemma pushed_fields: "cb_err (t_cb pushed) = None \<and> t_streamQuota pushed = 101 \<and> t_maxConcurrentStreams pushed = 100 \<and> requests_open pushed = 0"
proof -
  let ?s = "acceptedStream 2 0 65535"
  let ?t = "t_call (EvStream EventStreamStart 0) (newClient\<lparr>t_maxStreamID := 2, t_streams := (t_streams newClient)(0 := ?s), t_fresh := Suc 0,
    t_activeStreams := Some [(2, 0)], t_idle := None\<rparr>)"
  have "open_transport ?t" using newClient_simps(1) by (simp add: open_transport_def)
  from t_put_open [OF this, of "RegisterStream 2 (s_outFlow ?s)"] obtain c where c:
    "t_put (RegisterStream 2 (s_outFlow ?s)) ?t = (?t\<lparr>t_cb := c\<rparr>, None)" "cb_err c = None" by blast
  let ?u = "?t\<lparr>t_cb := c\<rparr>"
  have d: "\<not> streamDone (t_streams ?u 0)" by (simp add: acceptedStream_def)
  have l: "\<not> t_cbLocked ?u" "t_streamQuota ?u = 100" "t_handle ?u = False" "cb_err (t_cb ?u) = None" "t_fresh ?u = 1" "t_maxConcurrentStreams ?u = 100"
    "stream_weight (t_streams ?u 0) = 0"
    using newClient_simps c(2) by (simp_all add: open_transport_def t_call_def stream_weight_def acceptedStream_def)
  have p: "pushed = fst (closeStream 0 None True 1 ?u)"
    using c l by (simp add: pushed_def operateClientResponseHeaders_def IsServer_def operateAcceptHeaders_def acceptFields_def new_request_def
      registerAccepted_def StreamEnded_def Has_def FlagHeadersEndStream_def Let_def)
  note f = closeStream_fields [OF d p [symmetric]]
  from f(2) [of False] l(7) obtain s where s: "t_streams pushed 0 = s" "stream_weight s = -1" by auto
  then have "\<not> (MuxID s mod 2 = 1 \<and> \<not> streamDone s)" by (auto simp: stream_weight_def of_bool_def split: if_splits)
  then have "requests_open pushed = 0" using s(1) f(1) l(5) by (auto simp: requests_open_def accounts_kept_def)
  then show ?thesis using f(1) f(3) [OF l(4) l(1)] l by (simp add: accounts_kept_def)
qed



end
