(* ===== verification/Handshake.thy ===== *)
theory Handshake
  imports Frame_Round_Trip Transport_Rules
begin

text \<open>
  Setting up a connection with the frames that are exchanged (\<^verbatim>\<open>StartConn\<close> in \<^verbatim>\<open>h2/h2_connection.go\<close>,
  \<^verbatim>\<open>NewServerConnection\<close> in \<^verbatim>\<open>h2/h2_connection_server.go\<close>): the preface, the settings and the window update of
  each side, through its framer and its buffer, with the errors of the connection. Starting the goroutines
  is not part of it.
\<close>

section \<open>Both sides\<close>

definition defaultClientMaxHeaderListSize :: u32 where "defaultClientMaxHeaderListSize = 2 ^ 24"
definition defaultServerMaxHeaderListSize :: u32 where "defaultServerMaxHeaderListSize = 2 ^ 24"

text \<open>The settings, and a window update if the window of the connection is not the default.\<close>

definition writeHello :: "'w writer \<Rightarrow> Setting list \<Rightarrow> u32 \<Rightarrow> 'w Framer \<Rightarrow> 'w Framer \<times> frame_error option" where
  "writeHello wr ss dw f =
     (case WriteSettings wr ss f of
        (f1, Some e) \<Rightarrow> (f1, Some e)
      | (f1, None) \<Rightarrow> if dw > 0 then WriteWindowUpdate wr 0 dw f1 else (f1, None))"

section \<open>The client\<close>

text \<open>
  A failure closes the connection. \<open>bsize\<close> is the size of the write buffer, \<open>r\<close> what the peer sends, \<open>t\<close> the transport of
  \<^verbatim>\<open>NewConnection\<close>.
\<close>

type_synonym 'c start_result = "H2Transport \<times> (fault + h2_error + 'c bufWriter Framer)"

definition startFailed :: "(addr list \<Rightarrow> addr list) \<Rightarrow> h2_error \<Rightarrow> H2Transport \<Rightarrow> 'c start_result" where
  "startFailed ord e t =
     (case t_Close ord (Some e) t of
        (t1, Some f) \<Rightarrow> (t1, Inl f)
      | (t1, None) \<Rightarrow> (t_call CloseConn t1, Inr (Inl e)))"

definition clientWindow :: "H2Config \<Rightarrow> u32" where
  "clientWindow cfg = (if InitialConnWindowSize cfg > 65535 then word_of_int (InitialConnWindowSize cfg - 65535) else 0)"

definition StartConn ::
    "'c writer \<Rightarrow> (addr list \<Rightarrow> addr list) \<Rightarrow> int \<Rightarrow> H2Config \<Rightarrow> 'c \<Rightarrow> bytes \<Rightarrow> H2Transport \<Rightarrow> 'c start_result" where
  "StartConn connWrite ord bsize cfg conn r t =
     (case newFramer conn r bsize (case cfg_MaxHeaderListSize cfg of None \<Rightarrow> defaultClientMaxHeaderListSize | Some v \<Rightarrow> v) (frameSize cfg) of
        Inl e \<Rightarrow> (t, Inl (Panic ''NewDecoder''))
      | Inr fr \<Rightarrow>
          case connWrite conn clientPreface of
            (c, n, Some e) \<Rightarrow> startFailed ord (ErrWriting e) t
          | (c, n, None) \<Rightarrow>
              if n \<noteq> length clientPreface then startFailed ord (ErrPrefaceLength n) t
              else
                (case writeHello (bufWriter_Write connWrite) (clientSettings cfg) (clientWindow cfg) (fr\<lparr>fr_w := (fr_w fr)\<lparr>bw_conn := c\<rparr>\<rparr>) of
                   (fr1, Some e) \<Rightarrow> startFailed ord (ErrWriting e) t
                 | (fr1, None) \<Rightarrow>
                     (case bufFlush connWrite (fr_w fr1) of
                        (w, Some e) \<Rightarrow> startFailed ord (ErrWriting e) t
                      | (w, None) \<Rightarrow> (startedConn cfg t, Inr (Inr (fr1\<lparr>fr_w := w\<rparr>))))))"

section \<open>The server\<close>

text \<open>
  \<^verbatim>\<open>r\<close> is what the peer sends. A connection that is not set up is given up, after the first write together with its
  transport. The error of the flush is ignored.
\<close>

datatype conn_error =
    PrefaceEOF
  | PrefaceShort bytes
  | BogusGreeting bytes
  | SettingsWrite frame_error
  | FirstFrame frame_error
  | FirstNotSettings Frame

definition readPreface :: "bytes \<Rightarrow> conn_error + bytes" where
  "readPreface r =
     (if r = [] then Inl PrefaceEOF
      else if length r < length clientPreface then Inl (PrefaceShort r)
      else if take (length clientPreface) r \<noteq> clientPreface then Inl (BogusGreeting (take (length clientPreface) r))
      else Inr (drop (length clientPreface) r))"

definition NewServerConnection ::
    "'c writer \<Rightarrow> int \<Rightarrow> int \<Rightarrow> H2Config \<Rightarrow> (addr \<Rightarrow> H2Stream) \<Rightarrow> 'c \<Rightarrow> bytes \<Rightarrow> conn_error + fault + H2Transport \<times> 'c bufWriter Framer" where
  "NewServerConnection connWrite bsize now cfg st conn r =
     (case readPreface r of
        Inl e \<Rightarrow> Inl e
      | Inr r1 \<Rightarrow>
          case newFramer conn r1 bsize (case cfg_MaxHeaderListSize cfg of None \<Rightarrow> defaultServerMaxHeaderListSize | Some v \<Rightarrow> v) (frameSize cfg) of
            Inl e \<Rightarrow> Inr (Inl (Panic ''NewDecoder''))
          | Inr fr \<Rightarrow>
              (case writeHello (bufWriter_Write connWrite) (serverSettings cfg) (word_of_int (connWindow cfg - 65535)) fr of
                 (fr1, Some e) \<Rightarrow> Inl (SettingsWrite e)
               | (fr1, None) \<Rightarrow>
                   (case ReadFrame (fr1\<lparr>fr_w := fst (bufFlush connWrite (fr_w fr1))\<rparr>) of
                      (fr2, Inl e) \<Rightarrow> Inl (FirstFrame e)
                    | (fr2, Inr (SettingsFrame fh p)) \<Rightarrow>
                        Inr (case handleSettings (IsAck fh) p (newServerTransport now cfg st) of
                               (t, None) \<Rightarrow> Inr (t, fr2)
                             | (t, Some f) \<Rightarrow> Inl f)
                    | (fr2, Inr f) \<Rightarrow> Inl (FirstNotSettings f))))"

section \<open>What is on the wire\<close>

definition hello_ops :: "Setting list \<Rightarrow> u32 \<Rightarrow> frame_op list" where
  "hello_ops ss dw = OpSettings ss # (if dw > 0 then [OpWindowUpdate 0 dw] else [])"

lemma writeHello_ops: "writeHello wr ss dw f = performAll wr (hello_ops ss dw) f"
  by (auto simp: writeHello_def hello_ops_def split: prod.splits option.splits)

lemma newFramer_ex:
  "\<exists>d. newFramer conn r bsize mh mf = Inr ((SetMaxReadFrameSize (NewFramer (newBufWriter conn (if bsize < 0 then 0 else nat bsize)) r) mf)
     \<lparr>MaxHeaderListSize := mh, ReadMetaHeaders := Some d\<rparr>)"
proof -
  let ?i = "init_dynamicTable\<lparr>allowedMaxSize := http2InitHeaderTableSize\<rparr>"
  have "dt_ok ?i" using init_dynamicTable_ok by (auto simp: dt_ok_def)
  then obtain dt where "setMaxSize ?i http2InitHeaderTableSize = Inr dt" using setMaxSize_ok [of ?i http2InitHeaderTableSize] by auto
  then show ?thesis by (auto simp: newFramer_def NewDecoder_def Let_def)
qed

text \<open>A framer on a pipe, after the hello was written and flushed.\<close>

lemma hello_written:
  assumes "list_all op_legal (hello_ops ss dw)" "buf_good (\<lambda>c. True) (fr_w f)"
  shows "\<exists>f'. writeHello (bufWriter_Write pipeWrite) ss dw f = (f', None) \<and> snd (bufFlush pipeWrite (fr_w f')) = None \<and>
    bw_conn (fst (bufFlush pipeWrite (fr_w f'))) = buf_written (\<lambda>c. c) (fr_w f) @ concat (map op_bytes (hello_ops ss dw))"
proof -
  obtain f' where "performAll (bufWriter_Write pipeWrite) (hello_ops ss dw) f = (f', None)" "buf_good (\<lambda>c. True) (fr_w f')"
    "buf_written (\<lambda>c. c) (fr_w f') = buf_written (\<lambda>c. c) (fr_w f) @ concat (map op_bytes (hello_ops ss dw))"
    using buffered_pipe.performAll_ok [of f "hello_ops ss dw"] assms by auto
  then show ?thesis using flushed_pipe [of "fr_w f'"]
    by (auto simp: writeHello_ops bufFlush_def buf_good_def pipeWrite_def split: prod.splits)
qed

text \<open>Writing leaves the reading part of a framer alone.\<close>

definition reading_same :: "'w Framer \<Rightarrow> 'v Framer \<Rightarrow> bool" where
  "reading_same f g \<longleftrightarrow> fr_r g = fr_r f \<and> lastHeaderStream g = lastHeaderStream f \<and> maxReadSize g = maxReadSize f \<and>
     AllowIllegalReads g = AllowIllegalReads f"

lemma endWrite_reading: "reading_same f (fst (endWrite wr f))"
  by (simp add: endWrite_def reading_same_def Let_def split: prod.splits)

lemma settings_buffered: "reading_same f (foldl (\<lambda>f s. writeUint32 (Val s) (writeUint16 (ID s) f)) f ss)"
  by (induction ss arbitrary: f) (auto simp: reading_same_def writeUint32_def writeUint16_def)

lemma WriteSettings_reading: "reading_same f (fst (WriteSettings wr ss f))"
  using endWrite_reading [of "foldl (\<lambda>f s. writeUint32 (Val s) (writeUint16 (ID s) f)) (startWrite FrameSettings 0 0 f) ss" wr]
    settings_buffered [of "startWrite FrameSettings 0 0 f" ss] by (simp add: WriteSettings_def reading_same_def startWrite_def)

lemma WriteWindowUpdate_reading: "reading_same f (fst (WriteWindowUpdate wr sid n f))"
  using endWrite_reading [of "writeUint32 n (startWrite FrameWindowUpdate 0 sid f)" wr]
  by (simp add: WriteWindowUpdate_def reading_same_def startWrite_def writeUint32_def)

lemma writeHello_reading: "reading_same f (fst (writeHello wr ss dw f))"
proof -
  obtain f1 e where f1: "WriteSettings wr ss f = (f1, e)" by fastforce
  then have "reading_same f f1" using WriteSettings_reading [of f wr ss] by simp
  moreover from this have "reading_same f (fst (WriteWindowUpdate wr 0 dw f1))"
    using WriteWindowUpdate_reading [of f1 wr 0 dw] by (simp add: reading_same_def)
  ultimately show ?thesis using f1 by (cases e) (simp_all add: writeHello_def)
qed

section \<open>Reading the hello\<close>

text \<open>The first frame of the peer, on a framer that has read nothing.\<close>

lemma ReadFrame_op:
  assumes "op_legal op" "fr_r fr = op_bytes op @ r" "length (op_payload op) \<le> unat (maxReadSize fr)" "\<not> AllowIllegalReads fr"
    "lastHeaderStream fr = 0" "op_type op \<notin> {FrameHeaders, FrameContinuation}"
  shows "\<exists>fr'. ReadFrame fr = (fr', Inr (op_frame op)) \<and> fr_r fr' = r \<and> fr_w fr' = fr_w fr \<and> lastHeaderStream fr' = 0 \<and>
    maxReadSize fr' = maxReadSize fr \<and> AllowIllegalReads fr' = AllowIllegalReads fr"
proof -
  have h: "Header (op_frame op) = op_header op" by (cases op) simp_all
  have "order_after (lastHeaderStream fr) (op_frame op) = Some 0" using assms(5,6) by (simp add: order_after_def h op_header_def)
  from readRawFrame_op [OF assms(1-4) this] have
    "readRawFrame fr = (fr\<lparr>errDetail := None, fr_r := r, lastFrame := Some (op_frame op), lastHeaderStream := 0\<rparr>, Inr (op_frame op))" .
  moreover have "\<not> (\<exists>p. op = OpHeaders p)" using assms(6) by auto
  then have "\<nexists>fh prio frag. op_frame op = HeadersFrame fh prio frag" by (cases op) auto
  ultimately show ?thesis by (cases "op_frame op") (auto simp: ReadFrame_def)
qed

section \<open>The settings of both sides\<close>

text \<open>Configurations whose windows are int32 values and whose frames can hold the settings.\<close>

definition config_ok :: "H2Config \<Rightarrow> bool" where
  "config_ok cfg \<longleftrightarrow> InitialWindowSize cfg < 2 ^ 31 \<and> InitialConnWindowSize cfg < 2 ^ 31 \<and> 30 \<le> unat (frameSize cfg)"

lemma window_small: "0 \<le> n \<Longrightarrow> n < 2 ^ 31 \<Longrightarrow> (word_of_int n :: u32) \<le> 2147483647"
  by (simp add: word_le_def uint_word_of_int)

lemma client_settings_length: "length (clientSettings cfg) \<le> 3"
  by (simp add: clientSettings_def)

lemma server_settings_length: "length (serverSettings cfg) \<le> 5"
  by (simp add: serverSettings_def split: option.splits)

lemma window_update_legal: "dw \<le> 2147483647 \<Longrightarrow> list_all op_legal (if dw > 0 then [OpWindowUpdate 0 dw] else [])"
  by (auto simp: op_legal_def validStreamIDOrZero_def word_le_nat_alt word_less_nat_alt)

lemma client_hello_legal:
  assumes "config_ok cfg"
  shows "list_all op_legal (hello_ops (clientSettings cfg) (clientWindow cfg))"
proof -
  have "op_legal (OpSettings (clientSettings cfg))"
    using assms client_settings_length [of cfg] window_small [of "InitialWindowSize cfg"]
    by (auto simp: op_legal_def  config_ok_def clientSettings_def setting_defs split: option.splits)
  moreover have "clientWindow cfg \<le> 2147483647"
    using assms window_small [of "InitialConnWindowSize cfg - 65535"] by (simp add: clientWindow_def config_ok_def)
  ultimately show ?thesis using window_update_legal by (simp add: hello_ops_def)
qed

lemma server_hello_legal:
  assumes "config_ok cfg"
  shows "list_all op_legal (hello_ops (serverSettings cfg) (word_of_int (connWindow cfg - 65535)))"
proof -
  have "op_legal (OpSettings (serverSettings cfg))"
    using assms server_settings_length [of cfg] window_small [of "streamWindow cfg"]
    by (auto simp: op_legal_def  config_ok_def serverSettings_def streamWindow_def initialWindowSize_def setting_defs
        split: option.splits)
  moreover have "(word_of_int (connWindow cfg - 65535) :: u32) \<le> 2147483647"
    using assms by (intro window_small) (auto simp: connWindow_def initialWindowSize_def config_ok_def)
  ultimately show ?thesis using window_update_legal by (simp add: hello_ops_def)
qed

lemma readSettings_bytes:
  "readSettings guarded (setting_bytes ss) t =
     (case foreachLoop (readSetting guarded) \<lparr>sr_maxStreams = None, sr_ss = [], sr_headerList = [], sr_FrameSize = t_FrameSize t\<rparr> ss of
        Inr r \<Rightarrow> r | Inl _ \<Rightarrow> \<lparr>sr_maxStreams = None, sr_ss = [], sr_headerList = [], sr_FrameSize = t_FrameSize t\<rparr>)"
  using settings_of_bytes [of ss] by (simp add: readSettings_def ForeachSetting_def settings_of_def)

text \<open>What the peer understands.\<close>

lemma client_settings_read:
  "sr_headerList (readSettings True (setting_bytes (clientSettings cfg)) t) = [case cfg_MaxHeaderListSize cfg of None \<Rightarrow> 10485760 | Some v \<Rightarrow> v]"
  "sr_FrameSize (readSettings True (setting_bytes (clientSettings cfg)) t) =
     (if MaxFrameSize cfg \<noteq> 0 \<and> MaxFrameSize cfg < t_FrameSize t then MaxFrameSize cfg else t_FrameSize t)"
  by (auto simp: readSettings_bytes clientSettings_def readSetting_def setting_defs split: option.splits dest: le_less_trans [OF word_zero_le])

lemma server_settings_read:
  "sr_maxStreams (readSettings False (setting_bytes (serverSettings cfg)) t) = Some (serverMaxStreams cfg)"
  "sr_headerList (readSettings False (setting_bytes (serverSettings cfg)) t) = (case cfg_MaxHeaderListSize cfg of None \<Rightarrow> [] | Some v \<Rightarrow> [v])"
  "sr_FrameSize (readSettings False (setting_bytes (serverSettings cfg)) t) = (if frameSize cfg < t_FrameSize t then frameSize cfg else t_FrameSize t)"
  by (auto simp: readSettings_bytes serverSettings_def readSetting_def setting_defs split: option.splits)

text \<open>A working connection takes the settings over and queues the rest of them for the writer.\<close>

lemma settings_taken:
  assumes "open_transport t"
  shows "\<exists>t'. handleSettings False p t = (t', None) \<and> open_transport t' \<and> t_maxStreams t' = t_maxStreams t \<and>
    t_FrameSize t' = sr_FrameSize (readSettings True p t) \<and> queued t' = queued t @ [IncomingSettings (sr_ss (readSettings True p t))] \<and>
    t_maxSendHeaderListSize t' = (if sr_headerList (readSettings True p t) = [] then t_maxSendHeaderListSize t else Some (last (sr_headerList (readSettings True p t))))"
proof -
  let ?r = "readSettings True p t"
  let ?u = "t\<lparr>t_FrameSize := sr_FrameSize ?r\<rparr>"
  let ?g = "\<lambda>item t. (applyHeaderList (sr_headerList ?r) t, True)"
  have "open_transport ?u" "queued ?u = queued t" "t_cb (applyHeaderList (sr_headerList ?r) ?u) = t_cb ?u"
    using assms by (simp_all add: open_transport_def queued_def applyHeaderList_def)
  from t_execPut_open [OF this(1), of ?g, OF refl this(3)] this(2) obtain c where
    "t_execPut (Some ?g) (IncomingSettings (sr_ss ?r)) ?u = ((applyHeaderList (sr_headerList ?r) ?u)\<lparr>t_cb := c\<rparr>, Inr (Inr True))"
    "il_wf (cb_list c)" "cb_err c = None" "il_items (cb_list c) = queued t @ [IncomingSettings (sr_ss ?r)]" by auto
  then show ?thesis using assms by (simp add: handleSettings_def Let_def applyHeaderList_def open_transport_def queued_def t_call_def)
qed

lemma client_settings_taken:
  assumes "open_transport t" "sr_maxStreams (readSettings False p t) = Some mx"
  shows "\<exists>t'. clientHandleSettings True False p t = (t', None) \<and> t_maxConcurrentStreams t' = mx \<and>
    t_streamQuota t' = t_streamQuota t + (int (unat mx) - int (unat (t_maxConcurrentStreams t))) \<and>
    t_FrameSize t' = sr_FrameSize (readSettings False p t) \<and> queued t' = queued t @ [IncomingSettings (sr_ss (readSettings False p t))] \<and>
    t_maxSendHeaderListSize t' = (if sr_headerList (readSettings False p t) = [] then t_maxSendHeaderListSize t else Some (last (sr_headerList (readSettings False p t))))"
proof -
  let ?r = "readSettings False p t"
  let ?u = "t\<lparr>t_FrameSize := sr_FrameSize ?r\<rparr>"
  let ?g = "\<lambda>item t. (updateStreamQuota mx (applyHeaderList (sr_headerList ?r) t), True)"
  have "open_transport ?u" "queued ?u = queued t" "t_cb (updateStreamQuota mx (applyHeaderList (sr_headerList ?r) ?u)) = t_cb ?u"
    using assms(1) by (simp_all add: open_transport_def queued_def applyHeaderList_def updateStreamQuota_def Let_def)
  from t_execPut_open [OF this(1), of ?g, OF refl this(3)] this(2) obtain c where
    "t_execPut (Some ?g) (IncomingSettings (sr_ss ?r)) ?u = ((updateStreamQuota mx (applyHeaderList (sr_headerList ?r) ?u))\<lparr>t_cb := c\<rparr>, Inr (Inr True))"
    "il_items (cb_list c) = queued t @ [IncomingSettings (sr_ss ?r)]" by auto
  then show ?thesis using assms(2)
    by (simp add: clientHandleSettings_def applyHeaderList_def updateStreamQuota_def queued_def t_call_def Let_def)
qed

section \<open>The handshake\<close>

lemma new_framer_good: "buf_good (\<lambda>c. True) (newBufWriter c n)" "buf_written (\<lambda>c. c) (newBufWriter c n) = c"
  by (simp_all add: buf_good_def buf_written_def newBufWriter_def)

lemma read_limit: "30 \<le> unat mf \<Longrightarrow> 30 \<le> unat (maxReadSize (SetMaxReadFrameSize fr mf))"
  by (simp add: SetMaxReadFrameSize_def maxFrameSize_def)

text \<open>The client writes its preface, its settings and its window update.\<close>

lemma client_starts:
  assumes "config_ok cfg"
  shows "\<exists>fr. StartConn pipeWrite ord bsize cfg [] r t = (startedConn cfg t, Inr (Inr fr)) \<and>
    bw_conn (fr_w fr) = clientPreface @ concat (map op_bytes (hello_ops (clientSettings cfg) (clientWindow cfg))) \<and>
    fr_r fr = r \<and> lastHeaderStream fr = 0 \<and> 30 \<le> unat (maxReadSize fr) \<and> \<not> AllowIllegalReads fr \<and>
    maxReadSize fr = (if frameSize cfg > maxFrameSize then maxFrameSize else frameSize cfg)"
proof -
  let ?mh = "case cfg_MaxHeaderListSize cfg of None \<Rightarrow> defaultClientMaxHeaderListSize | Some v \<Rightarrow> v"
  let ?n = "if bsize < 0 then 0 else nat bsize"
  let ?ops = "hello_ops (clientSettings cfg) (clientWindow cfg)"
  obtain d where d: "newFramer ([] :: bytes) r bsize ?mh (frameSize cfg) = Inr ((SetMaxReadFrameSize (NewFramer (newBufWriter [] ?n) r) (frameSize cfg))
      \<lparr>MaxHeaderListSize := ?mh, ReadMetaHeaders := Some d\<rparr>)" using newFramer_ex [of "[] :: bytes" r bsize ?mh "frameSize cfg"] by blast
  let ?fr = "((SetMaxReadFrameSize (NewFramer (newBufWriter [] ?n) r) (frameSize cfg))
      \<lparr>MaxHeaderListSize := ?mh, ReadMetaHeaders := Some d\<rparr>)"
  let ?f = "?fr\<lparr>fr_w := (fr_w ?fr)\<lparr>bw_conn := clientPreface\<rparr>\<rparr>"
  have w: "fr_w ?f = newBufWriter clientPreface ?n" by (simp add: SetMaxReadFrameSize_def NewFramer_def newBufWriter_def)
  from hello_written [OF client_hello_legal [OF assms], of ?f] w obtain f' where f':
    "writeHello (bufWriter_Write pipeWrite) (clientSettings cfg) (clientWindow cfg) ?f = (f', None)" "snd (bufFlush pipeWrite (fr_w f')) = None"
    "bw_conn (fst (bufFlush pipeWrite (fr_w f'))) = clientPreface @ concat (map op_bytes ?ops)"
    by (auto simp: new_framer_good)
  have "reading_same ?f f'" using writeHello_reading [of ?f] f'(1) by (metis fst_conv)
  then have rd: "fr_r f' = r" "lastHeaderStream f' = 0" "\<not> AllowIllegalReads f'" "maxReadSize f' = maxReadSize (SetMaxReadFrameSize (NewFramer (newBufWriter [] ?n) r) (frameSize cfg))"
    by (simp_all add: reading_same_def SetMaxReadFrameSize_def NewFramer_def)
  obtain w' where "bufFlush pipeWrite (fr_w f') = (w', None)" using f'(2) by (metis prod.collapse)
  then have "StartConn pipeWrite ord bsize cfg [] r t = (startedConn cfg t, Inr (Inr (f'\<lparr>fr_w := w'\<rparr>)))" "bw_conn w' = clientPreface @ concat (map op_bytes ?ops)"
    using d f' by (simp_all add: StartConn_def pipeWrite_def)
  then show ?thesis using rd read_limit [of "frameSize cfg"] assms by (auto simp: config_ok_def SetMaxReadFrameSize_def)
qed

text \<open>The server that reads this writes its own hello, and takes over the settings.\<close>

lemma server_accepts:
  assumes c: "config_ok ccfg" and s: "config_ok scfg"
  shows "\<exists>ts fr. NewServerConnection pipeWrite bsize now scfg st []
      (clientPreface @ concat (map op_bytes (hello_ops (clientSettings ccfg) (clientWindow ccfg))) @ rest) = Inr (Inr (ts, fr)) \<and>
    bw_conn (fr_w fr) = concat (map op_bytes (hello_ops (serverSettings scfg) (word_of_int (connWindow scfg - 65535)))) \<and>
    fr_r fr = concat (map op_bytes (tl (hello_ops (clientSettings ccfg) (clientWindow ccfg)))) @ rest \<and>
    lastHeaderStream fr = 0 \<and> 30 \<le> unat (maxReadSize fr) \<and> \<not> AllowIllegalReads fr \<and>
    fst (handleSettings False (setting_bytes (clientSettings ccfg)) (newServerTransport now scfg st)) = ts"
proof -
  let ?r = "concat (map op_bytes (hello_ops (clientSettings ccfg) (clientWindow ccfg))) @ rest"
  let ?mh = "case cfg_MaxHeaderListSize scfg of None \<Rightarrow> defaultServerMaxHeaderListSize | Some v \<Rightarrow> v"
  let ?n = "if bsize < 0 then 0 else nat bsize"
  let ?ops = "hello_ops (serverSettings scfg) (word_of_int (connWindow scfg - 65535))"
  have pre: "readPreface (clientPreface @ ?r) = Inr ?r" by (simp add: readPreface_def clientPreface_def bytes_of_def)
  obtain d where d: "newFramer ([] :: bytes) ?r bsize ?mh (frameSize scfg) = Inr ((SetMaxReadFrameSize (NewFramer (newBufWriter [] ?n) ?r) (frameSize scfg))
      \<lparr>MaxHeaderListSize := ?mh, ReadMetaHeaders := Some d\<rparr>)" using newFramer_ex [of "[] :: bytes" ?r bsize ?mh "frameSize scfg"] by blast
  let ?f = "((SetMaxReadFrameSize (NewFramer (newBufWriter ([] :: bytes) ?n) ?r) (frameSize scfg))\<lparr>MaxHeaderListSize := ?mh, ReadMetaHeaders := Some d\<rparr>)"
  have w: "fr_w ?f = newBufWriter [] ?n" by (simp add: SetMaxReadFrameSize_def NewFramer_def)
  from hello_written [OF server_hello_legal [OF s], of ?f] w obtain f' where f':
    "writeHello (bufWriter_Write pipeWrite) (serverSettings scfg) (word_of_int (connWindow scfg - 65535)) ?f = (f', None)"
    "bw_conn (fst (bufFlush pipeWrite (fr_w f'))) = concat (map op_bytes ?ops)"
    by (auto simp: new_framer_good)
  have "reading_same ?f f'" using writeHello_reading [of ?f] f'(1) by (metis fst_conv)
  then have rd: "fr_r f' = ?r" "lastHeaderStream f' = 0" "\<not> AllowIllegalReads f'" "30 \<le> unat (maxReadSize f')"
    using read_limit [of "frameSize scfg"] s by (simp_all add: reading_same_def config_ok_def) (simp_all add: SetMaxReadFrameSize_def NewFramer_def)
  let ?fw = "f'\<lparr>fr_w := fst (bufFlush pipeWrite (fr_w f'))\<rparr>"
  have "op_legal (OpSettings (clientSettings ccfg))" using client_hello_legal [OF c] by (simp add: hello_ops_def)
  moreover have "length (op_payload (OpSettings (clientSettings ccfg))) \<le> unat (maxReadSize ?fw)" using client_settings_length [of ccfg] rd(4) by simp
  moreover have "fr_r ?fw = op_bytes (OpSettings (clientSettings ccfg)) @ concat (map op_bytes (tl (hello_ops (clientSettings ccfg) (clientWindow ccfg)))) @ rest"
    using rd(1) by (simp add: hello_ops_def)
  ultimately obtain fr where fr: "ReadFrame ?fw = (fr, Inr (op_frame (OpSettings (clientSettings ccfg))))" "fr_w fr = fr_w ?fw"
    "fr_r fr = concat (map op_bytes (tl (hello_ops (clientSettings ccfg) (clientWindow ccfg)))) @ rest"
    "lastHeaderStream fr = 0" "maxReadSize fr = maxReadSize f'" "\<not> AllowIllegalReads fr"
    using ReadFrame_op [of "OpSettings (clientSettings ccfg)" ?fw] rd by (auto simp: frame_type_defs)
  have "\<not> IsAck (op_header (OpSettings (clientSettings ccfg)))" by (simp add: IsAck_def op_header_def Has_def flag_defs)
  moreover obtain ts where "handleSettings False (setting_bytes (clientSettings ccfg)) (newServerTransport now scfg st) = (ts, None)"
    using settings_taken [of "newServerTransport now scfg st"] by (auto simp: newServerTransport_def)
  ultimately show ?thesis using pre d f' fr rd(4) by (simp add: NewServerConnection_def)
qed


definition exampleClient :: H2Config where "exampleClient = zeroConfig\<lparr>InitialConnWindowSize := 100000\<rparr>"
definition exampleServer :: H2Config where "exampleServer = zeroConfig\<lparr>MaxStreams := 7\<rparr>"

lemma example_configs: "config_ok exampleClient" "config_ok exampleServer" "serverMaxStreams exampleServer = 7" "clientWindow exampleClient = 34465"
  by (simp_all add: exampleClient_def exampleServer_def config_ok_def zeroConfig_def frameSize_def http2MaxFrameLen_def serverMaxStreams_def clientWindow_def)


end
