(* ===== verification/Frame_Size.thy ===== *)
theory Frame_Size
  imports Handshake Loopy_Limits
begin

text \<open>
  The frame size that a peer announces: the connection records it, but the writer is created with the frame
  size of its own side.
\<close>

section \<open>A frame that is too large\<close>

definition whole_data :: "bytes \<Rightarrow> dataFrame" where
  "whole_data d = \<lparr>d_streamID = 1, d_endStream = True, d_d = d, d_spare = [], d_start = 0, d_end = 0,
     d_onEachWrite = True, d_onDone = True, d_onDoneFunc = False\<rparr>"

definition send_whole :: "bytes \<Rightarrow> loopy_event list" where
  "send_whole d = [Handle (RegisterStream 1 (Some 0)) (\<lambda>as. as) 0, Handle (DataItem (whole_data d)) (\<lambda>as. as) 0] @ [Pump]"

lemma whole_limit:
  "int (length d) \<le> uint (l_maxFrameSize l) \<Longrightarrow> int (length d) \<le> streamQuota l a \<Longrightarrow> int (length d) \<le> uint (sendQuota l) \<Longrightarrow>
   min (sendLimit l a) (int (length d)) = int (length d)"
  by (simp add: sendLimit_def Let_def)

text \<open>Data that fits into the frame size of the writer and into the windows is sent as one frame.\<close>

lemma processData_whole:
  assumes "osl_dequeue (activeStreams l) (outStreams l) = Some (h, Some a)"
    "itl (h a) = \<lparr>il_head = Some 0, il_tail = Some 0, il_store = [0 \<mapsto> \<lparr>it = DataItem (whole_data d), next_node = None\<rparr>], il_fresh = n\<rparr>"
    "os_wq (h a) = Some q" "sendQuota l \<noteq> 0" "d \<noteq> []" "length d \<le> 65535"
    "int (length d) \<le> uint (l_maxFrameSize l)" "int (length d) \<le> streamQuota (l\<lparr>outStreams := h\<rparr>) a" "int (length d) \<le> uint (sendQuota l)"
  shows "\<exists>l2. processData pipeWrite l = (l2, Inr False) \<and> fr_w (framer l2) = fr_w (framer l) @ op_bytes (OpData 1 True d None)"
proof -
  let ?l = "l\<lparr>outStreams := h\<rparr>"
  let ?l1 = "called (CallOnEachWrite 1) (?l\<lparr>l_wqs := (l_wqs ?l)(q := realReplenish (int (length d)) (l_wqs ?l q))\<rparr>)"
  have "op_legal (OpData 1 True d None)" using assms(6) by (simp add: op_legal_def validStreamID_def)
  then obtain f where f: "WriteData pipeWrite 1 True d (framer ?l1) = (f, None)" "fr_w f = fr_w (framer ?l1) @ op_bytes (OpData 1 True d None)"
    using pipe.perform_ok [of "OpData 1 True d None" "framer ?l1"] by (auto simp: WriteData_def)
  have fl: "framer ?l1 = framer l" by (simp add: called_def)
  have q: "streamQuota ?l a > 0" using assms(5,8) by (cases d) auto
  have "processData pipeWrite l = sendChunk pipeWrite a (whole_data d) (min (sendLimit ?l a) (int (length d))) ?l"
    using assms(1,2,4,5) q by (simp add: processData_def il_peek_def stream_of_def dataSize_def whole_data_def Let_def)
  also have "\<dots> = sendChunk pipeWrite a (whole_data d) (int (length d)) ?l"
    using whole_limit [of d ?l a] assms(7-9) by simp
  finally have p: "processData pipeWrite l = sendChunk pipeWrite a (whole_data d) (int (length d)) ?l" .
  have "\<exists>l2. sendChunk pipeWrite a (whole_data d) (int (length d)) ?l = (l2, Inr False) \<and> framer l2 = f"
    using assms(2,3) f(1) fl
    by (simp add: sendChunk_def whole_data_def dataSize_def stream_of_def on_framer_def afterData_def il_isEmpty_def il_modify_head_def il_dequeue_def
        modify_stream_def set_state_def called_def Let_def)
  then show ?thesis using p f(2) fl by auto
qed

text \<open>The writer with one stream, and with the data in its queue.\<close>

definition ready_streams :: "bytes \<Rightarrow> addr \<Rightarrow> outStream" where
  "ready_streams d =
     (\<lambda>a. \<lparr>os_id = 0, os_state = active, itl = \<lparr>il_head = None, il_tail = None, il_store = \<lambda>a. None, il_fresh = 0\<rparr>,
        bytesOutStanding = 0, os_wq = None, os_next = None, os_prev = None\<rparr>)
     (0 := \<lparr>os_id = 0, os_state = active, itl = \<lparr>il_head = None, il_tail = None, il_store = \<lambda>a. None, il_fresh = 0\<rparr>,
        bytesOutStanding = 0, os_wq = None, os_next = Some 2, os_prev = None\<rparr>,
      2 := \<lparr>os_id = 1, os_state = active,
        itl = \<lparr>il_head = Some 0, il_tail = Some 0, il_store = [0 \<mapsto> \<lparr>it = DataItem (whole_data d), next_node = None\<rparr>], il_fresh = Suc 0\<rparr>,
        bytesOutStanding = 0, os_wq = Some 0, os_next = Some (Suc 0), os_prev = Some 0\<rparr>,
      Suc 0 := \<lparr>os_id = 0, os_state = active, itl = \<lparr>il_head = None, il_tail = None, il_store = \<lambda>a. None, il_fresh = 0\<rparr>,
        bytesOutStanding = 0, os_wq = None, os_next = None, os_prev = Some 2\<rparr>)"

definition newWriter :: "u32 \<Rightarrow> bytes Encoder \<Rightarrow> bytes loopyWriter" where
  "newWriter mfs enc = \<lparr>l_mux = \<lparr>mux_closing = False, maxStreamID = 0, mux_activeStreams = []\<rparr>, l_side = serverSide,
      sendQuota = 65535, oiws = 65535, estdStreams = [],
      outStreams = set_os_prev 1 (Some 0) (set_os_next 0 (Some 1) ((\<lambda>a. zero_outStream)(0 := zero_outStream, 1 := zero_outStream))),
      freshStream = 2, activeStreams = \<lparr>osl_head = 0, osl_tail = 1\<rparr>, framer = NewFramer [] [], hEnc = enc, bdpEst = None,
      draining = False, l_maxFrameSize = mfs, ss_goAway = False, l_wqs = (\<lambda>a. newWriteQuota 0), l_calls = []\<rparr>"

lemma loopy_session_append:
  "loopy_session wr flush (evs @ evs') l = (case loopy_session wr flush evs l of None \<Rightarrow> None | Some l' \<Rightarrow> loopy_session wr flush evs' l')"
  by (induction evs arbitrary: l) (simp_all split: option.splits)

lemma ready_session:
  "\<exists>l. loopy_session pipeWrite (\<lambda>w. w) [Handle (RegisterStream 1 (Some 0)) (\<lambda>as. as) 0, Handle (DataItem (whole_data d)) (\<lambda>as. as) 0] (newWriter mfs enc) =
     Some l \<and> outStreams l = ready_streams d \<and> activeStreams l = \<lparr>osl_head = 0, osl_tail = Suc 0\<rparr> \<and> sendQuota l = 65535 \<and> oiws l = 65535 \<and>
     l_maxFrameSize l = mfs \<and> fr_w (framer l) = []"
proof -
  have "d_streamID (whole_data d) = 1" by (simp add: whole_data_def)
  then show ?thesis by (simp add: loopy_eval newWriter_def) (simp only: ready_streams_def)
qed

lemma ready_dequeue: "\<exists>h. osl_dequeue \<lparr>osl_head = 0, osl_tail = Suc 0\<rparr> (ready_streams d) = Some (h, Some 2) \<and>
    itl (h 2) = \<lparr>il_head = Some 0, il_tail = Some 0, il_store = [0 \<mapsto> \<lparr>it = DataItem (whole_data d), next_node = None\<rparr>], il_fresh = Suc 0\<rparr> \<and>
    os_wq (h 2) = Some 0 \<and> bytesOutStanding (h 2) = 0"
  by (simp add: ready_streams_def osl_dequeue_def deleteSelf_def set_os_next_def set_os_prev_def Let_def)

lemma whole_data_sent:
  assumes "d \<noteq> []" "length d \<le> unat mfs" "length d \<le> 65535"
  shows "\<exists>l2. loopy_session pipeWrite (\<lambda>w. w) (send_whole d) (newWriter mfs enc) = Some l2 \<and> fr_w (framer l2) = op_bytes (OpData 1 True d None)"
proof -
  have len: "int (length d) \<le> uint mfs" using assms(2) of_nat_mono [of "length d" "unat mfs", where ?'a = int] by simp
  obtain l where l: "loopy_session pipeWrite (\<lambda>w. w) [Handle (RegisterStream 1 (Some 0)) (\<lambda>as. as) 0, Handle (DataItem (whole_data d)) (\<lambda>as. as) 0]
      (newWriter mfs enc) = Some l" "outStreams l = ready_streams d" "activeStreams l = \<lparr>osl_head = 0, osl_tail = Suc 0\<rparr>" "sendQuota l = 65535"
    "oiws l = 65535" "l_maxFrameSize l = mfs" "fr_w (framer l) = []" using ready_session [of d mfs enc] by (elim exE conjE) (rule that)
  obtain h where h: "osl_dequeue \<lparr>osl_head = 0, osl_tail = Suc 0\<rparr> (ready_streams d) = Some (h, Some 2)"
    "itl (h 2) = \<lparr>il_head = Some 0, il_tail = Some 0, il_store = [0 \<mapsto> \<lparr>it = DataItem (whole_data d), next_node = None\<rparr>], il_fresh = Suc 0\<rparr>"
    "os_wq (h 2) = Some 0" "bytesOutStanding (h 2) = 0" using ready_dequeue [of d] by (elim exE conjE) (rule that)
  have q: "streamQuota (l\<lparr>outStreams := h\<rparr>) 2 = 65535" using l(5) h(4) by (simp add: streamQuota_def stream_of_def)
  have "osl_dequeue (activeStreams l) (outStreams l) = Some (h, Some 2)" using h(1) l(2,3) by simp
  moreover have "sendQuota l \<noteq> 0" "int (length d) \<le> uint (l_maxFrameSize l)" "int (length d) \<le> uint (sendQuota l)"
    "int (length d) \<le> streamQuota (l\<lparr>outStreams := h\<rparr>) 2"
    using len assms(3) l(4,6) q by simp_all
  ultimately obtain l2 where l2: "processData pipeWrite l = (l2, Inr False)" "fr_w (framer l2) = op_bytes (OpData 1 True d None)"
    using processData_whole [of l h 2 d "Suc 0" 0] h(2,3) assms(1,3) l(7) by (metis append_Nil)
  have "loopy_session pipeWrite (\<lambda>w. w) [Pump] l = Some l2" using l2(1) by simp
  then show ?thesis using l2(2) l(1) unfolding send_whole_def loopy_session_append by (metis option.simps(5))
qed

text \<open>A framer refuses a frame that is larger than its limit.\<close>

lemma ReadFrame_too_large:
  assumes "op_legal op" "fr_r fr = op_bytes op @ r" "unat (maxReadSize fr) < length (op_payload op)"
  shows "\<exists>fr'. ReadFrame fr = (fr', Inl ErrFrameTooLarge)"
proof -
  have len: "length (op_payload op) < 2 ^ 24" using assms(1) by (simp add: op_legal_def)
  have "readFrameHeader (op_bytes op @ r) = Inr (op_header op, op_payload op @ r)"
    using readFrameHeader_frame [OF len] op_header_low31 [OF assms(1)] by (simp add: op_bytes_def op_header_def)
  moreover have "Length (op_header op) > maxReadSize fr"
    using assms(3) unat_length_u32 [OF len] by (simp add: op_header_def word_less_nat_alt)
  ultimately show ?thesis using assms(2) by (simp add: ReadFrame_def readRawFrame_def Let_def)
qed


definition smallFrames :: H2Config where "smallFrames = zeroConfig\<lparr>MaxFrameSize := 20000\<rparr>"
definition largeFrames :: H2Config where "largeFrames = zeroConfig\<lparr>MaxFrameSize := 40000\<rparr>"

lemma frame_configs: "config_ok smallFrames" "config_ok largeFrames" "frameSize smallFrames = 20000" "frameSize largeFrames = 40000"
  by (simp_all add: smallFrames_def largeFrames_def config_ok_def zeroConfig_def frameSize_def)


end
