(* ===== verification/Mesh.thy ===== *)
theory Mesh
  imports Handshake
begin

text \<open>
  The glue between the HTTP/2 stack and the mesh proxy (\<^verbatim>\<open>ugate/h2transport.go\<close>): which connection a request
  uses, what is done with an accepted stream, and the loop of a reverse connection. Of the \<^verbatim>\<open>ugate\<close> package the model
  has the fields that this code uses; dialling, TLS, the proxies and the handlers of \<^verbatim>\<open>net/http\<close> are arguments.
\<close>

section \<open>Addresses of package net\<close>

datatype addr_error = MissingPort | TooManyColons | MissingBracket | UnexpectedOpen | UnexpectedClose

fun splitLast :: "char \<Rightarrow> string \<Rightarrow> (string \<times> string) option" where
  "splitLast c [] = None"
| "splitLast c (x # xs) =
     (case splitLast c xs of
        Some (h, p) \<Rightarrow> Some (x # h, p)
      | None \<Rightarrow> if x = c then Some ([], xs) else None)"

fun firstIndex :: "char \<Rightarrow> string \<Rightarrow> nat option" where
  "firstIndex c [] = None"
| "firstIndex c (x # xs) = (if x = c then Some 0 else map_option Suc (firstIndex c xs))"

definition SplitHostPort :: "string \<Rightarrow> addr_error + string \<times> string" where
  "SplitHostPort hp =
     (case splitLast (CHR '':'') hp of
        None \<Rightarrow> Inl MissingPort
      | Some (h, p) \<Rightarrow>
          if hd hp = CHR ''['' then
            (case firstIndex (CHR '']'') hp of
               None \<Rightarrow> Inl MissingBracket
             | Some e \<Rightarrow>
                 if Suc e = length hp then Inl MissingPort
                 else if Suc e \<noteq> length h then Inl (if hp ! Suc e = CHR '':'' then TooManyColons else MissingPort)
                 else if CHR ''['' \<in> set (drop 1 hp) then Inl UnexpectedOpen
                 else if CHR '']'' \<in> set (drop (Suc e) hp) then Inl UnexpectedClose
                 else Inr (take (e - 1) (drop 1 hp), p))
          else if CHR '':'' \<in> set h then Inl TooManyColons
          else if CHR ''['' \<in> set hp then Inl UnexpectedOpen
          else if CHR '']'' \<in> set hp then Inl UnexpectedClose
          else Inr (h, p))"

definition JoinHostPort :: "string \<Rightarrow> string \<Rightarrow> string" where
  "JoinHostPort h p = (if CHR '':'' \<in> set h then ''['' @ h @ '']:'' @ p else h @ '':'' @ p)"

text \<open>The code ignores the error, and uses the empty string.\<close>

definition hostOf :: "string \<Rightarrow> string" where
  "hostOf a = (case SplitHostPort a of Inl e \<Rightarrow> [] | Inr (h, p) \<Rightarrow> h)"

definition portOf :: "string \<Rightarrow> string" where
  "portOf a = (case SplitHostPort a of Inl e \<Rightarrow> [] | Inr (h, p) \<Rightarrow> p)"

section \<open>Clusters and their connections\<close>

text \<open>
  A connection is a number, its position in \<open>p_conns\<close>. The \<^verbatim>\<open>RoundTripper\<close> of an endpoint may also be none of this
  package.
\<close>

datatype round_tripper = NoTripper | H2Client nat | OtherTripper

record Endpoint =
  HBoneAddress :: string
  ep_Address :: string

record EndpointCon =
  ec_Endpoint :: Endpoint
  ec_RoundTripper :: round_tripper

record MeshCluster =
  c_Addr :: string
  c_InitialWindowSize :: int
  c_InitialConnWindowSize :: int
  c_MaxFrameSize :: u32
  c_Endpoints :: "Endpoint list"
  c_EndpointCon :: "EndpointCon list"

text \<open>
  One dialled connection and what runs for it: the goroutine that reads its frames, with the events whose handlers it
  still has to call, and the goroutine that dialled and waits on the channel \<^verbatim>\<open>okch\<close>, which holds one value. \<open>mc_clear\<close>: the
  handler of a close event has sent on the channel and is about to clear the \<^verbatim>\<open>RoundTripper\<close>. \<open>mc_wait\<close> and \<open>mc_got\<close>: the
  dialling goroutine waits, or has received and is about to set the \<^verbatim>\<open>RoundTripper\<close>. \<open>mc_emitted\<close>: all events so far.
\<close>

record muxc =
  mc_t :: H2Transport
  mc_first :: bool
  mc_running :: bool
  mc_okch :: "nat option"
  mc_pending :: "EventType list"
  mc_emitted :: "EventType list"
  mc_clear :: bool
  mc_wait :: bool
  mc_got :: bool

record pool =
  p_cluster :: MeshCluster
  p_conns :: "muxc list"

section \<open>Dialling\<close>

definition dialAddr :: "MeshCluster \<Rightarrow> Endpoint \<Rightarrow> string" where
  "dialAddr c ep =
     (let a = (if HBoneAddress ep = [] \<and> ep_Address ep \<noteq> [] then JoinHostPort (hostOf (ep_Address ep)) ''15008'' else HBoneAddress ep)
      in if a = [] then c_Addr c else a)"

definition int32 :: "int \<Rightarrow> int" where "int32 n = sint (word_of_int n :: 32 word)"

definition clusterDefaults :: "MeshCluster \<Rightarrow> MeshCluster" where
  "clusterDefaults c =
     (let c1 = (if c_InitialWindowSize c = 0 then c\<lparr>c_InitialWindowSize := 4194304\<rparr> else c);
          c2 = (if c_InitialConnWindowSize c1 = 0 then c1\<lparr>c_InitialConnWindowSize := int32 (4 * c_InitialWindowSize c1)\<rparr> else c1)
      in if c_MaxFrameSize c2 = 0 then c2\<lparr>c_MaxFrameSize := 262144\<rparr> else c2)"

text \<open>The configuration of the connection: the windows are commented out.\<close>

definition dialConfig :: "MeshCluster \<Rightarrow> H2Config" where
  "dialConfig c = zeroConfig\<lparr>MaxFrameSize := c_MaxFrameSize c\<rparr>"

text \<open>
  The events with a handler of \<^verbatim>\<open>dialH2ClientConn\<close>, in the order in which the connection raises them. The trace of the
  connection is empty before.
\<close>

fun muxEvents :: "transport_call list \<Rightarrow> EventType list" where
  "muxEvents [] = []"
| "muxEvents (EvMux e # cs) = (if e \<in> {Event_Settings, Event_GoAway, Event_ConnClose} then e # muxEvents cs else muxEvents cs)"
| "muxEvents (_ # cs) = muxEvents cs"

definition newMuxc :: "H2Transport \<Rightarrow> muxc" where
  "newMuxc t = \<lparr>mc_t = t, mc_first = True, mc_running = True, mc_okch = None, mc_pending = [], mc_emitted = [], mc_clear = False,
     mc_wait = True, mc_got = False\<rparr>"

definition clear_tripper :: "MeshCluster \<Rightarrow> MeshCluster" where
  "clear_tripper c = c\<lparr>c_EndpointCon := (c_EndpointCon c)[0 := (c_EndpointCon c ! 0)\<lparr>ec_RoundTripper := NoTripper\<rparr>]\<rparr>"

text \<open>
  \<^verbatim>\<open>dialH2ClientConn\<close> until it waits. \<open>tls\<close> is what \<^verbatim>\<open>ep.Dial\<close> gives for the address. If \<^verbatim>\<open>StartConn\<close> fails, it has closed the
  connection: the first close event fills the channel and clears the \<^verbatim>\<open>RoundTripper\<close>, the second one blocks this goroutine.
\<close>

datatype find_result = Found | Dialling nat | DialFailed | FindBlocked | FindFault fault

definition dialH2ClientConn ::
    "'c writer \<Rightarrow> (string \<Rightarrow> 'c option) \<Rightarrow> (addr list \<Rightarrow> addr list) \<Rightarrow> int \<Rightarrow> (addr \<Rightarrow> H2Stream) \<Rightarrow> EndpointCon \<Rightarrow> pool \<Rightarrow> pool \<times> find_result" where
  "dialH2ClientConn connWrite tls ord now st ep p =
     (let addr = dialAddr (p_cluster p) (ec_Endpoint ep);
          c = clusterDefaults (p_cluster p);
          p1 = p\<lparr>p_cluster := c\<rparr>
      in case tls addr of
           None \<Rightarrow> (p1, DialFailed)
         | Some conn \<Rightarrow>
             (case StartConn connWrite ord 0 (dialConfig c) conn [] (NewConnection now (dialConfig c) st) of
                (t, Inr (Inr fr)) \<Rightarrow> (p1\<lparr>p_conns := p_conns p1 @ [newMuxc t]\<rparr>, Dialling (length (p_conns p1)))
              | (t, Inr (Inl e)) \<Rightarrow> (p1\<lparr>p_cluster := clear_tripper c\<rparr>, if length (muxEvents (t_trace t)) > 1 then FindBlocked else DialFailed)
              | (t, Inl f) \<Rightarrow> (p1, FindFault f)))"

definition CanTakeNewRequest :: "H2Transport \<Rightarrow> bool" where
  "CanTakeNewRequest t \<longleftrightarrow> \<not> t_closing t"

definition ensureEndpoint :: "MeshCluster \<Rightarrow> MeshCluster" where
  "ensureEndpoint c =
     (if c_EndpointCon c = [] then
        let c1 = (if c_Endpoints c = [] then c\<lparr>c_Endpoints := [\<lparr>HBoneAddress = [], ep_Address = []\<rparr>]\<rparr> else c)
        in c1\<lparr>c_EndpointCon := [\<lparr>ec_Endpoint = c_Endpoints c1 ! 0, ec_RoundTripper = NoTripper\<rparr>]\<rparr>
      else c)"

definition FindMux ::
    "'c writer \<Rightarrow> (string \<Rightarrow> 'c option) \<Rightarrow> (addr list \<Rightarrow> addr list) \<Rightarrow> int \<Rightarrow> (addr \<Rightarrow> H2Stream) \<Rightarrow> pool \<Rightarrow> pool \<times> find_result" where
  "FindMux connWrite tls ord now st p =
     (let c = ensureEndpoint (p_cluster p);
          c1 = (case ec_RoundTripper (c_EndpointCon c ! 0) of
                  H2Client i \<Rightarrow> if \<not> CanTakeNewRequest (mc_t (p_conns p ! i)) then clear_tripper c else c
                | _ \<Rightarrow> c);
          p1 = p\<lparr>p_cluster := c1\<rparr>
      in if ec_RoundTripper (c_EndpointCon c1 ! 0) = NoTripper then dialH2ClientConn connWrite tls ord now st (c_EndpointCon c1 ! 0) p1
         else (p1, Found))"

section \<open>The goroutines of the pool\<close>

text \<open>
  One step of one goroutine: a call of \<^verbatim>\<open>FindMux\<close>; the reader of a connection handles what it read, with the events it
  raises; the reader runs a handler, as far as the next access to shared data; the dialling goroutine receives; it stores the
  connection. A step that is not possible, because the goroutine is blocked or at another place, is \<open>None\<close>.
\<close>

datatype pool_event =
    Find int
  | ReadFrom nat int "frame_error + Frame"
  | RunHandler nat
  | Receive nat
  | Store nat

definition set_muxc :: "nat \<Rightarrow> muxc \<Rightarrow> pool \<Rightarrow> pool" where
  "set_muxc i m p = p\<lparr>p_conns := (p_conns p)[i := m]\<rparr>"

definition readFrom :: "float_ops \<Rightarrow> (addr list \<Rightarrow> addr list) \<Rightarrow> int \<Rightarrow> (frame_error + Frame) \<Rightarrow> muxc \<Rightarrow> muxc" where
  "readFrom fl ord now r m =
     (case (if mc_first m then clientReader else readerLoop) fl ord [(now, r)] ((mc_t m)\<lparr>t_trace := []\<rparr>) of
        (t, e) \<Rightarrow> m\<lparr>mc_t := t, mc_first := False, mc_running := (e = Reading), mc_pending := muxEvents (t_trace t),
                    mc_emitted := mc_emitted m @ muxEvents (t_trace t)\<rparr>)"

text \<open>The two handlers that use the channel, and the one of a GOAWAY.\<close>

definition runHandler :: "nat \<Rightarrow> pool \<Rightarrow> pool option" where
  "runHandler i p =
     (let m = p_conns p ! i in
      if mc_clear m then Some (set_muxc i (m\<lparr>mc_clear := False\<rparr>) (p\<lparr>p_cluster := clear_tripper (p_cluster p)\<rparr>))
      else case mc_pending m of
        [] \<Rightarrow> None
      | e # es \<Rightarrow>
          if e = Event_GoAway then Some (set_muxc i (m\<lparr>mc_pending := es\<rparr>) (p\<lparr>p_cluster := clear_tripper (p_cluster p)\<rparr>))
          else if mc_okch m \<noteq> None then None
          else if e = Event_Settings then Some (set_muxc i (m\<lparr>mc_pending := es, mc_okch := Some 1\<rparr>) p)
          else Some (set_muxc i (m\<lparr>mc_pending := es, mc_okch := Some 0, mc_clear := True\<rparr>) p))"

definition store_tripper :: "nat \<Rightarrow> MeshCluster \<Rightarrow> MeshCluster" where
  "store_tripper i c = c\<lparr>c_EndpointCon := (c_EndpointCon c)[0 := (c_EndpointCon c ! 0)\<lparr>ec_RoundTripper := H2Client i\<rparr>]\<rparr>"

fun poolStep ::
    "'c writer \<Rightarrow> (string \<Rightarrow> 'c option) \<Rightarrow> float_ops \<Rightarrow> (addr list \<Rightarrow> addr list) \<Rightarrow> (addr \<Rightarrow> H2Stream) \<Rightarrow> pool_event \<Rightarrow> pool \<Rightarrow> pool option" where
  "poolStep cw tls fl ord st (Find now) p = Some (fst (FindMux cw tls ord now st p))"
| "poolStep cw tls fl ord st (ReadFrom i now r) p =
     (if i < length (p_conns p) \<and> mc_running (p_conns p ! i) \<and> mc_pending (p_conns p ! i) = [] \<and> \<not> mc_clear (p_conns p ! i)
      then Some (set_muxc i (readFrom fl ord now r (p_conns p ! i)) p) else None)"
| "poolStep cw tls fl ord st (RunHandler i) p = (if i < length (p_conns p) then runHandler i p else None)"
| "poolStep cw tls fl ord st (Receive i) p =
     (if i < length (p_conns p) \<and> mc_wait (p_conns p ! i) \<and> mc_okch (p_conns p ! i) \<noteq> None
      then Some (set_muxc i ((p_conns p ! i)\<lparr>mc_okch := None, mc_wait := False, mc_got := True\<rparr>) p) else None)"
| "poolStep cw tls fl ord st (Store i) p =
     (if i < length (p_conns p) \<and> mc_got (p_conns p ! i)
      then Some (set_muxc i ((p_conns p ! i)\<lparr>mc_got := False\<rparr>) (p\<lparr>p_cluster := store_tripper i (p_cluster p)\<rparr>)) else None)"

fun poolRun ::
    "'c writer \<Rightarrow> (string \<Rightarrow> 'c option) \<Rightarrow> float_ops \<Rightarrow> (addr list \<Rightarrow> addr list) \<Rightarrow> (addr \<Rightarrow> H2Stream) \<Rightarrow> pool_event list \<Rightarrow> pool \<Rightarrow> pool option" where
  "poolRun cw tls fl ord st [] p = Some p"
| "poolRun cw tls fl ord st (e # es) p =
     (case poolStep cw tls fl ord st e p of None \<Rightarrow> None | Some p1 \<Rightarrow> poolRun cw tls fl ord st es p1)"

section \<open>Accepted connections\<close>

text \<open>
  \<open>inputs\<close> is what the frames of the connection are after the first one. The handler of a stream runs on a goroutine of its own.
\<close>

definition BlockingServerConn ::
    "'c writer \<Rightarrow> float_ops \<Rightarrow> (addr list \<Rightarrow> addr list) \<Rightarrow> int \<Rightarrow> (addr \<Rightarrow> H2Stream) \<Rightarrow> 'c \<Rightarrow> bytes \<Rightarrow> (int \<times> (frame_error + Frame)) list \<Rightarrow>
      conn_error + fault + H2Transport \<times> reader_end" where
  "BlockingServerConn connWrite fl ord now st conn r inputs =
     (case NewServerConnection connWrite 0 now zeroConfig st conn r of
        Inl e \<Rightarrow> Inl e
      | Inr (Inl f) \<Rightarrow> Inr (Inl f)
      | Inr (Inr (t, fr)) \<Rightarrow> Inr (Inr (HandleStreams fl ord inputs (t_call (EvMux Event_Connect_Done) (t\<lparr>t_handle := True\<rparr>)))))"

definition header_Del :: "string \<Rightarrow> http_header \<Rightarrow> http_header" where
  "header_Del k h = filter (\<lambda>e. fst e \<noteq> CanonicalKey k) h"

text \<open>
  Handlers of \<^verbatim>\<open>net/http\<close> act on the stream; a panic of a handler is recovered. \<open>mux\<close> gives the handler for a request and its
  pattern.
\<close>

type_synonym http_handler = "Request \<Rightarrow> addr \<Rightarrow> H2Transport \<Rightarrow> H2Transport"

definition ServeHTTP :: "(Request \<Rightarrow> http_handler \<times> string) \<Rightarrow> http_handler \<Rightarrow> http_handler" where
  "ServeHTTP mux proxy r a t =
     (let (rh, pat) = mux r
      in if pat \<noteq> [] then rh r a t
         else proxy (r\<lparr>ReqHeader := header_Del ''x-forwarded-client-cert'' (ReqHeader r)\<rparr>) a t)"

definition respondOK :: "addr \<Rightarrow> H2Transport \<Rightarrow> send_step" where
  "respondOK a t =
     t_WriteHeader a (set_stream a (\<lambda>s. s\<lparr>rsp_Status := ''200'', rsp_Header := header_Add ''x-status'' ''200'' (rsp_Header s)\<rparr>) t)"

datatype stream_use = InnerTLS string | InnerTLSFailed | TCPProxy string | NoDial string | Served

text \<open>\<open>tlsOk\<close>: the handshake of the inner TLS connection succeeds. \<open>dialOk\<close>: the local port accepts connections.\<close>

definition handleH2Stream ::
    "bool \<Rightarrow> (string \<Rightarrow> bool) \<Rightarrow> (Request \<Rightarrow> http_handler \<times> string) \<Rightarrow> http_handler \<Rightarrow> Request \<Rightarrow> addr \<Rightarrow> H2Transport \<Rightarrow>
      H2Transport \<times> (fault + stream_use)" where
  "handleH2Stream tlsOk dialOk mux proxy r a t =
     (let tunMode = header_Get ''x-tun'' (ReqHeader r);
          hbSvc = header_Get ''x-service'' (ReqHeader r)
      in if Method r = ''POST'' \<and> tunMode \<noteq> [] then
           (case respondOK a t of
              (t1, Inl f) \<Rightarrow> (t1, Inl f)
            | (t1, Inr _) \<Rightarrow>
                if tlsOk then (t1, Inr (InnerTLS (''localhost:'' @ portOf tunMode)))
                else (case stream_Close a t1 of (t2, Some f) \<Rightarrow> (t2, Inl f) | (t2, None) \<Rightarrow> (t2, Inr InnerTLSFailed)))
         else if Method r = ''CONNECT'' \<or> Method r = ''POST'' \<and> hbSvc \<noteq> [] then
           (let hostPort = ''localhost:'' @ portOf (Host r)
            in if \<not> dialOk hostPort then (t, Inr (NoDial hostPort))
               else (case respondOK a t of
                       (t1, Inl f) \<Rightarrow> (t1, Inl f)
                     | (t1, Inr _) \<Rightarrow> (t1, Inr (TCPProxy hostPort))))
         else
           (case CloseWrite a (ServeHTTP mux proxy r a t) of
              (t1, Inl f) \<Rightarrow> (t1, Inl f)
            | (t1, Inr _) \<Rightarrow> (case stream_Close a t1 of (t2, Some f) \<Rightarrow> (t2, Inl f) | (t2, None) \<Rightarrow> (t2, Inr Served))))"

section \<open>Reverse connections\<close>

text \<open>
  The goroutine of \<^verbatim>\<open>DialH2R\<close>. An entry of \<open>rs\<close> is the state of the context before a dial, the connection that the dial returned and
  whether it failed. \<^verbatim>\<open>StartConn\<close> does not wait for the end of the connection; without a connection it panics.
\<close>

datatype 'c h2r_act = H2RStart H2Config 'c | H2RDial | H2RSleep Duration
datatype h2r_end = H2RRunning | H2RCanceled | H2RPanic

fun redial :: "H2Config \<Rightarrow> Duration \<Rightarrow> (bool \<times> 'c option \<times> bool) list \<Rightarrow> 'c option \<Rightarrow> 'c h2r_act list \<times> h2r_end" where
  "redial cfg backoff rs None = ([], H2RPanic)"
| "redial cfg backoff [] (Some c) = ([H2RStart cfg c], H2RRunning)"
| "redial cfg backoff ((over, tc, failed) # rs) (Some c) =
     (if over then ([H2RStart cfg c], H2RCanceled)
      else let (acts, e) = redial cfg (50 * Millisecond) rs tc
           in (H2RStart cfg c # H2RDial # (if failed then [H2RSleep backoff] else []) @ acts, e))"

definition DialH2R :: "MeshCluster \<Rightarrow> 'c option \<times> bool \<Rightarrow> (bool \<times> 'c option \<times> bool) list \<Rightarrow> ('c h2r_act list \<times> h2r_end) option" where
  "DialH2R c first rs =
     (if snd first then None
      else Some (redial (zeroConfig\<lparr>InitialConnWindowSize := c_InitialConnWindowSize c, InitialWindowSize := c_InitialWindowSize c,
                   MaxFrameSize := c_MaxFrameSize c\<rparr>) (50 * Millisecond) rs (fst first)))"

end
