(* ===== verification/Mesh_Rules.thy ===== *)
theory Mesh_Rules
  imports Mesh
begin

text \<open>
  What the glue to the mesh proxy guarantees: addresses are split and joined correctly, a forwarded request never carries a
  client certificate header of the peer, a CONNECT request is answered; and what goes wrong with the connections of the pool.
\<close>

section \<open>Addresses\<close>

lemma splitLast_append: "c \<notin> set p \<Longrightarrow> splitLast c (h @ c # p) = Some (h, p)"
proof (induction h)
  case Nil
  then have "splitLast c p = None" by (induction p) auto
  then show ?case by simp
qed simp

lemma firstIndex_append: "c \<notin> set h \<Longrightarrow> firstIndex c (h @ c # p) = Some (length h)"
  by (induction h) auto

text \<open>A host without brackets, an IPv6 address for instance, and a port are found again.\<close>

lemma host_port_round_trip:
  assumes "set h \<inter> {CHR ''['', CHR '']''} = {}" "set p \<inter> {CHR '':'', CHR ''['', CHR '']''} = {}"
  shows "SplitHostPort (JoinHostPort h p) = Inr (h, p)"
proof (cases "CHR '':'' \<in> set h")
  case True
  have "splitLast (CHR '':'') (''['' @ h @ '']:'' @ p) = Some (''['' @ h @ '']'', p)"
    using splitLast_append [of "CHR '':''" p "''['' @ h @ '']''"] assms(2) by simp
  moreover have "firstIndex (CHR '']'') (''['' @ h @ '']:'' @ p) = Some (Suc (length h))"
    using firstIndex_append [of "CHR '']''" "''['' @ h" "'':'' @ p"] assms(1) by simp
  ultimately show ?thesis using True assms by (auto simp: SplitHostPort_def JoinHostPort_def)
next
  case False
  have "splitLast (CHR '':'') (h @ '':'' @ p) = Some (h, p)" using splitLast_append [of "CHR '':''" p h] assms(2) by simp
  moreover have "hd (h @ '':'' @ p) \<noteq> CHR ''[''" using assms(1) by (cases h) auto
  ultimately show ?thesis using False assms by (auto simp: SplitHostPort_def JoinHostPort_def)
qed

text \<open>An endpoint whose address has no port is dialled at no host: the error is ignored.\<close>

lemma endpoint_without_port:
  assumes "CHR '':'' \<notin> set a" "a \<noteq> []"
  shows "dialAddr c \<lparr>HBoneAddress = [], ep_Address = a\<rparr> = '':15008''"
proof -
  have "splitLast (CHR '':'') a = None" using assms(1) by (induction a) auto
  then show ?thesis using assms(2) by (simp add: dialAddr_def hostOf_def SplitHostPort_def JoinHostPort_def)
qed

section \<open>Forwarded requests\<close>

lemma of_char_lower: "(of_char (to_lower c) :: nat) = (if 65 \<le> (of_char c :: nat) \<and> (of_char c :: nat) \<le> 90 then of_char c + 32 else of_char c)"
  by (simp add: to_lower_def)

lemma lower_cases:
  "to_upper (to_lower c) = to_upper c" "to_lower (to_lower c) = to_lower c" "to_lower c = CHR ''-'' \<longleftrightarrow> c = CHR ''-''"
  "token_char (to_lower c) \<longleftrightarrow> token_char c"
proof -
  show "to_upper (to_lower c) = to_upper c" by (auto simp: to_upper_def of_char_lower) (simp_all add: to_lower_def)
  show "to_lower (to_lower c) = to_lower c" by (auto simp: to_lower_def [of "to_lower c"] of_char_lower)
  show "to_lower c = CHR ''-'' \<longleftrightarrow> c = CHR ''-''"
  proof
    assume l: "to_lower c = CHR ''-''"
    then have "(of_char (to_lower c) :: nat) = 45" by simp
    then have "\<not> (65 \<le> (of_char c :: nat) \<and> (of_char c :: nat) \<le> 90)" by (auto simp: of_char_lower)
    then show "c = CHR ''-''" using l by (auto simp: to_lower_def)
  qed simp
  show "token_char (to_lower c) \<longleftrightarrow> token_char c"
  proof (cases "65 \<le> (of_char c :: nat) \<and> (of_char c :: nat) \<le> 90")
    case True
    then have "97 \<le> (of_char (to_lower c) :: nat) \<and> (of_char (to_lower c) :: nat) \<le> 122" by (simp add: of_char_lower)
    with True show ?thesis by (simp add: token_char_def Let_def)
  next
    case False
    then have "to_lower c = c" by (auto simp: to_lower_def)
    then show ?thesis by simp
  qed
qed

lemma canonical_lower: "canonical up (map to_lower k) = canonical up k"
  by (induction k arbitrary: up) (simp_all add: lower_cases)

lemma token_lower: "list_all token_char (map to_lower k) = list_all token_char k"
  by (induction k) (simp_all add: lower_cases)

text \<open>The key under which a header is kept does not depend on how its name is spelled.\<close>

lemma canonical_same:
  assumes "map to_lower j = map to_lower k" "list_all token_char k"
  shows "CanonicalKey j = CanonicalKey k"
  using assms token_lower [of j] token_lower [of k] canonical_lower [of True j] canonical_lower [of True k] by (simp add: CanonicalKey_def)

lemma lower_canonical: "map to_lower (canonical up k) = map to_lower k"
proof (induction k arbitrary: up)
  case (Cons c k)
  have "97 \<le> (of_char c :: nat) \<Longrightarrow> (of_char c :: nat) \<le> 122 \<Longrightarrow> (of_char c - 32) mod 256 = (of_char c - 32 :: nat)" by simp
  then have "to_lower (to_upper c) = to_lower c" by (auto simp: to_lower_def to_upper_def)
  then show ?case using Cons by (simp add: lower_cases)
qed simp

lemma canonical_fixed: "CanonicalKey (CanonicalKey k) = CanonicalKey k"
proof (cases "list_all token_char k")
  case True
  then have "map to_lower (CanonicalKey k) = map to_lower k" by (simp add: CanonicalKey_def lower_canonical)
  then show ?thesis using canonical_same True by blast
qed (simp add: CanonicalKey_def)

text \<open>Requests are kept under canonical keys.\<close>

definition canonical_keys_only :: "http_header \<Rightarrow> bool" where
  "canonical_keys_only h \<longleftrightarrow> list_all (\<lambda>e. CanonicalKey (fst e) = fst e) h"

lemma header_append_canonical: "canonical_keys_only h \<Longrightarrow> CanonicalKey k = k \<Longrightarrow> canonical_keys_only (header_append k v h)"
  by (induction k v h rule: header_append.induct) (auto simp: canonical_keys_only_def)

lemma acceptField_canonical: "canonical_keys_only (ReqHeader (ar_req a)) \<Longrightarrow> canonical_keys_only (ReqHeader (ar_req (acceptField f a)))"
  by (auto simp: acceptField_def add_header_def header_Add_def set_host_def header_append_canonical canonical_fixed Let_def
      split: prod.splits option.splits sum.splits)

lemma acceptFields_canonical: "canonical_keys_only (ReqHeader (ar_req (acceptFields fs)))"
proof -
  have "canonical_keys_only (ReqHeader (ar_req (fold acceptField fs a)))" if "canonical_keys_only (ReqHeader (ar_req a))" for a
    using that by (induction fs arbitrary: a) (simp_all add: acceptField_canonical)
  then show ?thesis by (simp add: acceptFields_def new_request_def canonical_keys_only_def)
qed

lemma deleted_key:
  assumes "canonical_keys_only h" "list_all token_char k" "e \<in> set (header_Del k h)"
  shows "map to_lower (fst e) \<noteq> map to_lower k"
proof
  assume "map to_lower (fst e) = map to_lower k"
  then have "CanonicalKey (fst e) = CanonicalKey k" using canonical_same assms(2) by blast
  then show False using assms(1,3) by (auto simp: header_Del_def canonical_keys_only_def list_all_iff)
qed

text \<open>
  C16: A server that receives a request for which the mux has no handler gives it to the reverse proxy, without any header that
  says who the client is: whatever header fields the peer sent, in whatever case, repeated or malformed, the forwarded request has no
  x-forwarded-client-cert header, and its other parts are the ones that the peer sent.
\<close>

theorem forwarded_certificate_removed:
  assumes "r = ar_req (acceptFields flds)" "snd (mux r) = []"
  shows "\<exists>r'. ServeHTTP mux proxy r a t = proxy r' a t \<and> (\<forall>e \<in> set (ReqHeader r'). map to_lower (fst e) \<noteq> ''x-forwarded-client-cert'') \<and>
    r'\<lparr>ReqHeader := ReqHeader r\<rparr> = r \<and> (\<forall>e \<in> set (ReqHeader r). map to_lower (fst e) \<noteq> ''x-forwarded-client-cert'' \<longrightarrow> e \<in> set (ReqHeader r'))"
proof -
  let ?k = "''x-forwarded-client-cert''"
  let ?r = "r\<lparr>ReqHeader := header_Del ?k (ReqHeader r)\<rparr>"
  have k: "map to_lower ?k = ?k" "list_all token_char ?k" by (simp_all add: to_lower_def token_char_def)
  have can: "canonical_keys_only (ReqHeader r)" using acceptFields_canonical assms(1) by simp
  have "ServeHTTP mux proxy r a t = proxy ?r a t" using assms(2) by (cases "mux r") (simp add: ServeHTTP_def)
  moreover have "\<forall>e \<in> set (ReqHeader ?r). map to_lower (fst e) \<noteq> ?k" using deleted_key [OF can k(2)] k(1) by simp
  moreover have "e \<in> set (ReqHeader ?r)" if "e \<in> set (ReqHeader r)" "map to_lower (fst e) \<noteq> ?k" for e
  proof -
    have "map to_lower (CanonicalKey ?k) = ?k" using k unfolding CanonicalKey_def by (simp only: if_True lower_canonical)
    then show ?thesis using that by (auto simp: header_Del_def)
  qed
  ultimately show ?thesis by (intro exI [of _ ?r]) auto
qed

definition spoofed :: "HeaderField list" where
  "spoofed = [hf '':path'' ''/x'', hf ''X-forwarded-CLIENT-cert'' ''By=admin'', hf ''x-forwarded-client-cert'' ''By=root'', hf ''x-b3'' ''7'']"

lemma spoofed_request: "ReqHeader (ar_req (acceptFields spoofed)) = [(''X-Forwarded-Client-Cert'', [''By=admin'', ''By=root'']), (''X-B3'', [''7''])]"
  by (simp add: acceptFields_def spoofed_def new_request_def acceptField_def split_query_def decodeMetadataHeader_def HasSuffix_def binHdrSuffix_def
      add_header_def header_Add_def CanonicalKey_def token_char_def to_upper_def to_lower_def Let_def char_of_def bit_simps)

theorem forwarded_certificate_removed_witness:
  "ReqHeader (ar_req (acceptFields spoofed)) = [(''X-Forwarded-Client-Cert'', [''By=admin'', ''By=root'']), (''X-B3'', [''7''])] \<and>
   (\<exists>r' :: Request. ServeHTTP (\<lambda>r. (\<lambda>_ _ t. t, [])) (\<lambda>r a t. t\<lparr>t_fresh := length (ReqHeader r)\<rparr>) (ar_req (acceptFields spoofed)) 0 newClient =
       newClient\<lparr>t_fresh := length (ReqHeader r')\<rparr> \<and>
     (\<forall>e \<in> set (ReqHeader r'). map to_lower (fst e) \<noteq> ''x-forwarded-client-cert''))"
proof -
  obtain r' :: Request where
    "ServeHTTP (\<lambda>r. (\<lambda>_ _ t. t, [])) (\<lambda>r a t. t\<lparr>t_fresh := length (ReqHeader r)\<rparr>) (ar_req (acceptFields spoofed)) 0 newClient =
       newClient\<lparr>t_fresh := length (ReqHeader r')\<rparr>" "\<forall>e \<in> set (ReqHeader r'). map to_lower (fst e) \<noteq> ''x-forwarded-client-cert''"
    using forwarded_certificate_removed [where flds = spoofed and mux = "\<lambda>r. (\<lambda>_ _ t. t, [])" and proxy = "\<lambda>r a t. t\<lparr>t_fresh := length (ReqHeader r)\<rparr>"
      and a = 0 and t = newClient, OF refl snd_conv] by blast
  then show ?thesis using spoofed_request by blast
qed

section \<open>Tunnels\<close>

text \<open>
  A CONNECT request for a port that accepts connections is answered with status 200 and forwarded to that port of the local host, on
  a stream that has not answered yet; if the port refuses the connection, nothing is sent and the stream stays as it is.
\<close>

lemma connect_request:
  assumes "Method r = ''CONNECT''" "open_transport t" "\<not> headerSent (t_streams t a)" "\<not> streamDone (t_streams t a)" "t_maxSendHeaderListSize t = None"
  shows "dialOk (''localhost:'' @ portOf (Host r)) \<Longrightarrow>
    \<exists>t' h. handleH2Stream tlsOk dialOk mux proxy r a t = (t', Inr (TCPProxy (''localhost:'' @ portOf (Host r)))) \<and>
      queued t' = queued t @ [HeaderItem h] \<and> h_streamID h = MuxID (t_streams t a) \<and> hd (h_hf h) = hf '':status'' ''200'' \<and> headerSent (t_streams t' a)"
    "\<not> dialOk (''localhost:'' @ portOf (Host r)) \<Longrightarrow>
    handleH2Stream tlsOk dialOk mux proxy r a t = (t, Inr (NoDial (''localhost:'' @ portOf (Host r))))"
proof -
  let ?u = "set_stream a (\<lambda>s. s\<lparr>rsp_Status := ''200'', rsp_Header := header_Add ''x-status'' ''200'' (rsp_Header s)\<rparr>) t"
  let ?t1 = "set_stream a (\<lambda>_. (t_streams ?u a)\<lparr>headerSent := True\<rparr>) ?u"
  let ?g = "\<lambda>item u. (u, checkForHeaderListSize (responseFields (t_streams u a)) u)"
  have o: "open_transport ?t1" "queued ?t1 = queued t" using assms(2) by (simp_all add: queued_def)
  have "?g (responseItem a ?t1) ?t1 = (?t1, True)" using assms(5) by (simp add: checkForHeaderListSize_def set_stream_def)
  from t_execPut_open [OF o(1), of ?g, OF this refl] o(2) obtain c where
    "t_execPut (Some ?g) (responseItem a ?t1) ?t1 = (?t1\<lparr>t_cb := c\<rparr>, Inr (Inr True))" "il_items (cb_list c) = queued t @ [responseItem a ?t1]" by auto
  then have "respondOK a t = (?t1\<lparr>t_cb := c\<rparr>, Inr None)" "queued (?t1\<lparr>t_cb := c\<rparr>) = queued t @ [responseItem a ?t1]"
    using assms(3,4) by (simp_all add: respondOK_def t_WriteHeader_def updateHeaderSent_def writeResponseHeaders_def queued_def Let_def)
  moreover have "hd (responseFields (t_streams ?t1 a)) = hf '':status'' ''200''"
    by (simp add: responseFields_def appendHeaderFieldsFromMD_def)
  ultimately show "dialOk (''localhost:'' @ portOf (Host r)) \<Longrightarrow>
    \<exists>t' h. handleH2Stream tlsOk dialOk mux proxy r a t = (t', Inr (TCPProxy (''localhost:'' @ portOf (Host r)))) \<and>
      queued t' = queued t @ [HeaderItem h] \<and> h_streamID h = MuxID (t_streams t a) \<and> hd (h_hf h) = hf '':status'' ''200'' \<and> headerSent (t_streams t' a)"
    using assms(1) by (simp add: handleH2Stream_def responseItem_def Let_def)
  show "\<not> dialOk (''localhost:'' @ portOf (Host r)) \<Longrightarrow>
    handleH2Stream tlsOk dialOk mux proxy r a t = (t, Inr (NoDial (''localhost:'' @ portOf (Host r))))"
    using assms(1) by (simp add: handleH2Stream_def Let_def)
qed

section \<open>The events of a connection that is closed\<close>

lemma muxEvents_append: "muxEvents (xs @ ys) = muxEvents xs @ muxEvents ys"
  by (induction xs rule: muxEvents.induct) simp_all

abbreviation events_of :: "H2Transport \<Rightarrow> EventType list" where "events_of t \<equiv> muxEvents (t_trace t)"

lemma execPut_trace: "t_trace (fst (t_execPut (Some addBackStreamQuota) item t)) = t_trace t"
  by (cases "cb_err (t_cb t)") (auto simp: t_execPut_def executeAndPut_def addBackStreamQuota_def Let_def)

lemma closeStream_events: "events_of (fst (closeStream a err rs code t)) = events_of t"
  using execPut_trace [of "CleanupItem \<lparr>c_streamID = MuxID (t_streams t a), rst = rs, rstCode = code, c_onWrite = True\<rparr>" "set_stream a (markDone err) t"]
  by (auto simp: closeStream_def releaseStream_def t_call_def set_stream_def muxEvents_append Let_def split: prod.splits sum.splits)

lemma and_do_events: "events_of (fst r) = es \<Longrightarrow> (\<And>t. events_of t = es \<Longrightarrow> events_of (fst (k t)) = es) \<Longrightarrow> events_of (fst (and_do r k)) = es"
  by (cases r; cases "snd r") auto

lemma closeAll_events: "events_of (fst (closeAll as err rs code t)) = events_of t"
  by (induction as arbitrary: t) (simp_all add: and_do_events closeStream_events)

lemma orphanAll_events: "events_of (fst (orphanAll hs t)) = events_of t"
proof (induction hs arbitrary: t)
  case (Cons h hs)
  have "events_of (fst (orphanedRequest e a t)) = events_of t" for e a
    by (simp add: orphanedRequest_def closeStream_events) (simp add: set_stream_def)
  then show ?case using Cons by (auto intro!: and_do_events split: option.splits)
qed simp

lemma finish_events: "events_of (fst (t_finish t)) = events_of t"
  by (auto simp: t_finish_def Let_def orphanAll_events intro!: and_do_events split: prod.splits)

lemma and_do_done: "and_do r k = (t', None) \<Longrightarrow> \<exists>t1. r = (t1, None) \<and> k t1 = (t', None)"
  by (cases r; cases "snd r") auto

lemma Close_events:
  assumes "t_Close ord err t = (t', None)" "\<not> t_closed t"
  shows "events_of t' = events_of t @ [Event_ConnClose, Event_ConnClose]"
proof -
  let ?t2 = "if t_Error t = None then t\<lparr>t_closed := True, t_Error := err\<rparr> else t\<lparr>t_closed := True\<rparr>"
  let ?t4 = "(t_call (EvMux Event_ConnClose) ?t2)\<lparr>t_activeStreams := None\<rparr>"
  let ?ss = "case t_activeStreams t of None \<Rightarrow> [] | Some m \<Rightarrow> map snd m"
  let ?t6 = "\<lambda>t5. t_call CloseConn (t5\<lparr>t_ctxDone := t_ctxDone t5 \<or> t_cancel t5, t_done := True, t_cb := (t_cb t5)\<lparr>cb_done := True\<rparr>\<rparr>)"
  have "and_do (t_finish ?t4) (\<lambda>t5. and_do (closeAll (ord ?ss) (Some ErrConnClosingT) False 0 (?t6 t5)) (\<lambda>t7. (t_call (EvMux Event_ConnClose) t7, None))) = (t', None)"
    using assms by (cases "t_Error t") (simp_all add: t_Close_def t_call_def Let_def)
  then obtain t5 t7 where t: "t_finish ?t4 = (t5, None)" "closeAll (ord ?ss) (Some ErrConnClosingT) False 0 (?t6 t5) = (t7, None)"
    "t' = t_call (EvMux Event_ConnClose) t7" by (auto dest!: and_do_done)
  have "events_of t5 = events_of t @ [Event_ConnClose]"
    using finish_events [of ?t4] t(1) by (simp add: t_call_def muxEvents_append)
  moreover have "events_of t7 = events_of t5"
    using closeAll_events [of "ord ?ss" "Some ErrConnClosingT" False 0 "?t6 t5"] t(2) by (simp add: t_call_def muxEvents_append)
  ultimately show ?thesis using t(3) by (simp add: t_call_def muxEvents_append)
qed

section \<open>The channel of a dialled connection\<close>

text \<open>
  The events whose handlers send on the channel. Every value that was sent is in the channel or was received by the goroutine that
  dialled, which receives once.
\<close>

definition sends :: "EventType list \<Rightarrow> nat" where
  "sends es = length (filter (\<lambda>e. e \<noteq> Event_GoAway) es)"

definition muxc_ok :: "muxc \<Rightarrow> bool" where
  "muxc_ok m \<longleftrightarrow> sends (mc_emitted m) = sends (mc_pending m) + (if mc_okch m = None then 0 else 1) + (if mc_wait m then 0 else 1)"

definition pool_ok :: "pool \<Rightarrow> bool" where
  "pool_ok p \<longleftrightarrow> list_all muxc_ok (p_conns p)"

lemma pool_okD: "pool_ok p \<Longrightarrow> i < length (p_conns p) \<Longrightarrow> muxc_ok (p_conns p ! i)"
  by (simp add: pool_ok_def list_all_length)

lemma pool_ok_set: "pool_ok p \<Longrightarrow> muxc_ok m \<Longrightarrow> pool_ok (set_muxc i m p)"
  using set_update_subset_insert [of "p_conns p" i m] by (auto simp: pool_ok_def set_muxc_def list_all_iff)

lemma FindMux_conns: "p_conns (fst (FindMux cw tls ord now st p)) = p_conns p \<or> (\<exists>t. p_conns (fst (FindMux cw tls ord now st p)) = p_conns p @ [newMuxc t])"
  by (auto simp: FindMux_def dialH2ClientConn_def Let_def split: option.splits prod.splits sum.splits)

lemma muxc_ok_cases [simp]:
  "muxc_ok (newMuxc t)"
  "muxc_ok m \<Longrightarrow> mc_pending m = [] \<Longrightarrow> muxc_ok (readFrom fl ord now r m)"
  "muxc_ok m \<Longrightarrow> muxc_ok (m\<lparr>mc_clear := b\<rparr>)" "muxc_ok m \<Longrightarrow> muxc_ok (m\<lparr>mc_got := b\<rparr>)"
  "muxc_ok m \<Longrightarrow> mc_pending m = Event_GoAway # es \<Longrightarrow> muxc_ok (m\<lparr>mc_pending := es\<rparr>)"
  "muxc_ok m \<Longrightarrow> mc_pending m = e # es \<Longrightarrow> e \<noteq> Event_GoAway \<Longrightarrow> mc_okch m = None \<Longrightarrow> muxc_ok (m\<lparr>mc_pending := es, mc_okch := Some n\<rparr>)"
  "muxc_ok m \<Longrightarrow> mc_wait m \<Longrightarrow> mc_okch m \<noteq> None \<Longrightarrow> muxc_ok (m\<lparr>mc_okch := None, mc_wait := False, mc_got := b\<rparr>)"
  by (auto simp: muxc_ok_def newMuxc_def readFrom_def sends_def split: prod.splits)

lemma pool_ok_cluster [simp]: "pool_ok (p\<lparr>p_cluster := c\<rparr>) = pool_ok p" by (simp add: pool_ok_def)

lemma poolStep_ok: "poolStep cw tls fl ord st e p = Some p' \<Longrightarrow> pool_ok p \<Longrightarrow> pool_ok p'"
proof (induction cw tls fl ord st e p rule: poolStep.induct)
  case (1 cw tls fl ord st now p)
  then show ?case using FindMux_conns [of cw tls ord now st p] by (auto simp: pool_ok_def)
next
  case (3 cw tls fl ord st i p)
  then have "muxc_ok (p_conns p ! i)" by (auto simp: pool_okD split: if_splits)
  with 3 show ?case by (auto simp: runHandler_def pool_ok_set Let_def split: if_splits list.splits)
qed (auto simp: pool_okD pool_ok_set split: if_splits)

lemma poolRun_ok: "poolRun cw tls fl ord st es p = Some p' \<Longrightarrow> pool_ok p \<Longrightarrow> pool_ok p'"
  by (induction es arbitrary: p) (auto simp: poolStep_ok split: option.splits)

text \<open>No connection leaves the pool, and the number of its events does not shrink.\<close>

definition grown :: "pool \<Rightarrow> pool \<Rightarrow> bool" where
  "grown p p' \<longleftrightarrow> length (p_conns p) \<le> length (p_conns p') \<and>
     (\<forall>i < length (p_conns p). sends (mc_emitted (p_conns p ! i)) \<le> sends (mc_emitted (p_conns p' ! i)))"

lemma grown_set: "sends (mc_emitted (p_conns p ! i)) \<le> sends (mc_emitted m) \<Longrightarrow> grown p (set_muxc i m p)"
proof -
  assume *: "sends (mc_emitted (p_conns p ! i)) \<le> sends (mc_emitted m)"
  have "sends (mc_emitted (p_conns p ! j)) \<le> sends (mc_emitted ((p_conns p)[i := m] ! j))" if "j < length (p_conns p)" for j
    using * that by (cases "j = i") simp_all
  then show ?thesis by (simp add: grown_def set_muxc_def)
qed

lemma grown_cluster [simp]: "grown p (q\<lparr>p_cluster := c\<rparr>) = grown p q" "grown (p\<lparr>p_cluster := c\<rparr>) q = grown p q"
  "set_muxc i m (q\<lparr>p_cluster := c\<rparr>) = (set_muxc i m q)\<lparr>p_cluster := c\<rparr>"
  by (simp_all add: grown_def set_muxc_def)

lemma readFrom_emitted: "sends (mc_emitted m) \<le> sends (mc_emitted (readFrom fl ord now r m))"
  by (simp add: readFrom_def sends_def split: prod.splits)

lemma poolStep_grown: "poolStep cw tls fl ord st e p = Some p' \<Longrightarrow> grown p p'"
proof (induction cw tls fl ord st e p rule: poolStep.induct)
  case (1 cw tls fl ord st now p)
  then show ?case using FindMux_conns [of cw tls ord now st p] by (auto simp: grown_def nth_append)
next
  case (3 cw tls fl ord st i p)
  then show ?case by (auto simp: runHandler_def grown_set Let_def split: if_splits list.splits)
qed (auto simp: grown_set readFrom_emitted split: if_splits)

lemma poolRun_grown: "poolRun cw tls fl ord st es p = Some p' \<Longrightarrow> grown p p'"
proof (induction es arbitrary: p)
  case (Cons e es)
  then obtain p1 where "grown p p1" "grown p1 p'" using poolStep_grown by (fastforce split: option.splits)
  then show ?case by (auto simp: grown_def) (meson order_trans less_le_trans)
qed (simp add: grown_def)

text \<open>Three events are too many for the channel.\<close>

lemma three_events:
  assumes "muxc_ok m" "3 \<le> sends (mc_emitted m)"
  shows "mc_pending m \<noteq> []"
  using assms by (auto simp: muxc_ok_def sends_def split: if_splits)

text \<open>
  C18: Closing a connection of the pool blocks a goroutine for ever. The connection has been dialled and the goroutine that
  dialled it has received its first event; later the goroutine that reads the connection fails and closes it. The two close events of
  \<^verbatim>\<open>Close\<close> need two places in a channel that has one and that nobody reads any more: in every schedule of every later step, the reader has
  not finished with them.
\<close>

theorem closing_a_dialled_connection_blocks:
  assumes run: "poolRun cw tls fl ord st evs \<lparr>p_cluster = c, p_conns = []\<rparr> = Some p"
    and i: "i < length (p_conns p)" "\<not> mc_wait (p_conns p ! i)"
    and close: "t_Close ord (Some (ErrReceived e)) ((mc_t (p_conns p ! i))\<lparr>t_trace := []\<rparr>) = (t', None)" "\<not> t_closed (mc_t (p_conns p ! i))"
      "\<nexists>sid code cause. e = StreamError sid code cause"
    and later: "poolRun cw tls fl ord st (ReadFrom i now (Inl e) # evs') p = Some p'"
  shows "mc_pending (p_conns p' ! i) \<noteq> []"
proof -
  let ?m = "p_conns p ! i" and ?n = "readFrom fl ord now (Inl e) (p_conns p ! i)"
  have ok: "pool_ok p" using poolRun_ok [OF run] by (simp add: pool_ok_def)
  have one: "1 \<le> sends (mc_emitted ?m)" using pool_okD [OF ok i(1)] i(2) by (simp add: muxc_ok_def)
  have "(if mc_first ?m then clientReader else readerLoop) fl ord [(now, Inl e)] ((mc_t ?m)\<lparr>t_trace := []\<rparr>) = (t', Returned)"
    using close(1,3) by (cases e) (simp_all add: clientFrameError_def)
  moreover have "events_of t' = [Event_ConnClose, Event_ConnClose]" using Close_events [OF close(1)] close(2) by simp
  ultimately have n: "3 \<le> sends (mc_emitted ?n)" using one by (simp add: readFrom_def sends_def Event_ConnClose_def Event_GoAway_def)
  obtain p1 where p1: "p1 = set_muxc i ?n p" "poolRun cw tls fl ord st evs' p1 = Some p'" "pool_ok p1"
    using later poolStep_ok [OF _ ok, of cw tls fl ord st "ReadFrom i now (Inl e)"] by (auto split: if_splits option.splits)
  have "3 \<le> sends (mc_emitted (p_conns p1 ! i))" "i < length (p_conns p1)" using n i(1) p1(1) by (simp_all add: set_muxc_def)
  then have "3 \<le> sends (mc_emitted (p_conns p' ! i))" "i < length (p_conns p')"
    using poolRun_grown [OF p1(2)] by (auto simp: grown_def intro: order_trans)
  then show ?thesis using three_events pool_okD poolRun_ok [OF p1(2,3)] by blast
qed

section \<open>A connection that is lost at once\<close>

text \<open>A connection that has just been dialled is closed.\<close>

lemma close_idle:
  assumes "ord [] = []" "open_transport t" "orphans (queued t) = []" "t_activeStreams t = Some []"
  shows "\<exists>t'. t_Close ord err t = (t', None) \<and> t_closed t' \<and> t_closing t' = t_closing t \<and> \<not> t_cbLocked t' \<and> cb_err (t_cb t') = Some ErrConnClosing \<and>
    events_of t' = events_of t @ [Event_ConnClose, Event_ConnClose]"
proof -
  obtain t' where t': "t_Close ord err t = (t', None)" "t_closed t'" "t_closing t' = t_closing t" "\<not> t_cbLocked t'" "cb_err (t_cb t') = Some ErrConnClosing"
    using assms by (cases "trfChan (t_cb t)"; cases "t_Error t")
      (simp_all add: t_Close_def t_finish_def open_transport_def queued_def il_items_def il_dequeueAll_def releaseThrottle_def t_call_def Let_def)
  then show ?thesis using Close_events [OF t'(1)] assms(2) by (simp add: open_transport_def)
qed

lemma new_idle: "open_transport (NewConnection now cfg st)" "queued (NewConnection now cfg st) = []" "t_activeStreams (NewConnection now cfg st) = Some []"
    "t_trace (NewConnection now cfg st) = []" "queued (startedConn cfg (NewConnection now cfg st)) = []"
    "t_activeStreams (startedConn cfg (NewConnection now cfg st)) = Some []" "\<not> t_closing (startedConn cfg (NewConnection now cfg st))"
  by (simp_all add: NewConnection_def) (simp_all add: startedConn_def newTransport_def queued_def newControlBuffer_def il.queue_simps)

lemma no_trace [simp]: "open_transport (t\<lparr>t_trace := tr\<rparr>) = open_transport t" "queued (t\<lparr>t_trace := tr\<rparr>) = queued t"
  by (simp_all add: open_transport_def queued_def)

lemma dial_new:
  assumes "c_EndpointCon c = []" "c_MaxFrameSize c = 0 \<or> 30 \<le> unat (c_MaxFrameSize c)"
  shows "\<exists>c' ep cfg. FindMux pipeWrite (\<lambda>_. Some []) ord now st \<lparr>p_cluster = c, p_conns = []\<rparr> =
    (\<lparr>p_cluster = c', p_conns = [newMuxc (startedConn cfg (NewConnection now cfg st))]\<rparr>, Dialling 0) \<and> c_EndpointCon c' = [ep]"
proof -
  let ?c = "ensureEndpoint c" and ?d = "clusterDefaults (ensureEndpoint c)"
  have c: "\<exists>ep. c_EndpointCon ?d = [ep]" "ec_RoundTripper (c_EndpointCon ?c ! 0) = NoTripper" "c_MaxFrameSize ?c = c_MaxFrameSize c"
    using assms(1) by (simp_all add: ensureEndpoint_def clusterDefaults_def Let_def)
  then have "config_ok (dialConfig ?d)"
    using assms(2) by (auto simp: clusterDefaults_def dialConfig_def config_ok_def frameSize_def zeroConfig_def http2MaxFrameLen_def Let_def)
  from client_starts [OF this, of ord 0 "[]" "NewConnection now (dialConfig ?d) st"] show ?thesis
    using c by (auto simp: FindMux_def dialH2ClientConn_def Let_def)
qed

text \<open>A pool whose only connection has ended does not change any more.\<close>

lemma pool_at_rest:
  assumes "p_conns p = [m]" "c_EndpointCon (p_cluster p) = [ep]" "ec_RoundTripper ep = H2Client 0" "\<not> t_closing (mc_t m)"
    "\<not> mc_running m" "mc_pending m = []" "\<not> mc_clear m" "\<not> mc_wait m" "\<not> mc_got m"
  shows "FindMux cw tls ord now st p = (p, Found)" "poolRun cw tls fl ord st es p = Some p' \<Longrightarrow> p' = p"
proof -
  show f: "FindMux cw tls ord now st p = (p, Found)" for now
    using assms by (simp add: FindMux_def ensureEndpoint_def CanTakeNewRequest_def Let_def)
  have "p1 = p" if "poolStep cw tls fl ord st e p = Some p1" for e p1
    using that assms f by (cases e) (auto simp: runHandler_def split: if_splits)
  then show "poolRun cw tls fl ord st es p = Some p' \<Longrightarrow> p' = p"
    by (induction es) (fastforce split: option.splits)+
qed

lemma request_on_closed:
  assumes "cb_err (t_cb t) = Some e" "\<not> t_cbLocked t"
  shows "\<exists>t'. DialStream od flds t = (t', Inr (DialError (DialConnClosed e)))"
  using assms by (simp add: DialStream_def writeRequestHeaders_def t_execPut_def executeAndPut_def t_call_def Let_def)

text \<open>
  C17: A server that drops a connection before its first frame takes its clients out of service. There is a schedule in which the
  goroutine that dialled stores the connection although it has been closed; a closed connection still claims to take new requests, so that
  from then on, whatever happens, every call of \<^verbatim>\<open>FindMux\<close> gives this connection without dialling again, and every request on it fails.
\<close>

theorem lost_connection_is_kept:
  assumes "c_EndpointCon c = []" "c_MaxFrameSize c = 0 \<or> 30 \<le> unat (c_MaxFrameSize c)" "ord [] = []"
  shows "\<exists>evs p. poolRun pipeWrite (\<lambda>_. Some []) fl ord st (Find now # ReadFrom 0 now' (Inl e) # evs) \<lparr>p_cluster = c, p_conns = []\<rparr> = Some p \<and>
    t_closed (mc_t (p_conns p ! 0)) \<and>
    (\<forall>es p'. poolRun pipeWrite (\<lambda>_. Some []) fl ord st es p = Some p' \<longrightarrow> p' = p) \<and>
    (\<forall>n. FindMux pipeWrite (\<lambda>_. Some []) ord n st p = (p, Found)) \<and> ec_RoundTripper (c_EndpointCon (p_cluster p) ! 0) = H2Client 0 \<and>
    (\<forall>od flds. \<exists>t'. DialStream od flds (mc_t (p_conns p ! 0)) = (t', Inr (DialError (DialConnClosed ErrConnClosing))))"
proof -
  let ?run = "poolRun pipeWrite (\<lambda>_. Some []) fl ord st"
  obtain c' ep cfg where f: "FindMux pipeWrite (\<lambda>_. Some []) ord now st \<lparr>p_cluster = c, p_conns = []\<rparr> =
    (\<lparr>p_cluster = c', p_conns = [newMuxc (startedConn cfg (NewConnection now cfg st))]\<rparr>, Dialling 0)" "c_EndpointCon c' = [ep]"
    using dial_new [OF assms(1,2)] by blast
  obtain t' where t': "t_Close ord (Some (ErrReceived e)) ((startedConn cfg (NewConnection now cfg st))\<lparr>t_trace := []\<rparr>) = (t', None)" "t_closed t'"
    "\<not> t_closing t'" "\<not> t_cbLocked t'" "cb_err (t_cb t') = Some ErrConnClosing" "events_of t' = [Event_ConnClose, Event_ConnClose]"
    using close_idle [of ord "(startedConn cfg (NewConnection now cfg st))\<lparr>t_trace := []\<rparr>" "Some (ErrReceived e)"] assms(3) by (auto simp: new_idle)
  let ?m = "\<lambda>k b. \<lparr>mc_t = t', mc_first = False, mc_running = False, mc_okch = k, mc_pending = [], mc_emitted = [Event_ConnClose, Event_ConnClose],
     mc_clear = False, mc_wait = False, mc_got = b\<rparr>"
  let ?p = "\<lparr>p_cluster = store_tripper 0 (clear_tripper (clear_tripper c')), p_conns = [?m (Some 0) False]\<rparr>"
  have "?run [Find now, ReadFrom 0 now' (Inl e), RunHandler 0, Receive 0, RunHandler 0, RunHandler 0, RunHandler 0, Store 0] \<lparr>p_cluster = c, p_conns = []\<rparr> = Some ?p"
    using f t'(1,6) by (simp add: newMuxc_def readFrom_def runHandler_def set_muxc_def Event_ConnClose_def Event_GoAway_def Event_Settings_def Let_def)
  moreover have ep: "c_EndpointCon (p_cluster ?p) = [ep\<lparr>ec_RoundTripper := H2Client 0\<rparr>]" using f(2) by (simp add: store_tripper_def clear_tripper_def)
  moreover have "FindMux pipeWrite (\<lambda>_. Some []) ord n st ?p = (?p, Found)" "?run es ?p = Some p' \<Longrightarrow> p' = ?p" for n es p'
    using ep t'(3) by (auto intro: pool_at_rest)
  moreover have "\<exists>u. DialStream od flds t' = (u, Inr (DialError (DialConnClosed ErrConnClosing)))" for od flds
    using request_on_closed [OF t'(5,4)] .
  ultimately show ?thesis using t'(2) by (intro exI [of _ "[RunHandler 0, Receive 0, RunHandler 0, RunHandler 0, RunHandler 0, Store 0]"] exI [of _ ?p]) simp
qed

definition exampleCluster :: MeshCluster where
  "exampleCluster = \<lparr>c_Addr = ''a:1'', c_InitialWindowSize = 0, c_InitialConnWindowSize = 0, c_MaxFrameSize = 0, c_Endpoints = [], c_EndpointCon = []\<rparr>"

abbreviation example_run :: "pool_event list \<Rightarrow> pool \<Rightarrow> pool option" where
  "example_run \<equiv> poolRun pipeWrite (\<lambda>_. Some []) int_floats id (\<lambda>_. dialedStream False 0)"

abbreviation new_pool :: pool where "new_pool \<equiv> \<lparr>p_cluster = exampleCluster, p_conns = []\<rparr>"

theorem lost_connection_is_kept_witness:
  "\<exists>evs p. example_run (Find 0 # ReadFrom 0 0 (Inl ErrFrameTooLarge) # evs) new_pool = Some p \<and> t_closed (mc_t (p_conns p ! 0)) \<and>
    FindMux pipeWrite (\<lambda>_. Some []) id 7 (\<lambda>_. dialedStream False 0) p = (p, Found)"
proof -
  have c: "c_EndpointCon exampleCluster = []" "c_MaxFrameSize exampleCluster = 0" by (simp_all add: exampleCluster_def)
  show ?thesis using lost_connection_is_kept [of exampleCluster id int_floats "\<lambda>_. dialedStream False 0" 0 0 ErrFrameTooLarge, OF c(1) disjI1 [OF c(2)] id_apply] by blast
qed

text \<open>A connection that has received its first SETTINGS frame.\<close>

definition helloFrame :: Frame where
  "helloFrame = SettingsFrame \<lparr>valid = True, Type = FrameSettings, Flags = 0, Length = 0, StreamID = 0\<rparr> []"

lemma first_settings:
  assumes "open_transport t" "queued t = []" "t_activeStreams t = Some []" "t_trace t = []"
  shows "\<exists>t'. clientReader fl ord [(now, Inr helloFrame)] t = (t', Reading) \<and> open_transport t' \<and> orphans (queued t') = [] \<and> t_activeStreams t' = Some [] \<and>
    events_of t' = [Event_Settings]"
proof -
  let ?u = "t\<lparr>t_FrameSize := t_FrameSize t\<rparr>"
  let ?g = "\<lambda>item u. (updateStreamQuota (2 ^ 32 - 1) (applyHeaderList [] u), True)"
  have r: "readSettings False [] t = \<lparr>sr_maxStreams = None, sr_ss = [], sr_headerList = [], sr_FrameSize = t_FrameSize t\<rparr>"
    using readSettings_bytes [of False "[]" t] by (simp add: setting_bytes_def)
  have "t_cb (updateStreamQuota (2 ^ 32 - 1) (applyHeaderList [] t)) = t_cb t" by (simp add: updateStreamQuota_def applyHeaderList_def Let_def)
  from t_execPut_open [OF assms(1), of ?g, OF refl this] assms(2) obtain c where
    "t_execPut (Some ?g) (IncomingSettings []) t = ((updateStreamQuota (2 ^ 32 - 1) (applyHeaderList [] t))\<lparr>t_cb := c\<rparr>, Inr (Inr True))"
    "il_wf (cb_list c)" "cb_err c = None" "il_items (cb_list c) = [IncomingSettings []]" by auto
  moreover from this have "clientReader fl ord [(now, Inr helloFrame)] t =
      (t_call (EvMux Event_Settings) ((updateStreamQuota (2 ^ 32 - 1) (applyHeaderList [] t))\<lparr>t_cb := c\<rparr>), Reading)"
    using r by (simp add: helloFrame_def clientHandleSettings_def IsAck_def Has_def flag_defs Let_def)
  moreover have "t_activeStreams (updateStreamQuota n (applyHeaderList [] t)) = t_activeStreams t" "t_trace (updateStreamQuota n (applyHeaderList [] t)) = t_trace t"
    "t_cbLocked (updateStreamQuota n (applyHeaderList [] t)) = t_cbLocked t" "t_closed (updateStreamQuota n (applyHeaderList [] t)) = t_closed t" for n
    by (simp_all add: updateStreamQuota_def applyHeaderList_def Let_def)
  ultimately show ?thesis using assms by (simp add: open_transport_def queued_def t_call_def muxEvents_append)
qed

theorem closing_a_dialled_connection_blocks_witness:
  "\<exists>p p'. example_run [Find 0, ReadFrom 0 0 (Inr helloFrame), RunHandler 0, Receive 0, Store 0] new_pool = Some p \<and>
     example_run [ReadFrom 0 0 (Inl ErrFrameTooLarge), RunHandler 0, RunHandler 0] p = Some p' \<and>
     ec_RoundTripper (c_EndpointCon (p_cluster p') ! 0) = NoTripper \<and> mc_pending (p_conns p' ! 0) \<noteq> []"
proof -
  let ?st = "\<lambda>_ :: addr. dialedStream False 0"
  obtain c ep cfg where f: "FindMux pipeWrite (\<lambda>_. Some []) id 0 ?st new_pool =
    (\<lparr>p_cluster = c, p_conns = [newMuxc (startedConn cfg (NewConnection 0 cfg ?st))]\<rparr>, Dialling 0)" "c_EndpointCon c = [ep]"
    using dial_new [of exampleCluster id 0 ?st] by (auto simp: exampleCluster_def)
  let ?t = "(startedConn cfg (NewConnection 0 cfg ?st))\<lparr>t_trace := []\<rparr>"
  obtain t1 where t1: "clientReader int_floats id [(0, Inr helloFrame)] ?t = (t1, Reading)" "open_transport t1" "orphans (queued t1) = []"
    "t_activeStreams t1 = Some []" "events_of t1 = [Event_Settings]" using first_settings [of ?t int_floats id 0] by (auto simp: new_idle)
  obtain t2 where t2: "t_Close id (Some (ErrReceived ErrFrameTooLarge)) (t1\<lparr>t_trace := []\<rparr>) = (t2, None)" "events_of t2 = [Event_ConnClose, Event_ConnClose]"
    using close_idle [of id "t1\<lparr>t_trace := []\<rparr>" "Some (ErrReceived ErrFrameTooLarge)"] t1(2-4) by auto
  let ?m = "\<lparr>mc_t = t1, mc_first = False, mc_running = True, mc_okch = None, mc_pending = [], mc_emitted = [Event_Settings], mc_clear = False, mc_wait = False, mc_got = False\<rparr>"
  let ?p = "\<lparr>p_cluster = store_tripper 0 c, p_conns = [?m]\<rparr>"
  have p: "example_run [Find 0, ReadFrom 0 0 (Inr helloFrame), RunHandler 0, Receive 0, Store 0] new_pool = Some ?p"
    using f(1) t1(1,5) by (simp add: newMuxc_def readFrom_def runHandler_def set_muxc_def Event_ConnClose_def Event_GoAway_def Event_Settings_def Let_def)
  have "\<exists>p'. example_run [ReadFrom 0 0 (Inl ErrFrameTooLarge), RunHandler 0, RunHandler 0] ?p = Some p' \<and> ec_RoundTripper (c_EndpointCon (p_cluster p') ! 0) = NoTripper"
    using t2 f(2) by (simp add: readFrom_def clientFrameError_def runHandler_def set_muxc_def store_tripper_def clear_tripper_def Event_ConnClose_def Event_GoAway_def Event_Settings_def Let_def)
  moreover have "\<not> t_closed t1" using t1(2) by (simp add: open_transport_def)
  ultimately show ?thesis
    using closing_a_dialled_connection_blocks [of pipeWrite "\<lambda>_. Some []" int_floats id ?st _ exampleCluster ?p 0 ErrFrameTooLarge t2 0 "[RunHandler 0, RunHandler 0]"] p t2(1)
    by fastforce
qed

section \<open>Other failures of the glue\<close>

text \<open>A network that fails while the preface is written: the goroutine that dials closes the connection, and blocks on its own channel.\<close>

lemma failed_preface_blocks:
  assumes "c_EndpointCon c = []" "ord [] = []"
  shows "snd (FindMux (\<lambda>c bs. (c, 0, Some e)) (\<lambda>_. Some conn) ord now st \<lparr>p_cluster = c, p_conns = []\<rparr>) = FindBlocked"
proof -
  let ?cfg = "dialConfig (clusterDefaults (ensureEndpoint c))"
  let ?mh = "case cfg_MaxHeaderListSize ?cfg of None \<Rightarrow> defaultClientMaxHeaderListSize | Some v \<Rightarrow> v"
  obtain fr where fr: "newFramer conn [] 0 ?mh (frameSize ?cfg) = Inr fr" using newFramer_ex [of conn "[]" 0 ?mh "frameSize ?cfg"] by blast
  obtain t' where "t_Close ord (Some (ErrWriting e)) (NewConnection now ?cfg st) = (t', None)" "events_of t' = [Event_ConnClose, Event_ConnClose]"
    using close_idle [of ord "NewConnection now ?cfg st" "Some (ErrWriting e)"] assms(2) by (auto simp: new_idle)
  then have "StartConn (\<lambda>c bs. (c, 0, Some e)) ord 0 ?cfg conn [] (NewConnection now ?cfg st) = (t_call CloseConn t', Inr (Inl (ErrWriting e)))"
    "length (events_of (t_call CloseConn t')) = 2"
    using fr by (simp_all add: StartConn_def startFailed_def) (simp add: t_call_def muxEvents_append)
  then show ?thesis using assms(1) by (simp add: FindMux_def dialH2ClientConn_def ensureEndpoint_def Let_def)
qed

text \<open>A reverse connection that cannot be dialled again crashes; the time to wait never grows.\<close>

lemma failed_redial_panics: "redial cfg b ((False, None, True) # rs) (Some c) = ([H2RStart cfg c, H2RDial, H2RSleep b], H2RPanic)"
  by simp

lemma no_backoff: "H2RSleep d \<in> set (fst (redial cfg (50 * Millisecond) rs tc)) \<Longrightarrow> d = 50 * Millisecond"
  by (induction cfg "50 * Millisecond" rs tc rule: redial.induct) (auto split: prod.splits if_splits)

text \<open>Nor does the loop wait for the end of a connection: it dials as often as the dials succeed.\<close>

lemma redials_at_once: "\<exists>acts. redial cfg b (replicate n (False, Some c, False)) (Some c) = (acts, H2RRunning) \<and> length (filter (\<lambda>a. a = H2RDial) acts) = n"
proof (induction n arbitrary: b)
  case (Suc n)
  from Suc [of "50 * Millisecond"] show ?case by auto
qed simp

end
