(* ===== verification/Frame_Util.thy ===== *)
theory Frame_Util
  imports Frame_Round_Trip Stream_Ops "HOL-Library.Multiset" "HOL-Library.List_Lexorder" "HOL-Library.Char_ord"
begin

text \<open>
  The helpers of \<^verbatim>\<open>h2/frame/http2.go\<close>: names, the buffered writer that allocates its buffer when it is needed, the sorter of
  header keys, and channels that are closed once. Of package \<^verbatim>\<open>bufio\<close> the model has the writer, of package \<^verbatim>\<open>sort\<close> what
  \<^verbatim>\<open>Sort\<close> does to a list of strings.
\<close>

section \<open>Names\<close>

datatype streamState = stateIdle | stateOpen | stateHalfClosedLocal | stateHalfClosedRemote | stateClosed

fun stateName :: "streamState \<Rightarrow> string" where
  "stateName stateIdle = ''Idle''"
| "stateName stateOpen = ''Open''"
| "stateName stateHalfClosedLocal = ''HalfClosedLocal''"
| "stateName stateHalfClosedRemote = ''HalfClosedRemote''"
| "stateName stateClosed = ''Closed''"

definition SettingID_String :: "SettingID \<Rightarrow> string" where
  "SettingID_String s = (case settingName s of Some v \<Rightarrow> v | None \<Rightarrow> ''UNKNOWN_SETTING_'' @ FormatInt (unat s))"

definition Setting_String :: "Setting \<Rightarrow> string" where
  "Setting_String s = ''['' @ SettingID_String (ID s) @ '' = '' @ FormatInt (unat (Val s)) @ '']''"

definition httpCodeString :: "int \<Rightarrow> string" where
  "httpCodeString code = (if code = 200 then ''200'' else if code = 404 then ''404'' else Itoa code)"

text \<open>\<^verbatim>\<open>strings.Contains\<close>, and the flags that \<^verbatim>\<open>init\<close> sets from the environment: verbose, writes and reads.\<close>

fun Contains :: "string \<Rightarrow> string \<Rightarrow> bool" where
  "Contains [] sub \<longleftrightarrow> sub = []"
| "Contains (c # cs) sub \<longleftrightarrow> HasPrefix (c # cs) sub \<or> Contains cs sub"

definition debugFlags :: "string \<Rightarrow> bool \<times> bool \<times> bool" where
  "debugFlags e =
     (let two = Contains e ''http2debug=2'' in (Contains e ''http2debug=1'' \<or> two, two, two))"

section \<open>Channels that are closed once\<close>

text \<open>\<^verbatim>\<open>closeWaiter\<close>: nil, open or closed. A receive from it returns only when it is closed.\<close>

datatype closeWaiter = NilWaiter | OpenWaiter | ClosedWaiter

definition cw_Init :: "closeWaiter \<Rightarrow> closeWaiter" where "cw_Init cw = OpenWaiter"

fun cw_Close :: "closeWaiter \<Rightarrow> string + closeWaiter" where
  "cw_Close NilWaiter = Inl ''close of nil channel''"
| "cw_Close OpenWaiter = Inr ClosedWaiter"
| "cw_Close ClosedWaiter = Inl ''close of closed channel''"

fun cw_WaitReturns :: "closeWaiter \<Rightarrow> bool" where
  "cw_WaitReturns ClosedWaiter = True"
| "cw_WaitReturns _ = False"

section \<open>The buffered writer\<close>

text \<open>The writer of \<^verbatim>\<open>bufio\<close>: the bytes it holds, and its error. The state of the connection is passed along.\<close>

record bufio =
  bio_buf :: bytes
  bio_err :: "frame_error option"

definition bufWriterPoolBufferSize :: nat where "bufWriterPoolBufferSize = 4096"

definition bio_Available :: "bufio \<Rightarrow> nat" where
  "bio_Available b = bufWriterPoolBufferSize - length (bio_buf b)"

definition bio_Reset :: bufio where "bio_Reset = \<lparr>bio_buf = [], bio_err = None\<rparr>"

definition bio_Flush :: "'c writer \<Rightarrow> bufio \<Rightarrow> 'c \<Rightarrow> bufio \<times> 'c \<times> frame_error option" where
  "bio_Flush wr b c =
     (if bio_err b \<noteq> None then (b, c, bio_err b)
      else if bio_buf b = [] then (b, c, None)
      else
        let (c1, n, e) = wr c (bio_buf b);
            e1 = (if n < length (bio_buf b) \<and> e = None then Some errShortWrite else e)
        in case e1 of
             Some _ \<Rightarrow> (b\<lparr>bio_buf := drop n (bio_buf b), bio_err := e1\<rparr>, c1, e1)
           | None \<Rightarrow> (b\<lparr>bio_buf := []\<rparr>, c1, None))"

partial_function (option) bio_Write ::
    "'c writer \<Rightarrow> bufio \<Rightarrow> 'c \<Rightarrow> bytes \<Rightarrow> nat \<Rightarrow> (bufio \<times> 'c \<times> nat \<times> frame_error option) option" where
  "bio_Write wr b c p nn =
     (if length p > bio_Available b \<and> bio_err b = None then
        if bio_buf b = [] then
          let (c1, n, e) = wr c p in bio_Write wr (b\<lparr>bio_err := e\<rparr>) c1 (drop n p) (nn + n)
        else
          let n = bio_Available b;
              (b1, c1, e) = bio_Flush wr (b\<lparr>bio_buf := bio_buf b @ take n p\<rparr>) c
          in bio_Write wr b1 c1 (drop n p) (nn + n)
      else if bio_err b \<noteq> None then Some (b, c, nn, bio_err b)
      else Some (b\<lparr>bio_buf := bio_buf b @ p\<rparr>, c, nn + length p, None))"

record 'c bufferedWriter =
  bd_w :: 'c
  bd_bw :: "bufio option"

definition newBufferedWriter :: "'c \<Rightarrow> 'c bufferedWriter" where
  "newBufferedWriter c = \<lparr>bd_w = c, bd_bw = None\<rparr>"

definition bd_Available :: "'c bufferedWriter \<Rightarrow> nat" where
  "bd_Available w = (case bd_bw w of None \<Rightarrow> bufWriterPoolBufferSize | Some b \<Rightarrow> bio_Available b)"

definition bd_Write :: "'c writer \<Rightarrow> 'c bufferedWriter writer" where
  "bd_Write wr w p =
     (let b = (case bd_bw w of None \<Rightarrow> bio_Reset | Some b \<Rightarrow> b)
      in case bio_Write wr b (bd_w w) p 0 of
           Some (b1, c1, n, e) \<Rightarrow> (\<lparr>bd_w = c1, bd_bw = Some b1\<rparr>, n, e)
         | None \<Rightarrow> (w, 0, Some NoReturn))"

definition bd_Flush :: "'c writer \<Rightarrow> 'c bufferedWriter \<Rightarrow> 'c bufferedWriter \<times> frame_error option" where
  "bd_Flush wr w =
     (case bd_bw w of
        None \<Rightarrow> (w, None)
      | Some b \<Rightarrow> (let (b1, c1, e) = bio_Flush wr b (bd_w w) in (\<lparr>bd_w = c1, bd_bw = None\<rparr>, e)))"

section \<open>The sorter\<close>

record sorter = sorter_v :: "string list"

text \<open>\<open>ord\<close>: the order in which Go iterates over the header. Strings are compared byte by byte.\<close>

definition sorter_Keys :: "(string list \<Rightarrow> string list) \<Rightarrow> http_header \<Rightarrow> sorter \<Rightarrow> sorter \<times> string list" where
  "sorter_Keys ord h s = (let keys = sort (ord (map fst h)) in (s\<lparr>sorter_v := keys\<rparr>, keys))"

definition SortStrings :: "string list \<Rightarrow> sorter \<Rightarrow> sorter \<times> string list" where
  "SortStrings ss s = (let save = sorter_v s; s1 = s\<lparr>sorter_v := sort ss\<rparr> in (s1\<lparr>sorter_v := save\<rparr>, sorter_v s1))"

section \<open>What they do\<close>

text \<open>The shortcut for frequent codes is what the general conversion gives.\<close>

lemma httpCodeString_Itoa: "httpCodeString code = Itoa code"
proof -
  have "Itoa 200 = ''200''" "Itoa 404 = ''404''" by (simp_all add: Itoa_def FormatInt.simps digit_def char_of_def bit_simps)
  then show ?thesis by (simp add: httpCodeString_def)
qed

lemma closed_once: "cw_Close cw = Inr cw' \<Longrightarrow> cw_WaitReturns cw' \<and> \<not> cw_WaitReturns cw \<and> (\<exists>e. cw_Close cw' = Inl e)"
  by (cases cw) auto

text \<open>The keys of a header do not depend on the order of the iteration.\<close>

lemma sorter_Keys_sorted:
  assumes "mset (ord (map fst h)) = mset (map fst h)"
  shows "snd (sorter_Keys ord h s) = sort (map fst h)" "sorted (snd (sorter_Keys ord h s))"
proof -
  show "snd (sorter_Keys ord h s) = sort (map fst h)"
    using assms properties_for_sort [of "sort (ord (map fst h))" "map fst h"] by (simp add: sorter_Keys_def Let_def)
  show "sorted (snd (sorter_Keys ord h s))" by (simp add: sorter_Keys_def Let_def)
qed

lemma SortStrings_keeps: "SortStrings ss s = (s, sort ss)"
  by (simp add: SortStrings_def Let_def)

text \<open>The buffered writer keeps the contract of its connection.\<close>

definition bd_good :: "('c \<Rightarrow> bool) \<Rightarrow> 'c bufferedWriter \<Rightarrow> bool" where
  "bd_good cgood w \<longleftrightarrow> cgood (bd_w w) \<and> (case bd_bw w of None \<Rightarrow> True | Some b \<Rightarrow> bio_err b = None \<and> length (bio_buf b) \<le> bufWriterPoolBufferSize)"

definition bd_written :: "('c \<Rightarrow> bytes) \<Rightarrow> 'c bufferedWriter \<Rightarrow> bytes" where
  "bd_written cwritten w = cwritten (bd_w w) @ (case bd_bw w of None \<Rightarrow> [] | Some b \<Rightarrow> bio_buf b)"

context byte_writer
begin

lemma bio_Flush_ok:
  assumes "good c" "bio_err b = None"
  shows "\<exists>c1. bio_Flush wr b c = (b\<lparr>bio_buf := []\<rparr>, c1, None) \<and> good c1 \<and> written c1 = written c @ bio_buf b"
proof (cases "bio_buf b = []")
  case True
  then show ?thesis using assms by (cases b) (auto simp: bio_Flush_def)
next
  case False
  obtain c1 where "wr c (bio_buf b) = (c1, length (bio_buf b), None)" "good c1" "written c1 = written c @ bio_buf b"
    using write_cases [OF assms(1)] .
  then show ?thesis using False assms by (auto simp: bio_Flush_def)
qed

lemma bio_Write_empty:
  assumes "good c"
  shows "\<exists>b1 c1. bio_Write wr bio_Reset c p nn = Some (b1, c1, nn + length p, None) \<and> good c1 \<and> bio_err b1 = None \<and>
    length (bio_buf b1) \<le> bufWriterPoolBufferSize \<and> written c1 @ bio_buf b1 = written c @ p"
proof -
  obtain c1 where "wr c p = (c1, length p, None)" "good c1" "written c1 = written c @ p" using write_cases [OF assms] .
  then show ?thesis using assms
    by (subst bio_Write.simps) (auto simp: bio_Reset_def bio_Available_def bio_Write.simps)
qed

lemma bio_Write_ok:
  assumes "good c" "bio_err b = None" "length (bio_buf b) \<le> bufWriterPoolBufferSize"
  shows "\<exists>b1 c1. bio_Write wr b c p nn = Some (b1, c1, nn + length p, None) \<and> good c1 \<and> bio_err b1 = None \<and>
    length (bio_buf b1) \<le> bufWriterPoolBufferSize \<and> written c1 @ bio_buf b1 = written c @ bio_buf b @ p"
proof (cases "bio_buf b = []")
  case True
  then have "b = bio_Reset" using assms(2) by (cases b) (simp add: bio_Reset_def)
  then show ?thesis using bio_Write_empty [OF assms(1)] True by simp
next
  case nonempty: False
  show ?thesis
  proof (cases "length p > bio_Available b")
    case True
    let ?n = "bio_Available b" and ?b = "b\<lparr>bio_buf := bio_buf b @ take (bio_Available b) p\<rparr>"
    obtain c1 where c1: "bio_Flush wr ?b c = (?b\<lparr>bio_buf := []\<rparr>, c1, None)" "good c1" "written c1 = written c @ bio_buf b @ take ?n p"
      using bio_Flush_ok [OF assms(1), of ?b] assms(2) by auto
    have "?b\<lparr>bio_buf := []\<rparr> = bio_Reset" using assms(2) by (cases b) (simp add: bio_Reset_def)
    then have "bio_Write wr b c p nn = bio_Write wr bio_Reset c1 (drop ?n p) (nn + ?n)"
      using c1(1) True nonempty assms(2) by (subst bio_Write.simps) (simp add: Let_def)
    with bio_Write_empty [OF c1(2), of "drop ?n p" "nn + ?n"] c1(3) True show ?thesis by auto
  next
    case False
    then show ?thesis using assms by (subst bio_Write.simps) (auto simp: bio_Available_def)
  qed
qed

lemma lazily_buffered: "byte_writer (bd_Write wr) (bd_good good) (bd_written written)"
proof -
  have step: "\<exists>w1. bd_Write wr w p = (w1, length p, None) \<and> bd_good good w1 \<and> bd_written written w1 = bd_written written w @ p" if "bd_good good w" for w p
  proof -
    let ?b = "case bd_bw w of None \<Rightarrow> bio_Reset | Some b \<Rightarrow> b"
    have "good (bd_w w)" "bio_err ?b = None" "length (bio_buf ?b) \<le> bufWriterPoolBufferSize" "bd_written written w = written (bd_w w) @ bio_buf ?b"
      using that by (auto simp: bd_good_def bd_written_def bio_Reset_def split: option.splits)
    with bio_Write_ok [of "bd_w w" ?b p 0] show ?thesis by (auto simp: bd_Write_def bd_good_def bd_written_def Let_def)
  qed
  show ?thesis by unfold_locales (metis step fst_conv)+
qed

lemma bd_Flush_ok:
  assumes "bd_good good w"
  shows "\<exists>w1. bd_Flush wr w = (w1, None) \<and> bd_bw w1 = None \<and> good (bd_w w1) \<and> written (bd_w w1) = bd_written written w"
proof (cases "bd_bw w")
  case None
  then show ?thesis using assms by (auto simp: bd_Flush_def bd_good_def bd_written_def)
next
  case (Some b)
  then show ?thesis using bio_Flush_ok [of "bd_w w" b] assms by (auto simp: bd_Flush_def bd_good_def bd_written_def)
qed

end

interpretation lazy_pipe: byte_writer "bd_Write pipeWrite" "bd_good (\<lambda>c. True)" "bd_written (\<lambda>c. c)"
  by (rule pipe.lazily_buffered)

text \<open>Frames that are written through the buffered writer reach the connection, complete and in order, when it is flushed.\<close>

lemma frames_through_bufferedWriter:
  assumes "list_all op_legal ops"
  shows "\<exists>f w. performAll (bd_Write pipeWrite) ops (NewFramer (newBufferedWriter []) r) = (f, None) \<and> bd_Flush pipeWrite (fr_w f) = (w, None) \<and>
    bd_w w = concat (map op_bytes ops)"
proof -
  let ?f = "NewFramer (newBufferedWriter ([] :: bytes)) r"
  have "fr_w ?f = newBufferedWriter []" by (simp add: NewFramer_def SetMaxReadFrameSize_def)
  then have "bd_good (\<lambda>c. True) (fr_w ?f)" "bd_written (\<lambda>c. c) (fr_w ?f) = []" by (simp_all add: newBufferedWriter_def bd_good_def bd_written_def)
  with lazy_pipe.performAll_ok [of ?f ops] assms obtain f where "performAll (bd_Write pipeWrite) ops ?f = (f, None)" "bd_good (\<lambda>c. True) (fr_w f)"
    "bd_written (\<lambda>c. c) (fr_w f) = concat (map op_bytes ops)" by auto
  then show ?thesis using pipe.bd_Flush_ok [of "fr_w f"] by auto
qed

text \<open>An error of a flush is not kept: the bytes are dropped, and the next write starts with an empty buffer and no error.\<close>

lemma flush_error_forgotten:
  assumes "bd_Flush wr w = (w1, Some e)" "length p \<le> bufWriterPoolBufferSize"
  shows "bd_Write wr w1 p = (\<lparr>bd_w = bd_w w1, bd_bw = Some \<lparr>bio_buf = p, bio_err = None\<rparr>\<rparr>, length p, None)"
proof -
  have "bd_bw w1 = None" using assms(1) by (auto simp: bd_Flush_def split: option.splits prod.splits)
  then show ?thesis using assms(2) by (simp add: bd_Write_def bio_Write.simps bio_Reset_def bio_Available_def)
qed

end
