(* ===== verification/Client_Calls.thy ===== *)
theory Client_Calls
  imports Transport_Rules Stream_Access
begin

text \<open>
  The calls of a client (\<^verbatim>\<open>h2/hbone.go\<close>): sending a request, and waiting for the headers of the answer.
\<close>

section \<open>Dial and RoundTrip\<close>

text \<open>\<^verbatim>\<open>NewStreamReq\<close> makes a stream without a callback; \<open>timeout\<close> and \<open>ord\<close> are those of \<^verbatim>\<open>CreateHeader\<close>.\<close>

definition Dial :: "(http_header \<Rightarrow> http_header) \<Rightarrow> Duration option \<Rightarrow> Request \<Rightarrow> H2Transport \<Rightarrow> H2Transport \<times> (fault + dial_result)" where
  "Dial ord timeout r t = DialStream False (CreateHeader ord timeout r) t"

text \<open>A call that has not returned waits for quota, or for one of the cases of \<^verbatim>\<open>WaitHeaders\<close>.\<close>

datatype round_trip = RtQuota nat | RtHeaders | RtError dial_error | RtFault fault | RtResponse

definition RoundTrip ::
    "(http_header \<Rightarrow> http_header) \<Rightarrow> Duration option \<Rightarrow> wait_case \<Rightarrow> Request \<Rightarrow> H2Transport \<Rightarrow> H2Transport \<times> round_trip" where
  "RoundTrip ord timeout c r t =
     (case Dial ord timeout r t of
        (t1, Inl f) \<Rightarrow> (t1, RtFault f)
      | (t1, Inr (DialError e)) \<Rightarrow> (t1, RtError e)
      | (t1, Inr (DialWait n)) \<Rightarrow> (t1, RtQuota n)
      | (t1, Inr DialQueued) \<Rightarrow>
          (case WaitHeaders c (t_fresh t) t1 of
             None \<Rightarrow> (t1, RtHeaders)
           | Some (t2, Some f) \<Rightarrow> (t2, RtFault f)
           | Some (t2, None) \<Rightarrow> (t2, RtResponse)))"

text \<open>
  On a working client connection with quota, \<^verbatim>\<open>RoundTrip\<close> queues one header frame, with the fields of the request and the next
  identifier, and then waits; if the context is over it returns, and the stream is reset.
\<close>

lemma round_trip_sends:
  assumes "open_transport t" "t_side t = clientSide" "t_streamQuota t > 0" "checkForHeaderListSize (CreateHeader ord timeout r) t"
  shows "\<exists>t' h. RoundTrip ord timeout OnHeaders r t = (t', RtHeaders) \<and> queued t' = queued t @ [HeaderItem h] \<and> h_streamID h = t_nextID t \<and>
    h_hf h = CreateHeader ord timeout r \<and> t_streamQuota t' = t_streamQuota t - 1"
proof -
  let ?flds = "CreateHeader ord timeout r"
  obtain t1 h where t1: "DialStream False ?flds t = (t1, Inr DialQueued)" "queued t1 = queued t @ [HeaderItem h]" "h_streamID h = t_nextID t" "h_hf h = ?flds"
    "t_streamQuota t1 = t_streamQuota t - 1" using DialStream_client(2) [OF assms(1-3), of False ?flds] assms(4) by auto
  have "headerChan (t_streams t1 (t_fresh t))" "\<not> headerChanClosed (t_streams t1 (t_fresh t))"
    using t1(1) assms(2,3)
    by (auto simp: DialStream_def writeRequestHeaders_def t_execPut_def executeAndPut_def checkRequest_def checkForStreamQuota_def takeID_def dialed_def
        updateHeaderSent_def set_stream_def t_call_def dialedStream_def IsServer_def Let_def split: if_splits option.splits prod.splits sum.splits bool.splits dial_result.splits)
  then show ?thesis using t1 by (auto simp: RoundTrip_def Dial_def WaitHeaders_def)
qed

section \<open>The window of the connection\<close>

text \<open>\<^verbatim>\<open>getOutFlowWindow\<close> asks the writer; what the \<^verbatim>\<open>select\<close> finds first is an argument.\<close>

datatype window_case = WindowAnswer u32 | WindowDone | WindowTimer

definition getOutFlowWindow :: "window_case \<Rightarrow> H2Transport \<Rightarrow> H2Transport \<times> (fault + int)" where
  "getOutFlowWindow c t =
     (case t_put OutFlowControlSizeRequest t of
        (t1, Some f) \<Rightarrow> (t1, Inl f)
      | (t1, None) \<Rightarrow> (t1, Inr (case c of WindowAnswer sz \<Rightarrow> int (unat sz) | WindowDone \<Rightarrow> - 1 | WindowTimer \<Rightarrow> - 2)))"

end
