(* ===== verification/Spec2Isabelle.thy ===== *)
theory Spec2Isabelle
  imports Frame_Rules Loopy_Limits Requests Event_Hooks Stream_Rules Ping_Policy Server_Invariant Keepalive Client_Invariant Frame_Size Mesh_Rules
    Frame_Util Client_Calls
begin

text \<open>
  A verification development for \<^verbatim>\<open>hbone\<close>, an HTTP/2 stack in Go for tunnels of a service mesh. The paths below are relative to
  \<^verbatim>\<open>src/\<close>.

  \<^bold>\<open>The program.\<close> A connection has two goroutines. The reader takes frames from the network (\<^verbatim>\<open>h2/frame\<close>), which decodes header
  blocks (\<^verbatim>\<open>h2/hpack\<close>), and runs a handler for each frame (\<^verbatim>\<open>h2/h2_connection.go\<close>, \<^verbatim>\<open>h2/h2_connection_server.go\<close>). Handlers and
  the application (\<^verbatim>\<open>h2/stream.go\<close>, \<^verbatim>\<open>h2/hbone.go\<close>) put items into the control buffer (\<^verbatim>\<open>h2/controlbuf.go\<close>); the writer, loopy,
  is the only goroutine that takes items out and writes frames, through a buffer (\<^verbatim>\<open>h2/http_util.go\<close>), within the windows of the peer.
  Flow control (\<^verbatim>\<open>h2/flowcontrol.go\<close>) accounts for received data and makes writers wait. A third goroutine sends pings and gives up
  peers that do not answer. On top of this \<^verbatim>\<open>ugate/h2transport.go\<close> keeps connections to other hosts and serves accepted streams.

  \<^bold>\<open>The theories.\<close> \<open>H2_Prelude\<close> has the shared vocabulary: Go's integers as words, bytes and strings, errors as sums.

  \<^item> HPACK. \<open>Hpack_Varint\<close>: integers. \<open>Huffman_Model\<close>, with the proofs of \<open>Bit_Lists\<close>, \<open>Huffman_Bits\<close>, \<open>Huffman_Tree\<close> and
  \<open>Huffman_Proofs\<close>: the code table, encoder and decoding tree; the decoder returns on every input and accepts exactly the encodings.
  \<open>Hpack_Table\<close>: static and dynamic table with search and eviction. \<open>Hpack_Encoder\<close>, \<open>Hpack_Decoder\<close>: \<^verbatim>\<open>WriteField\<close>, \<^verbatim>\<open>Write\<close> and all they
  call, one definition per Go function. \<open>Hpack_Stream\<close>: the decoder does not depend on how its input is cut, and never panics.
  \<open>Hpack_Codec\<close>: a session of fields and size changes is decoded to the same fields, with equal tables on both sides.

  \<^item> Frames. \<open>Frame_Types\<close>, \<open>Frame_Parse\<close>, \<open>Framer\<close>: types, flags, errors, settings, the parser of every frame type, writing
  and reading, and \<^verbatim>\<open>readMetaFrame\<close>. \<open>Buf_Writer\<close>: the buffer under the framer. \<open>Frame_Round_Trip\<close>: written frames are read as they are.
  \<open>Meta_Headers\<close>, \<open>Frame_Rules\<close>: reading never panics, the order of frames refines an automaton, header lists are well formed.
  \<open>Frame_Util\<close>: the helpers of \<^verbatim>\<open>h2/frame/http2.go\<close>.

  \<^item> The writer. \<open>Item_List\<close>, \<open>Control_Buffer\<close>, \<open>Out_Streams\<close>: the queue, with its mutex and wake-up channel, and the linked list of
  active streams, both in an explicit store. \<open>Bdp\<close>: the estimator of the bandwidth-delay product. \<open>Loopy\<close>: every handler of the
  writer and \<^verbatim>\<open>processData\<close>. \<open>Loopy_Streams\<close>, \<open>Loopy_Wire\<close>, \<open>Loopy_Safety\<close>, \<open>Loopy_Flow\<close>, \<open>Loopy_Limits\<close>: its invariant, what it
  writes, that it never panics on what the connection queues, and that data is sent in order within the windows.

  \<^item> Flow control and values. \<open>Flow_Control\<close>: \<^verbatim>\<open>writeQuota\<close>, \<^verbatim>\<open>trInFlow\<close>, \<^verbatim>\<open>inFlow\<close>, with the peer's view of the window as the
  specification. \<open>Go_Strings\<close>, \<open>Grpc_Util\<close>: timeouts, messages, metadata, status codes. \<open>Event_Hooks\<close>: \<^verbatim>\<open>h2/events.go\<close>. \<open>Requests\<close>:
  \<^verbatim>\<open>CreateHeader\<close> and the fields that \<^verbatim>\<open>operateAcceptHeaders\<close> reads.

  \<^item> The connection. \<open>Transport\<close>: the records \<open>H2Transport\<close> and \<open>H2Stream\<close>, closing streams and the connection. \<open>Transport_Reader\<close>:
  \<^verbatim>\<open>HandleStreams\<close> and its handlers. \<open>Connections\<close>: new connections, opening streams, the frames of a client. \<open>Handshake\<close>: \<^verbatim>\<open>StartConn\<close>
  and \<^verbatim>\<open>NewServerConnection\<close> through framer and buffer. \<open>Stream_Ops\<close>, \<open>Stream_Access\<close>, \<open>Client_Calls\<close>: the methods of streams, \<^verbatim>\<open>Dial\<close> and
  \<^verbatim>\<open>RoundTrip\<close>. \<open>Keepalive\<close>: both keepalive goroutines, one step for each timer that fires. \<open>Mesh\<close>: the connection pool of \<^verbatim>\<open>ugate\<close> with
  the goroutines that share it, accepted streams, the redial loop.

  \<^item> Properties of the connection. \<open>Transport_Rules\<close>, \<open>Server_Rules\<close>, \<open>Stream_Rules\<close>, \<open>Ping_Policy\<close>, \<open>Frame_Size\<close>, \<open>Mesh_Rules\<close>:
  operations put together, on both sides of a connection. \<open>Handler_Frame\<close>, \<open>Server_Invariant\<close>, \<open>Client_Invariant\<close>: invariants of all
  reachable states, of the streams of a server and of the quota of a client.

  \<^bold>\<open>State and operations.\<close> A Go struct is a record, a pointer an address in a store or an index, a map an association list or a
  function, a channel its contents. Every method is a function that returns the new state; an error is a value of an error type; a panic
  and a goroutine that blocks for ever are values of type \<open>fault\<close>. Calls out of the model, of callbacks and event handlers, are
  recorded in \<open>t_trace\<close> and \<open>l_calls\<close>. Arguments stand for what is decided elsewhere: the writer of the network (\<open>'w writer\<close>), the
  order in which Go iterates over a map (\<open>ord\<close>), the clock, the operations on floating-point numbers, the buffers of package \<^verbatim>\<open>nio\<close>, the
  result of a dial or of a TLS handshake.

  \<^bold>\<open>Concurrency.\<close> The control buffer, the write quota and the connection pool have their own step relations at the level of single
  accesses to shared data, with any number of goroutines. For the connection, a handler is one step: the mutexes of the code serialise
  handlers, and the mutex of the control buffer is part of the state, so that taking it twice is a fault. Reachable states of a
  connection are those after any sequence of steps of reader, application, writer callbacks and close.

  \<^bold>\<open>Interfaces.\<close> The framing proofs use the contract \<open>byte_writer\<close>, of which a pipe, the buffer of \<^verbatim>\<open>http_util.go\<close> and the buffered
  writer of \<^verbatim>\<open>http2.go\<close> are instances, and its weakening \<open>calm_writer\<close> for a network that may fail. \<open>field_table\<close> and \<open>two_tables\<close> are the search
  of HPACK over the static and the dynamic table; \<open>item_queue\<close> and \<open>stream_list\<close> the contracts of the two linked lists;
  \<open>receive_window\<close> the contract between the sender of data and the flow control, for connections and for streams; \<open>handlers\<close> what every
  handler of a connection keeps, instantiated for servers and for clients.

  \<^bold>\<open>Termination and bounds.\<close> Loops that may not end are partial functions: the write loop of the buffer, which does not end on a
  failed connection, and the loops over fragments; theorems that a call returns are stated as such. Walking a linked list has as fuel the
  number of nodes ever allocated, which the invariant shows to be enough; the time until keepalive gives up has a fuel that is shown to
  suffice. Sizes have the width of the code where they can wrap: HPACK integers, table sizes and windows are words; theorems state the
  bounds they need, for example fewer than 2^20 fields in a session or windows below 2^31.

  \<^bold>\<open>What modelling showed.\<close> The codec, the framing layer, the control buffer, the quotas and the writer do what they mean to do. The
  connection above them has defects, which theorems exhibit: four frames of a peer block the reader of a server; a reused stream identifier
  crashes it; a response with trailers crashes the writer; closing a connection with a queued request deadlocks; the announced window and
  the frame size of the peer are ignored; streams of the peer enlarge the quota of a client; a connection of the pool that is closed
  leaves a blocked goroutine, or stays in the pool.

  \<^bold>\<open>Not modelled.\<close> Network input and output and TLS; starting goroutines (each is a set of steps); contexts other than their end;
  statistics, logging, tracing and the strings of debug output; accessors of streams for addresses, headers and deadlines, and the
  constructors of requests, which only rearrange values of \<^verbatim>\<open>net/http\<close> and \<^verbatim>\<open>net/url\<close>; \<^verbatim>\<open>parseDialTarget\<close>, which rests on URL parsing;
  \<^verbatim>\<open>h2/web_transport.go\<close>, an empty type; \<^verbatim>\<open>h2/testing.go\<close>, servers for tests; \<^verbatim>\<open>ugate/setup.go\<close>, which registers the transport.
\<close>

end
